(* ===== verification/Krpc_Prelude.thy ===== *)
theory Krpc_Prelude
  imports Main "HOL-Library.Word" "HOL-Library.AList" "HOL-Library.Multiset"
begin

section \<open>Prelude: machine types, C++ strings, hash maps, time\<close>

text \<open>
  Shared vocabulary of the development.
  \<^item> A \<open>std::string\<close> is a list of \<open>char\<close>, which in HOL is exactly one byte, so the same
    type serves text (configuration, endpoint keys) and wire bytes (frames).
  \<^item> \<open>uint16_t\<close>, \<open>uint32_t\<close>, \<open>uint64_t\<close> and \<open>size_t\<close> counters are words of that width.
  \<^item> \<open>std::unordered_map\<close> is an association list with distinct keys; the list order stands
    for the unspecified iteration order, and every lemma holds for every order.
  \<^item> \<open>std::chrono::steady_clock\<close> time points are nanoseconds (\<open>int\<close>).
  The second half gives the string functions of the C++ library that the code calls
  (\<open>find\<close>, \<open>substr\<close>, \<open>find_first_not_of\<close>, \<open>to_string\<close>, \<open>strtol\<close>, \<open>stoi\<close>).
\<close>

type_synonym u16 = "16 word"
type_synonym u32 = "32 word"
type_synonym u64 = "64 word"
type_synonym nanos = int
type_synonym fd = int

declare map_of_eq_Some_iff [simp del]

lemma unat_bounds: "unat (p :: u16) < 65536" "unat (v :: u32) < 4294967296"
    "unat (w :: u64) < 18446744073709551616"
  using unsigned_less[of p] unsigned_less[of v] unsigned_less[of w] by simp_all

named_theorems krpc_defs \<open>definitions unfolded together by the component proofs\<close>

subsection \<open>Time\<close>

definition milliseconds :: "int \<Rightarrow> nanos" where
  "milliseconds n = n * 1000000"

text \<open>\<open>duration_cast<milliseconds>\<close> truncates towards zero.\<close>

definition duration_cast_ms :: "nanos \<Rightarrow> int" where
  "duration_cast_ms d = (if d < 0 then - ((- d) div 1000000) else d div 1000000)"

lemma milliseconds_mono: "a \<le> b \<Longrightarrow> milliseconds a \<le> milliseconds b"
  by (simp add: milliseconds_def)

lemma milliseconds_simps [simp]:
  "milliseconds 0 = 0" "(milliseconds a \<le> milliseconds b) = (a \<le> b)"
  "(milliseconds a < milliseconds b) = (a < b)"
  "(0 < milliseconds a) = (0 < a)" "(0 \<le> milliseconds a) = (0 \<le> a)"
  by (auto simp: milliseconds_def)

lemma duration_cast_ms_milliseconds [simp]: "duration_cast_ms (milliseconds n) = n"
  by (auto simp: duration_cast_ms_def milliseconds_def)

lemma duration_cast_ms_nonneg: "0 \<le> d \<Longrightarrow> 0 \<le> duration_cast_ms d"
  by (auto simp: duration_cast_ms_def)

subsection \<open>Hash maps\<close>

text \<open>\<open>emplace\<close> and \<open>insert\<close> keep the old value when the key is present; \<open>m[k] = v\<close> is
  \<^const>\<open>AList.update\<close> and \<open>erase\<close> is \<^const>\<open>AList.delete\<close>.\<close>

definition emplace :: "'k \<Rightarrow> 'v \<Rightarrow> ('k \<times> 'v) list \<Rightarrow> ('k \<times> 'v) list" where
  "emplace k v m = (if map_of m k = None then m @ [(k, v)] else m)"

abbreviation wf_map :: "('k \<times> 'v) list \<Rightarrow> bool" where
  "wf_map m \<equiv> distinct (map fst m)"

lemma map_of_emplace:
  "map_of (emplace k v m) = (if map_of m k = None then (map_of m)(k \<mapsto> v) else map_of m)"
  by (auto simp: emplace_def fun_eq_iff map_add_def split: option.splits)

lemma map_of_emplace_other [simp]: "k \<noteq> j \<Longrightarrow> map_of (emplace k v m) j = map_of m j"
  by (simp add: map_of_emplace)

lemma map_of_emplace_same [simp]:
  "map_of (emplace k v m) k = (case map_of m k of None \<Rightarrow> Some v | Some w \<Rightarrow> Some w)"
  by (auto simp: map_of_emplace split: option.splits)

lemma wf_map_emplace [simp]: "wf_map m \<Longrightarrow> wf_map (emplace k v m)"
  by (auto simp: emplace_def map_of_eq_None_iff)

lemma wf_map_update [simp]: "wf_map m \<Longrightarrow> wf_map (AList.update k v m)"
  by (rule distinct_update)

lemma wf_map_delete [simp]: "wf_map m \<Longrightarrow> wf_map (AList.delete k m)"
  by (rule distinct_delete)

lemma keys_delete [simp]: "fst ` set (AList.delete k m) = fst ` set m - {k}"
  by (induction m) auto

lemma keys_update: "fst ` set (AList.update k v m) = insert k (fst ` set m)"
  using dom_update[of k v m] by (simp add: image_image dom_map_of_conv_image_fst)

lemma update_new_key: "k \<notin> fst ` set m \<Longrightarrow> AList.update k v m = m @ [(k, v)]"
  by (induction m) auto

lemma map_of_delete_other [simp]: "k \<noteq> j \<Longrightarrow> map_of (AList.delete k m) j = map_of m j"
  by (simp add: AList.delete_conv')

lemma map_of_delete_same [simp]: "map_of (AList.delete k m) k = None"
  by (simp add: AList.delete_conv')

lemma map_of_SomeD_key: "map_of m k = Some v \<Longrightarrow> k \<in> fst ` set m"
  by (metis domI dom_map_of_conv_image_fst)

lemma in_set_wf_map: "wf_map m \<Longrightarrow> (k, v) \<in> set m \<longleftrightarrow> map_of m k = Some v"
  by (auto dest: map_of_SomeD)

lemma wf_map_filter: "wf_map m \<Longrightarrow> wf_map (filter P m)"
  by (rule distinct_map_filter)

lemma map_of_filter_wf:
  "wf_map m \<Longrightarrow> map_of (filter (\<lambda>e. P (fst e) (snd e)) m) k =
     (case map_of m k of None \<Rightarrow> None | Some v \<Rightarrow> if P k v then Some v else None)"
  by (induction m) (auto split: option.splits simp: map_of_eq_None_iff dest: map_of_SomeD_key)

subsection \<open>C++ string functions\<close>

text \<open>\<open>s.find(c, start)\<close>; \<open>npos\<close> is \<open>None\<close>.\<close>

fun find_from :: "nat \<Rightarrow> string \<Rightarrow> char \<Rightarrow> nat option" where
  "find_from i [] c = None"
| "find_from i (x # xs) c = (if x = c then Some i else find_from (Suc i) xs c)"

definition str_find :: "string \<Rightarrow> char \<Rightarrow> nat \<Rightarrow> nat option" where
  "str_find s c start = find_from start (drop start s) c"

definition substr :: "string \<Rightarrow> nat \<Rightarrow> nat \<Rightarrow> string" where
  "substr s pos n = take n (drop pos s)"

lemma find_from_Some:
  "find_from i xs c = Some j \<Longrightarrow>
     i \<le> j \<and> j < i + length xs \<and> xs ! (j - i) = c \<and> c \<notin> set (take (j - i) xs)"
proof (induction i xs c arbitrary: j rule: find_from.induct)
  case (2 i x xs c)
  show ?case
  proof (cases "x = c")
    case True
    with "2.prems" show ?thesis by simp
  next
    case False
    with "2.prems" have "find_from (Suc i) xs c = Some j" by simp
    from "2.IH"[OF False this] False show ?thesis
      by (auto simp: nth_Cons' take_Cons' Suc_diff_le)
  qed
qed simp

lemma find_from_None: "find_from i xs c = None \<longleftrightarrow> c \<notin> set xs"
  by (induction i xs c rule: find_from.induct) auto

lemma find_from_append:
  "c \<notin> set xs \<Longrightarrow> find_from i (xs @ c # ys) c = Some (i + length xs)"
  by (induction xs arbitrary: i) auto

lemma str_find_None: "str_find s c 0 = None \<longleftrightarrow> c \<notin> set s"
  by (simp add: str_find_def find_from_None)

lemma str_find_append [simp]:
  "c \<notin> set xs \<Longrightarrow> str_find (xs @ c # ys) c 0 = Some (length xs)"
  by (simp add: str_find_def find_from_append)

lemma str_find_split:
  assumes "str_find s c 0 = Some i"
  shows "s = take i s @ c # drop (Suc i) s" and "c \<notin> set (take i s)" and "i < length s"
proof -
  from assms have f: "i < length s" "s ! i = c" "c \<notin> set (take i s)"
    by (auto simp: str_find_def dest: find_from_Some)
  then show "s = take i s @ c # drop (Suc i) s" by (metis id_take_nth_drop)
  from f show "c \<notin> set (take i s)" "i < length s" by auto
qed

text \<open>The prefix of a buffer up to its first NUL: what \<open>std::string(const char *)\<close> copies.\<close>

definition c_str :: "string \<Rightarrow> string" where
  "c_str s = takeWhile (\<lambda>c. c \<noteq> CHR 0x00) s"

lemma c_str_id: "CHR 0x00 \<notin> set s \<Longrightarrow> c_str s = s"
  by (auto simp: c_str_def takeWhile_eq_all_conv)

subsection \<open>Decimal numbers: \<open>to_string\<close>, \<open>strtol\<close>, \<open>stoi\<close>\<close>

definition digit_char :: "nat \<Rightarrow> char" where
  "digit_char d = char_of (48 + d)"

definition is_digit :: "char \<Rightarrow> bool" where
  "is_digit c \<longleftrightarrow> 48 \<le> (of_char c :: nat) \<and> (of_char c :: nat) \<le> 57"

definition digit_val :: "char \<Rightarrow> nat" where
  "digit_val c = of_char c - 48"

fun nat_to_string :: "nat \<Rightarrow> string" where
  "nat_to_string n =
     (if n < 10 then [digit_char n] else nat_to_string (n div 10) @ [digit_char (n mod 10)])"

declare nat_to_string.simps [simp del]

definition int_to_string :: "int \<Rightarrow> string" where
  "int_to_string i =
     (if i < 0 then CHR ''-'' # nat_to_string (nat (- i)) else nat_to_string (nat i))"

text \<open>\<open>isspace\<close> in the C locale.\<close>

definition is_space :: "char \<Rightarrow> bool" where
  "is_space c \<longleftrightarrow> c = CHR '' '' \<or> (9 \<le> (of_char c :: nat) \<and> (of_char c :: nat) \<le> 13)"

definition digits_value :: "string \<Rightarrow> nat" where
  "digits_value ds = foldl (\<lambda>a c. a * 10 + digit_val c) 0 ds"

text \<open>The subject sequence of \<open>strtol(s, \<open>&\<close>end, 10)\<close>: white space, an optional sign, digits.
  \<open>None\<close> means that no digit was found (\<open>end == s\<close>).\<close>

definition strtol_parse :: "string \<Rightarrow> int option" where
  "strtol_parse s =
     (let t = dropWhile is_space s;
          neg = (t \<noteq> [] \<and> hd t = CHR ''-'');
          u = (if t \<noteq> [] \<and> (hd t = CHR ''-'' \<or> hd t = CHR ''+'') then tl t else t);
          ds = takeWhile is_digit u
      in if ds = [] then None
         else Some (if neg then - int (digits_value ds) else int (digits_value ds)))"

definition LONG_MAX :: int where "LONG_MAX = 2 ^ 63 - 1"
definition LONG_MIN :: int where "LONG_MIN = - (2 ^ 63)"
definition INT_MAX :: int where "INT_MAX = 2 ^ 31 - 1"
definition INT_MIN :: int where "INT_MIN = - (2 ^ 31)"

text \<open>\<open>static_cast<int>\<close> of a wider integer keeps the low 32 bits.\<close>

definition to_int32 :: "int \<Rightarrow> int" where
  "to_int32 i = sint (word_of_int i :: 32 word)"

definition strtol_value :: "string \<Rightarrow> int option" where
  "strtol_value s = map_option (\<lambda>v. max LONG_MIN (min LONG_MAX v)) (strtol_parse s)"

datatype stoi_error = Invalid_argument | Out_of_range

definition stoi :: "string \<Rightarrow> stoi_error + int" where
  "stoi s = (case strtol_parse s of None \<Rightarrow> Inl Invalid_argument
             | Some v \<Rightarrow> if v < INT_MIN \<or> INT_MAX < v then Inl Out_of_range else Inr v)"

text \<open>\<open>atoi\<close> yields 0 where no digit is found.\<close>

definition atoi :: "string \<Rightarrow> int" where
  "atoi s = (case strtol_value s of None \<Rightarrow> 0 | Some v \<Rightarrow> to_int32 v)"

lemma of_char_digit_char [simp]: "d < 10 \<Longrightarrow> (of_char (digit_char d) :: nat) = 48 + d"
  by (simp add: digit_char_def)

lemma is_digit_digit_char [simp]: "d < 10 \<Longrightarrow> is_digit (digit_char d)"
  by (simp add: is_digit_def)

lemma digit_val_digit_char [simp]: "d < 10 \<Longrightarrow> digit_val (digit_char d) = d"
  by (simp add: digit_val_def)

lemma nat_to_string_nonempty [simp]: "nat_to_string n \<noteq> []"
  by (subst nat_to_string.simps) simp

lemma nat_to_string_digits: "\<forall>c \<in> set (nat_to_string n). is_digit c"
proof (induction n rule: nat_to_string.induct)
  case (1 n)
  then show ?case by (subst nat_to_string.simps) auto
qed

lemma digits_value_snoc [simp]: "digits_value (ds @ [c]) = digits_value ds * 10 + digit_val c"
  by (simp add: digits_value_def)

lemma digits_value_nat_to_string [simp]: "digits_value (nat_to_string n) = n"
proof (induction n rule: nat_to_string.induct)
  case (1 n)
  show ?case
  proof (cases "n < 10")
    case True
    then show ?thesis by (subst nat_to_string.simps) (simp add: digits_value_def)
  next
    case False
    with "1.IH" show ?thesis by (subst nat_to_string.simps) simp
  qed
qed

lemma is_digit_facts:
  assumes "is_digit c"
  shows "\<not> is_space c" "c \<noteq> CHR ''-''" "c \<noteq> CHR ''+''" "c \<noteq> CHR '':''"
    "c \<noteq> CHR '',''" "c \<noteq> CHR '' ''" "c \<noteq> CHR 0x0A" "c \<noteq> CHR ''=''" "c \<noteq> CHR 0x00"
  using assms by (auto simp: is_digit_def is_space_def)

lemma nat_to_string_notin: "\<not> is_digit c \<Longrightarrow> c \<notin> set (nat_to_string n)"
  using nat_to_string_digits[of n] by auto

lemma not_is_digit [simp]:
  "\<not> is_digit CHR '':''" "\<not> is_digit CHR '',''" "\<not> is_digit CHR ''/''" "\<not> is_digit CHR '' ''"
  "\<not> is_digit CHR 0x00" "\<not> is_digit CHR 0x0A"
  by (simp_all add: is_digit_def)

lemma strtol_parse_nat_to_string [simp]: "strtol_parse (nat_to_string n) = Some (int n)"
proof -
  let ?s = "nat_to_string n"
  have "hd ?s \<in> set ?s" by simp
  then have c: "is_digit (hd ?s)" using nat_to_string_digits by blast
  have tw: "takeWhile is_digit ?s = ?s"
    using nat_to_string_digits by (simp add: takeWhile_eq_all_conv)
  have dw: "dropWhile is_space ?s = ?s"
    using c by (cases ?s) (auto simp: is_digit_facts)
  have sign: "(if ?s \<noteq> [] \<and> (hd ?s = CHR ''-'' \<or> hd ?s = CHR ''+'') then tl ?s else ?s) = ?s"
    using c by (simp add: is_digit_facts)
  show ?thesis
    unfolding strtol_parse_def Let_def dw sign tw using c by (simp add: is_digit_facts)
qed

lemma stoi_nat_to_string: "int n \<le> INT_MAX \<Longrightarrow> stoi (nat_to_string n) = Inr (int n)"
  by (auto simp: stoi_def INT_MIN_def)

lemma stoi_bounds: "stoi s = Inr v \<Longrightarrow> INT_MIN \<le> v \<and> v \<le> INT_MAX"
  by (auto simp: stoi_def split: option.splits if_splits)

end
