(* ===== verification/Krpc_Config.thy ===== *)
theory Krpc_Config
  imports Krpc_Prelude
begin

section \<open>Configuration, application start-up and call controllers\<close>

text \<open>
  The model of \<open>Krpcconfig.cc\<close> (the configuration file), \<open>Krpcapplication.cc\<close> (command
  line, start-up, singleton), \<open>Krpccontroller.cc\<close> (per-call status), the constants of
  \<open>Krpcprotocol.h\<close>, the one-time logging set-up of \<open>KrpcLogger.h\<close> and the integer parsing
  of configuration values. A process exit is the value \<open>Inl EXIT_FAILURE\<close>.
\<close>

datatype exit_code = EXIT_FAILURE

subsection \<open>Protocol constants\<close>

definition kDefaultMagic :: u32 where "kDefaultMagic = 0x6b727063"
definition kDefaultVersion :: u32 where "kDefaultVersion = 1"
definition kDefaultHeartbeatIntervalMs :: int where "kDefaultHeartbeatIntervalMs = 5000"
definition kDefaultHeartbeatMissLimit :: int where "kDefaultHeartbeatMissLimit = 3"
definition kDefaultRequestTimeoutMs :: int where "kDefaultRequestTimeoutMs = 3000"

subsection \<open>The configuration file\<close>

definition find_first_not_of :: "string \<Rightarrow> char \<Rightarrow> nat option" where
  "find_first_not_of s c =
     (let n = length (takeWhile (\<lambda>x. x = c) s) in if n < length s then Some n else None)"

definition find_last_not_of :: "string \<Rightarrow> char \<Rightarrow> nat option" where
  "find_last_not_of s c =
     (let t = dropWhile (\<lambda>x. x = c) (rev s) in if t = [] then None else Some (length t - 1))"

definition Trim :: "string \<Rightarrow> string" where
  "Trim s =
     (let s1 = (case find_first_not_of s CHR '' '' of
                  Some i \<Rightarrow> substr s i (length s - i) | None \<Rightarrow> s)
      in (case find_last_not_of s1 CHR '' '' of
            Some i \<Rightarrow> substr s1 0 (i + 1) | None \<Rightarrow> s1))"

text \<open>\<open>fgets(buf, 1024, f)\<close>: at most 1023 characters, up to and including a newline.\<close>

fun fgets :: "nat \<Rightarrow> string \<Rightarrow> string \<times> string" where
  "fgets 0 s = ([], s)"
| "fgets (Suc n) [] = ([], [])"
| "fgets (Suc n) (c # cs) =
     (if c = CHR 0x0A then ([c], cs) else (let (l, r) = fgets n cs in (c # l, r)))"

lemma fgets_length: "length (snd (fgets n s)) \<le> length s"
  by (induction n s rule: fgets.induct) (auto simp: Let_def split: prod.splits)

lemma fgets_shorter: "0 < n \<Longrightarrow> fgets n (c # cs) = (l, r) \<Longrightarrow> length r < Suc (length cs)"
  using fgets_length[of "n - 1" cs]
  by (cases n) (auto simp: Let_def split: prod.splits if_splits)

definition parse_line :: "string \<Rightarrow> (string \<times> string) option" where
  "parse_line buf =
     (let read_buf = Trim (c_str buf)
      in if read_buf = [] \<or> hd read_buf = CHR ''#'' then None
         else (case str_find read_buf CHR ''='' 0 of
                 None \<Rightarrow> None
               | Some index \<Rightarrow>
                   let key = Trim (substr read_buf 0 index);
                       value = Trim (case str_find read_buf CHR 0x0A index of
                                 Some endindex \<Rightarrow> substr read_buf (index + 1) (endindex - index - 1)
                               | None \<Rightarrow> substr read_buf (index + 1) (length read_buf))
                   in Some (key, value)))"

type_synonym config_map = "(string \<times> string) list"

function load_lines :: "config_map \<Rightarrow> string \<Rightarrow> config_map" where
  "load_lines m [] = m"
| "load_lines m (c # cs) =
     (let (buf, rest) = fgets 1023 (c # cs)
      in load_lines (case parse_line buf of None \<Rightarrow> m | Some (k, v) \<Rightarrow> emplace k v m) rest)"
  by pat_completeness auto
termination
  by (relation "measure (\<lambda>(m, s). length s)")
    (auto dest!: sym[of "(_, _)"] fgets_shorter[rotated])

text \<open>The file is its content, or \<open>None\<close> when \<open>fopen\<close> fails.\<close>

definition LoadConfigFile :: "config_map \<Rightarrow> string option \<Rightarrow> exit_code + config_map" where
  "LoadConfigFile m file =
     (case file of None \<Rightarrow> Inl EXIT_FAILURE | Some content \<Rightarrow> Inr (load_lines m content))"

definition Load :: "config_map \<Rightarrow> string \<Rightarrow> string" where
  "Load m key = (case map_of m key of None \<Rightarrow> [] | Some v \<Rightarrow> v)"

text \<open>What the parser does with the lines a configuration file is made of.\<close>

lemma dropWhile_takeWhile_id:
  "s \<noteq> [] \<Longrightarrow> hd s \<noteq> c \<Longrightarrow> takeWhile (\<lambda>x. x = c) s = []"
  by (cases s) auto

lemma Trim_id:
  assumes "s = [] \<or> (hd s \<noteq> CHR '' '' \<and> last s \<noteq> CHR '' '')"
  shows "Trim s = s"
proof (cases "s = []")
  case True
  then show ?thesis by (simp add: Trim_def find_first_not_of_def find_last_not_of_def)
next
  case False
  with assms have h: "hd s \<noteq> CHR '' ''" and l: "last s \<noteq> CHR '' ''" by auto
  from False h have 1: "find_first_not_of s CHR '' '' = Some 0"
    by (simp add: find_first_not_of_def dropWhile_takeWhile_id)
  from False l have "dropWhile (\<lambda>x. x = CHR '' '') (rev s) = rev s"
    by (cases s rule: rev_cases) auto
  with False have 2: "find_last_not_of s CHR '' '' = Some (length s - 1)"
    by (simp add: find_last_not_of_def)
  from False show ?thesis by (simp add: Trim_def 1 2 substr_def)
qed

text \<open>The lines of a file: settings, comments, and lines without \<open>=\<close>.\<close>

datatype config_line = Setting string string | Comment string | Blank string

definition plain :: "string \<Rightarrow> bool" where
  "plain s \<longleftrightarrow> CHR 0x0A \<notin> set s \<and> CHR 0x00 \<notin> set s \<and>
     (s = [] \<or> (hd s \<noteq> CHR '' '' \<and> last s \<noteq> CHR '' ''))"

fun config_line_ok :: "config_line \<Rightarrow> bool" where
  "config_line_ok (Setting k v) \<longleftrightarrow> plain k \<and> plain v \<and> k \<noteq> [] \<and> hd k \<noteq> CHR ''#''
     \<and> CHR ''='' \<notin> set k \<and> length k + length v < 1022"
| "config_line_ok (Comment s) \<longleftrightarrow> CHR 0x0A \<notin> set s \<and> CHR 0x00 \<notin> set s \<and> length s < 1022"
| "config_line_ok (Blank s) \<longleftrightarrow> plain s \<and> CHR ''='' \<notin> set s \<and> length s < 1023"

fun render_line :: "config_line \<Rightarrow> string" where
  "render_line (Setting k v) = k @ ''='' @ v @ [CHR 0x0A]"
| "render_line (Comment s) = ''#'' @ s @ [CHR 0x0A]"
| "render_line (Blank s) = s @ [CHR 0x0A]"

fun config_settings :: "config_line list \<Rightarrow> (string \<times> string) list" where
  "config_settings [] = []"
| "config_settings (Setting k v # ls) = (k, v) # config_settings ls"
| "config_settings (_ # ls) = config_settings ls"

lemma fgets_line:
  "CHR 0x0A \<notin> set s \<Longrightarrow> length s < n \<Longrightarrow>
     fgets n (s @ CHR 0x0A # rest) = (s @ [CHR 0x0A], rest)"
  by (induction s arbitrary: n) (case_tac n; auto)+

lemma parse_line_Setting:
  assumes "config_line_ok (Setting k v)"
  shows "parse_line (render_line (Setting k v)) = Some (k, v)"
proof -
  let ?l = "k @ CHR ''='' # v @ [CHR 0x0A]"
  from assms have k: "plain k" "k \<noteq> []" "CHR ''='' \<notin> set k" "hd k \<noteq> CHR ''#''" and v: "plain v"
    by auto
  from k v have c: "c_str ?l = ?l" by (intro c_str_id) (auto simp: plain_def)
  from k have t: "Trim ?l = ?l" by (intro Trim_id) (auto simp: plain_def)
  have i: "str_find ?l CHR ''='' 0 = Some (length k)"
    using k(3) by simp
  have "CHR 0x0A \<notin> set (CHR ''='' # v)" using v by (auto simp: plain_def)
  from find_from_append[OF this, of "length k" "[]"]
  have e: "str_find ?l CHR 0x0A (length k) = Some (length k + Suc (length v))"
    by (simp add: str_find_def)
  show ?thesis
    using k v by (simp add: parse_line_def c t i e substr_def Trim_id plain_def Let_def)
qed

lemma parse_line_Comment:
  assumes "config_line_ok (Comment s)"
  shows "parse_line (render_line (Comment s)) = None"
proof -
  let ?l = "CHR ''#'' # s @ [CHR 0x0A]"
  from assms have c: "c_str ?l = ?l" by (intro c_str_id) auto
  have t: "Trim ?l = ?l" by (intro Trim_id) auto
  show ?thesis by (simp add: parse_line_def c t)
qed

lemma parse_line_Blank:
  assumes "config_line_ok (Blank s)"
  shows "parse_line (render_line (Blank s)) = None"
proof -
  let ?l = "s @ [CHR 0x0A]"
  from assms have c: "c_str ?l = ?l" by (intro c_str_id) (auto simp: plain_def)
  have t: "Trim ?l = ?l" using assms by (intro Trim_id) (cases s; auto simp: plain_def)
  have "str_find ?l CHR ''='' 0 = None" using assms by (simp add: str_find_None)
  then show ?thesis by (simp add: parse_line_def c t Let_def)
qed

lemma load_lines_append_line:
  assumes "config_line_ok l"
  shows "load_lines m (render_line l @ rest) =
    load_lines (case parse_line (render_line l) of None \<Rightarrow> m | Some (k, v) \<Rightarrow> emplace k v m) rest"
proof -
  obtain s where s: "render_line l = s @ [CHR 0x0A]" "CHR 0x0A \<notin> set s" "length s < 1023"
    using assms by (cases l) (auto simp: plain_def intro!: that)
  then have "fgets 1023 (render_line l @ rest) = (render_line l, rest)"
    using fgets_line[of s 1023 rest] by simp
  moreover obtain c cs where "render_line l @ rest = c # cs" by (cases s) (auto simp: s)
  ultimately show ?thesis by (metis load_lines.simps(2) split_conv)
qed

lemma load_lines_render:
  "\<forall>l \<in> set ls. config_line_ok l \<Longrightarrow>
     load_lines m (concat (map render_line ls)) =
       foldl (\<lambda>m (k, v). emplace k v m) m (config_settings ls)"
proof (induction ls arbitrary: m)
  case (Cons l ls)
  then show ?case
    by (cases l)
      (simp_all del: render_line.simps
        add: load_lines_append_line parse_line_Setting parse_line_Comment parse_line_Blank)
qed simp

lemma map_of_foldl_emplace:
  "map_of (foldl (\<lambda>m (k, v). emplace k v m) m kvs) = map_of kvs ++ map_of m"
proof (induction kvs arbitrary: m)
  case (Cons kv kvs)
  then show ?case
    by (cases kv) (auto simp: fun_eq_iff map_add_def map_of_emplace split: option.splits)
qed simp

subsection \<open>Configuration integers\<close>

definition ParseConfigInt :: "string \<Rightarrow> int \<Rightarrow> int" where
  "ParseConfigInt value default_value =
     (if value = [] then default_value
      else (case stoi value of Inl e \<Rightarrow> default_value | Inr n \<Rightarrow> n))"

text \<open>The variant of \<open>Krpcapplication.cc\<close> uses \<open>strtol\<close> and truncates to \<open>int\<close>.\<close>

definition App_ParseConfigInt :: "string \<Rightarrow> int \<Rightarrow> int" where
  "App_ParseConfigInt value default_value =
     (if value = [] then default_value
      else (case strtol_value value of None \<Rightarrow> default_value | Some n \<Rightarrow> to_int32 n))"

lemma ParseConfigInt_empty [simp]: "ParseConfigInt [] d = d"
  by (simp add: ParseConfigInt_def)

lemma ParseConfigInt_nat_to_string:
  "int n \<le> INT_MAX \<Longrightarrow> ParseConfigInt (nat_to_string n) d = int n"
  by (simp add: ParseConfigInt_def stoi_nat_to_string)

lemma ParseConfigInt_range:
  "INT_MIN \<le> d \<Longrightarrow> d \<le> INT_MAX \<Longrightarrow>
     INT_MIN \<le> ParseConfigInt s d \<and> ParseConfigInt s d \<le> INT_MAX"
  by (auto simp: ParseConfigInt_def split: sum.splits dest: stoi_bounds)

subsection \<open>Application start-up\<close>

record log_settings =
  minloglevel :: int
  logtostderr :: bool
  colorlogtostderr :: bool

record application =
  m_config :: config_map
  m_application :: bool
  atexit_deletes :: nat
  log_init :: "log_settings option"

definition application0 :: application where
  "application0 = \<lparr>m_config = [], m_application = False, atexit_deletes = 0, log_init = None\<rparr>"

text \<open>\<open>std::call_once\<close>: only the first call has an effect.\<close>

definition InitOnce :: "int \<Rightarrow> bool \<Rightarrow> bool \<Rightarrow> application \<Rightarrow> application" where
  "InitOnce lvl err col app =
     (case log_init app of
        Some _ \<Rightarrow> app
      | None \<Rightarrow> app\<lparr>log_init :=
          Some \<lparr>minloglevel = lvl, logtostderr = err, colorlogtostderr = col\<rparr>\<rparr>)"

text \<open>The loop over \<open>getopt(argc, argv, "i:")\<close>: operands are skipped, \<open>--\<close> ends the
  options, an unknown option or a missing argument is reported and ends the process.\<close>

fun scan_options :: "string list \<Rightarrow> string \<Rightarrow> exit_code + string" where
  "scan_options [] config_file = Inr config_file"
| "scan_options (a # rest) config_file =
     (if a = ''--'' then Inr config_file
      else if length a > 1 \<and> hd a = CHR ''-'' then
        (if a ! 1 = CHR ''i'' then
           (if length a > 2 then scan_options rest (drop 2 a)
            else (case rest of [] \<Rightarrow> Inl EXIT_FAILURE
                  | v # rest' \<Rightarrow> scan_options rest' v))
         else Inl EXIT_FAILURE)
      else scan_options rest config_file)"

definition Init ::
    "(string \<Rightarrow> string option) \<Rightarrow> string list \<Rightarrow> application \<Rightarrow> exit_code + application" where
  "Init fs argv app =
     (if length argv < 2 then Inl EXIT_FAILURE
      else (case scan_options (tl argv) [] of
              Inl e \<Rightarrow> Inl e
            | Inr config_file \<Rightarrow>
                (case LoadConfigFile (m_config app) (fs config_file) of
                   Inl e \<Rightarrow> Inl e
                 | Inr m \<Rightarrow>
                     Inr (InitOnce (App_ParseConfigInt (Load m ''log_minlevel'') 1)
                            (App_ParseConfigInt (Load m ''logtostderr'') 1 \<noteq> 0)
                            (App_ParseConfigInt (Load m ''colorlogtostderr'') 1 \<noteq> 0)
                            (app\<lparr>m_config := m\<rparr>)))))"

text \<open>The singleton is created on the first call, which also registers \<open>deleteInstance\<close>.\<close>

definition GetInstance :: "application \<Rightarrow> application" where
  "GetInstance app =
     (if m_application app then app
      else app\<lparr>m_application := True, atexit_deletes := Suc (atexit_deletes app)\<rparr>)"

definition GetConfig :: "application \<Rightarrow> config_map" where
  "GetConfig app = m_config app"

lemma GetInstance_idem [simp]: "GetInstance (GetInstance app) = GetInstance app"
  by (simp add: GetInstance_def)

subsection \<open>Controllers\<close>

record Krpccontroller =
  m_failed :: bool
  m_errText :: string
  m_timeout_ms :: int

definition new_Krpccontroller :: Krpccontroller where
  "new_Krpccontroller = \<lparr>m_failed = False, m_errText = [], m_timeout_ms = 0\<rparr>"

definition Reset :: "Krpccontroller \<Rightarrow> Krpccontroller" where
  "Reset c = c\<lparr>m_failed := False, m_errText := [], m_timeout_ms := 0\<rparr>"

definition Failed :: "Krpccontroller \<Rightarrow> bool" where
  "Failed c = m_failed c"

definition ErrorText :: "Krpccontroller \<Rightarrow> string" where
  "ErrorText c = m_errText c"

definition SetFailed :: "string \<Rightarrow> Krpccontroller \<Rightarrow> Krpccontroller" where
  "SetFailed reason c = c\<lparr>m_failed := True, m_errText := reason\<rparr>"

definition SetTimeoutMs :: "int \<Rightarrow> Krpccontroller \<Rightarrow> Krpccontroller" where
  "SetTimeoutMs t c = c\<lparr>m_timeout_ms := t\<rparr>"

definition TimeoutMs :: "Krpccontroller \<Rightarrow> int" where
  "TimeoutMs c = m_timeout_ms c"

definition StartCancel :: "Krpccontroller \<Rightarrow> Krpccontroller" where
  "StartCancel c = c"

definition IsCanceled :: "Krpccontroller \<Rightarrow> bool" where
  "IsCanceled c = False"

lemma Failed_simps [simp]:
  "Failed (SetFailed r c)" "\<not> Failed (Reset c)" "\<not> Failed new_Krpccontroller"
  "ErrorText (SetFailed r c) = r" "ErrorText (Reset c) = []"
  "TimeoutMs (SetFailed r c) = TimeoutMs c" "TimeoutMs (SetTimeoutMs t c) = t"
  "Failed (SetTimeoutMs t c) = Failed c"
  by (simp_all add: Failed_def SetFailed_def Reset_def new_Krpccontroller_def ErrorText_def
      TimeoutMs_def SetTimeoutMs_def)

text \<open>A reset controller cannot be told from a new one, so loops may reuse it.\<close>

lemma Reset_new: "Reset c = new_Krpccontroller"
  by (simp add: Reset_def new_Krpccontroller_def)

end
