(* ===== verification/Rpc_Header.thy ===== *)
theory Rpc_Header
  imports Krpc_Config
begin

section \<open>The RPC header message\<close>

text \<open>
  The model of \<open>Krpcheader.pb.cc\<close>, the committed protocol-buffer code of \<open>RpcHeader\<close>:
  which fields are written, in which order and with which tag, and the parse loop over tags.
  The protobuf runtime it calls (varint and string readers and writers) is not part of the
  repository: it is the record \<open>pb_runtime\<close>, and \<open>pb_ok\<close> states the documented wire format,
  base-128 varints \<open>vi\<close> of which only reading back what was written is assumed.
  Enum fields are open (proto3): any 32-bit value is kept.
\<close>

subsection \<open>Enumerations\<close>

definition MSG_TYPE_UNKNOWN :: u32 where "MSG_TYPE_UNKNOWN = 0"
definition MSG_TYPE_REQUEST :: u32 where "MSG_TYPE_REQUEST = 1"
definition MSG_TYPE_RESPONSE :: u32 where "MSG_TYPE_RESPONSE = 2"
definition MSG_TYPE_PING :: u32 where "MSG_TYPE_PING = 3"
definition MSG_TYPE_PONG :: u32 where "MSG_TYPE_PONG = 4"
definition MSG_TYPE_ONEWAY :: u32 where "MSG_TYPE_ONEWAY = 5"
definition COMPRESS_NONE :: u32 where "COMPRESS_NONE = 0"

definition MsgType_IsValid :: "int \<Rightarrow> bool" where
  "MsgType_IsValid v = (v = 0 \<or> v = 1 \<or> v = 2 \<or> v = 3 \<or> v = 4 \<or> v = 5)"

definition CompressType_IsValid :: "int \<Rightarrow> bool" where
  "CompressType_IsValid v = (v = 0 \<or> v = 1 \<or> v = 2)"

lemmas msg_type_defs = MSG_TYPE_UNKNOWN_def MSG_TYPE_REQUEST_def MSG_TYPE_RESPONSE_def
  MSG_TYPE_PING_def MSG_TYPE_PONG_def MSG_TYPE_ONEWAY_def COMPRESS_NONE_def

subsection \<open>The runtime\<close>

record pb_runtime =
  WriteUInt32ToArray :: "nat \<Rightarrow> u32 \<Rightarrow> string"
  WriteUInt64ToArray :: "nat \<Rightarrow> u64 \<Rightarrow> string"
  WriteEnumToArray :: "nat \<Rightarrow> u32 \<Rightarrow> string"
  WriteBytesMaybeAliased :: "nat \<Rightarrow> string \<Rightarrow> string"
  ReadTag :: "string \<Rightarrow> (u32 \<times> string) option"
  ReadVarint32 :: "string \<Rightarrow> (u32 \<times> string) option"
  ReadVarint64 :: "string \<Rightarrow> (u64 \<times> string) option"
  InlineGreedyStringParser :: "string \<Rightarrow> (string \<times> string) option"
  UnknownFieldParse :: "u32 \<Rightarrow> string \<Rightarrow> (string \<times> string) option"
  UInt32Size :: "u32 \<Rightarrow> nat"
  UInt64Size :: "u64 \<Rightarrow> nat"
  EnumSize :: "u32 \<Rightarrow> nat"
  BytesSize :: "string \<Rightarrow> nat"
  SerializeFits :: "nat \<Rightarrow> bool"
  WriteVarint32 :: "u32 \<Rightarrow> string"
  coded_ReadVarint32 :: "string \<Rightarrow> (u32 \<times> nat) option"
  coded_ReadString :: "string \<Rightarrow> u32 \<Rightarrow> string option"

definition pb_writes_ok :: "pb_runtime \<Rightarrow> (nat \<Rightarrow> string) \<Rightarrow> bool" where
  "pb_writes_ok rt vi \<longleftrightarrow>
     (\<forall>f v. WriteUInt32ToArray rt f v = vi (8 * f) @ vi (unat v)) \<and>
     (\<forall>f v. WriteUInt64ToArray rt f v = vi (8 * f) @ vi (unat v)) \<and>
     (\<forall>f v. WriteEnumToArray rt f v = vi (8 * f) @ vi (unat (scast v :: u64))) \<and>
     (\<forall>f s. WriteBytesMaybeAliased rt f s = vi (8 * f + 2) @ vi (length s) @ s) \<and>
     (\<forall>v. UInt32Size rt v = length (vi (unat v))) \<and>
     (\<forall>v. UInt64Size rt v = length (vi (unat v))) \<and>
     (\<forall>v. EnumSize rt v = length (vi (unat (scast v :: u64)))) \<and>
     (\<forall>s. BytesSize rt s = length (vi (length s)) + length s) \<and>
     (\<forall>n < 2147483648. SerializeFits rt n) \<and>
     (\<forall>n < 128. length (vi n) = 1) \<and>
     (\<forall>v. WriteVarint32 rt v = vi (unat v))"

definition pb_reads_ok :: "pb_runtime \<Rightarrow> (nat \<Rightarrow> string) \<Rightarrow> bool" where
  "pb_reads_ok rt vi \<longleftrightarrow>
     (\<forall>t r. t < 2 ^ 32 \<longrightarrow> ReadTag rt (vi t @ r) = Some (of_nat t, r)) \<and>
     (\<forall>n r. n < 2 ^ 64 \<longrightarrow> ReadVarint32 rt (vi n @ r) = Some (of_nat n, r)) \<and>
     (\<forall>n r. n < 2 ^ 64 \<longrightarrow> ReadVarint64 rt (vi n @ r) = Some (of_nat n, r)) \<and>
     (\<forall>s r. length s < 2147483648 \<longrightarrow>
        InlineGreedyStringParser rt (vi (length s) @ s @ r) = Some (s, r)) \<and>
     (\<forall>v r. coded_ReadVarint32 rt (vi (unat v) @ r) = Some (v, length (vi (unat v)))) \<and>
     (\<forall>s v n. coded_ReadVarint32 rt s = Some (v, n) \<longrightarrow> 0 < n \<and> n \<le> length s \<and>
        (\<forall>r. coded_ReadVarint32 rt (s @ r) = Some (v, n))) \<and>
     (\<forall>s n. coded_ReadString rt s n =
        (if unat n < 2147483648 \<and> unat n \<le> length s then Some (take (unat n) s) else None))"

definition pb_ok :: "pb_runtime \<Rightarrow> (nat \<Rightarrow> string) \<Rightarrow> bool" where
  "pb_ok rt vi \<longleftrightarrow> pb_writes_ok rt vi \<and> pb_reads_ok rt vi"

lemma pb_write_simps:
  assumes "pb_ok rt vi"
  shows "WriteUInt32ToArray rt f v32 = vi (8 * f) @ vi (unat v32)"
    "WriteUInt64ToArray rt f v64 = vi (8 * f) @ vi (unat v64)"
    "WriteEnumToArray rt f v32 = vi (8 * f) @ vi (unat (scast v32 :: u64))"
    "WriteBytesMaybeAliased rt f s = vi (8 * f + 2) @ vi (length s) @ s"
    "UInt32Size rt v32 = length (vi (unat v32))"
    "UInt64Size rt v64 = length (vi (unat v64))"
    "EnumSize rt v32 = length (vi (unat (scast v32 :: u64)))"
    "BytesSize rt s = length (vi (length s)) + length s"
    "n < 2147483648 \<Longrightarrow> SerializeFits rt n"
    "n < 128 \<Longrightarrow> length (vi n) = 1"
    "WriteVarint32 rt v32 = vi (unat v32)"
  using assms by (simp_all add: pb_ok_def pb_writes_ok_def)

lemma pb_read_simps:
  assumes "pb_ok rt vi"
  shows "t < 4294967296 \<Longrightarrow> ReadTag rt (vi t @ r) = Some (of_nat t, r)"
    "n < 18446744073709551616 \<Longrightarrow> ReadVarint32 rt (vi n @ r) = Some (of_nat n, r)"
    "n < 18446744073709551616 \<Longrightarrow> ReadVarint64 rt (vi n @ r) = Some (of_nat n, r)"
    "length s < 2147483648 \<Longrightarrow> InlineGreedyStringParser rt (vi (length s) @ s @ r) = Some (s, r)"
    "coded_ReadVarint32 rt (vi (unat v) @ r) = Some (v, length (vi (unat v)))"
    "coded_ReadString rt s m =
       (if unat m < 2147483648 \<and> unat m \<le> length s then Some (take (unat m) s) else None)"
  using assms by (simp_all add: pb_ok_def pb_reads_ok_def)

lemma pb_coded_extend:
  assumes "pb_ok rt vi" "coded_ReadVarint32 rt s = Some (v, n)"
  shows "0 < n" "n \<le> length s" "coded_ReadVarint32 rt (s @ r) = Some (v, n)"
  using assms unfolding pb_ok_def pb_reads_ok_def by blast+

lemma vi_nonempty: "pb_ok rt vi \<Longrightarrow> vi (unat (v :: u32)) \<noteq> []"
  using pb_read_simps(5)[of rt vi v "[]"] pb_coded_extend(1)[of rt vi "vi (unat v)" v] by fastforce

subsection \<open>The message\<close>

record RpcHeader =
  magic :: u32
  version :: u32
  msg_type :: u32
  request_id :: u64
  body_size :: u32
  compress_type :: u32
  service_name :: string
  method_name :: string
  unknown_fields :: string

definition Clear :: RpcHeader where
  "Clear = \<lparr>magic = 0, version = 0, msg_type = 0, request_id = 0, body_size = 0,
     compress_type = 0, service_name = [], method_name = [], unknown_fields = []\<rparr>"

definition InternalSerialize :: "pb_runtime \<Rightarrow> RpcHeader \<Rightarrow> string" where
  "InternalSerialize rt h =
     (if magic h \<noteq> 0 then WriteUInt32ToArray rt 1 (magic h) else []) @
     (if version h \<noteq> 0 then WriteUInt32ToArray rt 2 (version h) else []) @
     (if msg_type h \<noteq> 0 then WriteEnumToArray rt 3 (msg_type h) else []) @
     (if request_id h \<noteq> 0 then WriteUInt64ToArray rt 4 (request_id h) else []) @
     (if body_size h \<noteq> 0 then WriteUInt32ToArray rt 5 (body_size h) else []) @
     (if compress_type h \<noteq> 0 then WriteEnumToArray rt 6 (compress_type h) else []) @
     (if length (service_name h) > 0 then WriteBytesMaybeAliased rt 7 (service_name h) else []) @
     (if length (method_name h) > 0 then WriteBytesMaybeAliased rt 8 (method_name h) else []) @
     unknown_fields h"

definition ByteSizeLong :: "pb_runtime \<Rightarrow> RpcHeader \<Rightarrow> nat" where
  "ByteSizeLong rt h =
     (if length (service_name h) > 0 then 1 + BytesSize rt (service_name h) else 0) +
     (if length (method_name h) > 0 then 1 + BytesSize rt (method_name h) else 0) +
     (if magic h \<noteq> 0 then 1 + UInt32Size rt (magic h) else 0) +
     (if version h \<noteq> 0 then 1 + UInt32Size rt (version h) else 0) +
     (if request_id h \<noteq> 0 then 1 + UInt64Size rt (request_id h) else 0) +
     (if msg_type h \<noteq> 0 then 1 + EnumSize rt (msg_type h) else 0) +
     (if body_size h \<noteq> 0 then 1 + UInt32Size rt (body_size h) else 0) +
     (if compress_type h \<noteq> 0 then 1 + EnumSize rt (compress_type h) else 0) +
     length (unknown_fields h)"

definition SerializeToString :: "pb_runtime \<Rightarrow> RpcHeader \<Rightarrow> string option" where
  "SerializeToString rt h =
     (if SerializeFits rt (ByteSizeLong rt h) then Some (InternalSerialize rt h) else None)"

text \<open>One turn of the parse loop. \<open>Failure\<close> is the label \<open>failure\<close>; \<open>EndTag\<close> is leaving the loop at
  an end-group or zero tag, which the caller of the loop does not accept.\<close>

datatype parse_step = Failure | EndTag | Continue RpcHeader string

definition handle_unusual :: "pb_runtime \<Rightarrow> u32 \<Rightarrow> RpcHeader \<Rightarrow> string \<Rightarrow> parse_step" where
  "handle_unusual rt tag h p =
     (if unat tag mod 8 = 4 \<or> tag = 0 then EndTag
      else (case UnknownFieldParse rt tag p of
              None \<Rightarrow> Failure
            | Some (raw, p') \<Rightarrow> Continue (h\<lparr>unknown_fields := unknown_fields h @ raw\<rparr>) p'))"

definition parse_u32_field ::
    "pb_runtime \<Rightarrow> u32 \<Rightarrow> nat \<Rightarrow> (u32 \<Rightarrow> RpcHeader) \<Rightarrow> RpcHeader \<Rightarrow> string \<Rightarrow> parse_step" where
  "parse_u32_field rt tag expected assign h p =
     (if unat tag mod 256 = expected then
        (case ReadVarint32 rt p of None \<Rightarrow> Failure | Some (v, p') \<Rightarrow> Continue (assign v) p')
      else handle_unusual rt tag h p)"

definition parse_u64_field ::
    "pb_runtime \<Rightarrow> u32 \<Rightarrow> nat \<Rightarrow> (u64 \<Rightarrow> RpcHeader) \<Rightarrow> RpcHeader \<Rightarrow> string \<Rightarrow> parse_step" where
  "parse_u64_field rt tag expected assign h p =
     (if unat tag mod 256 = expected then
        (case ReadVarint64 rt p of None \<Rightarrow> Failure | Some (v, p') \<Rightarrow> Continue (assign v) p')
      else handle_unusual rt tag h p)"

definition parse_bytes_field ::
    "pb_runtime \<Rightarrow> u32 \<Rightarrow> nat \<Rightarrow> (string \<Rightarrow> RpcHeader) \<Rightarrow> RpcHeader \<Rightarrow> string \<Rightarrow> parse_step" where
  "parse_bytes_field rt tag expected assign h p =
     (if unat tag mod 256 = expected then
        (case InlineGreedyStringParser rt p of None \<Rightarrow> Failure | Some (v, p') \<Rightarrow> Continue (assign v) p')
      else handle_unusual rt tag h p)"

definition parse_field :: "pb_runtime \<Rightarrow> RpcHeader \<Rightarrow> string \<Rightarrow> parse_step" where
  "parse_field rt h p0 =
     (case ReadTag rt p0 of
        None \<Rightarrow> Failure
      | Some (tag, p) \<Rightarrow>
          (let field = unat tag div 8
           in if field = 1 then parse_u32_field rt tag 8 (\<lambda>v. h\<lparr>magic := v\<rparr>) h p
              else if field = 2 then parse_u32_field rt tag 16 (\<lambda>v. h\<lparr>version := v\<rparr>) h p
              else if field = 3 then parse_u64_field rt tag 24 (\<lambda>v. h\<lparr>msg_type := ucast v\<rparr>) h p
              else if field = 4 then parse_u64_field rt tag 32 (\<lambda>v. h\<lparr>request_id := v\<rparr>) h p
              else if field = 5 then parse_u32_field rt tag 40 (\<lambda>v. h\<lparr>body_size := v\<rparr>) h p
              else if field = 6 then parse_u64_field rt tag 48 (\<lambda>v. h\<lparr>compress_type := ucast v\<rparr>) h p
              else if field = 7 then parse_bytes_field rt tag 58 (\<lambda>v. h\<lparr>service_name := v\<rparr>) h p
              else if field = 8 then parse_bytes_field rt tag 66 (\<lambda>v. h\<lparr>method_name := v\<rparr>) h p
              else handle_unusual rt tag h p))"

text \<open>The loop. Every turn reads at least one byte, so the length of the input is enough fuel.\<close>

fun InternalParse :: "pb_runtime \<Rightarrow> nat \<Rightarrow> RpcHeader \<Rightarrow> string \<Rightarrow> RpcHeader option" where
  "InternalParse rt fuel h [] = Some h"
| "InternalParse rt 0 h p = None"
| "InternalParse rt (Suc fuel) h p =
     (case parse_field rt h p of
        Continue h' p' \<Rightarrow> InternalParse rt fuel h' p'
      | Failure \<Rightarrow> None
      | EndTag \<Rightarrow> None)"

definition ParseFromString :: "pb_runtime \<Rightarrow> string \<Rightarrow> RpcHeader option" where
  "ParseFromString rt s = InternalParse rt (length s) Clear s"

definition MergeFrom :: "RpcHeader \<Rightarrow> RpcHeader \<Rightarrow> RpcHeader" where
  "MergeFrom from this =
     (let h0 = this\<lparr>unknown_fields := unknown_fields this @ unknown_fields from\<rparr>;
          h1 = (if length (service_name from) > 0 then h0\<lparr>service_name := service_name from\<rparr> else h0);
          h2 = (if length (method_name from) > 0 then h1\<lparr>method_name := method_name from\<rparr> else h1);
          h3 = (if magic from \<noteq> 0 then h2\<lparr>magic := magic from\<rparr> else h2);
          h4 = (if version from \<noteq> 0 then h3\<lparr>version := version from\<rparr> else h3);
          h5 = (if request_id from \<noteq> 0 then h4\<lparr>request_id := request_id from\<rparr> else h4);
          h6 = (if msg_type from \<noteq> 0 then h5\<lparr>msg_type := msg_type from\<rparr> else h5);
          h7 = (if body_size from \<noteq> 0 then h6\<lparr>body_size := body_size from\<rparr> else h6)
      in (if compress_type from \<noteq> 0 then h7\<lparr>compress_type := compress_type from\<rparr> else h7))"

definition CopyFrom :: "RpcHeader \<Rightarrow> RpcHeader \<Rightarrow> RpcHeader" where
  "CopyFrom from this = MergeFrom from Clear"

subsection \<open>Size and round trip\<close>

lemma ByteSizeLong_length:
  assumes ok: "pb_ok rt vi"
  shows "ByteSizeLong rt h = length (InternalSerialize rt h)"
  by (simp add: ByteSizeLong_def InternalSerialize_def pb_write_simps[OF ok])

text \<open>One equation per field: reading back a written field and going on with the rest.\<close>

definition parses :: "pb_runtime \<Rightarrow> RpcHeader \<Rightarrow> string \<Rightarrow> RpcHeader \<Rightarrow> bool" where
  "parses rt h s h' \<longleftrightarrow> (\<forall>fuel \<ge> length s. InternalParse rt fuel h s = Some h')"

lemma parses_Nil: "parses rt h [] h"
  by (simp add: parses_def)

lemma parses_field:
  assumes "parse_field rt h (w @ r) = Continue h1 r" "w \<noteq> []" "parses rt h1 r h'"
  shows "parses rt h (w @ r) h'"
  unfolding parses_def
proof (intro allI impI)
  fix fuel
  assume len: "length (w @ r) \<le> fuel"
  from assms(2) obtain c cs where w: "w @ r = c # cs" by (cases "w @ r") auto
  from len assms(2) obtain k where k: "fuel = Suc k" "length r \<le> k"
    by (cases fuel; cases w) auto
  have "InternalParse rt fuel h (w @ r) = InternalParse rt k h1 r"
    using assms(1) by (simp add: k w)
  also have "\<dots> = Some h'" using assms(3) k(2) by (simp add: parses_def)
  finally show "InternalParse rt fuel h (w @ r) = Some h'" .
qed

lemma ucast_scast_enum [simp]: "ucast (scast (v :: u32) :: u64) = v"
proof (rule bit_word_eqI)
  fix n
  assume "n < LENGTH(32)"
  then have "n < 31 \<or> n = 31" by auto
  then show "bit (ucast (scast v :: u64) :: u32) n = bit v n"
    by (auto simp: bit_unsigned_iff bit_signed_iff min_def)
qed

lemma vi_tag_nonempty: "pb_ok rt vi \<Longrightarrow> n < 128 \<Longrightarrow> vi n \<noteq> []"
  using pb_write_simps(10)[of rt vi n] by fastforce

lemma parse_field_read:
  assumes "pb_ok rt vi"
  shows "parse_field rt h (vi 8 @ vi (unat v) @ r) = Continue (h\<lparr>magic := v\<rparr>) r"
    "parse_field rt h (vi 16 @ vi (unat v) @ r) = Continue (h\<lparr>version := v\<rparr>) r"
    "parse_field rt h (vi 24 @ vi (unat (scast v :: u64)) @ r) = Continue (h\<lparr>msg_type := v\<rparr>) r"
    "parse_field rt h (vi 32 @ vi (unat w) @ r) = Continue (h\<lparr>request_id := w\<rparr>) r"
    "parse_field rt h (vi 40 @ vi (unat v) @ r) = Continue (h\<lparr>body_size := v\<rparr>) r"
    "parse_field rt h (vi 48 @ vi (unat (scast v :: u64)) @ r) = Continue (h\<lparr>compress_type := v\<rparr>) r"
    "length s < 2147483648 \<Longrightarrow>
       parse_field rt h (vi 58 @ vi (length s) @ s @ r) = Continue (h\<lparr>service_name := s\<rparr>) r"
    "length s < 2147483648 \<Longrightarrow>
       parse_field rt h (vi 66 @ vi (length s) @ s @ r) = Continue (h\<lparr>method_name := s\<rparr>) r"
proof -
  have v: "unat v < 18446744073709551616" "unat w < 18446744073709551616"
    "unat (scast v :: u64) < 18446744073709551616"
    using unat_bounds(2)[of v] unat_bounds(3)[of w] unat_bounds(3)[of "scast v"] by linarith+
  note rules = parse_field_def parse_u32_field_def parse_u64_field_def parse_bytes_field_def
    pb_read_simps[OF assms] v
  show "parse_field rt h (vi 8 @ vi (unat v) @ r) = Continue (h\<lparr>magic := v\<rparr>) r"
    "parse_field rt h (vi 16 @ vi (unat v) @ r) = Continue (h\<lparr>version := v\<rparr>) r"
    "parse_field rt h (vi 24 @ vi (unat (scast v :: u64)) @ r) = Continue (h\<lparr>msg_type := v\<rparr>) r"
    "parse_field rt h (vi 32 @ vi (unat w) @ r) = Continue (h\<lparr>request_id := w\<rparr>) r"
    "parse_field rt h (vi 40 @ vi (unat v) @ r) = Continue (h\<lparr>body_size := v\<rparr>) r"
    "parse_field rt h (vi 48 @ vi (unat (scast v :: u64)) @ r) = Continue (h\<lparr>compress_type := v\<rparr>) r"
    "length s < 2147483648 \<Longrightarrow>
       parse_field rt h (vi 58 @ vi (length s) @ s @ r) = Continue (h\<lparr>service_name := s\<rparr>) r"
    "length s < 2147483648 \<Longrightarrow>
       parse_field rt h (vi 66 @ vi (length s) @ s @ r) = Continue (h\<lparr>method_name := s\<rparr>) r"
    by (simp_all add: rules)
qed

text \<open>A field that is written only when it is not the default, followed by the rest.\<close>

lemma parses_optional:
  assumes "v \<noteq> d \<Longrightarrow> parse_field rt h (w @ r) = Continue hh r" "v \<noteq> d \<Longrightarrow> w \<noteq> []"
    "v = d \<Longrightarrow> hh = h" "parses rt hh r h'"
  shows "parses rt h ((if v \<noteq> d then w else []) @ r) h'"
  using assms parses_field[of rt h w r hh h'] by (cases "v = d") simp_all

lemma parses_optional_bytes:
  assumes "s \<noteq> [] \<Longrightarrow> parse_field rt h (w @ r) = Continue hh r" "s \<noteq> [] \<Longrightarrow> w \<noteq> []"
    "s = [] \<Longrightarrow> hh = h" "parses rt hh r h'"
  shows "parses rt h ((if length s > 0 then w else []) @ r) h'"
  using assms parses_field[of rt h w r hh h'] by (cases "s = []") simp_all

lemma parses_InternalSerialize:
  assumes ok: "pb_ok rt vi" and u: "unknown_fields h = []"
    and len: "length (service_name h) < 2147483648" "length (method_name h) < 2147483648"
  shows "parses rt Clear (InternalSerialize rt h) h"
proof -
  note ne = vi_tag_nonempty[OF ok] and w = pb_write_simps(1-4)[OF ok] and rd = parse_field_read[OF ok]
  let ?h1 = "Clear\<lparr>magic := magic h\<rparr>"
  let ?h2 = "?h1\<lparr>version := version h\<rparr>"
  let ?h3 = "?h2\<lparr>msg_type := msg_type h\<rparr>"
  let ?h4 = "?h3\<lparr>request_id := request_id h\<rparr>"
  let ?h5 = "?h4\<lparr>body_size := body_size h\<rparr>"
  let ?h6 = "?h5\<lparr>compress_type := compress_type h\<rparr>"
  let ?h7 = "?h6\<lparr>service_name := service_name h\<rparr>"
  let ?h8 = "?h7\<lparr>method_name := method_name h\<rparr>"
  have "?h8 = h" using u by (cases h) (simp add: Clear_def)
  then have p: "parses rt ?h8 (unknown_fields h) h" using u by (simp add: parses_Nil)
  note p = parses_optional_bytes[where s = "method_name h" and hh = ?h8 and h = ?h7, OF _ _ _ p]
  note p = parses_optional_bytes[where s = "service_name h" and hh = ?h7 and h = ?h6, OF _ _ _ p]
  note p = parses_optional[where v = "compress_type h" and d = 0 and hh = ?h6 and h = ?h5, OF _ _ _ p]
  note p = parses_optional[where v = "body_size h" and d = 0 and hh = ?h5 and h = ?h4, OF _ _ _ p]
  note p = parses_optional[where v = "request_id h" and d = 0 and hh = ?h4 and h = ?h3, OF _ _ _ p]
  note p = parses_optional[where v = "msg_type h" and d = 0 and hh = ?h3 and h = ?h2, OF _ _ _ p]
  note p = parses_optional[where v = "version h" and d = 0 and hh = ?h2 and h = ?h1, OF _ _ _ p]
  note p = parses_optional[where v = "magic h" and d = 0 and hh = ?h1 and h = Clear, OF _ _ _ p]
  show ?thesis
    unfolding InternalSerialize_def w
    by (rule p) (use ne len in \<open>simp_all add: rd Clear_def\<close>)
qed

end
