(* ===== verification/Framing.thy ===== *)
theory Framing
  imports Rpc_Header
begin

section \<open>Cutting a byte stream into frames\<close>

text \<open>
  Both sides keep a receive buffer, append what \<open>recv\<close> gives, and run a loop that cuts complete
  frames off its front: \<open>KrpcProvider::OnMessage\<close>, \<open>KrpcChannel::RecvLoop\<close> and their msgpack
  counterparts. The loop is \<open>consume\<close>, over a function \<open>next\<close> that looks at the buffer (one turn
  of the loop up to the point where the frame is complete) and a handler that gets the frame.
  The locale \<open>frame_stream\<close> is what the loop needs of \<open>next\<close>, and its theorem is that the
  segmentation of the stream is irrelevant. Both protobuf parsers are interpretations of it.
\<close>

datatype 'f fstep = NeedMore | Bad string | Got 'f nat

datatype fstatus = Waiting | Broken string | Stopped

text \<open>The handler answers whether the loop goes on. Every turn drops at least one byte, so the
  length of the buffer is enough fuel.\<close>

fun consume_fuel :: "nat \<Rightarrow> (string \<Rightarrow> 'f fstep) \<Rightarrow> ('f \<Rightarrow> 's \<Rightarrow> 's \<times> bool) \<Rightarrow>
    string \<Rightarrow> 's \<Rightarrow> fstatus \<times> string \<times> 's" where
  "consume_fuel 0 next handle buf s = (Waiting, buf, s)"
| "consume_fuel (Suc fuel) next handle buf s =
     (if buf = [] then (Waiting, buf, s)
      else (case next buf of
              NeedMore \<Rightarrow> (Waiting, buf, s)
            | Bad why \<Rightarrow> (Broken why, buf, s)
            | Got f k \<Rightarrow>
                (case handle f s of
                   (s', True) \<Rightarrow> consume_fuel fuel next handle (drop k buf) s'
                 | (s', False) \<Rightarrow> (Stopped, drop k buf, s'))))"

definition consume :: "(string \<Rightarrow> 'f fstep) \<Rightarrow> ('f \<Rightarrow> 's \<Rightarrow> 's \<times> bool) \<Rightarrow>
    string \<Rightarrow> 's \<Rightarrow> fstatus \<times> string \<times> 's" where
  "consume next handle buf s = consume_fuel (length buf) next handle buf s"

text \<open>What a connection does over its life: append a chunk, run the loop, stop at the first
  frame that breaks the stream or that the handler refuses.\<close>

fun feed :: "(string \<Rightarrow> 'f fstep) \<Rightarrow> ('f \<Rightarrow> 's \<Rightarrow> 's \<times> bool) \<Rightarrow>
    string list \<Rightarrow> string \<Rightarrow> 's \<Rightarrow> fstatus \<times> string \<times> 's" where
  "feed next handle [] buf s = (Waiting, buf, s)"
| "feed next handle (c # cs) buf s =
     (case consume next handle (buf @ c) s of
        (Waiting, buf', s') \<Rightarrow> feed next handle cs buf' s'
      | (st, buf', s') \<Rightarrow> (st, buf' @ concat cs, s'))"

text \<open>A transitive relation that the handler respects holds between the ends of the loop.\<close>

lemma consume_rel:
  assumes refl: "\<And>a. P a \<Longrightarrow> R a a" and trans: "\<And>a b c. R a b \<Longrightarrow> R b c \<Longrightarrow> R a c"
    and keep: "\<And>a b. R a b \<Longrightarrow> P b" and handle: "\<And>f a b go_on. P a \<Longrightarrow> handle f a = (b, go_on) \<Longrightarrow> R a b"
  shows "P s \<Longrightarrow> consume_fuel n nf handle buf s = (status, buf', s') \<Longrightarrow> R s s'"
proof (induction n arbitrary: buf s)
  case (Suc n)
  show ?case
  proof (cases "buf = []")
    case False
    show ?thesis
    proof (cases "nf buf")
      case (Got f k)
      obtain s1 b where h: "handle f s = (s1, b)" by (cases "handle f s")
      note r = Suc.IH[OF keep[OF handle[OF Suc.prems(1) h]]]
      from Suc.prems(2) False Got h handle[OF Suc.prems(1) h] show ?thesis
        by (cases b) (auto intro: trans r)
    qed (use Suc.prems False refl in auto)
  qed (use Suc.prems refl in auto)
qed (simp add: refl)

subsection \<open>Streams of whole frames\<close>

text \<open>Byte streams that are a sequence of frames from a set \<open>W\<close>: what one side of a connection has written and the
  other has not cut up yet.\<close>

inductive stream_of :: "(string \<Rightarrow> bool) \<Rightarrow> string \<Rightarrow> bool" for W where
  stream_Nil: "stream_of W []"
| stream_Cons: "W c \<Longrightarrow> stream_of W s \<Longrightarrow> stream_of W (c @ s)"

lemma stream_one: "W c \<Longrightarrow> stream_of W c"
  using stream_Cons[OF _ stream_Nil] by fastforce

lemma stream_append: "stream_of W s \<Longrightarrow> stream_of W t \<Longrightarrow> stream_of W (s @ t)"
  by (induction rule: stream_of.induct) (auto intro: stream_of.intros)

lemma stream_concat: "(\<And>s. s \<in> set ss \<Longrightarrow> stream_of W s) \<Longrightarrow> stream_of W (concat ss)"
  by (induction ss) (auto intro: stream_append stream_Nil)

lemma stream_mono: "stream_of W s \<Longrightarrow> (\<And>c. W c \<Longrightarrow> W' c) \<Longrightarrow> stream_of W' s"
  by (induction rule: stream_of.induct) (auto intro: stream_of.intros)

text \<open>Every frame of \<open>W\<close> is read back as something that satisfies \<open>G\<close>.\<close>

definition reads_back :: "(string \<Rightarrow> 'f fstep) \<Rightarrow> (string \<Rightarrow> bool) \<Rightarrow> ('f \<Rightarrow> bool) \<Rightarrow> bool" where
  "reads_back next W G \<longleftrightarrow> (\<forall>c. W c \<longrightarrow> (\<exists>f. G f \<and> (\<forall>s. next (c @ s) = Got f (length c))))"

lemma reads_backI: "(\<And>c. W c \<Longrightarrow> \<exists>f. G f \<and> (\<forall>s. next (c @ s) = Got f (length c))) \<Longrightarrow> reads_back next W G"
  by (simp add: reads_back_def)

locale frame_stream =
  fixes next_frame :: "'p \<Rightarrow> string \<Rightarrow> 'f fstep"
    and ok :: "'p \<Rightarrow> bool"
  assumes got_progress: "ok p \<Longrightarrow> next_frame p buf = Got f k \<Longrightarrow> 0 < k \<and> k \<le> length buf"
    and got_extend: "ok p \<Longrightarrow> next_frame p buf = Got f k \<Longrightarrow> next_frame p (buf @ later) = Got f k"
    and bad_extend: "ok p \<Longrightarrow> next_frame p buf = Bad why \<Longrightarrow> next_frame p (buf @ later) = Bad why"
begin

lemma consume_fuel_enough:
  assumes "ok p"
  shows "length buf \<le> n \<Longrightarrow> length buf \<le> m \<Longrightarrow>
    consume_fuel n (next_frame p) handle buf s = consume_fuel m (next_frame p) handle buf s"
proof (induction n arbitrary: m buf s)
  case 0
  then show ?case by (cases m) auto
next
  case (Suc n)
  show ?case
  proof (cases "buf = []")
    case True
    then show ?thesis by (cases m) auto
  next
    case False
    with Suc.prems obtain m' where m: "m = Suc m'" by (cases m) auto
    have "consume_fuel n (next_frame p) handle (drop k buf) s' =
        consume_fuel m' (next_frame p) handle (drop k buf) s'"
      if "next_frame p buf = Got f k" for f k s'
      using got_progress[OF assms that] Suc.prems m by (intro Suc.IH) auto
    with False m show ?thesis by (simp split: fstep.split prod.split bool.split)
  qed
qed

lemma consume_unfold:
  assumes "ok p"
  shows "consume (next_frame p) handle buf s =
     (if buf = [] then (Waiting, buf, s)
      else (case next_frame p buf of
              NeedMore \<Rightarrow> (Waiting, buf, s)
            | Bad why \<Rightarrow> (Broken why, buf, s)
            | Got f k \<Rightarrow>
                (case handle f s of
                   (s', True) \<Rightarrow> consume (next_frame p) handle (drop k buf) s'
                 | (s', False) \<Rightarrow> (Stopped, drop k buf, s'))))"
proof (cases buf)
  case Nil
  then show ?thesis by (simp add: consume_def)
next
  case (Cons b bs)
  have "consume_fuel (length bs) (next_frame p) handle (drop k buf) s' =
      consume_fuel (length (drop k buf)) (next_frame p) handle (drop k buf) s'"
    if "next_frame p buf = Got f k" for f k s'
    using got_progress[OF assms that] Cons by (intro consume_fuel_enough[OF assms]) auto
  then show ?thesis
    using Cons by (simp add: consume_def split: fstep.split prod.split bool.split)
qed

lemma consume_append:
  assumes "ok p"
  shows "consume (next_frame p) handle (xs @ ys) s =
    (case consume (next_frame p) handle xs s of
       (Waiting, xs', s') \<Rightarrow> consume (next_frame p) handle (xs' @ ys) s'
     | (st, xs', s') \<Rightarrow> (st, xs' @ ys, s'))"
proof (induction "length xs" arbitrary: xs s rule: less_induct)
  case less
  note unf = consume_unfold[OF assms]
  show ?case
  proof (cases "xs = []")
    case True
    then show ?thesis by (simp add: unf[of handle "[]"])
  next
    case False
    show ?thesis
    proof (cases "next_frame p xs")
      case NeedMore
      with False have "consume (next_frame p) handle xs s = (Waiting, xs, s)" by (simp add: unf[of handle xs])
      then show ?thesis by simp
    next
      case (Bad why)
      with False bad_extend[OF assms Bad, of ys] show ?thesis by (simp add: unf)
    next
      case (Got f k)
      note g = got_progress[OF assms Got] got_extend[OF assms Got, of ys]
      from g(1) False have "length (drop k xs) < length xs" by simp
      from less[OF this] False g Got show ?thesis
        by (simp add: unf[of handle "xs @ ys"] unf[of handle xs] split: prod.split bool.split)
    qed
  qed
qed

lemma consume_Nil [simp]: "consume nf handle [] s = (Waiting, [], s)"
  by (simp add: consume_def)

lemma consume_got:
  assumes "ok p" "next_frame p (w @ later) = Got f (length w)"
  shows "consume (next_frame p) handle (w @ later) s =
    (case handle f s of
       (s', True) \<Rightarrow> consume (next_frame p) handle later s'
     | (s', False) \<Rightarrow> (Stopped, later, s'))"
proof -
  have "w \<noteq> []" using got_progress[OF assms] by auto
  then show ?thesis by (simp add: consume_unfold[OF assms(1), of handle "w @ later"] assms(2))
qed

lemma consume_bad:
  assumes "ok p" "next_frame p buf = Bad why" "buf \<noteq> []"
  shows "consume (next_frame p) handle buf s = (Broken why, buf, s)"
  by (simp add: consume_unfold[OF assms(1), of handle buf] assms)

lemma consume_frames:
  assumes "ok p"
  shows "list_all2 (\<lambda>f w. \<forall>later. next_frame p (w @ later) = Got f (length w)) fs ws \<Longrightarrow>
    consume (next_frame p) (\<lambda>f s. (s @ [f], True)) (concat ws @ later) s =
    consume (next_frame p) (\<lambda>f s. (s @ [f], True)) later (s @ fs)"
proof (induction fs ws arbitrary: s rule: list_all2_induct)
  case (Cons f fs w ws)
  then show ?case by (simp add: consume_got[OF assms, of w "concat ws @ later" f])
qed simp

text \<open>However the network cuts the stream, the handler sees the same frames in the same order,
  the state and the buffer that are left are the same, and so is the verdict.\<close>

lemma feed_concat:
  assumes "ok p" and "consume (next_frame p) handle buf s = (Waiting, buf, s)"
  shows "feed (next_frame p) handle cs buf s = consume (next_frame p) handle (buf @ concat cs) s"
  using assms(2)
proof (induction cs arbitrary: buf s)
  case Nil
  then show ?case by simp
next
  case (Cons c cs)
  obtain st buf' s' where r: "consume (next_frame p) handle (buf @ c) s = (st, buf', s')"
    by (cases "consume (next_frame p) handle (buf @ c) s")
  show ?case
  proof (cases st)
    case Waiting
    have "consume (next_frame p) handle ((buf @ c) @ []) s =
      consume (next_frame p) handle (buf' @ []) s'"
      by (subst consume_append[OF assms(1)]) (simp add: r Waiting)
    with r Waiting have "consume (next_frame p) handle buf' s' = (Waiting, buf', s')" by simp
    from Cons.IH[OF this] r Waiting show ?thesis
      using consume_append[OF assms(1), of handle "buf @ c" "concat cs" s] by simp
  qed (use r consume_append[OF assms(1), of handle "buf @ c" "concat cs" s] in auto)
qed

text \<open>What is found in a prefix of the stream is its first frame, and nothing in it is taken for broken.\<close>

lemma stream_got:
  assumes "ok p" "reads_back (next_frame p) W G" "stream_of W (buf @ later)" "next_frame p buf = Got f n"
  shows "G f \<and> stream_of W (drop n buf @ later)"
proof -
  note got = got_progress[OF assms(1,4)] got_extend[OF assms(1,4), of later]
  from assms(3) show ?thesis
  proof (cases rule: stream_of.cases)
    case stream_Nil
    with got(1) show ?thesis by auto
  next
    case (stream_Cons c s)
    with assms(2) obtain g where g: "G g" "next_frame p (c @ s) = Got g (length c)" by (auto simp: reads_back_def)
    with got(2) stream_Cons(1) have eq: "g = f" "length c = n" by auto
    then have "drop n (buf @ later) = s" by (simp add: stream_Cons(1) flip: eq(2))
    with got(1) have "drop n buf @ later = s" by simp
    with g eq stream_Cons(3) show ?thesis by simp
  qed
qed

lemma stream_not_bad:
  assumes "ok p" "reads_back (next_frame p) W G" "stream_of W (buf @ later)" "buf \<noteq> []"
  shows "next_frame p buf \<noteq> Bad why"
proof
  assume "next_frame p buf = Bad why"
  from bad_extend[OF assms(1) this, of later] have b: "next_frame p (buf @ later) = Bad why" .
  from assms(3) show False
  proof (cases rule: stream_of.cases)
    case stream_Nil
    with assms(4) show ?thesis by simp
  next
    case (stream_Cons c s)
    with assms(2) b show ?thesis by (auto simp: reads_back_def)
  qed
qed

text \<open>The loop over a buffer that ends somewhere in the stream.\<close>

lemma stream_consume:
  assumes ok: "ok p" and dec: "reads_back (next_frame p) W G"
    and refl: "\<And>s. R s s" and trans: "\<And>a b c. R a b \<Longrightarrow> R b c \<Longrightarrow> R a c"
    and handle: "\<And>f s s' go_on. G f \<Longrightarrow> handle f s = (s', go_on) \<Longrightarrow> R s s'"
  shows "stream_of W (buf @ later) \<Longrightarrow> consume_fuel n (next_frame p) handle buf s = (status, buf', s') \<Longrightarrow>
    stream_of W (buf' @ later) \<and> R s s' \<and> (\<forall>why. status \<noteq> Broken why)"
proof (induction n arbitrary: buf s)
  case (Suc n)
  show ?case
  proof (cases "buf = []")
    case False
    show ?thesis
    proof (cases "next_frame p buf")
      case (Got f k)
      obtain s1 b where h: "handle f s = (s1, b)" by (rule prod.exhaust)
      note g = stream_got[OF ok dec Suc.prems(1) Got]
      have r: "R s s1" using handle[OF _ h] g by blast
      from Suc.IH[of "drop k buf" s1] Suc.prems(2) False Got h g r show ?thesis
        by (cases b) (auto intro: trans)
    next
      case (Bad why)
      with stream_not_bad[OF ok dec Suc.prems(1) False, of why] show ?thesis by blast
    qed (use Suc.prems False refl in auto)
  qed (use Suc.prems refl in auto)
qed (auto simp: refl)

end

subsection \<open>The parser of the provider\<close>

text \<open>
  One turn of the loop of \<open>KrpcProvider::OnMessage\<close> up to \<open>buffer->retrieve\<close>. Magic and version
  are checked as soon as the header is there, before the body has arrived.
\<close>

type_synonym rpc_frame = "RpcHeader \<times> string"

definition provider_next_frame :: "pb_runtime \<Rightarrow> string \<Rightarrow> rpc_frame fstep" where
  "provider_next_frame rt buf =
     (case coded_ReadVarint32 rt buf of
        None \<Rightarrow> NeedMore
      | Some (header_size, varint_bytes) \<Rightarrow>
          if length buf < varint_bytes + unat header_size then NeedMore
          else (case coded_ReadString rt (drop varint_bytes buf) header_size of
                  None \<Rightarrow> Bad ''read header error''
                | Some header_str \<Rightarrow>
                    (case ParseFromString rt header_str of
                       None \<Rightarrow> Bad ''krpcHeader parse error''
                     | Some h \<Rightarrow>
                         if magic h \<noteq> kDefaultMagic then Bad ''invalid magic number''
                         else if version h \<noteq> kDefaultVersion then Bad ''invalid rpc version''
                         else (let pos = varint_bytes + length header_str
                               in if length buf < pos + unat (body_size h) then NeedMore
                                  else if 0 < unat (body_size h)
                                  then (case coded_ReadString rt (drop pos buf) (body_size h) of
                                          None \<Rightarrow> Bad ''read args error''
                                        | Some args \<Rightarrow> Got (h, args) (pos + length args))
                                  else Got (h, []) pos))))"

subsection \<open>The parser of the client\<close>

text \<open>
  One turn of the inner loop of \<open>KrpcChannel::RecvLoop\<close> up to \<open>m_recv_buffer.erase\<close>. Unlike the
  provider, it cuts the frame first and looks at the magic afterwards; it never looks at the version.
\<close>

definition channel_next_frame :: "pb_runtime \<Rightarrow> string \<Rightarrow> rpc_frame fstep" where
  "channel_next_frame rt buf =
     (case coded_ReadVarint32 rt buf of
        None \<Rightarrow> NeedMore
      | Some (resp_header_size, after_varint) \<Rightarrow>
          if length buf < after_varint + unat resp_header_size then NeedMore
          else (case coded_ReadString rt (drop after_varint buf) resp_header_size of
                  None \<Rightarrow> Bad ''read response header error''
                | Some resp_header_str \<Rightarrow>
                    (case ParseFromString rt resp_header_str of
                       None \<Rightarrow> Bad ''parse response header error''
                     | Some h \<Rightarrow>
                         (let pos = after_varint + length resp_header_str
                          in if length buf < pos + unat (body_size h) then NeedMore
                             else if 0 < unat (body_size h)
                             then (case coded_ReadString rt (drop pos buf) (body_size h) of
                                     None \<Rightarrow> Bad ''read response payload error''
                                   | Some payload \<Rightarrow> Got (h, payload) (pos + length payload))
                             else Got (h, []) pos))))"

definition rt_ok :: "pb_runtime \<Rightarrow> bool" where
  "rt_ok rt \<longleftrightarrow> (\<exists>vi. pb_ok rt vi)"

lemma rt_ok_varint:
  assumes "rt_ok rt" "coded_ReadVarint32 rt s = Some (v, n)"
  shows "0 < n \<and> n \<le> length s \<and> (\<forall>r. coded_ReadVarint32 rt (s @ r) = Some (v, n))"
  using assms pb_coded_extend[of rt _ s v n] unfolding rt_ok_def by blast

lemma rt_ok_string:
  "rt_ok rt \<Longrightarrow> coded_ReadString rt s n =
     (if unat n < 2147483648 \<and> unat n \<le> length s then Some (take (unat n) s) else None)"
  unfolding rt_ok_def using pb_read_simps(6) by blast

named_theorems frame_cases \<open>case splits of the frame parsers\<close>

lemmas [frame_cases] = option.splits prod.splits if_splits

text \<open>The shape that both parsers share: \<open>chk\<close> is what is asked of the header, the strings are the three
  error texts.\<close>

definition header_framed ::
    "(RpcHeader \<Rightarrow> string option) \<Rightarrow> string \<Rightarrow> string \<Rightarrow> string \<Rightarrow> pb_runtime \<Rightarrow> string \<Rightarrow> rpc_frame fstep" where
  "header_framed chk e1 e2 e3 rt buf =
     (case coded_ReadVarint32 rt buf of
        None \<Rightarrow> NeedMore
      | Some (v, n) \<Rightarrow>
          if length buf < n + unat v then NeedMore
          else (case coded_ReadString rt (drop n buf) v of
                  None \<Rightarrow> Bad e1
                | Some hs \<Rightarrow>
                    (case ParseFromString rt hs of
                       None \<Rightarrow> Bad e2
                     | Some h \<Rightarrow>
                         (case chk h of
                            Some why \<Rightarrow> Bad why
                          | None \<Rightarrow>
                              (let pos = n + length hs
                               in if length buf < pos + unat (body_size h) then NeedMore
                                  else if 0 < unat (body_size h)
                                  then (case coded_ReadString rt (drop pos buf) (body_size h) of
                                          None \<Rightarrow> Bad e3
                                        | Some body \<Rightarrow> Got (h, body) (pos + length body))
                                  else Got (h, []) pos)))))"

lemma provider_framed:
  "provider_next_frame = header_framed
     (\<lambda>h. if magic h \<noteq> kDefaultMagic then Some ''invalid magic number''
          else if version h \<noteq> kDefaultVersion then Some ''invalid rpc version'' else None)
     ''read header error'' ''krpcHeader parse error'' ''read args error''"
  by (intro ext) (simp add: provider_next_frame_def header_framed_def split: option.split)

lemma channel_framed:
  "channel_next_frame = header_framed (\<lambda>h. None)
     ''read response header error'' ''parse response header error'' ''read response payload error''"
  by (intro ext) (simp only: channel_next_frame_def header_framed_def option.case)

lemma framed_progress:
  assumes "rt_ok rt" "header_framed chk e1 e2 e3 rt buf = Got f k"
  shows "0 < k \<and> k \<le> length buf"
proof -
  note rules = header_framed_def Let_def rt_ok_string[OF assms(1)]
  from assms(2) obtain v n where r: "coded_ReadVarint32 rt buf = Some (v, n)"
    by (auto simp: rules split: option.splits)
  from assms(2) rt_ok_varint[OF assms(1) r] show ?thesis by (auto simp: rules r split: frame_cases)
qed

text \<open>Once a parser has an answer, later bytes do not change it.\<close>

lemma framed_stable:
  assumes ok: "rt_ok rt" and g: "header_framed chk e1 e2 e3 rt buf \<noteq> NeedMore"
  shows "header_framed chk e1 e2 e3 rt (buf @ later) = header_framed chk e1 e2 e3 rt buf"
proof -
  note rules = header_framed_def Let_def rt_ok_string[OF ok]
  from g obtain v n where r: "coded_ReadVarint32 rt buf = Some (v, n)"
    by (auto simp: rules split: option.splits)
  then have r': "coded_ReadVarint32 rt (buf @ later) = Some (v, n)" and n: "n \<le> length buf"
    using rt_ok_varint[OF ok r] by simp_all
  from g have l: "n + unat v \<le> length buf" by (simp add: rules r split: if_splits)
  let ?hs = "take (unat v) (drop n buf)"
  have hs: "take (unat v) (drop n (buf @ later)) = ?hs" and len: "length ?hs = unat v"
    "unat v \<le> length buf - n" "unat v \<le> length (buf @ later) - n" "n + unat v \<le> length (buf @ later)"
    using l by simp_all
  have body: "take m (drop (n + unat v) (buf @ later)) = take m (drop (n + unat v) buf)"
    "n + unat v + m \<le> length (buf @ later)" "m \<le> length (buf @ later) - (n + unat v)"
    "m \<le> length buf - (n + unat v)"
    if "n + unat v + m \<le> length buf" for m
    using that by simp_all
  note r2 = rules r r' hs len l leD[OF l] leD[OF len(4)] length_drop if_True if_False not_False_eq_True
  note cases = option.case prod.case simp_thms
  show ?thesis
  proof (cases "unat v < 2147483648")
    case True
    show ?thesis
    proof (cases "ParseFromString rt ?hs")
      case (Some h)
      show ?thesis
      proof (cases "n + unat v + unat (body_size h) \<le> length buf")
        case fits: True
        show ?thesis
          by (simp only: r2 True Some fits body[OF fits] leD[OF fits] leD[OF body(2)[OF fits]] cases)
      next
        case False
        with g True Some show ?thesis
          by (simp only: r2 True Some False cases) (auto split: if_splits option.splits)
      qed
    qed (simp only: r2 True cases)
  qed (simp only: r2 cases)
qed

interpretation provider_frames: frame_stream provider_next_frame rt_ok
  by unfold_locales (auto simp: provider_framed framed_stable framed_progress)

interpretation channel_frames: frame_stream channel_next_frame rt_ok
  by unfold_locales (auto simp: channel_framed framed_stable framed_progress)

subsection \<open>Reading back a written frame\<close>

text \<open>The bytes every sender of the protocol puts on the wire: the length of the header as a
  varint, the header, the body.\<close>

definition frame_bytes :: "pb_runtime \<Rightarrow> RpcHeader \<Rightarrow> string \<Rightarrow> string option" where
  "frame_bytes rt h body =
     (case SerializeToString rt h of
        None \<Rightarrow> None
      | Some header_str \<Rightarrow>
          Some (WriteVarint32 rt (of_nat (length header_str)) @ header_str @ body))"

definition header_fits :: "pb_runtime \<Rightarrow> RpcHeader \<Rightarrow> string \<Rightarrow> bool" where
  "header_fits rt h body \<longleftrightarrow> unknown_fields h = [] \<and> length (service_name h) < 2147483648 \<and>
     length (method_name h) < 2147483648 \<and> ByteSizeLong rt h < 2147483648 \<and>
     length body < 2147483648 \<and> body_size h = of_nat (length body)"

lemma unat_of_nat_u32: "n < 2147483648 \<Longrightarrow> unat (of_nat n :: u32) = n"
  by (simp add: unat_of_nat take_bit_nat_eq_self)

lemma ParseFromString_SerializeToString:
  assumes "pb_ok rt vi" "unknown_fields h = []"
    "length (service_name h) < 2147483648" "length (method_name h) < 2147483648"
    "SerializeToString rt h = Some s"
  shows "ParseFromString rt s = Some h"
  using parses_InternalSerialize[OF assms(1-4)] assms(5)
  by (auto simp: ParseFromString_def parses_def SerializeToString_def split: if_splits)

lemma frame_bytes_read:
  assumes "rt_ok rt" "header_fits rt h body"
  obtains hs v where
    "frame_bytes rt h body = Some (v @ hs @ body)" "ParseFromString rt hs = Some h"
    "\<And>r. coded_ReadVarint32 rt (v @ r) = Some (of_nat (length hs), length v)"
    "unat (of_nat (length hs) :: u32) = length hs" "length hs < 2147483648"
proof -
  from assms(1) obtain vi where ok: "pb_ok rt vi" by (auto simp: rt_ok_def)
  note len = ByteSizeLong_length[OF ok, of h]
  let ?hs = "InternalSerialize rt h"
  have n: "length ?hs < 2147483648" using assms(2) len by (simp add: header_fits_def)
  have "SerializeToString rt h = Some ?hs"
    using assms(2) by (simp add: SerializeToString_def header_fits_def pb_write_simps[OF ok])
  moreover have "coded_ReadVarint32 rt (WriteVarint32 rt (of_nat (length ?hs)) @ r) =
      Some (of_nat (length ?hs), length (WriteVarint32 rt (of_nat (length ?hs))))" for r
    by (simp only: pb_write_simps[OF ok] pb_read_simps[OF ok])
  ultimately show ?thesis
    using that[of "WriteVarint32 rt (of_nat (length ?hs))" ?hs]
      n assms(2) ParseFromString_SerializeToString[OF ok, of h ?hs]
    by (simp add: frame_bytes_def header_fits_def unat_of_nat_u32)
qed

lemma provider_next_frame_frame_bytes:
  assumes "rt_ok rt" "header_fits rt h body" "frame_bytes rt h body = Some w"
    "magic h = kDefaultMagic" "version h = kDefaultVersion"
  shows "provider_next_frame rt (w @ later) = Got (h, body) (length w)"
  using assms(2-)
  by (rule_tac frame_bytes_read[OF assms(1,2)])
    (auto simp: provider_next_frame_def Let_def rt_ok_string[OF assms(1)] header_fits_def
      unat_of_nat_u32)

lemma provider_next_frame_refused:
  assumes "rt_ok rt" "header_fits rt h body" "frame_bytes rt h body = Some w"
  shows "magic h \<noteq> kDefaultMagic \<Longrightarrow> provider_next_frame rt (w @ later) = Bad ''invalid magic number''"
    "magic h = kDefaultMagic \<Longrightarrow> version h \<noteq> kDefaultVersion \<Longrightarrow>
       provider_next_frame rt (w @ later) = Bad ''invalid rpc version''"
    "w \<noteq> []"
proof -
  obtain hs v where f: "frame_bytes rt h body = Some (v @ hs @ body)" "ParseFromString rt hs = Some h"
    "\<And>r. coded_ReadVarint32 rt (v @ r) = Some (of_nat (length hs), length v)"
    "unat (of_nat (length hs) :: u32) = length hs" "length hs < 2147483648"
    using frame_bytes_read[OF assms(1,2)] by metis
  note rules = provider_next_frame_def Let_def rt_ok_string[OF assms(1)]
  have w: "w = v @ hs @ body" using f(1) assms(3) by simp
  show "magic h \<noteq> kDefaultMagic \<Longrightarrow> provider_next_frame rt (w @ later) = Bad ''invalid magic number''"
    "magic h = kDefaultMagic \<Longrightarrow> version h \<noteq> kDefaultVersion \<Longrightarrow>
       provider_next_frame rt (w @ later) = Bad ''invalid rpc version''"
    using f by (simp_all add: rules w)
  show "w \<noteq> []" using rt_ok_varint[OF assms(1) f(3)[of "[]"]] by (auto simp: w)
qed

lemma channel_next_frame_frame_bytes:
  assumes "rt_ok rt" "header_fits rt h body" "frame_bytes rt h body = Some w"
  shows "channel_next_frame rt (w @ later) = Got (h, body) (length w)"
  using assms(2-)
  by (rule_tac frame_bytes_read[OF assms(1,2)])
    (auto simp: channel_next_frame_def Let_def rt_ok_string[OF assms(1)] header_fits_def
      unat_of_nat_u32)

end
