(* ===== verification/Load_Balancing.thy ===== *)
theory Load_Balancing
  imports Krpc_Config
begin

section \<open>Load balancing\<close>

text \<open>
  The model of \<open>load_balancer.h\<close> and \<open>load_balancer.cc\<close>: endpoints, the interface
  \<open>ILoadBalancer\<close> (a locale) and its implementation \<open>RoundRobinLoadBalancer\<close>, whose
  position is the static 64-bit counter \<open>s_global_index_\<close> shared by every balancer of the
  process. The client of the interface, \<open>EnsureConnection\<close>, updates the nodes, selects one
  and looks up its position; what it relies on is proved once in the locale.
\<close>

record Endpoint =
  host :: string
  port :: u16
  weight :: int

definition mk_endpoint :: "string \<Rightarrow> u16 \<Rightarrow> Endpoint" where
  "mk_endpoint h p = \<lparr>host = h, port = p, weight = 1\<rparr>"

lemma mk_endpoint_simps [simp]:
  "host (mk_endpoint h p) = h" "port (mk_endpoint h p) = p" "weight (mk_endpoint h p) = 1"
  by (simp_all add: mk_endpoint_def)

record RoundRobin =
  rr_nodes :: "Endpoint list"
  s_global_index :: u64

definition UpdateNodes :: "Endpoint list \<Rightarrow> RoundRobin \<Rightarrow> RoundRobin" where
  "UpdateNodes nodes lb = lb\<lparr>rr_nodes := nodes\<rparr>"

definition Select :: "string \<Rightarrow> RoundRobin \<Rightarrow> Endpoint option \<times> RoundRobin" where
  "Select key lb =
     (if rr_nodes lb = [] then (None, lb)
      else (Some (rr_nodes lb ! (unat (s_global_index lb) mod length (rr_nodes lb))),
            lb\<lparr>s_global_index := s_global_index lb + 1\<rparr>))"

text \<open>The loop of \<open>EnsureConnection\<close> that finds the selected endpoint in the list.\<close>

fun find_start_from :: "nat \<Rightarrow> Endpoint list \<Rightarrow> Endpoint \<Rightarrow> nat" where
  "find_start_from i [] selected = 0"
| "find_start_from i (e # es) selected =
     (if host e = host selected \<and> port e = port selected then i
      else find_start_from (Suc i) es selected)"

definition find_start_index :: "Endpoint list \<Rightarrow> Endpoint \<Rightarrow> nat" where
  "find_start_index endpoints selected = find_start_from 0 endpoints selected"

lemma find_start_from_mem:
  "e \<in> set es \<Longrightarrow> i \<le> find_start_from i es e \<and> find_start_from i es e < i + length es \<and>
     host (es ! (find_start_from i es e - i)) = host e \<and>
     port (es ! (find_start_from i es e - i)) = port e"
proof (induction i es e rule: find_start_from.induct)
  case (2 i x es e)
  then show ?case by (auto simp: Suc_diff_le nth_Cons')
qed simp

lemma find_start_from_bound: "es \<noteq> [] \<Longrightarrow> find_start_from i es e < i + length es"
proof (induction i es e rule: find_start_from.induct)
  case (2 i x es e)
  then show ?case by (cases "es = []") auto
qed simp

lemma find_start_index_less: "es \<noteq> [] \<Longrightarrow> find_start_index es e < length es"
  using find_start_from_bound[of es 0 e] by (simp add: find_start_index_def)

subsection \<open>The interface\<close>

locale load_balancer =
  fixes update_nodes :: "Endpoint list \<Rightarrow> 'lb \<Rightarrow> 'lb"
    and select_node :: "string \<Rightarrow> 'lb \<Rightarrow> Endpoint option \<times> 'lb"
    and nodes_of :: "'lb \<Rightarrow> Endpoint list"
  assumes nodes_update: "nodes_of (update_nodes eps lb) = eps"
    and nodes_select: "nodes_of (snd (select_node k lb)) = nodes_of lb"
    and select_None: "fst (select_node k lb) = None \<longleftrightarrow> nodes_of lb = []"
    and select_mem: "fst (select_node k lb) = Some e \<Longrightarrow> e \<in> set (nodes_of lb)"
begin

text \<open>What the client does with the interface: the selection after an update is one of the
  endpoints just given, and the index search finds it.\<close>

lemma select_after_update:
  assumes "eps \<noteq> []"
  obtains e where "fst (select_node k (update_nodes eps lb)) = Some e" "e \<in> set eps"
proof -
  have "fst (select_node k (update_nodes eps lb)) \<noteq> None"
    using assms by (simp add: select_None nodes_update)
  then obtain e where e: "fst (select_node k (update_nodes eps lb)) = Some e" by auto
  then have "e \<in> set eps" using select_mem[OF e] by (simp add: nodes_update)
  with e show ?thesis by (rule that)
qed

lemma start_of_selection:
  assumes "fst (select_node k (update_nodes eps lb)) = Some e"
  shows "find_start_index eps e < length eps"
    and "host (eps ! find_start_index eps e) = host e"
    and "port (eps ! find_start_index eps e) = port e"
proof -
  from select_mem[OF assms] have "e \<in> set eps" by (simp add: nodes_update)
  from find_start_from_mem[OF this, of 0]
  show "find_start_index eps e < length eps"
    and "host (eps ! find_start_index eps e) = host e"
    and "port (eps ! find_start_index eps e) = port e"
    by (simp_all add: find_start_index_def)
qed

end

interpretation rrlb: load_balancer UpdateNodes Select rr_nodes
  by unfold_locales (auto simp: UpdateNodes_def Select_def split: if_splits)

subsection \<open>Fairness of the rotation\<close>

text \<open>The endpoints chosen by \<open>k\<close> successive selections.\<close>

fun select_many :: "nat \<Rightarrow> RoundRobin \<Rightarrow> Endpoint list" where
  "select_many 0 lb = []"
| "select_many (Suc k) lb =
     (case Select [] lb of (None, lb') \<Rightarrow> [] | (Some e, lb') \<Rightarrow> e # select_many k lb')"

lemma Select_key_irrelevant: "Select key lb = Select [] lb"
  by (simp add: Select_def)

lemma unat_suc_index: "unat (i :: u64) + 1 < 2 ^ 64 \<Longrightarrow> unat (i + 1) = Suc (unat i)"
  by (simp add: unat_word_ariths)

lemma select_many_nth:
  "rr_nodes lb \<noteq> [] \<Longrightarrow> unat (s_global_index lb) + k < 2 ^ 64 \<Longrightarrow>
     select_many k lb =
       map (\<lambda>j. rr_nodes lb ! ((unat (s_global_index lb) + j) mod length (rr_nodes lb))) [0..<k]"
proof (induction k arbitrary: lb)
  case (Suc k)
  let ?lb = "lb\<lparr>s_global_index := s_global_index lb + 1\<rparr>"
  have u: "unat (s_global_index ?lb) = Suc (unat (s_global_index lb))"
    using Suc.prems(2) unat_suc_index[of "s_global_index lb"] by simp
  have "select_many k ?lb =
      map (\<lambda>j. rr_nodes lb ! ((Suc (unat (s_global_index lb)) + j) mod length (rr_nodes lb))) [0..<k]"
    using Suc.IH[of ?lb] Suc.prems by (simp only: u) simp
  moreover have "[0..<Suc k] = 0 # map Suc [0..<k]"
    by (simp only: map_Suc_upt) (simp add: upt_conv_Cons del: upt_Suc)
  ultimately show ?case
    using Suc.prems(1) by (simp add: Select_def comp_def del: upt_Suc)
qed simp

lemma rotation_mset:
  assumes "ns \<noteq> []"
  shows "mset (map (\<lambda>j. ns ! ((i + j) mod length ns)) [0..<length ns]) = mset ns"
proof -
  have "map (\<lambda>j. ns ! ((i + j) mod length ns)) [0..<length ns] = rotate i ns"
    by (rule nth_equalityI) (use assms in \<open>auto simp: nth_rotate add.commute\<close>)
  then show ?thesis
    by (metis append_take_drop_id mset_append rotate_drop_take union_commute)
qed

lemma rounds_mset:
  assumes "ns \<noteq> []"
  shows "mset (map (\<lambda>j. ns ! ((i + j) mod length ns)) [0..<r * length ns]) = repeat_mset r (mset ns)"
proof (induction r)
  case (Suc r)
  let ?f = "\<lambda>j. ns ! ((i + j) mod length ns)"
  let ?n = "length ns"
  have "[0..<Suc r * ?n] = [0..<r * ?n] @ map (\<lambda>j. j + r * ?n) [0..<?n]"
    by (metis add.commute add.left_neutral le_add1 map_add_upt mult_Suc upt_add_eq_append zero_le)
  then have "map ?f [0..<Suc r * ?n] = map ?f [0..<r * ?n] @ map ?f [0..<?n]"
    by (simp add: comp_def add.assoc[symmetric] del: mult_Suc)
  then have "mset (map ?f [0..<Suc r * ?n]) = repeat_mset r (mset ns) + mset ns"
    by (metis Suc mset_append rotation_mset[OF assms])
  then show ?case by simp
qed simp

end
