(* ===== verification/Zk_Client.thy ===== *)
theory Zk_Client
  imports Krpc_Config
begin

section \<open>The ZooKeeper client\<close>

text \<open>
  The model of \<open>zookeeperutil.cc\<close>. The ZooKeeper C client library is not part of the
  repository: its calls are the record \<open>zk_api\<close>, over an abstract server state \<open>'z\<close>, and what
  the code relies on is the predicate \<open>zk_ok\<close>, which relates the calls to a tree of nodes
  (path to data and ephemeral flag) as the library documents. An \<open>exit\<close> of the process is
  \<open>Inl EXIT_FAILURE\<close>; waiting forever is \<open>None\<close>.
\<close>

datatype zk_code = ZOK | ZNONODE | ZFAIL int

record 'z zk_api =
  zoo_exists :: "'z \<Rightarrow> string \<Rightarrow> zk_code \<times> bool"
  zoo_create :: "'z \<Rightarrow> string \<Rightarrow> string option \<Rightarrow> bool \<Rightarrow> zk_code \<times> 'z"
  zoo_delete :: "'z \<Rightarrow> string \<Rightarrow> zk_code \<times> 'z"
  zoo_set :: "'z \<Rightarrow> string \<Rightarrow> string \<Rightarrow> zk_code \<times> 'z"
  zoo_get :: "'z \<Rightarrow> string \<Rightarrow> zk_code \<times> string"
  zoo_get_children :: "'z \<Rightarrow> string \<Rightarrow> zk_code \<times> string list"

type_synonym node_view = "string \<Rightarrow> (string option \<times> bool) option"

text \<open>The documented behaviour: the calls read and write a tree of nodes. The second
  component of \<open>zoo_exists\<close> says whether the node is ephemeral.\<close>

definition zk_ok :: "'z zk_api \<Rightarrow> ('z \<Rightarrow> node_view) \<Rightarrow> bool" where
  "zk_ok api view \<longleftrightarrow>
     (\<forall>z p b. zoo_exists api z p = (ZNONODE, b) \<longrightarrow> view z p = None) \<and>
     (\<forall>z p b. zoo_exists api z p = (ZOK, b) \<longrightarrow> (\<exists>d. view z p = Some (d, b))) \<and>
     (\<forall>z p d e z'. zoo_create api z p d e = (ZOK, z') \<longrightarrow> view z' = (view z)(p \<mapsto> (d, e))) \<and>
     (\<forall>z p z'. zoo_delete api z p = (ZOK, z') \<longrightarrow> view z' = (view z)(p := None)) \<and>
     (\<forall>z p z'. zoo_delete api z p = (ZNONODE, z') \<longrightarrow> view z' = view z) \<and>
     (\<forall>z p d z'. zoo_set api z p d = (ZOK, z') \<longrightarrow>
        (\<exists>d0 e. view z p = Some (d0, e) \<and> view z' = (view z)(p \<mapsto> (Some d, e)))) \<and>
     (\<forall>z p d. zoo_get api z p = (ZOK, d) \<longrightarrow> (\<exists>e. view z p = Some (Some d, e))) \<and>
     (\<forall>z p cs. zoo_get_children api z p = (ZOK, cs) \<longrightarrow>
        set cs = {c. CHR ''/'' \<notin> set c \<and> c \<noteq> [] \<and> view z (p @ ''/'' @ c) \<noteq> None})"

subsection \<open>Connecting\<close>

record ZkClient =
  m_zhandle :: bool
  m_connected :: bool

definition new_ZkClient :: ZkClient where
  "new_ZkClient = \<lparr>m_zhandle = False, m_connected = False\<rparr>"

record zk_event =
  ev_session :: bool
  ev_connected :: bool

definition NotifyConnected :: "ZkClient \<Rightarrow> ZkClient" where
  "NotifyConnected c = c\<lparr>m_connected := True\<rparr>"

definition GlobalWatcher :: "zk_event \<Rightarrow> bool \<Rightarrow> ZkClient \<Rightarrow> ZkClient" where
  "GlobalWatcher ev has_ctx c =
     (if ev_session ev \<and> ev_connected ev \<and> has_ctx then NotifyConnected c else c)"

text \<open>\<open>Start\<close>: the watcher thread delivers the events in order and the caller waits until the
  session is connected. \<open>None\<close>: the wait never ends on these events.\<close>

fun wait_connected :: "zk_event list \<Rightarrow> ZkClient \<Rightarrow> ZkClient option" where
  "wait_connected [] c = (if m_connected c then Some c else None)"
| "wait_connected (ev # evs) c =
     (if m_connected c then Some c else wait_connected evs (GlobalWatcher ev True c))"

definition Start ::
    "bool \<Rightarrow> zk_event list \<Rightarrow> ZkClient \<Rightarrow> (exit_code + ZkClient) option" where
  "Start init_ok events c =
     (let c1 = c\<lparr>m_connected := False\<rparr>
      in if \<not> init_ok then Some (Inl EXIT_FAILURE)
         else map_option Inr (wait_connected events (c1\<lparr>m_zhandle := True\<rparr>)))"

lemma wait_connected_iff:
  "(\<exists>c'. wait_connected evs c = Some c') \<longleftrightarrow>
     m_connected c \<or> (\<exists>ev \<in> set evs. ev_session ev \<and> ev_connected ev)"
  by (induction evs c rule: wait_connected.induct)
    (auto simp: GlobalWatcher_def NotifyConnected_def split: if_splits)

lemma wait_connected_connected: "wait_connected evs c = Some c' \<Longrightarrow> m_connected c'"
  by (induction evs c rule: wait_connected.induct) (auto split: if_splits)

subsection \<open>Creating nodes\<close>

definition Create ::
    "'z zk_api \<Rightarrow> string \<Rightarrow> string option \<Rightarrow> nat \<Rightarrow> bool \<Rightarrow> 'z \<Rightarrow> exit_code + 'z" where
  "Create api path data datalen ephemeral z =
     (case zoo_exists api z path of
        (ZNONODE, _) \<Rightarrow>
          (case zoo_create api z path data ephemeral of
             (ZOK, z') \<Rightarrow> Inr z'
           | _ \<Rightarrow> Inl EXIT_FAILURE)
      | (ZOK, is_ephemeral) \<Rightarrow>
          (if is_ephemeral \<noteq> ephemeral then
             (case zoo_delete api z path of
                (ZFAIL _, _) \<Rightarrow> Inl EXIT_FAILURE
              | (_, z1) \<Rightarrow>
                  (case zoo_create api z1 path data ephemeral of
                     (ZOK, z2) \<Rightarrow> Inr z2
                   | _ \<Rightarrow> Inl EXIT_FAILURE))
           else (case data of
                   Some d \<Rightarrow>
                     (if datalen > 0 then
                        (case zoo_set api z path d of
                           (ZOK, z') \<Rightarrow> Inr z'
                         | _ \<Rightarrow> Inl EXIT_FAILURE)
                      else Inr z)
                 | None \<Rightarrow> Inr z))
      | (ZFAIL _, _) \<Rightarrow> Inl EXIT_FAILURE)"

lemma zk_exists_None: "zk_ok api view \<Longrightarrow> zoo_exists api z p = (ZNONODE, b) \<Longrightarrow> view z p = None"
  by (simp add: zk_ok_def)

lemma zk_exists_Some:
  "zk_ok api view \<Longrightarrow> zoo_exists api z p = (ZOK, b) \<Longrightarrow> \<exists>d. view z p = Some (d, b)"
  by (simp add: zk_ok_def)

lemma zk_created:
  "zk_ok api view \<Longrightarrow> zoo_create api z p d e = (ZOK, z') \<Longrightarrow> view z' = (view z)(p \<mapsto> (d, e))"
  by (simp add: zk_ok_def)

lemma zk_deleted:
  "zk_ok api view \<Longrightarrow> zoo_delete api z p = (ZOK, z') \<Longrightarrow> view z' = (view z)(p := None)"
  by (simp add: zk_ok_def)

lemma zk_delete_None:
  "zk_ok api view \<Longrightarrow> zoo_delete api z p = (ZNONODE, z') \<Longrightarrow> view z' = view z"
  by (simp add: zk_ok_def)

lemma zk_set:
  "zk_ok api view \<Longrightarrow> zoo_set api z p d = (ZOK, z') \<Longrightarrow>
     \<exists>d0 e. view z p = Some (d0, e) \<and> view z' = (view z)(p \<mapsto> (Some d, e))"
  by (simp add: zk_ok_def)

lemma zk_children:
  "zk_ok api view \<Longrightarrow> zoo_get_children api z p = (ZOK, cs) \<Longrightarrow>
     set cs = {c. CHR ''/'' \<notin> set c \<and> c \<noteq> [] \<and> view z (p @ ''/'' @ c) \<noteq> None}"
  by (simp add: zk_ok_def)

lemma Create_view:
  assumes ok: "zk_ok api view" and c: "Create api path data n e z = Inr z'"
  shows "\<exists>d. view z' = (view z)(path \<mapsto> (d, e)) \<and> (\<forall>x. data = Some x \<longrightarrow> 0 < n \<longrightarrow> d = Some x)"
proof -
  obtain code b where ex: "zoo_exists api z path = (code, b)" by (cases "zoo_exists api z path")
  show ?thesis
  proof (cases code)
    case ZNONODE
    with c ex have "zoo_create api z path data e = (ZOK, z')"
      by (auto simp: Create_def split: prod.splits zk_code.splits)
    from zk_created[OF ok this] show ?thesis by auto
  next
    case (ZFAIL n)
    with c ex show ?thesis by (simp add: Create_def)
  next
    case ZOK
    with ok ex obtain d0 where d0: "view z path = Some (d0, b)" by (blast dest: zk_exists_Some)
    show ?thesis
    proof (cases "b = e")
      case False
      with c ex ZOK obtain z1 where z1: "zoo_create api z1 path data e = (ZOK, z')"
        and del: "zoo_delete api z path = (ZOK, z1) \<or> zoo_delete api z path = (ZNONODE, z1)"
        by (auto simp: Create_def split: prod.splits zk_code.splits)
      from del have "view z1 = (view z)(path := None) \<or> view z1 = view z"
        using zk_deleted[OF ok] zk_delete_None[OF ok] by blast
      with zk_created[OF ok z1] show ?thesis by auto
    next
      case True
      note b = this
      show ?thesis
      proof (cases "data = None \<or> n = 0")
        case True
        with c ex ZOK b have "z' = z" by (auto simp: Create_def split: option.splits)
        with d0 b True show ?thesis by (intro exI[of _ d0]) auto
      next
        case False
        then obtain x where x: "data = Some x" "0 < n" by auto
        with c ex ZOK b have "zoo_set api z path x = (ZOK, z')"
          by (auto simp: Create_def split: prod.splits zk_code.splits)
        from zk_set[OF ok this] d0 b x show ?thesis by auto
      qed
    qed
  qed
qed

subsection \<open>Reading nodes\<close>

text \<open>\<open>GetData\<close> reads into an uninitialised stack buffer of 64 bytes and returns it as a
  NUL-terminated string; \<open>stack\<close> is what the buffer held before. \<open>None\<close>: no NUL in the buffer,
  so the conversion reads past its end (undefined behaviour).\<close>

definition GetData :: "'z zk_api \<Rightarrow> string \<Rightarrow> string \<Rightarrow> 'z \<Rightarrow> string option" where
  "GetData api stack path z =
     (case zoo_get api z path of
        (ZOK, data) \<Rightarrow>
          (let buf = take 64 data @ drop (length (take 64 data)) (take 64 stack)
           in if CHR 0x00 \<in> set buf then Some (c_str buf) else None)
      | _ \<Rightarrow> Some [])"

definition GetChildren :: "'z zk_api \<Rightarrow> string \<Rightarrow> 'z \<Rightarrow> string list" where
  "GetChildren api path z =
     (case zoo_get_children api z path of (ZOK, cs) \<Rightarrow> cs | _ \<Rightarrow> [])"

text \<open>The result is the node's data exactly when the stack happened to hold a NUL right behind
  it: the code ignores the length that the library returned.\<close>

lemma GetData_correct:
  assumes "zoo_get api z path = (ZOK, data)" "CHR 0x00 \<notin> set data" "length data < 64"
    "length stack = 64"
  shows "GetData api stack path z = Some data \<longleftrightarrow> stack ! length data = CHR 0x00"
proof -
  let ?rest = "drop (length data) stack"
  have r: "?rest = stack ! length data # drop (Suc (length data)) stack"
    using assms(3,4) by (simp add: Cons_nth_drop_Suc)
  have c: "c_str (data @ ?rest) = data @ c_str ?rest"
    using assms(2) by (auto simp: c_str_def intro!: takeWhile_append2)
  have "c_str ?rest = [] \<longleftrightarrow> stack ! length data = CHR 0x00"
    by (simp add: r c_str_def)
  moreover have "stack ! length data = CHR 0x00 \<Longrightarrow> CHR 0x00 \<in> set ?rest" by (simp add: r)
  ultimately show ?thesis
    using assms c by (auto simp: GetData_def Let_def)
qed

subsection \<open>A concrete server\<close>

text \<open>A tree of nodes as an association list, which shows that \<open>zk_ok\<close> can hold.\<close>

type_synonym zk_tree = "(string \<times> string option \<times> bool) list"

definition child_name :: "string \<Rightarrow> string \<Rightarrow> string option" where
  "child_name p q =
     (let n = Suc (length p); c = drop n q
      in if take n q = p @ ''/'' \<and> c \<noteq> [] \<and> CHR ''/'' \<notin> set c then Some c else None)"

lemma child_name_iff: "child_name p q = Some c \<longleftrightarrow> q = p @ ''/'' @ c \<and> c \<noteq> [] \<and> CHR ''/'' \<notin> set c"
proof
  assume "child_name p q = Some c"
  then have "take (Suc (length p)) q = p @ ''/''" "drop (Suc (length p)) q = c" "c \<noteq> []" "CHR ''/'' \<notin> set c"
    by (auto simp: child_name_def Let_def split: if_splits)
  then show "q = p @ ''/'' @ c \<and> c \<noteq> [] \<and> CHR ''/'' \<notin> set c"
    by (metis append.assoc append_take_drop_id)
qed (simp add: child_name_def)

definition tree_api :: "zk_tree zk_api" where
  "tree_api = \<lparr>
     zoo_exists = (\<lambda>z p. case map_of z p of None \<Rightarrow> (ZNONODE, False) | Some (d, b) \<Rightarrow> (ZOK, b)),
     zoo_create = (\<lambda>z p d e. (ZOK, AList.update p (d, e) z)),
     zoo_delete = (\<lambda>z p. if map_of z p = None then (ZNONODE, z) else (ZOK, AList.delete p z)),
     zoo_set = (\<lambda>z p d. case map_of z p of None \<Rightarrow> (ZNONODE, z)
                 | Some (d0, b) \<Rightarrow> (ZOK, AList.update p (Some d, b) z)),
     zoo_get = (\<lambda>z p. case map_of z p of Some (Some d, b) \<Rightarrow> (ZOK, d) | _ \<Rightarrow> (ZNONODE, [])),
     zoo_get_children = (\<lambda>z p. (ZOK, List.map_filter (\<lambda>e. child_name p (fst e)) z))\<rparr>"

lemma tree_ok: "zk_ok tree_api map_of"
proof -
  have "c \<in> set (List.map_filter (\<lambda>e. child_name p (fst e)) z) \<longleftrightarrow>
      (\<exists>e \<in> set z. child_name p (fst e) = Some c)" for z :: zk_tree and p c
    by (force simp: List.map_filter_def)
  then have children: "set (List.map_filter (\<lambda>e. child_name p (fst e)) z) =
      {c. CHR ''/'' \<notin> set c \<and> c \<noteq> [] \<and> map_of z (p @ ''/'' @ c) \<noteq> None}" for z :: zk_tree and p
    unfolding child_name_iff map_of_eq_None_iff by (auto simp: image_iff) force+
  then show ?thesis
    by (auto simp: zk_ok_def tree_api_def children AList.update_conv' AList.delete_conv' split: option.splits if_splits)
qed

end
