(* ===== verification/Endpoint_Discovery.thy ===== *)
theory Endpoint_Discovery
  imports Load_Balancing Zk_Client
begin

section \<open>Endpoint discovery: parsing, static lists, cache, ZooKeeper query, cooldown\<close>

text \<open>
  The model of the discovery half of \<open>Krpcchannel.cc\<close>: \<open>ParseEndpoint\<close>,
  \<open>InitStaticEndpoints\<close>/\<open>GetStaticEndpoints\<close>, the endpoint cache with its five-second
  lifetime, \<open>QueryServiceNodes\<close> and the cooldown table of failed endpoints. The same code is
  repeated in \<open>Krpcmsgpack_channel.cc\<close>, whose model uses these definitions.
\<close>

subsection \<open>Addresses\<close>

definition ParseEndpoint :: "string \<Rightarrow> Endpoint option" where
  "ParseEndpoint addr =
     (case str_find addr CHR '':'' 0 of
        None \<Rightarrow> None
      | Some pos \<Rightarrow>
          (case stoi (drop (pos + 1) addr) of
             Inl e \<Rightarrow> None
           | Inr n \<Rightarrow>
               (let p = (word_of_int n :: u16)
                in if p = 0 then None else Some (mk_endpoint (substr addr 0 pos) p))))"

definition endpoint_key :: "string \<Rightarrow> u16 \<Rightarrow> string" where
  "endpoint_key ip p = ip @ '':'' @ nat_to_string (unat p)"

abbreviation ep_key :: "Endpoint \<Rightarrow> string" where
  "ep_key ep \<equiv> endpoint_key (host ep) (port ep)"

lemma ParseEndpoint_endpoint_key:
  assumes "CHR '':'' \<notin> set ip" "p \<noteq> 0"
  shows "ParseEndpoint (endpoint_key ip p) = Some (mk_endpoint ip p)"
proof -
  have "int (unat p) < int 65536" using unat_bounds(1)[of p] by (simp only: of_nat_less_iff)
  then have "int (unat p) \<le> INT_MAX" by (simp add: INT_MAX_def)
  then have "stoi (nat_to_string (unat p)) = Inr (int (unat p))" by (rule stoi_nat_to_string)
  with assms show ?thesis
    by (simp add: ParseEndpoint_def endpoint_key_def substr_def Let_def)
qed

lemma ParseEndpoint_Some:
  "ParseEndpoint addr = Some ep \<Longrightarrow> port ep \<noteq> 0 \<and> weight ep = 1 \<and> CHR '':'' \<notin> set (host ep)"
  by (auto simp: ParseEndpoint_def Let_def substr_def split: option.splits sum.splits if_splits
      dest: str_find_split(2))

lemma ParseEndpoint_Nil [simp]: "ParseEndpoint [] = None"
  by (simp add: ParseEndpoint_def str_find_def)

subsection \<open>The static endpoint list\<close>

function static_loop :: "string \<Rightarrow> nat \<Rightarrow> Endpoint list \<Rightarrow> Endpoint list" where
  "static_loop lst start acc =
     (if start < length lst then
        (let comma = str_find lst CHR '','' start;
             token = substr lst start (case comma of None \<Rightarrow> length lst | Some c \<Rightarrow> c - start);
             acc' = (case ParseEndpoint token of Some ep \<Rightarrow> acc @ [ep] | None \<Rightarrow> acc)
         in (case comma of None \<Rightarrow> acc' | Some c \<Rightarrow> static_loop lst (c + 1) acc'))
      else acc)"
  by pat_completeness auto
termination
  by (relation "measure (\<lambda>(lst, start, acc). length lst - start)")
    (auto simp: str_find_def dest!: find_from_Some[OF sym])

declare static_loop.simps [simp del]

definition InitStaticEndpoints :: "string option \<Rightarrow> Endpoint list" where
  "InitStaticEndpoints env_list =
     (case env_list of None \<Rightarrow> [] | Some lst \<Rightarrow> static_loop lst 0 [])"

text \<open>\<open>call_once\<close>: the list is parsed on the first use and kept.\<close>

definition GetStaticEndpoints ::
    "string option \<Rightarrow> Endpoint list option \<Rightarrow> Endpoint list \<times> Endpoint list option" where
  "GetStaticEndpoints env_list once =
     (case once of Some eps \<Rightarrow> (eps, once)
      | None \<Rightarrow> (let eps = InitStaticEndpoints env_list in (eps, Some eps)))"

text \<open>Reference: cut at every comma, parse each piece, drop those that do not parse.\<close>

fun split_on :: "char \<Rightarrow> string \<Rightarrow> string list" where
  "split_on c [] = [[]]"
| "split_on c (x # xs) =
     (if x = c then [] # split_on c xs
      else (case split_on c xs of [] \<Rightarrow> [[x]] | t # ts \<Rightarrow> (x # t) # ts))"

lemma split_on_no: "c \<notin> set xs \<Longrightarrow> split_on c xs = [xs]"
  by (induction xs) auto

lemma split_on_append: "c \<notin> set xs \<Longrightarrow> split_on c (xs @ c # ys) = xs # split_on c ys"
  by (induction xs) auto

lemma static_loop_split:
  "start \<le> length lst \<Longrightarrow>
     static_loop lst start acc =
       acc @ List.map_filter ParseEndpoint (split_on CHR '','' (drop start lst))"
proof (induction lst start acc rule: static_loop.induct)
  case (1 lst start acc)
  show ?case
  proof (cases "start < length lst")
    case False
    with "1.prems" have "start = length lst" by simp
    then show ?thesis
      by (simp add: static_loop.simps[of lst "length lst"] List.map_filter_def)
  next
    case True
    show ?thesis
    proof (cases "str_find lst CHR '','' start")
      case None
      then have "CHR '','' \<notin> set (drop start lst)"
        by (simp add: str_find_def find_from_None)
      with True None show ?thesis
        by (simp add: static_loop.simps[of lst start] substr_def split_on_no
            List.map_filter_def split: option.splits)
    next
      case (Some c)
      then have f: "start \<le> c" "c < length lst" "lst ! c = CHR '',''"
          "CHR '','' \<notin> set (take (c - start) (drop start lst))"
        using find_from_Some[of start "drop start lst" "CHR '',''" c] True
        by (auto simp: str_find_def)
      have "drop start lst = take (c - start) (drop start lst) @ drop c lst"
        using f by (metis append_take_drop_id drop_drop le_add_diff_inverse2)
      then have d: "drop start lst = take (c - start) (drop start lst) @ CHR '','' # drop (c + 1) lst"
        using f by (metis Cons_nth_drop_Suc Suc_eq_plus1)
      have s: "split_on CHR '','' (drop start lst) =
          take (c - start) (drop start lst) # split_on CHR '','' (drop (c + 1) lst)"
        by (subst d) (rule split_on_append[OF f(4)])
      show ?thesis
        using 1 True Some f
        by (simp add: static_loop.simps[of lst start] substr_def s List.map_filter_def Let_def
            split: option.splits)
    qed
  qed
qed

fun join_endpoints :: "Endpoint list \<Rightarrow> string" where
  "join_endpoints [] = []"
| "join_endpoints [ep] = ep_key ep"
| "join_endpoints (ep # eps) = ep_key ep @ '','' @ join_endpoints eps"

definition endpoint_ok :: "Endpoint \<Rightarrow> bool" where
  "endpoint_ok ep \<longleftrightarrow> CHR '':'' \<notin> set (host ep) \<and> CHR '','' \<notin> set (host ep) \<and>
     port ep \<noteq> 0 \<and> weight ep = 1"

lemma endpoint_ok_parse: "endpoint_ok ep \<Longrightarrow> ParseEndpoint (ep_key ep) = Some ep"
  by (cases ep) (simp add: endpoint_ok_def ParseEndpoint_endpoint_key mk_endpoint_def)

lemma ep_key_no_comma: "endpoint_ok ep \<Longrightarrow> CHR '','' \<notin> set (ep_key ep)"
  by (simp add: endpoint_ok_def endpoint_key_def nat_to_string_notin)

lemma split_join:
  "\<forall>ep \<in> set eps. endpoint_ok ep \<Longrightarrow>
     List.map_filter ParseEndpoint (split_on CHR '','' (join_endpoints eps)) = eps"
proof (induction eps rule: join_endpoints.induct)
  case (2 ep)
  then show ?case
    by (simp add: split_on_no ep_key_no_comma endpoint_ok_parse List.map_filter_def)
next
  case (3 ep e2 eps)
  then have "split_on CHR '','' (join_endpoints (ep # e2 # eps)) =
      ep_key ep # split_on CHR '','' (join_endpoints (e2 # eps))"
    using split_on_append[OF ep_key_no_comma, of ep "join_endpoints (e2 # eps)"] by simp
  with 3 show ?case by (simp add: endpoint_ok_parse List.map_filter_def)
qed (simp add: List.map_filter_def)

subsection \<open>The endpoint cache\<close>

record EndpointCacheEntry =
  ce_endpoints :: "Endpoint list"
  expire_at :: nanos

type_synonym endpoint_cache = "(string \<times> EndpointCacheEntry) list"

definition kEndpointCacheTtl :: nanos where "kEndpointCacheTtl = milliseconds 5000"

definition TryGetCachedEndpoints ::
    "string \<Rightarrow> nanos \<Rightarrow> endpoint_cache \<Rightarrow> Endpoint list option \<times> endpoint_cache" where
  "TryGetCachedEndpoints key now cache =
     (case map_of cache key of
        None \<Rightarrow> (None, cache)
      | Some e \<Rightarrow> (if now \<ge> expire_at e then (None, AList.delete key cache)
                   else (Some (ce_endpoints e), cache)))"

definition StoreCachedEndpoints ::
    "string \<Rightarrow> Endpoint list \<Rightarrow> nanos \<Rightarrow> endpoint_cache \<Rightarrow> endpoint_cache" where
  "StoreCachedEndpoints key eps now cache =
     (if eps = [] then cache
      else AList.update key \<lparr>ce_endpoints = eps, expire_at = now + kEndpointCacheTtl\<rparr> cache)"

definition cache_ok :: "endpoint_cache \<Rightarrow> bool" where
  "cache_ok cache \<longleftrightarrow> wf_map cache \<and> (\<forall>k e. map_of cache k = Some e \<longrightarrow> ce_endpoints e \<noteq> [])"

lemma StoreCachedEndpoints_ok: "cache_ok c \<Longrightarrow> cache_ok (StoreCachedEndpoints k eps now c)"
  by (auto simp: cache_ok_def StoreCachedEndpoints_def AList.update_conv' split: if_splits)

lemma TryGetCachedEndpoints_ok:
  "cache_ok c \<Longrightarrow> TryGetCachedEndpoints k now c = (r, c') \<Longrightarrow> cache_ok c' \<and> r \<noteq> Some []"
  by (auto simp: cache_ok_def TryGetCachedEndpoints_def AList.delete_conv' split: option.splits if_splits)

subsection \<open>Asking ZooKeeper\<close>

definition method_path :: "string \<Rightarrow> string \<Rightarrow> string" where
  "method_path service_name method_name = ''/'' @ service_name @ ''/'' @ method_name"

text \<open>The children of the method node, or (old format) the data of the node itself. The
  arguments are \<open>GetChildren\<close> and \<open>GetData\<close> of the client's session.\<close>

definition QueryServiceNodes ::
    "(string \<Rightarrow> string list) \<Rightarrow> (string \<Rightarrow> string) \<Rightarrow> string \<Rightarrow> string \<Rightarrow> Endpoint list" where
  "QueryServiceNodes children data service_name method_name =
     (let path = method_path service_name method_name;
          endpoints = List.map_filter ParseEndpoint (children path)
      in if endpoints = [] then
           (case ParseEndpoint (data path) of Some ep \<Rightarrow> [ep] | None \<Rightarrow> [])
         else endpoints)"

lemma QueryServiceNodes_child:
  assumes "c \<in> set (children (method_path s m))" "ParseEndpoint c = Some ep"
  shows "ep \<in> set (QueryServiceNodes children data s m)"
proof -
  have "ep \<in> set (List.map_filter ParseEndpoint (children (method_path s m)))"
    using assms by (force simp: List.map_filter_def)
  then show ?thesis by (auto simp: QueryServiceNodes_def Let_def)
qed

lemma map_filter_parse_ports:
  "ep \<in> set (List.map_filter ParseEndpoint xs) \<Longrightarrow> port ep \<noteq> 0 \<and> weight ep = 1"
  by (auto simp: List.map_filter_def dest: ParseEndpoint_Some)

lemma QueryServiceNodes_ports:
  "ep \<in> set (QueryServiceNodes ch d s m) \<Longrightarrow> port ep \<noteq> 0"
  by (auto simp: QueryServiceNodes_def Let_def split: if_splits option.splits
      dest: ParseEndpoint_Some[OF sym] ParseEndpoint_Some map_filter_parse_ports)

subsection \<open>The cooldown of failed endpoints\<close>

type_synonym fail_states = "(string \<times> nanos) list"

text \<open>\<open>EndpointAvailable\<close> also reports when a known endpoint may be retried.\<close>

definition EndpointAvailable :: "Endpoint \<Rightarrow> nanos \<Rightarrow> fail_states \<Rightarrow> bool \<times> nanos option" where
  "EndpointAvailable ep now fs =
     (case map_of fs (ep_key ep) of
        None \<Rightarrow> (True, None)
      | Some retry_at \<Rightarrow> (now \<ge> retry_at, Some retry_at))"

definition MarkEndpointFailure :: "int \<Rightarrow> nanos \<Rightarrow> Endpoint \<Rightarrow> fail_states \<Rightarrow> fail_states" where
  "MarkEndpointFailure cooldown_ms now ep fs =
     AList.update (ep_key ep) (now + milliseconds cooldown_ms) fs"

definition ClearEndpointFailure :: "Endpoint \<Rightarrow> fail_states \<Rightarrow> fail_states" where
  "ClearEndpointFailure ep fs = AList.delete (ep_key ep) fs"

lemma endpoint_key_inj:
  assumes "CHR '':'' \<notin> set a" "CHR '':'' \<notin> set b" "endpoint_key a p = endpoint_key b q"
  shows "a = b \<and> p = q"
proof -
  have "str_find (endpoint_key a p) CHR '':'' 0 = Some (length a)"
    "str_find (endpoint_key b q) CHR '':'' 0 = Some (length b)"
    using assms(1,2) by (simp_all add: endpoint_key_def)
  with assms(3) have l: "length a = length b" by simp
  with assms(3) have "a = b" "nat_to_string (unat p) = nat_to_string (unat q)"
    by (simp_all add: endpoint_key_def)
  then have "unat p = unat q" by (metis digits_value_nat_to_string)
  with \<open>a = b\<close> show ?thesis by (simp add: word_unat_eq_iff)
qed

lemma EndpointAvailable_mark_same:
  "fst (EndpointAvailable ep now (MarkEndpointFailure cd t ep fs)) \<longleftrightarrow> t + milliseconds cd \<le> now"
  by (simp add: EndpointAvailable_def MarkEndpointFailure_def AList.update_conv')

lemma EndpointAvailable_clear_same [simp]:
  "fst (EndpointAvailable ep now (ClearEndpointFailure ep fs))"
  by (simp add: EndpointAvailable_def ClearEndpointFailure_def)

end
