(* ===== verification/Connection_Pool.thy ===== *)
theory Connection_Pool
  imports Krpc_Prelude
begin

section \<open>Sockets and the connection pool\<close>

text \<open>
  The model of \<open>CreateConnectionFd\<close>, \<open>IsConnectionHealthy\<close> and the class
  \<open>ConnectionPool\<close> of \<open>Krpcchannel.cc\<close> (the same code is in
  \<open>Krpcmsgpack_channel.cc\<close>).
  The operating system is the record \<open>os\<close>: the open descriptors of the process, the number of
  \<open>close\<close> calls on a descriptor that was not open, and a tick that advances with every system
  call. What a call observes at a tick (does \<open>connect\<close> succeed, what does \<open>poll\<close> report, what
  time is it) is the environment \<open>net_env\<close>, any functions of the tick. As POSIX says,
  \<open>socket\<close> returns the lowest descriptor that is not open.
  The idle deque of an endpoint is a list whose head is the back of the deque, the end where the
  code pushes and pops.
\<close>

record poll_obs =
  po_rc :: int
  po_err :: bool
  po_in :: bool
  po_peek :: int
  po_again :: bool

record net_env =
  env_socket_ok :: "nat \<Rightarrow> bool"
  env_connect_ok :: "nat \<Rightarrow> string \<Rightarrow> u16 \<Rightarrow> bool"
  env_errtxt :: "nat \<Rightarrow> string"
  env_poll :: "nat \<Rightarrow> fd \<Rightarrow> poll_obs"
  env_clock :: "nat \<Rightarrow> nanos"

record os =
  os_tick :: nat
  os_open :: "fd list"
  os_bad_close :: nat

definition fresh_fd :: "fd list \<Rightarrow> fd" where
  "fresh_fd fs = int (hd (filter (\<lambda>n. int n \<notin> set fs) [0..<Suc (length fs)]))"

definition os_close :: "fd \<Rightarrow> os \<Rightarrow> os" where
  "os_close f s =
     (if f \<in> set (os_open s) then s\<lparr>os_open := remove1 f (os_open s)\<rparr>
      else s\<lparr>os_bad_close := Suc (os_bad_close s)\<rparr>)"

definition os_clock :: "net_env \<Rightarrow> os \<Rightarrow> nanos \<times> os" where
  "os_clock E s = (env_clock E (os_tick s), s\<lparr>os_tick := Suc (os_tick s)\<rparr>)"

lemma fresh_fd_new: "fresh_fd fs \<notin> set fs" and fresh_fd_nonneg: "0 \<le> fresh_fd fs"
proof -
  let ?xs = "filter (\<lambda>n. int n \<notin> set fs) [0..<Suc (length fs)]"
  have "?xs \<noteq> []"
  proof
    assume "?xs = []"
    then have "\<forall>n < Suc (length fs). int n \<in> set fs"
      by (auto simp: filter_empty_conv simp del: upt_Suc)
    then have "int ` {0..<Suc (length fs)} \<subseteq> set fs" by auto
    then have "card (int ` {0..<Suc (length fs)}) \<le> card (set fs)"
      by (intro card_mono) auto
    then have "Suc (length fs) \<le> card (set fs)" by (simp add: card_image)
    then show False using card_length[of fs] by linarith
  qed
  then have "hd ?xs \<in> set ?xs" by (rule hd_in_set)
  then show "fresh_fd fs \<notin> set fs" by (simp add: fresh_fd_def del: upt_Suc)
  show "0 \<le> fresh_fd fs" by (simp add: fresh_fd_def)
qed

subsection \<open>Opening and checking a connection\<close>

definition CreateConnectionFd ::
    "net_env \<Rightarrow> string \<Rightarrow> u16 \<Rightarrow> os \<Rightarrow> (string + fd) \<times> os" where
  "CreateConnectionFd E ip p s =
     (let t = os_tick s; s1 = s\<lparr>os_tick := Suc t\<rparr>
      in if \<not> env_socket_ok E t then (Inl (env_errtxt E t), s1)
         else (let clientfd = fresh_fd (os_open s);
                   s2 = s1\<lparr>os_open := clientfd # os_open s1\<rparr>
               in if \<not> env_connect_ok E t ip p
                  then (Inl (env_errtxt E t), os_close clientfd s2)
                  else (Inr clientfd, s2)))"

definition IsConnectionHealthy :: "net_env \<Rightarrow> fd \<Rightarrow> os \<Rightarrow> bool \<times> os" where
  "IsConnectionHealthy E f s =
     (if f = -1 then (False, s)
      else (let o' = env_poll E (os_tick s) f; s' = s\<lparr>os_tick := Suc (os_tick s)\<rparr>
            in if po_rc o' < 0 then (False, s')
               else if po_err o' then (False, s')
               else if po_in o' then
                 (if po_peek o' = 0 then (False, s')
                  else if po_peek o' < 0 \<and> \<not> po_again o' then (False, s')
                  else (True, s'))
               else (True, s')))"

lemma IsConnectionHealthy_frame:
  "IsConnectionHealthy E f s = (b, s') \<Longrightarrow> os_open s' = os_open s \<and> os_bad_close s' = os_bad_close s"
  by (auto simp: IsConnectionHealthy_def Let_def split: if_splits)

subsection \<open>The pool\<close>

type_synonym pools = "(string \<times> fd list) list"

text \<open>The loop of \<open>Acquire\<close>: pop until a descriptor is healthy, closing the others.\<close>

fun pop_healthy :: "net_env \<Rightarrow> fd list \<Rightarrow> os \<Rightarrow> fd option \<times> fd list \<times> os" where
  "pop_healthy E [] s = (None, [], s)"
| "pop_healthy E (f # idle) s =
     (case IsConnectionHealthy E f s of
        (True, s') \<Rightarrow> (Some f, idle, s')
      | (False, s') \<Rightarrow> pop_healthy E idle (os_close f s'))"

definition Pool_Acquire ::
    "net_env \<Rightarrow> string \<Rightarrow> string \<Rightarrow> u16 \<Rightarrow> pools \<Rightarrow> os \<Rightarrow> (string + fd) \<times> bool \<times> pools \<times> os" where
  "Pool_Acquire E key ip p ps s =
     (case map_of ps key of
        None \<Rightarrow> (case CreateConnectionFd E ip p s of (r, s') \<Rightarrow> (r, False, ps, s'))
      | Some idle \<Rightarrow>
          (case pop_healthy E idle s of
             (Some f, rest, s') \<Rightarrow> (Inr f, True, AList.update key rest ps, s')
           | (None, rest, s') \<Rightarrow>
               (case CreateConnectionFd E ip p s' of
                  (r, s'') \<Rightarrow> (r, False, AList.update key rest ps, s''))))"

definition Pool_Release ::
    "net_env \<Rightarrow> string \<Rightarrow> fd \<Rightarrow> nat \<Rightarrow> pools \<Rightarrow> os \<Rightarrow> pools \<times> os" where
  "Pool_Release E key f max_idle ps s =
     (if f = -1 then (ps, s)
      else (case IsConnectionHealthy E f s of
              (False, s') \<Rightarrow> (ps, os_close f s')
            | (True, s') \<Rightarrow>
                (let idle = (case map_of ps key of None \<Rightarrow> [] | Some i \<Rightarrow> i)
                 in if length idle \<ge> max_idle then (AList.update key idle ps, os_close f s')
                    else (AList.update key (f # idle) ps, s'))))"

subsection \<open>Who owns a descriptor\<close>

text \<open>
  The ownership invariant. \<open>held\<close> are the descriptors that channels hold; \<open>idle_fds\<close> are those
  waiting in the pool. No descriptor is owned twice, every owned descriptor is open, and no
  \<open>close\<close> ever hit a descriptor that was not open.
\<close>

definition idle_fds :: "pools \<Rightarrow> fd multiset" where
  "idle_fds ps = sum_list (map (mset \<circ> snd) ps)"

definition owns :: "fd multiset \<Rightarrow> pools \<Rightarrow> os \<Rightarrow> bool" where
  "owns held ps s \<longleftrightarrow> held + idle_fds ps \<subseteq># mset (os_open s) \<and> distinct (os_open s) \<and>
     (\<forall>f \<in> set (os_open s). 0 \<le> f) \<and> os_bad_close s = 0 \<and> wf_map ps"

lemma idle_fds_update:
  "wf_map ps \<Longrightarrow> idle_fds (AList.update k xs ps) +
     (case map_of ps k of None \<Rightarrow> {#} | Some ys \<Rightarrow> mset ys) = idle_fds ps + mset xs"
proof (induction ps)
  case Nil
  then show ?case by (simp add: idle_fds_def)
next
  case (Cons p ps)
  obtain j ys where p: "p = (j, ys)" by (cases p)
  show ?case
  proof (cases "j = k")
    case True
    with p Cons.prems show ?thesis by (simp add: idle_fds_def)
  next
    case False
    with Cons p show ?thesis by (auto simp: idle_fds_def ac_simps split: option.splits)
  qed
qed

lemma idle_fds_update_same:
  "wf_map ps \<Longrightarrow> map_of ps k = Some ys \<Longrightarrow>
     idle_fds (AList.update k xs ps) + mset ys = idle_fds ps + mset xs"
  using idle_fds_update[of ps k xs] by simp

lemma idle_fds_update_new:
  "wf_map ps \<Longrightarrow> map_of ps k = None \<Longrightarrow> idle_fds (AList.update k xs ps) = idle_fds ps + mset xs"
  using idle_fds_update[of ps k xs] by simp

lemma owns_tick: "owns h ps s \<Longrightarrow> owns h ps (s\<lparr>os_tick := t\<rparr>)"
  by (simp add: owns_def)

lemma owns_healthy: "IsConnectionHealthy E f s = (b, s') \<Longrightarrow> owns h ps s' = owns h ps s"
  by (drule IsConnectionHealthy_frame) (simp add: owns_def)

lemma owns_close:
  assumes "owns (add_mset f h) ps s"
  shows "owns h ps (os_close f s)"
proof -
  from assms have sub: "add_mset f (h + idle_fds ps) \<subseteq># mset (os_open s)"
    by (simp add: owns_def)
  then have mem: "f \<in> set (os_open s)" by (meson insert_subset_eq_iff in_multiset_in_set)
  from sub mem have "h + idle_fds ps \<subseteq># mset (remove1 f (os_open s))"
    by (simp add: insert_subset_eq_iff)
  with assms mem show ?thesis
    by (auto simp: owns_def os_close_def dest: notin_set_remove1)
qed

lemma owns_CreateConnectionFd:
  assumes "owns h ps s" "CreateConnectionFd E ip p s = (r, s')"
  shows "(case r of Inl _ \<Rightarrow> owns h ps s' | Inr f \<Rightarrow> owns (add_mset f h) ps s' \<and> 0 \<le> f)"
proof -
  let ?f = "fresh_fd (os_open s)"
  let ?s2 = "s\<lparr>os_tick := Suc (os_tick s), os_open := ?f # os_open s\<rparr>"
  have s2: "owns (add_mset ?f h) ps ?s2"
    using assms(1) fresh_fd_new[of "os_open s"] fresh_fd_nonneg[of "os_open s"]
    by (auto simp: owns_def)
  from assms(2) have "r = Inl (env_errtxt E (os_tick s)) \<and> s' = s\<lparr>os_tick := Suc (os_tick s)\<rparr> \<or>
      r = Inl (env_errtxt E (os_tick s)) \<and> s' = os_close ?f ?s2 \<or> r = Inr ?f \<and> s' = ?s2"
    by (auto simp: CreateConnectionFd_def Let_def split: if_splits)
  then show ?thesis
    using s2 owns_close[OF s2] owns_tick[OF assms(1)] fresh_fd_nonneg by auto
qed

lemma owns_pop_healthy:
  "owns (h + mset idle) ps s \<Longrightarrow> pop_healthy E idle s = (r, rest, s') \<Longrightarrow>
     (case r of None \<Rightarrow> rest = [] \<and> owns h ps s'
      | Some f \<Rightarrow> owns (add_mset f (h + mset rest)) ps s' \<and> length rest < length idle)"
proof (induction E idle s rule: pop_healthy.induct)
  case (1 E s)
  then show ?case by simp
next
  case (2 E f idle s)
  obtain b s1 where h1: "IsConnectionHealthy E f s = (b, s1)" by (cases "IsConnectionHealthy E f s")
  from "2.prems"(1) have o1: "owns (add_mset f (h + mset idle)) ps s1"
    by (simp add: owns_healthy[OF h1])
  show ?case
  proof (cases b)
    case True
    with "2.prems"(2) h1 o1 show ?thesis by auto
  next
    case False
    from owns_close[OF o1] have "owns (h + mset idle) ps (os_close f s1)" .
    with "2.IH" "2.prems"(2) h1 False show ?thesis by (fastforce split: option.splits)
  qed
qed

lemma owns_move: "owns (h + m) ps s \<Longrightarrow> wf_map ps' \<Longrightarrow> idle_fds ps' = idle_fds ps + m \<Longrightarrow> owns h ps' s"
  by (simp add: owns_def ac_simps)

lemma owns_Acquire:
  assumes own: "owns h ps s" and a: "Pool_Acquire E key ip p ps s = (r, reused, ps', s')"
  shows "(case r of Inl _ \<Rightarrow> owns h ps' s' | Inr f \<Rightarrow> owns (add_mset f h) ps' s' \<and> 0 \<le> f)"
proof (cases "map_of ps key")
  case None
  with a owns_CreateConnectionFd[OF own] show ?thesis
    by (auto simp: Pool_Acquire_def split: prod.splits)
next
  case (Some idle)
  obtain q rest s1 where q: "pop_healthy E idle s = (q, rest, s1)" by (cases "pop_healthy E idle s") auto
  let ?ps0 = "AList.update key [] ps"
  have wf: "wf_map ps" using own by (simp add: owns_def)
  have i0: "idle_fds ?ps0 + mset idle = idle_fds ps"
    using idle_fds_update_same[OF wf Some, of "[]"] by simp
  have o0: "owns (h + mset idle) ?ps0 s"
    using own by (simp add: owns_def i0[symmetric] ac_simps)
  have irest: "idle_fds (AList.update key rest ps) = idle_fds ?ps0 + mset rest"
  proof -
    have "idle_fds (AList.update key rest ps) + mset idle = (idle_fds ?ps0 + mset rest) + mset idle"
      using idle_fds_update_same[OF wf Some, of rest] unfolding i0[symmetric] by (simp add: ac_simps)
    then show ?thesis by (simp only: add_right_cancel)
  qed
  from owns_pop_healthy[OF o0 q]
  show ?thesis
  proof (cases q)
    case None
    with owns_pop_healthy[OF o0 q] have "rest = []" "owns h ?ps0 s1" by auto
    with a Some q None owns_CreateConnectionFd[of h ?ps0 s1 E ip p] show ?thesis
      by (auto simp: Pool_Acquire_def split: prod.splits)
  next
    case (Some f)
    with owns_pop_healthy[OF o0 q] have "owns (add_mset f h + mset rest) ?ps0 s1" by simp
    then have o2: "owns (add_mset f h) (AList.update key rest ps) s1"
      by (rule owns_move[OF _ wf_map_update[OF wf] irest])
    then have "f \<in> set (os_open s1)"
      unfolding owns_def by (metis insert_subset_eq_iff set_mset_mset union_mset_add_mset_left)
    with o2 have "0 \<le> f" by (simp add: owns_def)
    with o2 a \<open>map_of ps key = Some idle\<close> q Some show ?thesis by (auto simp: Pool_Acquire_def)
  qed
qed

lemma owns_Release:
  assumes own: "owns (add_mset f h) ps s" and r: "Pool_Release E key f n ps s = (ps', s')"
  shows "owns h ps' s'"
proof -
  have wf: "wf_map ps" using own by (simp add: owns_def)
  have "f \<in> set (os_open s)"
    using own unfolding owns_def by (metis insert_subset_eq_iff set_mset_mset union_mset_add_mset_left)
  then have f: "f \<noteq> -1" using own by (auto simp: owns_def)
  obtain b s1 where h1: "IsConnectionHealthy E f s = (b, s1)" by (cases "IsConnectionHealthy E f s")
  have o1: "owns (add_mset f h) ps s1" using own by (simp add: owns_healthy[OF h1])
  let ?idle = "case map_of ps key of None \<Rightarrow> [] | Some i \<Rightarrow> i"
  have same: "idle_fds (AList.update key ?idle ps) = idle_fds ps"
    using idle_fds_update_same[OF wf, of key ?idle ?idle] idle_fds_update_new[OF wf, of key "[]"]
    by (cases "map_of ps key") simp_all
  have plus: "idle_fds (AList.update key (f # ?idle) ps) = add_mset f (idle_fds ps)"
    using idle_fds_update_same[OF wf, of key ?idle "f # ?idle"]
      idle_fds_update_new[OF wf, of key "[f]"]
    by (cases "map_of ps key") simp_all
  have "owns h (AList.update key ?idle ps) (os_close f s1)"
    by (rule owns_move[where m = "{#}" and ps = ps]) (use owns_close[OF o1] wf same in auto)
  moreover have "owns h (AList.update key (f # ?idle) ps) s1"
    by (rule owns_move[where m = "{#f#}" and ps = ps]) (use o1 wf plus in auto)
  ultimately show ?thesis
    using r f h1 owns_close[OF o1] by (auto simp: Pool_Release_def Let_def split: bool.splits if_splits)
qed

lemma pop_healthy_mem: "pop_healthy E idle s = (Some f, rest, s') \<Longrightarrow> f \<in> set idle"
  by (induction E idle s rule: pop_healthy.induct) (auto split: prod.splits bool.splits)

lemma Pool_Acquire_reused:
  "Pool_Acquire E key ip p ps s = (Inr f, True, ps', s') \<Longrightarrow> \<exists>idle. map_of ps key = Some idle \<and> f \<in> set idle"
  by (auto simp: Pool_Acquire_def split: option.splits prod.splits dest: pop_healthy_mem)

subsection \<open>The pool stays within its bound\<close>

definition pool_bound :: "nat \<Rightarrow> pools \<Rightarrow> bool" where
  "pool_bound n ps \<longleftrightarrow> (\<forall>k idle. map_of ps k = Some idle \<longrightarrow> length idle \<le> n)"

lemma pop_healthy_length: "pop_healthy E idle s = (r, rest, s') \<Longrightarrow> length rest \<le> length idle"
  by (induction E idle s rule: pop_healthy.induct) (fastforce split: prod.splits bool.splits)+

lemma Pool_Acquire_bound:
  "pool_bound n ps \<Longrightarrow> Pool_Acquire E key ip p ps s = (r, reused, ps', s') \<Longrightarrow> pool_bound n ps'"
  by (auto simp: pool_bound_def Pool_Acquire_def AList.update_conv'
      split: option.splits prod.splits if_splits dest!: pop_healthy_length)
    (meson le_trans)+

lemma Pool_Release_bound:
  "pool_bound n ps \<Longrightarrow> Pool_Release E key f n ps s = (ps', s') \<Longrightarrow> pool_bound n ps'"
  by (auto simp: pool_bound_def Pool_Release_def Let_def AList.update_conv'
      split: option.splits prod.splits if_splits bool.splits)

end
