(* ===== verification/Metrics.thy ===== *)
theory Metrics
  imports Complex_Main Krpc_Prelude "HOL-Library.Char_ord" "HOL-Library.List_Lexorder"
begin

section \<open>Metrics\<close>

text \<open>
  The model of \<open>MetricsAggregator\<close>, \<open>LabeledMetrics\<close> and \<open>RenderMetricsPrometheus\<close>
  of \<open>Krpcchannel.cc\<close>, and of \<open>metrics_http_server.cc\<close>. The time that a call reads from the clock is
  its first argument. Counters are unbounded integers.
  Doubles are exact rationals. For the ranks of the percentiles this is no
  idealisation below \<open>2^40\<close> samples: where \<open>p * n / 100 + 1/2\<close> is an integer the double product is exact, and
  elsewhere it is at least \<open>1/100\<close> away from one. How a double is printed is a parameter.
\<close>

record MetricsSnapshot =
  window_ms :: int
  qps :: rat
  snap_success :: int
  snap_fail :: int
  fail_rate :: rat
  p50 :: int
  p95 :: int
  p99 :: int
  snap_min :: int
  snap_max :: int
  avg :: rat

record MetricsAggregator =
  success_count :: int
  fail_count :: int
  samples :: "int list"
  last_flush :: nanos
  flush_interval :: nanos

definition new_MetricsAggregator :: "nanos \<Rightarrow> MetricsAggregator" where
  "new_MetricsAggregator now = \<lparr>success_count = 0, fail_count = 0, samples = [],
     last_flush = now, flush_interval = milliseconds 10000\<rparr>"

definition SetWindowMs :: "int \<Rightarrow> MetricsAggregator \<Rightarrow> MetricsAggregator" where
  "SetWindowMs ms m = m\<lparr>flush_interval := milliseconds (if ms < 100 then 100 else ms)\<rparr>"

text \<open>The lambda \<open>perc\<close>: the rank is \<open>p / 100 * n + 1/2\<close>, truncated, less one.\<close>

definition perc_index :: "nat \<Rightarrow> nat \<Rightarrow> nat" where
  "perc_index p n = (p * n * 2 + 100) div 200 - 1"

definition perc :: "int list \<Rightarrow> nat \<Rightarrow> int" where
  "perc xs p = (if xs = [] then 0 else xs ! min (perc_index p (length xs)) (length xs - 1))"

definition PrepareStatsUnlocked ::
    "int \<Rightarrow> MetricsAggregator \<Rightarrow> MetricsSnapshot \<times> MetricsAggregator" where
  "PrepareStatsUnlocked elapsed_ms m =
     (let xs = sort (samples m);
          total = success_count m + fail_count m
      in (\<lparr>window_ms = elapsed_ms,
            qps = of_int total * 1000 / of_int elapsed_ms,
            snap_success = success_count m,
            snap_fail = fail_count m,
            fail_rate = (if total > 0 then of_int (fail_count m) / of_int total * 100 else 0),
            p50 = perc xs 50, p95 = perc xs 95, p99 = perc xs 99,
            snap_min = (if xs = [] then 0 else hd xs),
            snap_max = (if xs = [] then 0 else last xs),
            avg = (if xs = [] then 0 else of_int (sum_list xs) / of_nat (length xs))\<rparr>,
          m\<lparr>samples := xs\<rparr>))"

text \<open>\<open>FlushLocked\<close>; the snapshot it returns is the one it writes to the log.\<close>

definition FlushLocked ::
    "nanos \<Rightarrow> MetricsAggregator \<Rightarrow> MetricsSnapshot option \<times> MetricsAggregator" where
  "FlushLocked now m =
     (let elapsed = duration_cast_ms (now - last_flush m)
      in if elapsed \<le> 0 then (None, m)
         else if success_count m + fail_count m = 0 then (None, m\<lparr>last_flush := now\<rparr>)
         else (case PrepareStatsUnlocked elapsed m of
                 (snap, m1) \<Rightarrow>
                   (Some snap, m1\<lparr>success_count := 0, fail_count := 0, samples := [], last_flush := now\<rparr>)))"

definition AddSample ::
    "nanos \<Rightarrow> bool \<Rightarrow> int \<Rightarrow> MetricsAggregator \<Rightarrow> MetricsSnapshot option \<times> MetricsAggregator" where
  "AddSample now success cost_ms m =
     (let m1 = (if success then m\<lparr>success_count := success_count m + 1\<rparr>
                else m\<lparr>fail_count := fail_count m + 1\<rparr>);
          m2 = m1\<lparr>samples := samples m1 @ [cost_ms]\<rparr>
      in if now - last_flush m2 \<ge> flush_interval m2 then FlushLocked now m2 else (None, m2))"

definition Snapshot ::
    "nanos \<Rightarrow> bool \<Rightarrow> MetricsAggregator \<Rightarrow> MetricsSnapshot option \<times> MetricsAggregator" where
  "Snapshot now reset m =
     (let elapsed = duration_cast_ms (now - last_flush m)
      in if success_count m + fail_count m = 0 \<or> elapsed \<le> 0 then (None, m)
         else (case PrepareStatsUnlocked elapsed m of
                 (snap, m1) \<Rightarrow>
                   (Some snap,
                    if reset then m1\<lparr>success_count := 0, fail_count := 0, samples := [], last_flush := now\<rparr>
                    else m1)))"

subsection \<open>Metrics per label\<close>

type_synonym labeled_metrics = "(string \<times> MetricsAggregator) list"

definition Labeled_AddSample ::
    "nanos \<Rightarrow> string \<Rightarrow> bool \<Rightarrow> int \<Rightarrow> labeled_metrics \<Rightarrow> labeled_metrics" where
  "Labeled_AddSample now label success cost_ms by_label =
     (if label = [] then by_label
      else (let entry = (case map_of by_label label of
                           None \<Rightarrow> new_MetricsAggregator now | Some e \<Rightarrow> e)
            in AList.update label (snd (AddSample now success cost_ms entry)) by_label))"

fun SnapshotAll :: "nanos \<Rightarrow> labeled_metrics \<Rightarrow> (string \<times> MetricsSnapshot) list \<times> labeled_metrics" where
  "SnapshotAll now [] = ([], [])"
| "SnapshotAll now ((label, m) # rest) =
     (case Snapshot now False m of
        (r, m') \<Rightarrow>
          (case SnapshotAll now rest of
             (out, rest') \<Rightarrow>
               ((case r of None \<Rightarrow> out | Some snap \<Rightarrow> (label, snap) # out), (label, m') # rest')))"

record metrics_state =
  g_metrics :: MetricsAggregator
  g_labeled_metrics :: labeled_metrics

definition GetMetricsSnapshot ::
    "nanos \<Rightarrow> bool \<Rightarrow> metrics_state \<Rightarrow> MetricsSnapshot option \<times> metrics_state" where
  "GetMetricsSnapshot now reset g =
     (case Snapshot now reset (g_metrics g) of (r, m) \<Rightarrow> (r, g\<lparr>g_metrics := m\<rparr>))"

definition RecordMetricsSample :: "nanos \<Rightarrow> bool \<Rightarrow> int \<Rightarrow> metrics_state \<Rightarrow> metrics_state" where
  "RecordMetricsSample now success cost_ms g =
     g\<lparr>g_metrics := snd (AddSample now success cost_ms (g_metrics g))\<rparr>"

definition RecordMetricsSampleWithLabel ::
    "nanos \<Rightarrow> string \<Rightarrow> bool \<Rightarrow> int \<Rightarrow> metrics_state \<Rightarrow> metrics_state" where
  "RecordMetricsSampleWithLabel now label success cost_ms g =
     g\<lparr>g_metrics := snd (AddSample now success cost_ms (g_metrics g)),
       g_labeled_metrics := Labeled_AddSample now label success cost_ms (g_labeled_metrics g)\<rparr>"

subsection \<open>The Prometheus text\<close>

definition quot :: string where "quot = [CHR 0x22]"
definition nl :: string where "nl = [CHR 0x0A]"

fun escape_label :: "string \<Rightarrow> string" where
  "escape_label [] = []"
| "escape_label (c # cs) =
     (if c = CHR 0x5C \<or> c = CHR 0x22 then CHR 0x5C # c # escape_label cs else c # escape_label cs)"

definition render_global :: "(rat \<Rightarrow> string) \<Rightarrow> MetricsSnapshot \<Rightarrow> string" where
  "render_global show_double s =
     (let total = snap_success s + snap_fail s
      in ''# TYPE krpc_requests_total counter'' @ nl
       @ ''krpc_requests_total{status='' @ quot @ ''success'' @ quot @ ''} '' @ int_to_string (snap_success s) @ nl
       @ ''krpc_requests_total{status='' @ quot @ ''fail'' @ quot @ ''} '' @ int_to_string (snap_fail s) @ nl
       @ ''# TYPE krpc_qps gauge'' @ nl
       @ ''krpc_qps '' @ show_double (qps s) @ nl
       @ ''# TYPE krpc_latency_ms summary'' @ nl
       @ ''krpc_latency_ms{quantile='' @ quot @ ''0.5'' @ quot @ ''} '' @ int_to_string (p50 s) @ nl
       @ ''krpc_latency_ms{quantile='' @ quot @ ''0.95'' @ quot @ ''} '' @ int_to_string (p95 s) @ nl
       @ ''krpc_latency_ms{quantile='' @ quot @ ''0.99'' @ quot @ ''} '' @ int_to_string (p99 s) @ nl
       @ ''krpc_latency_ms_sum '' @ show_double (avg s * of_int total) @ nl
       @ ''krpc_latency_ms_count '' @ int_to_string total @ nl
       @ ''krpc_latency_ms_min '' @ int_to_string (snap_min s) @ nl
       @ ''krpc_latency_ms_max '' @ int_to_string (snap_max s) @ nl
       @ ''# TYPE krpc_fail_rate gauge'' @ nl
       @ ''krpc_fail_rate '' @ show_double (fail_rate s) @ nl)"

definition render_labeled :: "(rat \<Rightarrow> string) \<Rightarrow> string \<times> MetricsSnapshot \<Rightarrow> string" where
  "render_labeled show_double entry =
     (let s = snd entry;
          total = snap_success s + snap_fail s;
          by_method = ''method='' @ quot @ escape_label (fst entry) @ quot @ ''} ''
      in ''krpc_requests_total{status='' @ quot @ ''success'' @ quot @ '','' @ by_method @ int_to_string (snap_success s) @ nl
       @ ''krpc_requests_total{status='' @ quot @ ''fail'' @ quot @ '','' @ by_method @ int_to_string (snap_fail s) @ nl
       @ ''krpc_qps{'' @ by_method @ show_double (qps s) @ nl
       @ ''krpc_latency_ms{quantile='' @ quot @ ''0.5'' @ quot @ '','' @ by_method @ int_to_string (p50 s) @ nl
       @ ''krpc_latency_ms{quantile='' @ quot @ ''0.95'' @ quot @ '','' @ by_method @ int_to_string (p95 s) @ nl
       @ ''krpc_latency_ms{quantile='' @ quot @ ''0.99'' @ quot @ '','' @ by_method @ int_to_string (p99 s) @ nl
       @ ''krpc_latency_ms_sum{'' @ by_method @ show_double (avg s * of_int total) @ nl
       @ ''krpc_latency_ms_count{'' @ by_method @ int_to_string total @ nl
       @ ''krpc_latency_ms_min{'' @ by_method @ int_to_string (snap_min s) @ nl
       @ ''krpc_latency_ms_max{'' @ by_method @ int_to_string (snap_max s) @ nl
       @ ''krpc_fail_rate{'' @ by_method @ show_double (fail_rate s) @ nl)"

definition RenderMetricsPrometheus ::
    "(rat \<Rightarrow> string) \<Rightarrow> nanos \<Rightarrow> metrics_state \<Rightarrow> string \<times> metrics_state" where
  "RenderMetricsPrometheus show_double now g =
     (case GetMetricsSnapshot now False g of
        (None, g1) \<Rightarrow> ([], g1)
      | (Some snap, g1) \<Rightarrow>
          (case SnapshotAll now (g_labeled_metrics g1) of
             (labeled, ls) \<Rightarrow>
               (render_global show_double snap
                  @ concat (map (render_labeled show_double) (sort_key fst labeled)),
                g1\<lparr>g_labeled_metrics := ls\<rparr>)))"

subsection \<open>Invariant and conservation\<close>

lemma sort_eq_Nil [simp]: "(sort xs = []) = (xs = [])"
  by (metis length_0_conv length_sort)

definition metrics_ok :: "MetricsAggregator \<Rightarrow> bool" where
  "metrics_ok m \<longleftrightarrow> 0 \<le> success_count m \<and> 0 \<le> fail_count m \<and>
     int (length (samples m)) = success_count m + fail_count m"

lemmas metrics_defs = AddSample_def FlushLocked_def Snapshot_def PrepareStatsUnlocked_def
  SetWindowMs_def new_MetricsAggregator_def Let_def

lemma metrics_ok_new: "metrics_ok (new_MetricsAggregator now)"
  by (simp add: metrics_ok_def metrics_defs)

lemma metrics_ok_SetWindowMs: "metrics_ok m \<Longrightarrow> metrics_ok (SetWindowMs ms m)"
  by (simp add: metrics_ok_def metrics_defs)

lemma metrics_ok_Flush: "metrics_ok m \<Longrightarrow> FlushLocked now m = (r, m') \<Longrightarrow> metrics_ok m'"
  by (auto simp: metrics_ok_def metrics_defs split: if_splits)

lemma metrics_ok_AddSample: "metrics_ok m \<Longrightarrow> AddSample now b c m = (r, m') \<Longrightarrow> metrics_ok m'"
  by (auto simp: metrics_ok_def metrics_defs split: if_splits)

lemma metrics_ok_Snapshot: "metrics_ok m \<Longrightarrow> Snapshot now b m = (r, m') \<Longrightarrow> metrics_ok m'"
  by (auto simp: metrics_ok_def metrics_defs split: if_splits)

lemma AddSample_counts:
  "AddSample now b c m = (r, m') \<Longrightarrow>
     (case r of None \<Rightarrow> 0 | Some s \<Rightarrow> snap_success s) + success_count m' =
        success_count m + (if b then 1 else 0) \<and>
     (case r of None \<Rightarrow> 0 | Some s \<Rightarrow> snap_fail s) + fail_count m' =
        fail_count m + (if b then 0 else 1)"
  by (auto simp: metrics_defs split: if_splits)

fun add_samples :: "(nanos \<times> bool \<times> int) list \<Rightarrow> MetricsAggregator \<Rightarrow>
    MetricsSnapshot list \<times> MetricsAggregator" where
  "add_samples [] m = ([], m)"
| "add_samples ((now, success, cost) # rest) m =
     (case AddSample now success cost m of
        (r, m1) \<Rightarrow>
          (case add_samples rest m1 of
             (logged, m2) \<Rightarrow> ((case r of None \<Rightarrow> logged | Some s \<Rightarrow> s # logged), m2)))"

lemma add_samples_counts:
  "add_samples evs m = (logged, m') \<Longrightarrow>
     sum_list (map snap_success logged) + success_count m' =
       success_count m + int (length (filter (\<lambda>e. fst (snd e)) evs)) \<and>
     sum_list (map snap_fail logged) + fail_count m' =
       fail_count m + int (length (filter (\<lambda>e. \<not> fst (snd e)) evs))"
proof (induction evs m arbitrary: logged rule: add_samples.induct)
  case 1
  then show ?case by simp
next
  case (2 now b c rest m)
  obtain r m1 where a: "AddSample now b c m = (r, m1)" by (cases "AddSample now b c m")
  obtain l where l: "add_samples rest m1 = (l, m')"
    using "2.prems" a by (auto split: prod.splits)
  from "2.IH"[OF a[symmetric] l] l "2.prems" a AddSample_counts[OF a] show ?case
    by (cases r) auto
qed

lemma metrics_ok_add_samples:
  "metrics_ok m \<Longrightarrow> add_samples evs m = (logged, m') \<Longrightarrow> metrics_ok m'"
proof (induction evs m arbitrary: logged rule: add_samples.induct)
  case (2 now b c rest m)
  then show ?case by (auto split: prod.splits dest: metrics_ok_AddSample)
qed simp

subsection \<open>Percentiles\<close>

lemma perc_index_less: "0 < n \<Longrightarrow> p \<le> 100 \<Longrightarrow> perc_index p n < n"
proof -
  assume n: "0 < n" and p: "p \<le> 100"
  then have "p * n \<le> 100 * n" by simp
  then have "p * n * 2 + 100 < 200 * (n + 1)" unfolding distrib_left by linarith
  then have "(p * n * 2 + 100) div 200 < n + 1" by (simp add: div_less_iff_less_mult)
  with n show ?thesis by (simp add: perc_index_def)
qed

lemma perc_index_mono: "p \<le> q \<Longrightarrow> perc_index p n \<le> perc_index q n"
  unfolding perc_index_def by (intro diff_le_mono div_le_mono) simp

lemma perc_nth: "xs \<noteq> [] \<Longrightarrow> p \<le> 100 \<Longrightarrow> perc xs p = xs ! perc_index p (length xs)"
proof -
  assume "xs \<noteq> []" "p \<le> 100"
  then have "min (perc_index p (length xs)) (length xs - 1) = perc_index p (length xs)"
    using perc_index_less[of "length xs" p] by (intro min_absorb1) auto
  with \<open>xs \<noteq> []\<close> show ?thesis unfolding perc_def by simp
qed

lemma perc_in: "xs \<noteq> [] \<Longrightarrow> p \<le> 100 \<Longrightarrow> perc xs p \<in> set xs"
  by (simp add: perc_nth perc_index_less)

lemma perc_mono: "sorted xs \<Longrightarrow> p \<le> q \<Longrightarrow> q \<le> 100 \<Longrightarrow> perc xs p \<le> perc xs q"
proof (cases "xs = []")
  case False
  assume "sorted xs" "p \<le> q" "q \<le> 100"
  with False show ?thesis
    by (auto simp: perc_nth intro!: sorted_nth_mono perc_index_mono perc_index_less)
qed (simp add: perc_def)

lemma perc_bounds:
  assumes "sorted xs" "xs \<noteq> []" "p \<le> 100"
  shows "hd xs \<le> perc xs p" "perc xs p \<le> last xs"
  using assms perc_index_less[of "length xs" p]
  by (auto simp: perc_nth hd_conv_nth last_conv_nth intro!: sorted_nth_mono)

lemma length_filter_mset: "length (filter P xs) = size (filter_mset P (mset xs))"
  by (simp flip: mset_filter)

lemma length_filter_sort: "length (filter P (sort xs)) = length (filter P xs)"
  by (simp add: length_filter_mset)

lemma sorted_rank:
  assumes "sorted xs" "i < length xs"
  shows "i < length (filter (\<lambda>v. v \<le> xs ! i) xs)" "length xs - i \<le> length (filter (\<lambda>v. xs ! i \<le> v) xs)"
proof -
  have "xs = take (Suc i) xs @ drop (Suc i) xs" by simp
  then have "length (filter (\<lambda>v. v \<le> xs ! i) xs) =
      length (filter (\<lambda>v. v \<le> xs ! i) (take (Suc i) xs)) + length (filter (\<lambda>v. v \<le> xs ! i) (drop (Suc i) xs))"
    by (metis filter_append length_append)
  moreover have "filter (\<lambda>v. v \<le> xs ! i) (take (Suc i) xs) = take (Suc i) xs"
    using assms by (intro filter_True) (auto simp: in_set_conv_nth intro!: sorted_nth_mono)
  ultimately show "i < length (filter (\<lambda>v. v \<le> xs ! i) xs)" using assms by simp
  have "length (filter (\<lambda>v. xs ! i \<le> v) xs) =
      length (filter (\<lambda>v. xs ! i \<le> v) (take i xs)) + length (filter (\<lambda>v. xs ! i \<le> v) (drop i xs))"
    by (metis append_take_drop_id filter_append length_append)
  moreover have "filter (\<lambda>v. xs ! i \<le> v) (drop i xs) = drop i xs"
    using assms by (intro filter_True) (auto simp: in_set_conv_nth intro!: sorted_nth_mono)
  ultimately show "length xs - i \<le> length (filter (\<lambda>v. xs ! i \<le> v) xs)" by simp
qed

lemma perc_rank:
  assumes "xs \<noteq> []" "p \<le> 100"
  shows "perc_index p (length xs) < length (filter (\<lambda>v. v \<le> perc (sort xs) p) xs)"
    "length xs - perc_index p (length xs) \<le> length (filter (\<lambda>v. perc (sort xs) p \<le> v) xs)"
  using assms sorted_rank[of "sort xs" "perc_index p (length xs)"] perc_index_less[of "length xs" p]
    perc_nth[of "sort xs" p]
  by (simp_all add: length_filter_sort)

lemma Snapshot_values:
  assumes "metrics_ok m" "Snapshot now b m = (Some s, m')"
  shows "samples m \<noteq> []" "p50 s = perc (sort (samples m)) 50" "p95 s = perc (sort (samples m)) 95"
    "p99 s = perc (sort (samples m)) 99" "snap_min s = hd (sort (samples m))"
    "snap_max s = last (sort (samples m))" "snap_success s = success_count m" "snap_fail s = fail_count m"
  using assms by (auto simp: metrics_ok_def metrics_defs split: if_splits)

end
