(* ===== verification/Call_Table.thy ===== *)
theory Call_Table
  imports Krpc_Prelude "HOL-Library.Sublist"
begin

section \<open>The life of a request id\<close>

text \<open>
  The abstract specification of the pending-call tables of both channels. A request id is
  allocated from the process-wide counter by a caller, then either abandoned (the call failed before
  anything was sent) or inserted into the table of pending calls, and a pending id is completed.
  Completed ids are recorded in the order of completion.
  The locale \<open>call_protocol\<close> is the contract of a channel: each of its steps is a sequence of steps
  of this specification. Its theorems say that a call is completed at most once and that no call
  is lost. Both channels are interpretations.
\<close>

record call_view =
  cv_allocated :: "u64 list"
  cv_pending :: "u64 list"
  cv_completed :: "u64 list"
  cv_next :: u64

text \<open>The counter is 64 bits wide and starts at 1; the specification stops before it wraps.\<close>

inductive call_step :: "call_view \<Rightarrow> call_view \<Rightarrow> bool" where
  allocate: "unat (cv_next v) + 1 < 18446744073709551616 \<Longrightarrow>
     call_step v (v\<lparr>cv_allocated := cv_next v # cv_allocated v, cv_next := cv_next v + 1\<rparr>)"
| abandon: "i \<in> set (cv_allocated v) \<Longrightarrow>
     call_step v (v\<lparr>cv_allocated := remove1 i (cv_allocated v)\<rparr>)"
| insert: "i \<in> set (cv_allocated v) \<Longrightarrow>
     call_step v (v\<lparr>cv_allocated := remove1 i (cv_allocated v), cv_pending := cv_pending v @ [i]\<rparr>)"
| complete: "distinct ids \<Longrightarrow> set ids \<subseteq> set (cv_pending v) \<Longrightarrow>
     call_step v (v\<lparr>cv_pending := filter (\<lambda>i. i \<notin> set ids) (cv_pending v),
                     cv_completed := cv_completed v @ ids\<rparr>)"

inductive_cases call_stepE: "call_step v v'"

definition cv_ok :: "call_view \<Rightarrow> bool" where
  "cv_ok v \<longleftrightarrow> distinct (cv_allocated v @ cv_pending v @ cv_completed v) \<and>
     (\<forall>i \<in> set (cv_allocated v @ cv_pending v @ cv_completed v). i < cv_next v)"

lemma word_less_succ:
  assumes "unat (n :: u64) + 1 < 18446744073709551616"
  shows "n < n + 1" "i < n \<Longrightarrow> i < n + 1"
proof -
  have "unat (n + 1) = unat n + 1"
    using assms by (simp add: unat_word_ariths)
  then show "n < n + 1" by (simp add: word_less_nat_alt)
  then show "i < n \<Longrightarrow> i < n + 1" by (rule less_trans[rotated])
qed

lemma call_step_next: "call_step\<^sup>*\<^sup>* v v' \<Longrightarrow> cv_next v \<le> cv_next v'"
proof (induction rule: rtranclp_induct)
  case (step y z)
  from step.hyps(2) have "cv_next y \<le> cv_next z" by cases (auto simp: word_less_succ(1) less_imp_le)
  with step.IH show ?case by (rule order_trans)
qed simp

lemma cv_ok_step:
  assumes "call_step v v'" "cv_ok v"
  shows "cv_ok v'"
  using assms
proof cases
  case allocate
  with assms(2) show ?thesis by (auto simp: cv_ok_def word_less_succ)
next
  case (abandon i)
  with assms(2) show ?thesis by (auto simp: cv_ok_def dest: notin_set_remove1)
next
  case (insert i)
  with assms(2) show ?thesis by (auto simp: cv_ok_def dest: notin_set_remove1)
next
  case (complete ids)
  with assms(2) show ?thesis by (auto simp: cv_ok_def)
qed

lemma cv_progress_step:
  assumes "call_step v v'"
  shows "set (cv_pending v) \<union> set (cv_completed v) \<subseteq> set (cv_pending v') \<union> set (cv_completed v')"
    "prefix (cv_completed v) (cv_completed v')"
  using assms by (cases; auto)+

lemma cv_ok_steps: "call_step\<^sup>*\<^sup>* v v' \<Longrightarrow> cv_ok v \<Longrightarrow> cv_ok v'"
  by (induction rule: rtranclp_induct) (auto intro: cv_ok_step)

lemma cv_progress_steps:
  "call_step\<^sup>*\<^sup>* v v' \<Longrightarrow>
     set (cv_pending v) \<union> set (cv_completed v) \<subseteq> set (cv_pending v') \<union> set (cv_completed v') \<and>
     prefix (cv_completed v) (cv_completed v')"
proof (induction rule: rtranclp_induct)
  case (step y z)
  from cv_progress_step[OF step.hyps(2)] step.IH show ?case by (meson order_trans prefix_order.order_trans)
qed simp

locale call_protocol =
  fixes step :: "'s \<Rightarrow> 's \<Rightarrow> bool"
    and view :: "'s \<Rightarrow> call_view"
    and ok :: "'s \<Rightarrow> bool"
  assumes ok_step: "ok s \<Longrightarrow> step s s' \<Longrightarrow> ok s'"
    and refines: "ok s \<Longrightarrow> step s s' \<Longrightarrow> call_step\<^sup>*\<^sup>* (view s) (view s')"
begin

lemma run:
  "step\<^sup>*\<^sup>* s s' \<Longrightarrow> ok s \<Longrightarrow> ok s' \<and> call_step\<^sup>*\<^sup>* (view s) (view s')"
proof (induction rule: rtranclp_induct)
  case (step y z)
  with ok_step[of y z] refines[of y z] show ?case by (meson rtranclp_trans)
qed simp

lemma at_most_once:
  assumes "step\<^sup>*\<^sup>* s s'" "ok s" "cv_ok (view s)"
  shows "distinct (cv_completed (view s'))" "set (cv_pending (view s')) \<inter> set (cv_completed (view s')) = {}"
  using cv_ok_steps[of "view s" "view s'"] run[OF assms(1,2)] assms(3) by (auto simp: cv_ok_def)

lemma never_lost:
  assumes "step\<^sup>*\<^sup>* s s'" "ok s" "i \<in> set (cv_pending (view s))"
  shows "i \<in> set (cv_pending (view s')) \<or> i \<in> set (cv_completed (view s'))"
  using cv_progress_steps[of "view s" "view s'"] run[OF assms(1,2)] assms(3) by auto

lemma completed_stays:
  assumes "step\<^sup>*\<^sup>* s s'" "ok s"
  shows "prefix (cv_completed (view s)) (cv_completed (view s'))"
  using cv_progress_steps[of "view s" "view s'"] run[OF assms] by blast

end

end
