(* ===== verification/Channel_State.thy ===== *)
theory Channel_State
  imports Framing Endpoint_Discovery Connection_Pool Metrics Call_Table
begin

section \<open>The client channel: state and pending calls\<close>

text \<open>
  The model of the state of \<open>KrpcChannel\<close> (\<open>Krpcchannel.h\<close>) and of the operations that
  complete calls: \<open>EnqueueSend\<close>, \<open>CompletePending\<close>, \<open>RemovePendingCall\<close>, \<open>FailPendingCalls\<close>,
  \<open>ResolvePendingCall\<close>, \<open>ResolveHeartbeat\<close>, \<open>HandleHeartbeatFailure\<close> and a turn of \<open>TimeoutLoop\<close>.
  The globals of the process are the record \<open>world\<close>; what a call makes observable (the promise set,
  the closure run, the callback invoked, the response filled) is its list of effects. Controllers
  live in a store and are \<open>Krpccontroller\<close>s; closures, callbacks and messages are opaque numbers,
  \<open>None\<close> being the null pointer. A \<open>PendingCall\<close> is shared between the table and the caller, and
  nobody but the table can find it, so the record is kept in the table.
  Mutexes are held for the whole of the operations here, so each is one atomic step.
\<close>

record PendingCall =
  p_response :: "nat option"
  p_controller :: "nat option"
  p_timeout_ms :: int
  p_start_time :: nanos
  p_request_id :: u64
  p_done :: "nat option"
  p_async_callback :: "nat option"
  p_service_name :: string
  p_method_name :: string
  p_peer :: string

record SendTask =
  t_request_id :: u64
  t_header_varint :: string
  t_header :: string
  t_body :: string

datatype effect =
    Promise_set u64
  | Done_run u64 nat
  | Callback_run u64 nat "nat option" "nat option"
  | Response_parsed nat string
  | Bytes_sent fd string

record channel =
  m_clientfd :: fd
  m_ip :: string
  m_port :: u16
  m_endpoint_key :: string
  m_request_timeout_ms :: int
  m_heartbeat_interval_ms :: int
  m_heartbeat_miss_limit :: int
  m_pool_max_idle :: int
  m_use_pool :: bool
  m_lb_nodes :: "Endpoint list"
  m_fail_states :: fail_states
  m_pending_calls :: "(u64 \<times> PendingCall) list"
  m_send_queue :: "SendTask list"
  m_recv_buffer :: string
  m_waiting_heartbeat :: bool
  m_waiting_heartbeat_id :: u64
  m_waiting_heartbeat_result :: bool
  m_missed_heartbeat_count :: int
  m_last_pong_time :: nanos

record world =
  w_os :: os
  w_pools :: pools
  w_cache :: endpoint_cache
  w_static :: "Endpoint list option"
  w_lb_index :: u64
  g_request_id :: u64
  g_endpoint_fail_cooldown_ms :: int
  w_metrics :: metrics_state
  w_controllers :: "(nat \<times> Krpccontroller) list"
  w_effects :: "effect list"

type_synonym chan_state = "channel \<times> world"

subsection \<open>Basic operations\<close>

definition emit :: "effect list \<Rightarrow> world \<Rightarrow> world" where
  "emit es w = w\<lparr>w_effects := w_effects w @ es\<rparr>"

definition clock_now :: "net_env \<Rightarrow> world \<Rightarrow> nanos \<times> world" where
  "clock_now E w = (case os_clock E (w_os w) of (t, s) \<Rightarrow> (t, w\<lparr>w_os := s\<rparr>))"

definition set_failed :: "nat option \<Rightarrow> string \<Rightarrow> world \<Rightarrow> world" where
  "set_failed ctl reason w =
     (case ctl of
        None \<Rightarrow> w
      | Some c \<Rightarrow>
          (case map_of (w_controllers w) c of
             None \<Rightarrow> w
           | Some k \<Rightarrow> w\<lparr>w_controllers := AList.update c (SetFailed reason k) (w_controllers w)\<rparr>))"

definition NextRequestId :: "world \<Rightarrow> u64 \<times> world" where
  "NextRequestId w = (g_request_id w, w\<lparr>g_request_id := g_request_id w + 1\<rparr>)"

definition EnqueueSend :: "u64 \<Rightarrow> string \<Rightarrow> string \<Rightarrow> string \<Rightarrow> channel \<Rightarrow> channel" where
  "EnqueueSend rid header_varint header body ch =
     ch\<lparr>m_send_queue := m_send_queue ch @
          [\<lparr>t_request_id = rid, t_header_varint = header_varint,
            t_header = header, t_body = body\<rparr>]\<rparr>"

definition CloseConnectionLocked :: "chan_state \<Rightarrow> chan_state" where
  "CloseConnectionLocked st =
     (case st of (ch, w) \<Rightarrow>
        if m_clientfd ch \<noteq> -1
        then (ch\<lparr>m_clientfd := -1\<rparr>, w\<lparr>w_os := os_close (m_clientfd ch) (w_os w)\<rparr>)
        else (ch, w))"

subsection \<open>Completing calls\<close>

definition completion_effects :: "PendingCall \<Rightarrow> effect list" where
  "completion_effects p =
     [Promise_set (p_request_id p)] @
     (case p_done p of None \<Rightarrow> [] | Some d \<Rightarrow> [Done_run (p_request_id p) d]) @
     (case p_async_callback p of
        None \<Rightarrow> [] | Some cb \<Rightarrow> [Callback_run (p_request_id p) cb (p_controller p) (p_response p)])"

definition CompletePending :: "net_env \<Rightarrow> PendingCall \<Rightarrow> string \<Rightarrow> bool \<Rightarrow> world \<Rightarrow> world" where
  "CompletePending E p reason success w =
     (case clock_now E w of
        (end_time, w1) \<Rightarrow>
          (let cost_ms = duration_cast_ms (end_time - p_start_time p);
               w2 = (if \<not> success \<and> p_controller p \<noteq> None \<and> reason \<noteq> []
                     then set_failed (p_controller p) reason w1 else w1)
           in case clock_now E w2 of
                (now, w3) \<Rightarrow>
                  emit (completion_effects p)
                    (w3\<lparr>w_metrics := RecordMetricsSample now success cost_ms (w_metrics w3)\<rparr>)))"

definition CompleteAll :: "net_env \<Rightarrow> PendingCall list \<Rightarrow> string \<Rightarrow> bool \<Rightarrow> world \<Rightarrow> world" where
  "CompleteAll E ps reason success w = foldl (\<lambda>w p. CompletePending E p reason success w) w ps"

definition RemovePendingCall :: "net_env \<Rightarrow> u64 \<Rightarrow> string \<Rightarrow> chan_state \<Rightarrow> chan_state" where
  "RemovePendingCall E rid reason st =
     (case st of (ch, w) \<Rightarrow>
        (case map_of (m_pending_calls ch) rid of
           None \<Rightarrow> (ch, w)
         | Some p \<Rightarrow>
             (ch\<lparr>m_pending_calls := AList.delete rid (m_pending_calls ch)\<rparr>,
              CompletePending E p reason False w)))"

definition FailPendingCalls :: "net_env \<Rightarrow> string \<Rightarrow> chan_state \<Rightarrow> chan_state" where
  "FailPendingCalls E reason st =
     (case st of (ch, w) \<Rightarrow>
        (ch\<lparr>m_pending_calls := []\<rparr>,
         CompleteAll E (map snd (m_pending_calls ch)) reason False w))"

text \<open>\<open>parse\<close> is \<open>ParseFromString\<close> of the message object: does the payload parse?\<close>

definition ResolvePendingCall ::
    "net_env \<Rightarrow> (nat \<Rightarrow> string \<Rightarrow> bool) \<Rightarrow> RpcHeader \<Rightarrow> string \<Rightarrow> chan_state \<Rightarrow> chan_state" where
  "ResolvePendingCall E parse h payload st =
     (case st of (ch, w) \<Rightarrow>
        (case map_of (m_pending_calls ch) (request_id h) of
           None \<Rightarrow> (ch, w)
         | Some p \<Rightarrow>
             (let ch' = ch\<lparr>m_pending_calls := AList.delete (request_id h) (m_pending_calls ch)\<rparr>
              in case p_response p of
                   None \<Rightarrow> (ch', CompletePending E p [] True w)
                 | Some resp \<Rightarrow>
                     (let w1 = emit [Response_parsed resp payload] w
                      in if \<not> parse resp payload
                         then (ch', CompletePending E p ''parse response payload error'' False w1)
                         else (ch', CompletePending E p [] True w1)))))"

definition ResolveHeartbeat :: "net_env \<Rightarrow> RpcHeader \<Rightarrow> chan_state \<Rightarrow> chan_state" where
  "ResolveHeartbeat E h st =
     (case st of (ch, w) \<Rightarrow>
        if m_waiting_heartbeat ch \<and> request_id h = m_waiting_heartbeat_id ch
        then (case clock_now E w of
                (now, w') \<Rightarrow>
                  (ch\<lparr>m_waiting_heartbeat := False, m_waiting_heartbeat_result := True,
                      m_last_pong_time := now\<rparr>, w'))
        else (ch, w))"

definition HandleHeartbeatFailure :: "net_env \<Rightarrow> string \<Rightarrow> chan_state \<Rightarrow> chan_state" where
  "HandleHeartbeatFailure E reason st =
     (case CloseConnectionLocked st of
        (ch1, w1) \<Rightarrow>
          (let queued_ids = map t_request_id (m_send_queue ch1);
               st2 = foldl (\<lambda>s i. RemovePendingCall E i reason s) (ch1\<lparr>m_send_queue := []\<rparr>, w1) queued_ids
           in case FailPendingCalls E reason st2 of
                (ch3, w3) \<Rightarrow>
                  (if m_waiting_heartbeat ch3
                   then ch3\<lparr>m_waiting_heartbeat := False, m_waiting_heartbeat_result := False\<rparr>
                   else ch3, w3)))"

text \<open>One turn of \<open>TimeoutLoop\<close> after its wait.\<close>

definition expired :: "nanos \<Rightarrow> PendingCall \<Rightarrow> bool" where
  "expired now p \<longleftrightarrow> p_timeout_ms p > 0 \<and> now - p_start_time p \<ge> milliseconds (p_timeout_ms p)"

definition TimeoutLoop_turn :: "net_env \<Rightarrow> chan_state \<Rightarrow> chan_state" where
  "TimeoutLoop_turn E st =
     (case st of (ch, w) \<Rightarrow>
        (case clock_now E w of
           (now, w1) \<Rightarrow>
             (ch\<lparr>m_pending_calls := filter (\<lambda>e. \<not> expired now (snd e)) (m_pending_calls ch)\<rparr>,
              CompleteAll E (filter (expired now) (map snd (m_pending_calls ch))) ''timeout'' False w1)))"

subsection \<open>Which calls an operation completes\<close>

definition completed_ids :: "effect list \<Rightarrow> u64 list" where
  "completed_ids es = List.map_filter (\<lambda>e. case e of Promise_set i \<Rightarrow> Some i | _ \<Rightarrow> None) es"

definition pending_ids :: "chan_state \<Rightarrow> u64 list" where
  "pending_ids st = map fst (m_pending_calls (fst st))"

definition table_ok :: "channel \<Rightarrow> bool" where
  "table_ok ch \<longleftrightarrow> wf_map (m_pending_calls ch) \<and>
     (\<forall>e \<in> set (m_pending_calls ch). p_request_id (snd e) = fst e)"

definition drains :: "u64 list \<Rightarrow> chan_state \<Rightarrow> chan_state \<Rightarrow> bool" where
  "drains ids st st' \<longleftrightarrow> distinct ids \<and> set ids \<subseteq> set (pending_ids st) \<and>
     pending_ids st' = filter (\<lambda>i. i \<notin> set ids) (pending_ids st) \<and>
     completed_ids (w_effects (snd st')) = completed_ids (w_effects (snd st)) @ ids \<and>
     g_request_id (snd st') = g_request_id (snd st) \<and> table_ok (fst st')"

lemma completed_ids_append [simp]: "completed_ids (a @ b) = completed_ids a @ completed_ids b"
  by (simp add: completed_ids_def List.map_filter_def)

lemma completed_ids_simps [simp]:
  "completed_ids [] = []" "completed_ids (Promise_set i # es) = i # completed_ids es"
  "completed_ids (Done_run i d # es) = completed_ids es"
  "completed_ids (Callback_run i c k r # es) = completed_ids es"
  "completed_ids (Response_parsed m s # es) = completed_ids es"
  "completed_ids (Bytes_sent f s # es) = completed_ids es"
  by (simp_all add: completed_ids_def List.map_filter_def)

lemma completed_ids_completion [simp]: "completed_ids (completion_effects p) = [p_request_id p]"
  by (simp add: completion_effects_def split: option.splits)

lemma clock_now_frame:
  "clock_now E w = (t, w') \<Longrightarrow>
     w_effects w' = w_effects w \<and> g_request_id w' = g_request_id w \<and> w_pools w' = w_pools w \<and>
     w_controllers w' = w_controllers w \<and> os_open (w_os w') = os_open (w_os w) \<and>
     os_bad_close (w_os w') = os_bad_close (w_os w)"
  by (auto simp: clock_now_def os_clock_def)

lemma set_failed_frame [simp]:
  "w_effects (set_failed c r w) = w_effects w" "g_request_id (set_failed c r w) = g_request_id w"
  "w_pools (set_failed c r w) = w_pools w" "w_os (set_failed c r w) = w_os w"
  by (auto simp: set_failed_def split: option.splits)

lemma CompletePending_effects:
  "w_effects (CompletePending E p reason b w) = w_effects w @ completion_effects p"
  "g_request_id (CompletePending E p reason b w) = g_request_id w"
  "w_pools (CompletePending E p reason b w) = w_pools w"
  "os_open (w_os (CompletePending E p reason b w)) = os_open (w_os w)"
  by (auto simp: CompletePending_def emit_def Let_def split: prod.splits dest!: clock_now_frame)

lemma CompleteAll_effects:
  "w_effects (CompleteAll E ps reason b w) = w_effects w @ concat (map completion_effects ps)"
  "g_request_id (CompleteAll E ps reason b w) = g_request_id w"
  "w_pools (CompleteAll E ps reason b w) = w_pools w"
  "os_open (w_os (CompleteAll E ps reason b w)) = os_open (w_os w)"
proof (induction ps arbitrary: w)
  case (Cons p ps)
  {
    case 1
    show ?case using Cons.IH(1) by (simp add: CompleteAll_def CompletePending_effects)
  next
    case 2
    show ?case using Cons.IH(2) by (simp add: CompleteAll_def CompletePending_effects)
  next
    case 3
    show ?case using Cons.IH(3) by (simp add: CompleteAll_def CompletePending_effects)
  next
    case 4
    show ?case using Cons.IH(4) by (simp add: CompleteAll_def CompletePending_effects)
  }
qed (simp_all add: CompleteAll_def)

lemma completed_ids_concat:
  "completed_ids (concat (map completion_effects ps)) = map p_request_id ps"
  by (induction ps) auto

lemma table_ok_lookup: "table_ok ch \<Longrightarrow> map_of (m_pending_calls ch) i = Some p \<Longrightarrow> p_request_id p = i"
  by (auto simp: table_ok_def dest: map_of_SomeD)

lemma keys_AList_delete: "map fst (AList.delete k m) = filter (\<lambda>j. j \<noteq> k) (map fst m)"
  by (induction m) auto

lemma table_ok_delete:
  "table_ok ch \<Longrightarrow> table_ok (ch\<lparr>m_pending_calls := AList.delete i (m_pending_calls ch)\<rparr>)"
  by (auto simp: table_ok_def AList.delete_eq wf_map_filter)

lemma drains_Nil: "table_ok (fst st) \<Longrightarrow> drains [] st st"
  by (simp add: drains_def)

lemma drains_trans: "drains a st st1 \<Longrightarrow> drains b st1 st2 \<Longrightarrow> drains (a @ b) st st2"
  by (auto simp: drains_def)

lemma drains_table_ok: "drains ids st st' \<Longrightarrow> table_ok (fst st')"
  by (simp add: drains_def)

text \<open>Removing one id from the table and completing it, the core of the three operations.\<close>

lemma drains_one:
  assumes "table_ok ch" "map_of (m_pending_calls ch) i = Some p"
    "w_effects w' = w_effects w @ es @ completion_effects p" "completed_ids es = []"
    "g_request_id w' = g_request_id w"
  shows "drains [i] (ch, w) (ch\<lparr>m_pending_calls := AList.delete i (m_pending_calls ch)\<rparr>, w')"
  using assms table_ok_lookup[OF assms(1,2)] map_of_SomeD_key[OF assms(2)] table_ok_delete[OF assms(1)]
  by (auto simp: drains_def pending_ids_def keys_AList_delete)

lemma drains_RemovePendingCall:
  assumes "table_ok (fst st)"
  shows "drains (if i \<in> set (pending_ids st) then [i] else []) st (RemovePendingCall E i reason st)"
proof -
  obtain ch w where st: "st = (ch, w)" by (cases st)
  show ?thesis
  proof (cases "map_of (m_pending_calls ch) i")
    case None
    then have "i \<notin> set (pending_ids st)" by (simp add: pending_ids_def st map_of_eq_None_iff)
    with None assms show ?thesis by (simp add: RemovePendingCall_def st drains_Nil)
  next
    case (Some p)
    then have "i \<in> set (pending_ids st)" by (simp add: pending_ids_def st map_of_SomeD_key)
    with Some assms show ?thesis
      using drains_one[of ch i p "CompletePending E p reason False w" w "[]"]
      by (simp add: RemovePendingCall_def st CompletePending_effects)
  qed
qed

lemma drains_ResolvePendingCall:
  assumes "table_ok (fst st)"
  shows "drains (if request_id h \<in> set (pending_ids st) then [request_id h] else []) st
    (ResolvePendingCall E parse h payload st)"
proof -
  obtain ch w where st: "st = (ch, w)" by (cases st)
  show ?thesis
  proof (cases "map_of (m_pending_calls ch) (request_id h)")
    case None
    then have "request_id h \<notin> set (pending_ids st)" by (simp add: pending_ids_def st map_of_eq_None_iff)
    with None assms show ?thesis by (simp add: ResolvePendingCall_def st drains_Nil)
  next
    case (Some p)
    then have m: "request_id h \<in> set (pending_ids st)" by (simp add: pending_ids_def st map_of_SomeD_key)
    have "\<exists>w' es. ResolvePendingCall E parse h payload st =
        (ch\<lparr>m_pending_calls := AList.delete (request_id h) (m_pending_calls ch)\<rparr>, w') \<and>
        w_effects w' = w_effects w @ es @ completion_effects p \<and> completed_ids es = [] \<and>
        g_request_id w' = g_request_id w"
      using Some by (auto simp: ResolvePendingCall_def st Let_def CompletePending_effects emit_def
          split: option.splits)
    with m drains_one[of ch "request_id h" p] assms Some show ?thesis by (auto simp: st)
  qed
qed

lemma drains_many:
  assumes "table_ok ch"
  shows "drains (map fst (filter P (m_pending_calls ch))) (ch, w)
    (ch\<lparr>m_pending_calls := filter (\<lambda>e. \<not> P e) (m_pending_calls ch)\<rparr>,
     CompleteAll E (map snd (filter P (m_pending_calls ch))) reason b w)"
proof -
  let ?m = "m_pending_calls ch"
  have wf: "wf_map ?m" and ids: "\<And>e. e \<in> set ?m \<Longrightarrow> p_request_id (snd e) = fst e"
    using assms by (auto simp: table_ok_def)
  have "filter (\<lambda>i. i \<notin> set (map fst (filter P ?m))) (map fst ?m) = map fst (filter (\<lambda>e. \<not> P e) ?m)"
  proof -
    have "(fst e \<in> set (map fst (filter P ?m))) = P e" if "e \<in> set ?m" for e
    proof
      assume "fst e \<in> set (map fst (filter P ?m))"
      then obtain d where d: "d \<in> set ?m" "P d" "fst d = fst e" by auto
      from eq_key_imp_eq_value[OF wf, of "fst e" "snd d" "snd e"] d that have "snd d = snd e"
        by (metis prod.collapse)
      with d show "P e" by (metis prod.collapse)
    qed (use that in auto)
    then show ?thesis
      by (auto simp: filter_map comp_def intro!: arg_cong[of _ _ "map fst"] filter_cong)
  qed
  moreover have "map p_request_id (map snd (filter P ?m)) = map fst (filter P ?m)"
    using ids by simp
  ultimately show ?thesis
    using assms wf completed_ids_concat[of "map snd (filter P ?m)"]
    by (auto simp: drains_def pending_ids_def CompleteAll_effects table_ok_def distinct_map_filter)
qed

lemma drains_FailPendingCalls:
  assumes "table_ok (fst st)"
  shows "drains (pending_ids st) st (FailPendingCalls E reason st)"
    "m_pending_calls (fst (FailPendingCalls E reason st)) = []"
  using drains_many[OF assms, of "\<lambda>_. True" "snd st" E reason False]
  by (auto simp: FailPendingCalls_def pending_ids_def split: prod.splits)

lemma drains_TimeoutLoop_turn:
  assumes "table_ok ch"
  shows "drains (map fst (filter (\<lambda>e. expired (fst (clock_now E w)) (snd e)) (m_pending_calls ch)))
    (ch, w) (TimeoutLoop_turn E (ch, w))"
proof -
  obtain now w1 where c: "clock_now E w = (now, w1)" by (cases "clock_now E w")
  from drains_many[OF assms, of "\<lambda>e. expired now (snd e)" w1 E "''timeout''" False] clock_now_frame[OF c]
  show ?thesis
    by (simp add: TimeoutLoop_turn_def c drains_def pending_ids_def filter_map comp_def)
qed

subsection \<open>A failed connection fails every call\<close>

text \<open>The operations that complete calls change nothing of the channel but the table, and nothing
  of the operating system but its clock.\<close>

definition only_table :: "chan_state \<Rightarrow> chan_state \<Rightarrow> bool" where
  "only_table st st' \<longleftrightarrow>
     (\<exists>m. fst st' = (fst st)\<lparr>m_pending_calls := m\<rparr>) \<and>
     os_open (w_os (snd st')) = os_open (w_os (snd st)) \<and> w_pools (snd st') = w_pools (snd st)"

lemma only_table_refl: "only_table st st"
  unfolding only_table_def by (rule conjI, rule exI[of _ "m_pending_calls (fst st)"]) auto

lemma only_table_trans: "only_table st st1 \<Longrightarrow> only_table st1 st2 \<Longrightarrow> only_table st st2"
  by (auto simp: only_table_def)

lemma only_table_RemovePendingCall: "only_table st (RemovePendingCall E i reason st)"
  using only_table_refl[of st]
  by (auto simp: only_table_def RemovePendingCall_def CompletePending_effects
      split: prod.splits option.splits)

lemma only_table_FailPendingCalls: "only_table st (FailPendingCalls E reason st)"
  by (auto simp: only_table_def FailPendingCalls_def CompleteAll_effects split: prod.splits)

lemma only_table_ResolvePendingCall: "only_table st (ResolvePendingCall E parse h payload st)"
  using only_table_refl[of st]
  by (auto simp: only_table_def ResolvePendingCall_def CompletePending_effects Let_def emit_def
      split: prod.splits option.splits)

lemma drains_remove_all:
  "table_ok (fst st) \<Longrightarrow>
     \<exists>ids. drains ids st (foldl (\<lambda>s i. RemovePendingCall E i reason s) st is) \<and>
       only_table st (foldl (\<lambda>s i. RemovePendingCall E i reason s) st is)"
proof (induction "is" arbitrary: st)
  case Nil
  then show ?case using drains_Nil only_table_refl by fastforce
next
  case (Cons i "is")
  note one = drains_RemovePendingCall[OF Cons.prems, of i E reason]
  from Cons.IH[OF drains_table_ok[OF one]] obtain ids where
    "drains ids (RemovePendingCall E i reason st)
       (foldl (\<lambda>s i. RemovePendingCall E i reason s) st (i # is))"
    "only_table (RemovePendingCall E i reason st)
       (foldl (\<lambda>s i. RemovePendingCall E i reason s) st (i # is))"
    by auto
  with drains_trans[OF one] only_table_trans[OF only_table_RemovePendingCall] show ?case by blast
qed

lemma drains_all_set:
  assumes "drains ids st st'" "pending_ids st' = []"
  shows "set ids = set (pending_ids st)"
proof -
  from assms have "filter (\<lambda>i. i \<notin> set ids) (pending_ids st) = []" "set ids \<subseteq> set (pending_ids st)"
    by (simp_all add: drains_def)
  then show ?thesis by (auto simp: filter_empty_conv)
qed

lemma CloseConnectionLocked_frame:
  "CloseConnectionLocked (ch, w) = (ch', w') \<Longrightarrow>
     ch' = ch\<lparr>m_clientfd := -1\<rparr> \<and> w_effects w' = w_effects w \<and> g_request_id w' = g_request_id w \<and>
     w_pools w' = w_pools w \<and>
     w_os w' = (if m_clientfd ch = -1 then w_os w else os_close (m_clientfd ch) (w_os w))"
  by (auto simp: CloseConnectionLocked_def split: if_splits)

lemma HandleHeartbeatFailure_spec:
  assumes "table_ok ch" "HandleHeartbeatFailure E reason (ch, w) = (ch', w')"
  shows "\<exists>ids. drains ids (ch, w) (ch', w') \<and> set ids = set (pending_ids (ch, w))"
    "m_clientfd ch' = -1" "m_send_queue ch' = []" "m_pending_calls ch' = []"
    "\<not> m_waiting_heartbeat ch'" "m_recv_buffer ch' = m_recv_buffer ch"
    "os_open (w_os w') = (if m_clientfd ch = -1 then os_open (w_os w)
                           else os_open (os_close (m_clientfd ch) (w_os w)))"
    "w_pools w' = w_pools w"
proof -
  obtain ch1 w1 where c: "CloseConnectionLocked (ch, w) = (ch1, w1)"
    by (cases "CloseConnectionLocked (ch, w)")
  let ?st1 = "(ch1\<lparr>m_send_queue := []\<rparr>, w1)"
  let ?st2 = "foldl (\<lambda>s i. RemovePendingCall E i reason s) ?st1 (map t_request_id (m_send_queue ch1))"
  obtain ch3 w3 where f: "FailPendingCalls E reason ?st2 = (ch3, w3)"
    by (cases "FailPendingCalls E reason ?st2")
  note cf = CloseConnectionLocked_frame[OF c]
  have ok1: "table_ok (fst ?st1)" using assms(1) cf by (simp add: table_ok_def)
  from drains_remove_all[OF ok1, of E reason] obtain a where
    a: "drains a ?st1 ?st2" "only_table ?st1 ?st2" by blast
  note b = drains_FailPendingCalls[OF drains_table_ok[OF a(1)], of E reason]
    only_table_FailPendingCalls[of ?st2 E reason]
  from drains_trans[OF a(1) b(1)] have d: "drains (a @ pending_ids ?st2) ?st1 (ch3, w3)" by (simp add: f)
  from only_table_trans[OF a(2) b(3)] have o: "only_table ?st1 (ch3, w3)" by (simp add: f)
  have res: "ch' = (if m_waiting_heartbeat ch3
       then ch3\<lparr>m_waiting_heartbeat := False, m_waiting_heartbeat_result := False\<rparr> else ch3)" "w' = w3"
    using assms(2) by (auto simp: HandleHeartbeatFailure_def c f)
  from b(2) have e: "m_pending_calls ch3 = []" by (simp add: f)
  have d': "drains (a @ pending_ids ?st2) (ch, w) (ch', w')"
    using d res cf by (auto simp: drains_def pending_ids_def table_ok_def)
  moreover have "pending_ids (ch', w') = []" using res e by (simp add: pending_ids_def)
  ultimately show "\<exists>ids. drains ids (ch, w) (ch', w') \<and> set ids = set (pending_ids (ch, w))"
    using drains_all_set by blast
  show "m_clientfd ch' = -1" "m_send_queue ch' = []" "m_pending_calls ch' = []"
    "\<not> m_waiting_heartbeat ch'" "m_recv_buffer ch' = m_recv_buffer ch" "w_pools w' = w_pools w"
    "os_open (w_os w') = (if m_clientfd ch = -1 then os_open (w_os w)
                           else os_open (os_close (m_clientfd ch) (w_os w)))"
    using res e cf o by (auto simp: only_table_def)
qed

subsection \<open>A failed call tells its controller\<close>

definition failed_with :: "string \<Rightarrow> world \<Rightarrow> nat \<Rightarrow> bool" where
  "failed_with reason w c \<longleftrightarrow>
     (\<exists>k. map_of (w_controllers w) c = Some k \<and> Failed k \<and> ErrorText k = reason)"

definition live_controllers :: "world \<Rightarrow> nat set" where
  "live_controllers w = fst ` set (w_controllers w)"

lemma live_iff: "c \<in> live_controllers w \<longleftrightarrow> (\<exists>k. map_of (w_controllers w) c = Some k)"
  by (simp add: live_controllers_def) (metis map_of_eq_None_iff not_None_eq)

lemma live_set_failed [simp]: "live_controllers (set_failed c r w) = live_controllers w"
  by (auto simp: set_failed_def live_controllers_def keys_update split: option.splits
      dest: map_of_SomeD_key)

lemma CompletePending_controllers:
  "w_controllers (CompletePending E p reason b w) =
     w_controllers (if \<not> b \<and> p_controller p \<noteq> None \<and> reason \<noteq> [] then set_failed (p_controller p) reason w else w)"
  by (auto simp: CompletePending_def Let_def emit_def set_failed_def split: prod.splits option.splits
      dest!: clock_now_frame)

lemma CompletePending_failed:
  assumes "reason \<noteq> []"
  shows "live_controllers (CompletePending E p reason False w) = live_controllers w"
    "failed_with reason w c \<Longrightarrow> failed_with reason (CompletePending E p reason False w) c"
    "p_controller p = Some c \<Longrightarrow> c \<in> live_controllers w \<Longrightarrow>
       failed_with reason (CompletePending E p reason False w) c"
  using assms live_set_failed[of "p_controller p" reason w]
  by (auto simp: live_controllers_def failed_with_def CompletePending_controllers set_failed_def
      AList.update_conv' split: option.splits if_splits dest: weak_map_of_SomeI)

lemma CompleteAll_failed:
  assumes "reason \<noteq> []"
  shows "live_controllers (CompleteAll E ps reason False w) = live_controllers w"
    "failed_with reason w c \<Longrightarrow> failed_with reason (CompleteAll E ps reason False w) c"
    "p \<in> set ps \<Longrightarrow> p_controller p = Some c \<Longrightarrow> c \<in> live_controllers w \<Longrightarrow>
       failed_with reason (CompleteAll E ps reason False w) c"
proof (induction ps arbitrary: w)
  case (Cons q ps)
  note one = CompletePending_failed[OF assms, where E = E and p = q]
  {
    case 1
    then show ?case using Cons.IH(1) one(1) by (simp add: CompleteAll_def)
  next
    case 2
    then show ?case using Cons.IH(2) one(2) by (simp add: CompleteAll_def)
  next
    case 3
    then show ?case
      using Cons.IH(2,3)[of "CompletePending E q reason False w"] one(1,3)
      by (auto simp: CompleteAll_def)
  }
qed (simp_all add: CompleteAll_def)

text \<open>Every call that leaves the table by \<open>RemovePendingCall\<close> or \<open>FailPendingCalls\<close> has failed.\<close>

definition fails :: "string \<Rightarrow> chan_state \<Rightarrow> chan_state \<Rightarrow> bool" where
  "fails reason st st' \<longleftrightarrow>
     live_controllers (snd st') = live_controllers (snd st) \<and>
     (\<forall>c. failed_with reason (snd st) c \<longrightarrow> failed_with reason (snd st') c) \<and>
     (\<forall>e c. e \<in> set (m_pending_calls (fst st)) \<longrightarrow> p_controller (snd e) = Some c \<longrightarrow>
        c \<in> live_controllers (snd st) \<longrightarrow>
        failed_with reason (snd st') c \<or> e \<in> set (m_pending_calls (fst st')))"

lemma fails_refl: "fails reason st st"
  by (simp add: fails_def)

lemma fails_trans: "fails reason a b \<Longrightarrow> fails reason b c \<Longrightarrow> fails reason a c"
  unfolding fails_def by metis

lemma fails_RemovePendingCall:
  assumes "reason \<noteq> []" "table_ok (fst st)"
  shows "fails reason st (RemovePendingCall E i reason st)"
proof (cases "map_of (m_pending_calls (fst st)) i")
  case None
  then show ?thesis by (cases st) (simp add: RemovePendingCall_def fails_refl)
next
  case (Some p)
  have "e \<in> set (AList.delete i (m_pending_calls (fst st))) \<or> e = (i, p)"
    if "e \<in> set (m_pending_calls (fst st))" for e
    using that Some assms(2) in_set_wf_map[of "m_pending_calls (fst st)" "fst e" "snd e"]
    by (cases e) (auto simp: table_ok_def AList.delete_eq)
  with Some CompletePending_failed[OF assms(1)] show ?thesis
    by (cases st) (fastforce simp: RemovePendingCall_def fails_def)
qed

lemma fails_FailPendingCalls:
  "reason \<noteq> [] \<Longrightarrow> fails reason st (FailPendingCalls E reason st)"
  by (cases st)
    (auto simp: FailPendingCalls_def fails_def CompleteAll_failed image_iff intro!: CompleteAll_failed(3) bexI)

lemma fails_remove_all:
  "reason \<noteq> [] \<Longrightarrow> table_ok (fst st) \<Longrightarrow>
     fails reason st (foldl (\<lambda>s i. RemovePendingCall E i reason s) st is)"
proof (induction "is" arbitrary: st)
  case (Cons i "is")
  have "table_ok (fst (RemovePendingCall E i reason st))"
    using drains_table_ok[OF drains_RemovePendingCall[OF Cons.prems(2)]] .
  from Cons.IH[OF Cons.prems(1) this] fails_trans[OF fails_RemovePendingCall[OF Cons.prems]]
  show ?case by simp
qed (simp add: fails_refl)

lemma fails_HandleHeartbeatFailure:
  assumes "reason \<noteq> []" "table_ok (fst st)"
  shows "fails reason st (HandleHeartbeatFailure E reason st)"
proof -
  obtain ch w ch1 w1 where st: "st = (ch, w)" "CloseConnectionLocked (ch, w) = (ch1, w1)"
    by (metis prod.collapse)
  let ?st2 = "foldl (\<lambda>s i. RemovePendingCall E i reason s) (ch1\<lparr>m_send_queue := []\<rparr>, w1) (map t_request_id (m_send_queue ch1))"
  have "w_controllers w1 = w_controllers w" using st(2) by (auto simp: CloseConnectionLocked_def split: if_splits)
  moreover note cf = CloseConnectionLocked_frame[OF st(2)]
  ultimately have 0: "fails reason st (ch1\<lparr>m_send_queue := []\<rparr>, w1)"
    by (simp add: fails_def st live_controllers_def failed_with_def)
  have "table_ok (fst (ch1\<lparr>m_send_queue := []\<rparr>, w1))" using assms(2) cf by (simp add: st table_ok_def)
  from fails_trans[OF 0 fails_remove_all[OF assms(1) this]]
  have f: "fails reason st (FailPendingCalls E reason ?st2)"
    using fails_trans fails_FailPendingCalls[OF assms(1)] by blast
  obtain ch3 w3 where r: "FailPendingCalls E reason ?st2 = (ch3, w3)" by (metis prod.collapse)
  have "fails reason st (ch4, w3)" if "m_pending_calls ch4 = m_pending_calls ch3" for ch4
    using f that by (simp add: r fails_def)
  then show ?thesis by (simp add: HandleHeartbeatFailure_def st r Let_def)
qed

end
