(* ===== verification/Channel_Send.thy ===== *)
theory Channel_Send
  imports Channel_State
begin

section \<open>The client channel: the send loop\<close>

text \<open>
  The model of \<open>KrpcChannel::SendLoop\<close>. A task is three segments (the varint of the header length, the
  header, the body) sent with \<open>writev\<close>; \<open>idx\<close> and \<open>offset\<close> say where the next byte is. What
  the successive \<open>writev\<close> calls answer is a list: a byte count (the kernel never takes more than it was
  offered), \<open>EINTR\<close>, or another error with the text that \<open>strerror_r\<close> left in the buffer. When the list
  ends the thread is still inside \<open>writev\<close>.
\<close>

datatype writev_result = Wrote nat | Eintr | Werror string

datatype send_result = Sent | Send_failed string | Send_blocked

text \<open>The inner loop: which segment and offset \<open>sent\<close> further bytes lead to.\<close>

function advance :: "string list \<Rightarrow> nat \<Rightarrow> nat \<Rightarrow> nat \<Rightarrow> nat \<times> nat" where
  "advance segs idx offset sent =
     (if 0 < sent \<and> idx < length segs then
        (let remaining = length (segs ! idx) - offset
         in if sent < remaining then (idx, offset + sent)
            else advance segs (Suc idx) 0 (sent - remaining))
      else (idx, offset))"
  by pat_completeness auto
termination by (relation "measure (\<lambda>(segs, idx, offset, sent). length segs - idx)") auto

declare advance.simps [simp del]

definition iov_bytes :: "string list \<Rightarrow> nat \<Rightarrow> nat \<Rightarrow> string" where
  "iov_bytes segs idx offset = drop offset (segs ! idx) @ concat (drop (Suc idx) segs)"

fun send_segments ::
    "writev_result list \<Rightarrow> string list \<Rightarrow> nat \<Rightarrow> nat \<Rightarrow> string \<Rightarrow> send_result \<times> string" where
  "send_segments ws segs idx offset out =
     (if length segs \<le> idx then (Sent, out)
      else (case ws of
              [] \<Rightarrow> (Send_blocked, out)
            | Eintr # ws' \<Rightarrow> send_segments ws' segs idx offset out
            | Werror errtxt # ws' \<Rightarrow> (Send_failed errtxt, out)
            | Wrote k # ws' \<Rightarrow>
                (let bytes = take k (iov_bytes segs idx offset); n = length bytes
                 in if n = 0 then (Send_failed ''connection closed'', out)
                    else (case advance segs idx offset n of
                            (idx', offset') \<Rightarrow> send_segments ws' segs idx' offset' (out @ bytes)))))"

declare send_segments.simps [simp del]

text \<open>One turn of the loop: \<open>None\<close> while the thread waits for a task or inside \<open>writev\<close>. A failure with an
  empty text closes the connection, but the code tells it from success by the text alone.\<close>

definition SendLoop_turn ::
    "net_env \<Rightarrow> writev_result list \<Rightarrow> chan_state \<Rightarrow> chan_state option" where
  "SendLoop_turn E ws st =
     (case st of (ch, w) \<Rightarrow>
        (case m_send_queue ch of
           [] \<Rightarrow> None
         | task # queue \<Rightarrow>
             (let ch1 = ch\<lparr>m_send_queue := queue\<rparr>;
                  fail = (\<lambda>reason s. if reason = [] then s
                           else HandleHeartbeatFailure E reason
                                  (RemovePendingCall E (t_request_id task) reason s))
              in if m_clientfd ch1 = -1 then Some (fail ''connection not established'' (ch1, w))
                 else (case send_segments ws [t_header_varint task, t_header task, t_body task] 0 0 [] of
                         (Sent, out) \<Rightarrow> Some (ch1, emit [Bytes_sent (m_clientfd ch1) out] w)
                       | (Send_blocked, out) \<Rightarrow> None
                       | (Send_failed err, out) \<Rightarrow>
                           Some (fail err (CloseConnectionLocked
                                   (ch1, emit [Bytes_sent (m_clientfd ch1) out] w)))))))"

subsection \<open>The position is where the written bytes end\<close>

text \<open>What is left to send from a position; at the end of the segments nothing is.\<close>

definition left_bytes :: "string list \<Rightarrow> nat \<Rightarrow> nat \<Rightarrow> string" where
  "left_bytes segs idx offset = (if idx < length segs then iov_bytes segs idx offset else [])"

definition pos_ok :: "string list \<Rightarrow> nat \<Rightarrow> nat \<Rightarrow> bool" where
  "pos_ok segs idx offset \<longleftrightarrow> idx \<le> length segs \<and> (idx < length segs \<longrightarrow> offset \<le> length (segs ! idx)) \<and>
     (idx = length segs \<longrightarrow> offset = 0)"

lemma left_bytes_next: "idx < length segs \<Longrightarrow> left_bytes segs (Suc idx) 0 = concat (drop (Suc idx) segs)"
  by (auto simp: left_bytes_def iov_bytes_def Cons_nth_drop_Suc[symmetric])

lemma advance_left:
  "pos_ok segs idx offset \<Longrightarrow> sent \<le> length (left_bytes segs idx offset) \<Longrightarrow>
     advance segs idx offset sent = (idx', offset') \<Longrightarrow>
     pos_ok segs idx' offset' \<and> left_bytes segs idx' offset' = drop sent (left_bytes segs idx offset)"
proof (induction segs idx offset sent arbitrary: idx' offset' rule: advance.induct)
  case (1 segs idx offset sent)
  show ?case
  proof (cases "0 < sent \<and> idx < length segs")
    case False
    with 1 show ?thesis by (auto simp: advance.simps[of segs idx offset sent] left_bytes_def)
  next
    case True
    let ?rem = "length (segs ! idx) - offset"
    have off: "offset \<le> length (segs ! idx)" using "1.prems"(1) True by (simp add: pos_ok_def)
    have left: "left_bytes segs idx offset = drop offset (segs ! idx) @ left_bytes segs (Suc idx) 0"
      using True left_bytes_next[of idx segs] by (simp add: left_bytes_def iov_bytes_def)
    show ?thesis
    proof (cases "sent < ?rem")
      case lt: True
      with True "1.prems"(3) have "idx' = idx" "offset' = offset + sent"
        by (simp_all add: advance.simps[of segs idx offset sent] Let_def)
      with True lt off left show ?thesis
        by (simp add: pos_ok_def left_bytes_def iov_bytes_def add.commute)
    next
      case ge: False
      with True "1.prems"(3) have a: "advance segs (Suc idx) 0 (sent - ?rem) = (idx', offset')"
        by (simp add: advance.simps[of segs idx offset sent] Let_def)
      have "pos_ok segs (Suc idx) 0" using True by (auto simp: pos_ok_def)
      moreover have "sent - ?rem \<le> length (left_bytes segs (Suc idx) 0)"
        using "1.prems"(2) left by simp
      ultimately have "pos_ok segs idx' offset' \<and>
          left_bytes segs idx' offset' = drop (sent - ?rem) (left_bytes segs (Suc idx) 0)"
        using "1.IH"[OF True refl ge _ _ a] by blast
      with left ge show ?thesis by simp
    qed
  qed
qed

lemma send_segments_prefix:
  "pos_ok segs idx offset \<Longrightarrow> send_segments ws segs idx offset out = (r, out') \<Longrightarrow>
     (\<exists>sent. out' = out @ sent \<and> prefix sent (left_bytes segs idx offset) \<and>
       (r = Sent \<longrightarrow> sent = left_bytes segs idx offset))"
proof (induction ws segs idx offset out rule: send_segments.induct)
  case (1 ws segs idx offset out)
  note unf = send_segments.simps[of ws segs idx offset out]
  show ?case
  proof (cases "length segs \<le> idx")
    case True
    with "1.prems"(2) show ?thesis by (auto simp: unf left_bytes_def)
  next
    case idx: False
    show ?thesis
    proof (cases ws)
      case Nil
      with idx "1.prems"(2) show ?thesis by (auto simp: unf[unfolded Nil])
    next
      case (Cons x ws')
      show ?thesis
      proof (cases x)
        case Eintr
        with idx Cons "1.prems" "1.IH"(2)[OF idx Cons Eintr] show ?thesis by (simp add: unf[unfolded Cons Eintr])
      next
        case (Werror e)
        with idx Cons "1.prems"(2) show ?thesis by (auto simp: unf[unfolded Cons Werror])
      next
        case (Wrote k)
        let ?left = "left_bytes segs idx offset"
        have left: "?left = iov_bytes segs idx offset" using idx by (simp add: left_bytes_def)
        let ?bytes = "take k (iov_bytes segs idx offset)"
        show ?thesis
        proof (cases "length ?bytes = 0")
          case True
          with idx Cons Wrote "1.prems"(2) show ?thesis by (auto simp: unf[unfolded Cons Wrote] Let_def min_def split: if_splits)
        next
          case False
          obtain i' o' where a: "advance segs idx offset (length ?bytes) = (i', o')"
            by (cases "advance segs idx offset (length ?bytes)")
          have "length ?bytes \<le> length ?left" unfolding left by simp
          note adv = advance_left[OF "1.prems"(1) this a]
          have "send_segments ws' segs i' o' (out @ ?bytes) = (r, out')"
            using idx Cons Wrote False a "1.prems"(2) by (simp add: unf[unfolded Cons Wrote] Let_def)
          from "1.IH"(1)[OF idx Cons Wrote refl refl False a[symmetric] _ this] adv
          obtain sent where s: "out' = (out @ ?bytes) @ sent" "prefix sent (left_bytes segs i' o')"
            "r = Sent \<longrightarrow> sent = left_bytes segs i' o'" by blast
          have "?bytes @ left_bytes segs i' o' = ?left"
            using adv unfolding left by (metis append_eq_conv_conj append_take_drop_id)
          with s show ?thesis by (metis append.assoc same_prefix_prefix)
        qed
      qed
    qed
  qed
qed

subsection \<open>Progress\<close>

text \<open>With a body, every result list whose byte counts are positive and that is long enough
  ends with everything sent.\<close>

definition positive_writes :: "writev_result list \<Rightarrow> bool" where
  "positive_writes ws \<longleftrightarrow> (\<forall>x \<in> set ws. (case x of Wrote k \<Rightarrow> 0 < k | Eintr \<Rightarrow> True | Werror e \<Rightarrow> False))"

definition writes_count :: "writev_result list \<Rightarrow> nat" where
  "writes_count ws = sum_list (map (\<lambda>x. case x of Wrote k \<Rightarrow> k | _ \<Rightarrow> 0) ws)"

text \<open>A position inside the segments has bytes left when the last segment is not empty.\<close>

lemma left_nonempty:
  assumes "pos_ok segs idx offset" "idx < length segs" "last segs \<noteq> []"
    "idx = length segs - 1 \<longrightarrow> offset < length (last segs)"
  shows "left_bytes segs idx offset \<noteq> []"
proof (cases "idx = length segs - 1")
  case True
  moreover have "last segs = segs ! (length segs - 1)" using assms(2) by (intro last_conv_nth) auto
  ultimately show ?thesis using assms by (auto simp: left_bytes_def iov_bytes_def)
next
  case False
  with assms(2) have "last segs \<in> set (drop (Suc idx) segs)"
    by (metis Suc_lessI diff_Suc_1 drop_eq_Nil last_drop last_in_set not_less)
  then have "concat (drop (Suc idx) segs) \<noteq> []" using assms(3) by (auto simp: concat_eq_Nil_conv)
  then show ?thesis using assms(2) by (simp add: left_bytes_def iov_bytes_def)
qed

lemma advance_strict:
  "pos_ok segs idx offset \<Longrightarrow> (idx = length segs - 1 \<longrightarrow> idx < length segs \<longrightarrow> offset < length (segs ! idx)) \<Longrightarrow>
     segs \<noteq> [] \<Longrightarrow> last segs \<noteq> [] \<Longrightarrow>
     advance segs idx offset sent = (idx', offset') \<Longrightarrow>
     idx' = length segs - 1 \<longrightarrow> offset' < length (last segs)"
proof (induction segs idx offset sent arbitrary: idx' offset' rule: advance.induct)
  case (1 segs idx offset sent)
  show ?case
  proof (cases "0 < sent \<and> idx < length segs")
    case False
    with 1 show ?thesis by (auto simp: advance.simps[of segs idx offset sent] last_conv_nth)
  next
    case True
    let ?rem = "length (segs ! idx) - offset"
    show ?thesis
    proof (cases "sent < ?rem")
      case lt: True
      with True "1.prems" show ?thesis
        by (auto simp: advance.simps[of segs idx offset sent] Let_def last_conv_nth)
    next
      case ge: False
      with True "1.prems"(5) have a: "advance segs (Suc idx) 0 (sent - ?rem) = (idx', offset')"
        by (simp add: advance.simps[of segs idx offset sent] Let_def)
      have "pos_ok segs (Suc idx) 0" using True by (auto simp: pos_ok_def)
      moreover have "Suc idx = length segs - 1 \<longrightarrow> Suc idx < length segs \<longrightarrow> 0 < length (segs ! Suc idx)"
        using "1.prems"(3,4) by (auto simp: last_conv_nth)
      ultimately show ?thesis using "1.IH"[OF True refl ge _ _ _ _ a] "1.prems"(3,4) by blast
    qed
  qed
qed

lemma send_segments_complete:
  "pos_ok segs idx offset \<Longrightarrow> (idx = length segs - 1 \<longrightarrow> offset < length (last segs)) \<Longrightarrow>
     segs \<noteq> [] \<Longrightarrow> last segs \<noteq> [] \<Longrightarrow> positive_writes ws \<Longrightarrow>
     length (left_bytes segs idx offset) \<le> writes_count ws \<Longrightarrow>
     fst (send_segments ws segs idx offset out) = Sent"
proof (induction ws arbitrary: idx offset out)
  case Nil
  then have "\<not> idx < length segs" using left_nonempty[of segs idx offset] by (auto simp: writes_count_def)
  then show ?case by (simp add: send_segments.simps)
next
  case (Cons x ws)
  show ?case
  proof (cases "length segs \<le> idx")
    case True
    then show ?thesis by (simp add: send_segments.simps)
  next
    case False
    note left = left_nonempty[OF Cons.prems(1) _ Cons.prems(4,2)]
    show ?thesis
    proof (cases x)
      case Eintr
      with False Cons show ?thesis
        by (simp add: send_segments.simps[of "Eintr # ws"] positive_writes_def writes_count_def)
    next
      case (Werror e)
      with Cons.prems(5) show ?thesis by (simp add: positive_writes_def)
    next
      case (Wrote k)
      let ?left = "left_bytes segs idx offset"
      let ?bytes = "take k ?left"
      have k: "0 < k" "positive_writes ws" using Cons.prems(5) Wrote by (simp_all add: positive_writes_def)
      have ne: "?left \<noteq> []" using left False by simp
      then have n: "length ?bytes \<noteq> 0" using k(1) by simp
      have iov: "iov_bytes segs idx offset = ?left" using False by (simp add: left_bytes_def)
      obtain i' o' where a: "advance segs idx offset (length ?bytes) = (i', o')"
        by (cases "advance segs idx offset (length ?bytes)")
      have "length ?bytes \<le> length ?left" by simp
      note adv = advance_left[OF Cons.prems(1) this a]
      have strict: "i' = length segs - 1 \<longrightarrow> o' < length (last segs)"
        using advance_strict[OF Cons.prems(1) _ Cons.prems(3,4) a] Cons.prems(2,3)
        by (simp add: last_conv_nth)
      have "length (left_bytes segs i' o') \<le> writes_count ws"
        using adv Cons.prems(6) Wrote by (simp add: writes_count_def)
      from Cons.IH[OF _ strict Cons.prems(3,4) k(2) this] adv
      have "fst (send_segments ws segs i' o' (out @ ?bytes)) = Sent" by blast
      with False n a Wrote show ?thesis
        by (simp add: send_segments.simps[of "Wrote k # ws"] iov Let_def)
    qed
  qed
qed

text \<open>So a turn of the loop writes the whole frame.\<close>

lemma SendLoop_turn_whole:
  assumes "m_send_queue ch = task # queue" "m_clientfd ch \<noteq> -1" "t_body task \<noteq> []" "positive_writes ws"
    "length (t_header_varint task @ t_header task @ t_body task) \<le> writes_count ws"
  shows "SendLoop_turn E ws (ch, w) =
    Some (ch\<lparr>m_send_queue := queue\<rparr>,
      emit [Bytes_sent (m_clientfd ch) (t_header_varint task @ t_header task @ t_body task)] w)"
proof -
  let ?segs = "[t_header_varint task, t_header task, t_body task]"
  obtain r out where r: "send_segments ws ?segs 0 0 [] = (r, out)" by fastforce
  have pos: "pos_ok ?segs 0 0" by (simp add: pos_ok_def)
  have left: "left_bytes ?segs 0 0 = t_header_varint task @ t_header task @ t_body task"
    by (simp add: left_bytes_def iov_bytes_def)
  have "r = Sent" using send_segments_complete[OF pos _ _ _ assms(4), of "[]"] assms(3,5) r left by simp
  with send_segments_prefix[OF pos r] left assms(1,2) r show ?thesis
    by (simp add: SendLoop_turn_def)
qed

text \<open>With an empty body the loop never gets past the last segment: once header and varint are out
  it offers nothing to \<open>writev\<close>, and takes the answer 0 for a closed connection.\<close>

lemma advance_below:
  "pos_ok segs idx offset \<Longrightarrow> idx < length segs \<Longrightarrow> sent \<le> length (left_bytes segs idx offset) \<Longrightarrow>
     segs \<noteq> [] \<Longrightarrow> last segs = [] \<Longrightarrow> advance segs idx offset sent = (idx', offset') \<Longrightarrow> idx' < length segs"
proof (induction segs idx offset sent arbitrary: idx' offset' rule: advance.induct)
  case (1 segs idx offset sent)
  show ?case
  proof (cases "0 < sent")
    case False
    with 1 show ?thesis by (simp add: advance.simps[of segs idx offset sent])
  next
    case True
    let ?rem = "length (segs ! idx) - offset"
    have left: "left_bytes segs idx offset = drop offset (segs ! idx) @ left_bytes segs (Suc idx) 0"
      using "1.prems"(2) left_bytes_next[of idx segs] by (simp add: left_bytes_def iov_bytes_def)
    show ?thesis
    proof (cases "sent < ?rem")
      case lt: True
      with True "1.prems" show ?thesis by (simp add: advance.simps[of segs idx offset sent] Let_def)
    next
      case ge: False
      have lst: "idx \<noteq> length segs - 1"
      proof
        assume "idx = length segs - 1"
        with "1.prems" True show False
          by (auto simp: left_bytes_def iov_bytes_def last_conv_nth)
      qed
      with "1.prems"(2) have s: "Suc idx < length segs" by simp
      have a: "advance segs (Suc idx) 0 (sent - ?rem) = (idx', offset')"
        using ge True "1.prems" by (simp add: advance.simps[of segs idx offset sent] Let_def)
      have "pos_ok segs (Suc idx) 0" using s by (auto simp: pos_ok_def)
      moreover have "sent - ?rem \<le> length (left_bytes segs (Suc idx) 0)" using "1.prems"(3) left by simp
      ultimately show ?thesis using "1.IH"[OF _ refl ge _ s _ "1.prems"(4,5) a] True "1.prems"(2) by blast
    qed
  qed
qed

lemma send_segments_empty_body:
  "pos_ok segs idx offset \<Longrightarrow> idx < length segs \<Longrightarrow> segs \<noteq> [] \<Longrightarrow> last segs = [] \<Longrightarrow>
     fst (send_segments ws segs idx offset out) \<noteq> Sent"
proof (induction ws arbitrary: idx offset out)
  case Nil
  then show ?case by (simp add: send_segments.simps)
next
  case (Cons x ws)
  show ?case
  proof (cases x)
    case Eintr
    with Cons show ?thesis by (simp add: send_segments.simps[of "Eintr # ws"])
  next
    case (Werror e)
    with Cons.prems show ?thesis by (simp add: send_segments.simps[of "Werror e # ws"])
  next
    case (Wrote k)
    let ?bytes = "take k (iov_bytes segs idx offset)"
    show ?thesis
    proof (cases "length ?bytes = 0")
      case True
      with Wrote Cons.prems show ?thesis
        by (simp add: send_segments.simps[of "Wrote k # ws"] Let_def del: take_eq_Nil length_take)
    next
      case False
      obtain i' o' where a: "advance segs idx offset (length ?bytes) = (i', o')"
        by (cases "advance segs idx offset (length ?bytes)")
      have n: "length ?bytes \<le> length (left_bytes segs idx offset)"
        using Cons.prems(2) by (simp add: left_bytes_def)
      note adv = advance_left[OF Cons.prems(1) n a] advance_below[OF Cons.prems(1,2) n Cons.prems(3,4) a]
      from Cons.IH[OF _ adv(2) Cons.prems(3,4)] adv(1)
      have "fst (send_segments ws segs i' o' (out @ ?bytes)) \<noteq> Sent" by blast
      with Wrote False a Cons.prems(2) show ?thesis
        by (simp add: send_segments.simps[of "Wrote k # ws"] Let_def del: take_eq_Nil length_take)
    qed
  qed
qed

lemma send_segments_error:
  "send_segments ws segs idx offset out = (Send_failed err, out') \<Longrightarrow> err = [] \<Longrightarrow> Werror [] \<in> set ws"
proof (induction ws arbitrary: idx offset out)
  case Nil
  then show ?case by (simp add: send_segments.simps split: if_splits)
next
  case (Cons x ws)
  then show ?case
    using send_segments.simps[of "x # ws" segs idx offset out]
    by (auto simp: Let_def split: if_splits writev_result.splits prod.splits)
qed

definition task_frame :: "SendTask \<Rightarrow> string" where
  "task_frame task = t_header_varint task @ t_header task @ t_body task"

text \<open>A turn writes the frame of the first task, or writes a part of it and closes the connection. \<open>send_fail\<close> is what
  the loop does at the end of a turn with an error.\<close>

definition send_fail :: "net_env \<Rightarrow> u64 \<Rightarrow> string \<Rightarrow> chan_state \<Rightarrow> chan_state" where
  "send_fail E i reason st =
     (if reason = [] then st else HandleHeartbeatFailure E reason (RemovePendingCall E i reason st))"

lemma SendLoop_turn_cases:
  assumes "SendLoop_turn E ws (ch, w) = Some st'"
  obtains (unconnected) task queue where "m_send_queue ch = task # queue" "m_clientfd ch = -1"
      "st' = send_fail E (t_request_id task) ''connection not established'' (ch\<lparr>m_send_queue := queue\<rparr>, w)"
  | (sent) task queue where "m_send_queue ch = task # queue" "m_clientfd ch \<noteq> -1"
      "st' = (ch\<lparr>m_send_queue := queue\<rparr>, emit [Bytes_sent (m_clientfd ch) (task_frame task)] w)"
      "fst (send_segments ws [t_header_varint task, t_header task, t_body task] 0 0 []) = Sent"
  | (broken) task queue out err where "m_send_queue ch = task # queue" "m_clientfd ch \<noteq> -1" "prefix out (task_frame task)"
      "send_segments ws [t_header_varint task, t_header task, t_body task] 0 0 [] = (Send_failed err, out)"
      "st' = send_fail E (t_request_id task) err
         (CloseConnectionLocked (ch\<lparr>m_send_queue := queue\<rparr>, emit [Bytes_sent (m_clientfd ch) out] w))"
proof -
  obtain task queue where q: "m_send_queue ch = task # queue"
    using assms by (auto simp: SendLoop_turn_def split: list.splits)
  let ?segs = "[t_header_varint task, t_header task, t_body task]"
  show ?thesis
  proof (cases "m_clientfd ch = -1")
    case True
    with assms q show ?thesis by (intro unconnected[OF q]) (simp_all add: SendLoop_turn_def send_fail_def)
  next
    case False
    obtain r out where r: "send_segments ws ?segs 0 0 [] = (r, out)" by (rule prod.exhaust)
    have "pos_ok ?segs 0 0" by (simp add: pos_ok_def)
    from send_segments_prefix[OF this r] have out: "prefix out (task_frame task)" "r = Sent \<Longrightarrow> out = task_frame task"
      by (auto simp: left_bytes_def iov_bytes_def task_frame_def)
    show ?thesis
    proof (cases r)
      case Sent
      with assms q False r out show ?thesis by (intro sent[OF q False]) (simp_all add: SendLoop_turn_def)
    next
      case (Send_failed err)
      with assms q False r out(1) show ?thesis
        by (intro broken[OF q False out(1)]) (auto simp: SendLoop_turn_def Let_def send_fail_def split: if_splits)
    next
      case Send_blocked
      with assms q False r show ?thesis by (simp add: SendLoop_turn_def)
    qed
  qed
qed

subsection \<open>What a turn of the loop does to the calls\<close>

lemma CloseConnectionLocked_st:
  assumes "table_ok (fst st)"
  shows "table_ok (fst (CloseConnectionLocked st))" "pending_ids (CloseConnectionLocked st) = pending_ids st"
    "drains [] st (CloseConnectionLocked st)"
  using assms by (cases st; auto simp: CloseConnectionLocked_def table_ok_def pending_ids_def drains_def)+

lemma drains_HandleHeartbeatFailure:
  assumes "table_ok (fst st)"
  obtains ids where "drains ids st (HandleHeartbeatFailure E reason st)" "set ids = set (pending_ids st)"
proof -
  obtain ch w ch' w' where st: "st = (ch, w)" "HandleHeartbeatFailure E reason (ch, w) = (ch', w')"
    by (metis prod.collapse)
  from HandleHeartbeatFailure_spec(1)[OF _ st(2)] assms st that show ?thesis by auto
qed

lemma send_fail_drains:
  assumes "table_ok (fst st)"
  shows "\<exists>ids. drains ids st (send_fail E i reason st)"
proof -
  note a = drains_RemovePendingCall[OF assms, of i E reason]
  obtain b where "drains b (RemovePendingCall E i reason st)
      (HandleHeartbeatFailure E reason (RemovePendingCall E i reason st))"
    using drains_HandleHeartbeatFailure[OF drains_table_ok[OF a]] by blast
  from drains_trans[OF a this] drains_Nil[OF assms] show ?thesis by (auto simp: send_fail_def)
qed

lemma SendLoop_turn_drains:
  assumes "table_ok (fst st)" "SendLoop_turn E ws st = Some st'"
  shows "\<exists>ids. drains ids st st'"
proof -
  obtain ch w where st: "st = (ch, w)" by (cases st)
  have ok: "table_ok (ch\<lparr>m_send_queue := queue\<rparr>)" for queue using assms(1) by (simp add: st table_ok_def)
  have same: "\<exists>ids. drains ids st s'"
    if "\<exists>ids. drains ids (ch\<lparr>m_send_queue := queue\<rparr>, emit es w) s'" "completed_ids es = []" for queue es s'
    using that by (simp add: st drains_def pending_ids_def emit_def)
  from assms(2)[unfolded st] show ?thesis
  proof (cases rule: SendLoop_turn_cases)
    case (unconnected task queue)
    have "emit [] w = w" by (simp add: emit_def)
    with same[of queue "[]"] send_fail_drains[of "(ch\<lparr>m_send_queue := queue\<rparr>, w)"] ok unconnected(3) show ?thesis by simp
  next
    case (sent task queue)
    from same[of queue "[Bytes_sent (m_clientfd ch) (task_frame task)]"] drains_Nil[of st'] ok sent(3) show ?thesis by auto
  next
    case (broken task queue out err)
    let ?s = "(ch\<lparr>m_send_queue := queue\<rparr>, emit [Bytes_sent (m_clientfd ch) out] w)"
    have c: "drains [] ?s (CloseConnectionLocked ?s)" by (rule CloseConnectionLocked_st(3)) (simp add: ok)
    from send_fail_drains[OF drains_table_ok[OF c]] drains_trans[OF c] have "\<exists>ids. drains ids ?s st'"
      unfolding broken(5) by blast
    with same show ?thesis by simp
  qed
qed

end
