(* ===== verification/Channel_Recv.thy ===== *)
theory Channel_Recv
  imports Channel_Send
begin

section \<open>The client channel: the receive loop and heartbeats\<close>

text \<open>
  The model of \<open>KrpcChannel::RecvLoop\<close>, \<open>SendHeartbeatOnce\<close> and \<open>HeartbeatLoop\<close>. What one turn of the
  receive loop observes is \<open>recv_obs\<close>; the inner loop over complete frames is \<open>consume\<close> of the theory
  \<open>Framing\<close>. A heartbeat is two steps, sending and the end of the wait, with other threads in between.
\<close>

datatype recv_obs =
    Poll_timeout
  | Poll_error bool
  | Poll_other
  | Recv_data string
  | Recv_closed
  | Recv_error bool

text \<open>The frame handler of the inner loop: \<open>False\<close> is the \<open>break\<close>.\<close>

definition handle_frame ::
    "net_env \<Rightarrow> (nat \<Rightarrow> string \<Rightarrow> bool) \<Rightarrow> rpc_frame \<Rightarrow> chan_state \<Rightarrow> chan_state \<times> bool" where
  "handle_frame E parse f st =
     (case f of (h, payload) \<Rightarrow>
        if magic h \<noteq> kDefaultMagic
        then (HandleHeartbeatFailure E ''invalid response magic'' st, False)
        else if msg_type h = MSG_TYPE_RESPONSE then (ResolvePendingCall E parse h payload st, True)
        else if msg_type h = MSG_TYPE_PONG then (ResolveHeartbeat E h st, True)
        else (st, True))"

definition recv_bytes ::
    "pb_runtime \<Rightarrow> net_env \<Rightarrow> (nat \<Rightarrow> string \<Rightarrow> bool) \<Rightarrow> string \<Rightarrow> chan_state \<Rightarrow> chan_state" where
  "recv_bytes rt E parse bytes st =
     (case consume (channel_next_frame rt) (handle_frame E parse) (m_recv_buffer (fst st) @ bytes) st of
        (Broken why, buf, st') \<Rightarrow>
          (case HandleHeartbeatFailure E why st' of (ch', w') \<Rightarrow> (ch'\<lparr>m_recv_buffer := []\<rparr>, w'))
      | (_, buf, (ch', w')) \<Rightarrow> (ch'\<lparr>m_recv_buffer := buf\<rparr>, w'))"

definition RecvLoop_turn ::
    "pb_runtime \<Rightarrow> net_env \<Rightarrow> (nat \<Rightarrow> string \<Rightarrow> bool) \<Rightarrow> recv_obs \<Rightarrow> chan_state \<Rightarrow> chan_state" where
  "RecvLoop_turn rt E parse ob st =
     (if m_clientfd (fst st) = -1 then st
      else (case ob of
              Poll_timeout \<Rightarrow> st
            | Poll_error eintr \<Rightarrow> (if eintr then st else HandleHeartbeatFailure E ''recv poll failed'' st)
            | Poll_other \<Rightarrow> st
            | Recv_closed \<Rightarrow> HandleHeartbeatFailure E ''connection closed'' st
            | Recv_error transient \<Rightarrow>
                (if transient then st else HandleHeartbeatFailure E ''connection closed'' st)
            | Recv_data bytes \<Rightarrow> recv_bytes rt E parse bytes st))"

subsection \<open>Heartbeats\<close>

datatype HeartbeatResult = kSuccess | kTimeout | kFatal

definition ping_header :: "u64 \<Rightarrow> RpcHeader" where
  "ping_header rid = Clear\<lparr>magic := kDefaultMagic, version := kDefaultVersion,
     msg_type := MSG_TYPE_PING, request_id := rid, body_size := 0, compress_type := COMPRESS_NONE\<rparr>"

text \<open>\<open>SendHeartbeatOnce\<close> up to the wait; \<open>Some\<close> is an early return.\<close>

definition SendHeartbeat_start ::
    "pb_runtime \<Rightarrow> bool \<Rightarrow> chan_state \<Rightarrow> HeartbeatResult option \<times> chan_state" where
  "SendHeartbeat_start rt send_ok st =
     (case st of (ch, w) \<Rightarrow>
        if m_clientfd ch = -1 then (Some kSuccess, (ch, w))
        else (case NextRequestId w of
                (rid, w1) \<Rightarrow>
                  (case frame_bytes rt (ping_header rid) [] of
                     None \<Rightarrow> (Some kFatal, (ch, w1))
                   | Some send_buf \<Rightarrow>
                       (let ch1 = ch\<lparr>m_waiting_heartbeat := True, m_waiting_heartbeat_id := rid,
                                     m_waiting_heartbeat_result := False\<rparr>
                        in if \<not> send_ok then (Some kFatal, (ch1\<lparr>m_waiting_heartbeat := False\<rparr>, w1))
                           else (None, (ch1, emit [Bytes_sent (m_clientfd ch) send_buf] w1))))))"

text \<open>The end of the wait: \<open>timed_out\<close> when the time ran out before the flag was cleared.\<close>

definition SendHeartbeat_finish :: "chan_state \<Rightarrow> HeartbeatResult \<times> chan_state" where
  "SendHeartbeat_finish st =
     (case st of (ch, w) \<Rightarrow>
        if m_waiting_heartbeat ch then (kTimeout, (ch\<lparr>m_waiting_heartbeat := False\<rparr>, w))
        else (if m_waiting_heartbeat_result ch then kSuccess else kFatal, (ch, w)))"

text \<open>What \<open>HeartbeatLoop\<close> does before and after a heartbeat.\<close>

definition HeartbeatLoop_check :: "chan_state \<Rightarrow> bool \<times> chan_state" where
  "HeartbeatLoop_check st =
     (case st of (ch, w) \<Rightarrow>
        if m_clientfd ch = -1 then (False, (ch\<lparr>m_missed_heartbeat_count := 0\<rparr>, w)) else (True, (ch, w)))"

definition HeartbeatLoop_result :: "net_env \<Rightarrow> HeartbeatResult \<Rightarrow> chan_state \<Rightarrow> chan_state" where
  "HeartbeatLoop_result E r st =
     (case st of (ch, w) \<Rightarrow>
        (case r of
           kSuccess \<Rightarrow>
             (case clock_now E w of
                (now, w1) \<Rightarrow> (ch\<lparr>m_missed_heartbeat_count := 0, m_last_pong_time := now\<rparr>, w1))
         | kTimeout \<Rightarrow>
             (let missed = m_missed_heartbeat_count ch + 1; ch1 = ch\<lparr>m_missed_heartbeat_count := missed\<rparr>
              in if missed \<ge> m_heartbeat_miss_limit ch
                 then (case HandleHeartbeatFailure E ''heartbeat timeout'' (ch1, w) of
                         (ch2, w2) \<Rightarrow> (ch2\<lparr>m_missed_heartbeat_count := 0\<rparr>, w2))
                 else (ch1, w))
         | kFatal \<Rightarrow>
             (case HandleHeartbeatFailure E ''heartbeat fatal error'' (ch, w) of
                (ch2, w2) \<Rightarrow> (ch2\<lparr>m_missed_heartbeat_count := 0\<rparr>, w2))))"

text \<open>\<open>n\<close> heartbeats in a row without an answer: each starts, waits in vain and is counted.\<close>

fun silent_heartbeats :: "pb_runtime \<Rightarrow> net_env \<Rightarrow> nat \<Rightarrow> chan_state \<Rightarrow> chan_state" where
  "silent_heartbeats rt E 0 st = st"
| "silent_heartbeats rt E (Suc n) st =
     (case HeartbeatLoop_check st of
        (False, st1) \<Rightarrow> silent_heartbeats rt E n st1
      | (True, st1) \<Rightarrow>
          (case SendHeartbeat_start rt True st1 of
             (Some r, st2) \<Rightarrow> silent_heartbeats rt E n (HeartbeatLoop_result E r st2)
           | (None, st2) \<Rightarrow>
               (case SendHeartbeat_finish st2 of
                  (r, st3) \<Rightarrow> silent_heartbeats rt E n (HeartbeatLoop_result E r st3))))"

subsection \<open>What the loops do to the calls\<close>

definition drained :: "chan_state \<Rightarrow> chan_state \<Rightarrow> bool" where
  "drained st st' \<longleftrightarrow> (\<exists>ids. drains ids st st')"

lemma drained_refl: "table_ok (fst st) \<Longrightarrow> drained st st"
  using drains_Nil drained_def by blast

lemma drained_trans: "drained a b \<Longrightarrow> drained b c \<Longrightarrow> drained a c"
  unfolding drained_def using drains_trans by blast

lemma drained_ok: "drained a b \<Longrightarrow> table_ok (fst b)"
  by (auto simp: drained_def drains_table_ok)

lemma drained_same:
  assumes "table_ok ch" "m_pending_calls ch' = m_pending_calls ch" "g_request_id w' = g_request_id w"
    "completed_ids (w_effects w') = completed_ids (w_effects w)"
  shows "drained (ch, w) (ch', w')"
  using assms by (auto simp: drained_def drains_def pending_ids_def table_ok_def intro!: exI[of _ "[]"])

lemma drained_HandleHeartbeatFailure:
  "table_ok (fst st) \<Longrightarrow> drained st (HandleHeartbeatFailure E reason st)"
  by (erule drains_HandleHeartbeatFailure[of st E reason]) (auto simp: drained_def)

lemma drained_ResolveHeartbeat:
  assumes "table_ok (fst st)"
  shows "drained st (ResolveHeartbeat E h st)"
proof -
  obtain ch w where st: "st = (ch, w)" by (cases st)
  obtain now w' where k: "clock_now E w = (now, w')" by (cases "clock_now E w")
  show ?thesis
  proof (cases "m_waiting_heartbeat ch \<and> request_id h = m_waiting_heartbeat_id ch")
    case True
    then have "ResolveHeartbeat E h st = (ch\<lparr>m_waiting_heartbeat := False,
        m_waiting_heartbeat_result := True, m_last_pong_time := now\<rparr>, w')"
      by (simp add: ResolveHeartbeat_def st k)
    then show ?thesis
      using assms clock_now_frame[OF k] by (simp add: st drained_same)
  next
    case False
    then have "ResolveHeartbeat E h st = st" by (auto simp: ResolveHeartbeat_def st)
    with drained_refl[OF assms] show ?thesis by simp
  qed
qed

lemma drained_handle_frame:
  assumes "table_ok (fst st)" "handle_frame E parse f st = (st', b)"
  shows "drained st st'"
proof -
  obtain h payload where f: "f = (h, payload)" by (cases f)
  have "drained st (ResolvePendingCall E parse h payload st)"
    using drains_ResolvePendingCall[OF assms(1)] drained_def by blast
  with assms drained_HandleHeartbeatFailure[OF assms(1)] drained_ResolveHeartbeat[OF assms(1)] drained_refl[OF assms(1)]
  show ?thesis by (auto simp: handle_frame_def f split: if_splits)
qed

lemma consume_fuel_drained:
  "table_ok (fst st) \<Longrightarrow> consume_fuel n nf (handle_frame E parse) buf st = (status, buf', st') \<Longrightarrow>
     drained st st'"
  by (rule consume_rel[where P = "\<lambda>s. table_ok (fst s)"])
    (auto intro: drained_refl drained_trans drained_ok drained_handle_frame)

lemma drained_recv_bytes:
  assumes "table_ok (fst st)"
  shows "drained st (recv_bytes rt E parse bytes st)"
proof -
  obtain status buf ch1 w1 where c: "consume (channel_next_frame rt) (handle_frame E parse)
      (m_recv_buffer (fst st) @ bytes) st = (status, buf, (ch1, w1))"
    by (metis prod.collapse)
  have d: "drained st (ch1, w1)" by (rule consume_fuel_drained[OF assms c[unfolded consume_def]])
  have set_buf: "drained st (ch\<lparr>m_recv_buffer := b\<rparr>, w)" if "drained st (ch, w)" for ch w b
    using that by (auto simp: drained_def drains_def pending_ids_def table_ok_def)
  show ?thesis
  proof (cases status)
    case (Broken why)
    obtain ch2 w2 where f: "HandleHeartbeatFailure E why (ch1, w1) = (ch2, w2)"
      by (cases "HandleHeartbeatFailure E why (ch1, w1)")
    have "drained st (ch2, w2)"
      using drained_trans[OF d drained_HandleHeartbeatFailure[OF drained_ok[OF d], of E why]] f by simp
    with set_buf c Broken f show ?thesis by (simp add: recv_bytes_def)
  qed (use c d set_buf in \<open>simp_all add: recv_bytes_def\<close>)
qed

lemma drained_RecvLoop_turn:
  assumes "table_ok (fst st)"
  shows "drained st (RecvLoop_turn rt E parse ob st)"
  using drained_refl[OF assms] drained_HandleHeartbeatFailure[OF assms] drained_recv_bytes[OF assms]
  by (cases ob) (auto simp: RecvLoop_turn_def)

subsection \<open>The chunks of the stream do not matter\<close>

text \<open>No operation looks at the receive buffer but the receive loop itself.\<close>

definition set_buf :: "string \<Rightarrow> chan_state \<Rightarrow> chan_state" where
  "set_buf b st = ((fst st)\<lparr>m_recv_buffer := b\<rparr>, snd st)"

lemma set_buf_simps [simp]:
  "set_buf a (set_buf b st) = set_buf a st" "snd (set_buf b st) = snd st"
  "m_clientfd (fst (set_buf b st)) = m_clientfd (fst st)" "m_recv_buffer (fst (set_buf b st)) = b"
  by (simp_all add: set_buf_def)

lemma set_buf_RemovePendingCall:
  "RemovePendingCall E i reason (set_buf b st) = set_buf b (RemovePendingCall E i reason st)"
  by (cases st) (simp add: set_buf_def RemovePendingCall_def split: option.splits)

lemma set_buf_remove_all:
  "foldl (\<lambda>s i. RemovePendingCall E i reason s) (set_buf b st) is =
     set_buf b (foldl (\<lambda>s i. RemovePendingCall E i reason s) st is)"
  by (induction "is" arbitrary: st) (simp_all add: set_buf_RemovePendingCall)

definition reset_waiting :: "chan_state \<Rightarrow> chan_state" where
  "reset_waiting st =
     (case st of (ch, w) \<Rightarrow>
        (if m_waiting_heartbeat ch
         then ch\<lparr>m_waiting_heartbeat := False, m_waiting_heartbeat_result := False\<rparr> else ch, w))"

lemma HandleHeartbeatFailure_unfold:
  assumes "CloseConnectionLocked st = (ch1, w1)"
  shows "HandleHeartbeatFailure E reason st = reset_waiting (FailPendingCalls E reason
    (foldl (\<lambda>s i. RemovePendingCall E i reason s) (ch1\<lparr>m_send_queue := []\<rparr>, w1) (map t_request_id (m_send_queue ch1))))"
  by (simp add: HandleHeartbeatFailure_def assms Let_def reset_waiting_def split: prod.splits)

lemma set_buf_HandleHeartbeatFailure:
  "HandleHeartbeatFailure E reason (set_buf b st) = set_buf b (HandleHeartbeatFailure E reason st)"
proof -
  obtain ch1 w1 where st: "CloseConnectionLocked st = (ch1, w1)" by (metis prod.collapse)
  have c: "CloseConnectionLocked (set_buf b st) = (ch1\<lparr>m_recv_buffer := b\<rparr>, w1)"
    using st by (auto simp: set_buf_def CloseConnectionLocked_def split: if_splits prod.splits)
  have q: "(ch1\<lparr>m_recv_buffer := b, m_send_queue := []\<rparr>, w1) = set_buf b (ch1\<lparr>m_send_queue := []\<rparr>, w1)"
    by (simp add: set_buf_def)
  have "reset_waiting (FailPendingCalls E reason (set_buf b s)) = set_buf b (reset_waiting (FailPendingCalls E reason s))" for s
    by (cases s) (simp add: set_buf_def FailPendingCalls_def reset_waiting_def)
  then show ?thesis
    by (simp add: HandleHeartbeatFailure_unfold[OF st] HandleHeartbeatFailure_unfold[OF c] q set_buf_remove_all)
qed

lemma set_buf_handle_frame:
  "handle_frame E parse f (set_buf b st) = (case handle_frame E parse f st of (st', c) \<Rightarrow> (set_buf b st', c))"
proof -
  have "ResolvePendingCall E parse h p (set_buf b st) = set_buf b (ResolvePendingCall E parse h p st)" for h p
    by (cases st) (simp add: set_buf_def ResolvePendingCall_def Let_def split: option.splits)
  moreover have "ResolveHeartbeat E h (set_buf b st) = set_buf b (ResolveHeartbeat E h st)" for h
    by (cases st) (simp add: set_buf_def ResolveHeartbeat_def split: prod.splits)
  ultimately show ?thesis
    by (simp add: handle_frame_def set_buf_HandleHeartbeatFailure split: prod.splits)
qed

lemma set_buf_consume:
  "consume_fuel n nf (handle_frame E parse) buf (set_buf b st) =
     (case consume_fuel n nf (handle_frame E parse) buf st of (r, buf', st') \<Rightarrow> (r, buf', set_buf b st'))"
  by (induction n arbitrary: buf st) (simp_all add: set_buf_handle_frame split: fstep.split prod.split bool.split)

lemma HandleHeartbeatFailure_fd: "m_clientfd (fst (HandleHeartbeatFailure E reason st)) = -1"
proof -
  have rem: "m_clientfd (fst (foldl (\<lambda>s i. RemovePendingCall E i reason s) s is)) = m_clientfd (fst s)" for s "is"
    by (induction "is" arbitrary: s) (auto simp: RemovePendingCall_def split: prod.splits option.splits)
  obtain ch w ch1 w1 where st: "st = (ch, w)" "CloseConnectionLocked (ch, w) = (ch1, w1)"
    by (metis prod.collapse)
  with CloseConnectionLocked_frame[OF st(2)] rem[of "(ch1\<lparr>m_send_queue := []\<rparr>, w1)"] show ?thesis
    by (auto simp: HandleHeartbeatFailure_def FailPendingCalls_def Let_def split: prod.splits)
      (metis fst_conv)+
qed

lemma effects_HandleHeartbeatFailure:
  "\<exists>more. w_effects (snd st) @ more = w_effects (snd (HandleHeartbeatFailure E reason st))"
proof -
  have rem: "\<exists>more. w_effects (snd s) @ more =
      w_effects (snd (foldl (\<lambda>s i. RemovePendingCall E i reason s) s is))" for s "is"
  proof (induction "is" arbitrary: s)
    case (Cons i "is")
    have "\<exists>more. w_effects (snd s) @ more = w_effects (snd (RemovePendingCall E i reason s))"
      by (cases s) (auto simp: RemovePendingCall_def CompletePending_effects split: option.splits)
    with Cons[of "RemovePendingCall E i reason s"] show ?case by (metis append_assoc foldl_Cons)
  qed simp
  obtain ch1 w1 where c: "CloseConnectionLocked st = (ch1, w1)" by (metis prod.collapse)
  let ?st2 = "foldl (\<lambda>s i. RemovePendingCall E i reason s) (ch1\<lparr>m_send_queue := []\<rparr>, w1) (map t_request_id (m_send_queue ch1))"
  have "w_effects w1 = w_effects (snd st)" using CloseConnectionLocked_frame[of "fst st" "snd st"] c by simp
  moreover from rem[of "(ch1\<lparr>m_send_queue := []\<rparr>, w1)"] obtain more where "w_effects w1 @ more = w_effects (snd ?st2)"
    by auto
  moreover have "\<exists>more. w_effects (snd ?st2) @ more = w_effects (snd (HandleHeartbeatFailure E reason st))"
    unfolding HandleHeartbeatFailure_unfold[OF c]
    by (simp add: FailPendingCalls_def reset_waiting_def CompleteAll_effects split: prod.splits)
  ultimately show ?thesis by (metis append_assoc)
qed

lemma consume_stopped_closed:
  "consume_fuel n nf (handle_frame E parse) buf st = (Stopped, buf', st') \<Longrightarrow> m_clientfd (fst st') = -1"
proof (induction n arbitrary: buf st)
  case (Suc n)
  show ?case
  proof (cases "nf buf")
    case (Got f k)
    obtain st1 c where h: "handle_frame E parse f st = (st1, c)" by (cases "handle_frame E parse f st")
    have "m_clientfd (fst st1) = -1" if "\<not> c"
      using h that HandleHeartbeatFailure_fd[of E _ st] by (auto simp: handle_frame_def split: prod.splits if_splits)
    with Suc Got h show ?thesis by (cases c) (auto split: if_splits)
  qed (use Suc.prems in \<open>auto split: if_splits\<close>)
qed simp

lemma recv_bytes_alt:
  "recv_bytes rt E parse bytes st =
     (case consume (channel_next_frame rt) (handle_frame E parse) (m_recv_buffer (fst st) @ bytes) st of
        (Broken why, buf, st') \<Rightarrow> set_buf [] (HandleHeartbeatFailure E why st')
      | (_, buf, st') \<Rightarrow> set_buf buf st')"
  by (auto simp: recv_bytes_def set_buf_def split: prod.split fstatus.split)

lemma recv_bytes_append:
  assumes "rt_ok rt" "m_clientfd (fst (recv_bytes rt E parse a st)) \<noteq> -1"
  shows "recv_bytes rt E parse b (recv_bytes rt E parse a st) = recv_bytes rt E parse (a @ b) st"
proof -
  obtain r buf st1 where c: "consume (channel_next_frame rt) (handle_frame E parse)
      (m_recv_buffer (fst st) @ a) st = (r, buf, st1)" by (metis prod.collapse)
  show ?thesis
  proof (cases r)
    case Waiting
    obtain r2 buf2 st2 where c2: "consume (channel_next_frame rt) (handle_frame E parse) (buf @ b) st1
        = (r2, buf2, st2)" by (metis prod.collapse)
    have "consume (channel_next_frame rt) (handle_frame E parse) (m_recv_buffer (fst st) @ a @ b) st = (r2, buf2, st2)"
      using channel_frames.consume_append[OF assms(1), of "handle_frame E parse" "m_recv_buffer (fst st) @ a" b st]
        c c2 Waiting by simp
    moreover have "consume (channel_next_frame rt) (handle_frame E parse) (buf @ b) (set_buf buf st1)
        = (r2, buf2, set_buf buf st2)"
      using c2 by (simp add: consume_def set_buf_consume)
    ultimately show ?thesis
      using c Waiting by (cases r2) (simp_all add: recv_bytes_alt set_buf_HandleHeartbeatFailure)
  next
    case (Broken why)
    with assms(2) c HandleHeartbeatFailure_fd[of E why st1] show ?thesis by (simp add: recv_bytes_alt)
  next
    case Stopped
    with assms(2) c consume_stopped_closed[of "length (m_recv_buffer (fst st) @ a)" "channel_next_frame rt" E parse
        "m_recv_buffer (fst st) @ a" st] show ?thesis
      by (simp add: recv_bytes_alt consume_def)
  qed
qed

lemma recv_chunks:
  assumes "rt_ok rt"
  shows "m_clientfd (fst (foldl (\<lambda>s c. RecvLoop_turn rt E parse (Recv_data c) s) st (cs @ [c]))) \<noteq> -1 \<Longrightarrow>
    foldl (\<lambda>s c. RecvLoop_turn rt E parse (Recv_data c) s) st (cs @ [c]) =
    RecvLoop_turn rt E parse (Recv_data (concat (cs @ [c]))) st"
proof (induction cs arbitrary: c rule: rev_induct)
  case (snoc d cs)
  let ?s = "foldl (\<lambda>s c. RecvLoop_turn rt E parse (Recv_data c) s) st (cs @ [d])"
  have fd: "m_clientfd (fst ?s) \<noteq> -1" using snoc.prems by (auto simp: RecvLoop_turn_def)
  note ih = snoc.IH[OF fd]
  have open0: "m_clientfd (fst st) \<noteq> -1" using fd unfolding ih by (auto simp: RecvLoop_turn_def)
  then have s: "?s = recv_bytes rt E parse (concat (cs @ [d])) st"
    unfolding ih by (simp add: RecvLoop_turn_def)
  have "recv_bytes rt E parse c ?s = recv_bytes rt E parse (concat (cs @ [d]) @ c) st"
    unfolding s by (rule recv_bytes_append[OF assms]) (use fd s in simp)
  with fd open0 show ?case by (simp add: RecvLoop_turn_def)
qed simp

text \<open>A complete response frame resolves its call.\<close>

lemma recv_response:
  assumes "rt_ok rt" "header_fits rt h body" "frame_bytes rt h body = Some bytes"
    "magic h = kDefaultMagic" "msg_type h = MSG_TYPE_RESPONSE"
    "m_clientfd ch \<noteq> -1" "m_recv_buffer ch = []"
    "map_of (m_pending_calls ch) (request_id h) = Some p" "p_response p = Some resp"
    "RecvLoop_turn rt E parse (Recv_data bytes) (ch, w) = (ch', w')"
  shows "ch' = ch\<lparr>m_pending_calls := AList.delete (request_id h) (m_pending_calls ch)\<rparr> \<and>
    w_effects w' = w_effects w @ [Response_parsed resp body] @ completion_effects p"
proof -
  have n: "channel_next_frame rt (bytes @ []) = Got (h, body) (length bytes)"
    by (rule channel_next_frame_frame_bytes[OF assms(1-3)])
  let ?st = "ResolvePendingCall E parse h body (ch, w)"
  have "consume (channel_next_frame rt) (handle_frame E parse) (bytes @ []) (ch, w) = (Waiting, [], ?st)"
    unfolding channel_frames.consume_got[OF assms(1) n]
    using assms(4,5) by (simp add: handle_frame_def)
  then have "(ch', w') = set_buf [] ?st"
    using assms(6,7,10) by (simp add: RecvLoop_turn_def recv_bytes_alt)
  with assms(7-9) show ?thesis
    by (cases ch) (auto simp: ResolvePendingCall_def set_buf_def Let_def CompletePending_effects emit_def)
qed

subsection \<open>Heartbeats close a dead connection\<close>

definition closed :: "chan_state \<Rightarrow> bool" where
  "closed st \<longleftrightarrow> m_clientfd (fst st) = -1 \<and> m_pending_calls (fst st) = []"

lemma closed_HandleHeartbeatFailure:
  "table_ok (fst st) \<Longrightarrow> closed (HandleHeartbeatFailure E reason st)"
  using HandleHeartbeatFailure_spec(2,4)[of "fst st" E reason "snd st"]
  by (metis closed_def prod.collapse)

lemma HeartbeatLoop_result_closed:
  assumes "table_ok ch" "r \<noteq> kSuccess" "r = kTimeout \<longrightarrow> m_heartbeat_miss_limit ch \<le> m_missed_heartbeat_count ch + 1"
  shows "closed (HeartbeatLoop_result E r (ch, w))"
proof (cases r)
  case kTimeout
  let ?ch1 = "ch\<lparr>m_missed_heartbeat_count := m_missed_heartbeat_count ch + 1\<rparr>"
  have "table_ok ?ch1" using assms(1) by (simp add: table_ok_def)
  with kTimeout assms closed_HandleHeartbeatFailure[of "(?ch1, w)" E "''heartbeat timeout''"] show ?thesis
    by (auto simp: HeartbeatLoop_result_def closed_def split: prod.splits)
next
  case kFatal
  with assms closed_HandleHeartbeatFailure[of "(ch, w)" E "''heartbeat fatal error''"] show ?thesis
    by (auto simp: HeartbeatLoop_result_def closed_def split: prod.splits)
qed (use assms in simp)

lemma silent_heartbeats_closed: "closed st \<Longrightarrow> closed (silent_heartbeats rt E n st)"
proof (induction n arbitrary: st)
  case (Suc n)
  then show ?case by (cases st) (auto simp: HeartbeatLoop_check_def closed_def)
qed simp

lemma silent_heartbeats_close:
  "table_ok ch \<Longrightarrow> m_clientfd ch \<noteq> -1 \<Longrightarrow> 0 < n \<Longrightarrow>
     m_heartbeat_miss_limit ch \<le> m_missed_heartbeat_count ch + int n \<Longrightarrow>
     closed (silent_heartbeats rt E n (ch, w))"
proof (induction n arbitrary: ch w)
  case (Suc n)
  obtain rid w1 where r: "NextRequestId w = (rid, w1)" by (cases "NextRequestId w")
  have check: "HeartbeatLoop_check (ch, w) = (True, (ch, w))"
    using Suc.prems(2) by (simp add: HeartbeatLoop_check_def)
  show ?case
  proof (cases "frame_bytes rt (ping_header rid) []")
    case None
    then have "SendHeartbeat_start rt True (ch, w) = (Some kFatal, (ch, w1))"
      using Suc.prems(2) r by (simp add: SendHeartbeat_start_def)
    with check silent_heartbeats_closed[OF HeartbeatLoop_result_closed] Suc.prems(1) show ?thesis by simp
  next
    case (Some buf)
    let ?ch1 = "ch\<lparr>m_waiting_heartbeat_id := rid, m_waiting_heartbeat_result := False, m_waiting_heartbeat := False\<rparr>"
    let ?w2 = "emit [Bytes_sent (m_clientfd ch) buf] w1"
    have ok1: "table_ok ?ch1" using Suc.prems(1) by (simp add: table_ok_def)
    have step: "silent_heartbeats rt E (Suc n) (ch, w) =
        silent_heartbeats rt E n (HeartbeatLoop_result E kTimeout (?ch1, ?w2))"
      using check Suc.prems(2) r Some by (simp add: SendHeartbeat_start_def SendHeartbeat_finish_def Let_def)
    show ?thesis
    proof (cases "m_heartbeat_miss_limit ch \<le> m_missed_heartbeat_count ch + 1")
      case True
      with silent_heartbeats_closed[OF HeartbeatLoop_result_closed[OF ok1, of kTimeout]] show ?thesis
        unfolding step by simp
    next
      case False
      let ?ch2 = "?ch1\<lparr>m_missed_heartbeat_count := m_missed_heartbeat_count ch + 1\<rparr>"
      have "HeartbeatLoop_result E kTimeout (?ch1, ?w2) = (?ch2, ?w2)"
        using False by (simp add: HeartbeatLoop_result_def)
      moreover have "closed (silent_heartbeats rt E n (?ch2, ?w2))"
        using Suc.prems False by (intro Suc.IH) (auto simp: table_ok_def)
      ultimately show ?thesis unfolding step by simp
    qed
  qed
qed simp

end
