(* ===== verification/Channel_Connect.thy ===== *)
theory Channel_Connect
  imports Channel_State
begin

section \<open>The client channel: connections\<close>

text \<open>
  The model of the constructor and destructor of \<open>KrpcChannel\<close>, of \<open>AcquireConnection\<close>,
  \<open>ReleaseConnection\<close>, \<open>newConnect\<close> and of \<open>EnsureConnection\<close>: discovery (static list, cache,
  ZooKeeper with retries), the choice of the load balancer, the failover loop over the endpoints with
  the cooldown of failed ones, and the fallback when every endpoint failed or cools down.
  What ZooKeeper answers to the \<open>n\<close>-th query is a parameter; \<open>EnsureConnection\<close> runs in one caller
  at a time here.
\<close>

record method_desc =
  md_service :: "string option"
  md_name :: string

record discovery =
  d_config :: config_map
  d_static_env :: "string option"
  d_children :: "nat \<Rightarrow> string \<Rightarrow> string list"
  d_data :: "nat \<Rightarrow> string \<Rightarrow> string"

subsection \<open>Acquire and release\<close>

definition AcquireConnection ::
    "net_env \<Rightarrow> string \<Rightarrow> u16 \<Rightarrow> chan_state \<Rightarrow> (string + fd) \<times> bool \<times> world" where
  "AcquireConnection E ip p st =
     (case st of (ch, w) \<Rightarrow>
        if \<not> m_use_pool ch
        then (case CreateConnectionFd E ip p (w_os w) of
                (r, s) \<Rightarrow> (r, False, w\<lparr>w_os := s\<rparr>))
        else (case Pool_Acquire E (endpoint_key ip p) ip p (w_pools w) (w_os w) of
                (r, from_pool, ps, s) \<Rightarrow> (r, from_pool, w\<lparr>w_pools := ps, w_os := s\<rparr>)))"

definition ReleaseConnection :: "net_env \<Rightarrow> bool \<Rightarrow> chan_state \<Rightarrow> chan_state" where
  "ReleaseConnection E healthy st =
     (case st of (ch, w) \<Rightarrow>
        if m_clientfd ch = -1 then (ch, w)
        else (let f = m_clientfd ch;
                  ch1 = ch\<lparr>m_clientfd := -1, m_recv_buffer := []\<rparr>
              in if \<not> healthy then (ch1, w\<lparr>w_os := os_close f (w_os w)\<rparr>)
                 else if \<not> m_use_pool ch then (ch1, w\<lparr>w_os := os_close f (w_os w)\<rparr>)
                 else (case Pool_Release E (m_endpoint_key ch) f (nat (m_pool_max_idle ch))
                          (w_pools w) (w_os w) of
                         (ps, s) \<Rightarrow> (ch1, w\<lparr>w_pools := ps, w_os := s\<rparr>))))"

definition newConnect :: "net_env \<Rightarrow> string \<Rightarrow> u16 \<Rightarrow> chan_state \<Rightarrow> (string + unit) \<times> chan_state" where
  "newConnect E ip p st =
     (case st of (ch, w) \<Rightarrow>
        (case CreateConnectionFd E ip p (w_os w) of
           (Inl err, s) \<Rightarrow> (Inl err, (ch, w\<lparr>w_os := s\<rparr>))
         | (Inr f, s) \<Rightarrow> (Inr (), (ch\<lparr>m_clientfd := f\<rparr>, w\<lparr>w_os := s\<rparr>))))"

subsection \<open>Constructor and destructor\<close>

text \<open>The member \<open>m_port\<close> is not initialised: \<open>junk\<close> is what the memory held.\<close>

definition config_channel :: "config_map \<Rightarrow> u16 \<Rightarrow> nanos \<Rightarrow> channel" where
  "config_channel cfg junk now =
     (let idle = ParseConfigInt (Load cfg ''connection_pool_max_idle'') 4
      in \<lparr>m_clientfd = -1, m_ip = [], m_port = junk, m_endpoint_key = [],
          m_request_timeout_ms = ParseConfigInt (Load cfg ''rpc_timeout_ms'') kDefaultRequestTimeoutMs,
          m_heartbeat_interval_ms =
            ParseConfigInt (Load cfg ''heartbeat_interval_ms'') kDefaultHeartbeatIntervalMs,
          m_heartbeat_miss_limit =
            ParseConfigInt (Load cfg ''heartbeat_miss_limit'') kDefaultHeartbeatMissLimit,
          m_pool_max_idle = (if idle < 1 then 1 else idle),
          m_use_pool = (ParseConfigInt (Load cfg ''enable_connection_pool'') 1 \<noteq> 0),
          m_lb_nodes = [], m_fail_states = [], m_pending_calls = [], m_send_queue = [],
          m_recv_buffer = [], m_waiting_heartbeat = False, m_waiting_heartbeat_id = 0,
          m_waiting_heartbeat_result = False, m_missed_heartbeat_count = 0, m_last_pong_time = now\<rparr>)"

fun connect_attempts :: "net_env \<Rightarrow> nat \<Rightarrow> chan_state \<Rightarrow> (string + fd) \<times> world" where
  "connect_attempts E 0 st = (case AcquireConnection E (m_ip (fst st)) (m_port (fst st)) st of
     (r, _, w) \<Rightarrow> (r, w))"
| "connect_attempts E (Suc n) st = (case AcquireConnection E (m_ip (fst st)) (m_port (fst st)) st of
     (Inr f, _, w) \<Rightarrow> (Inr f, w)
   | (Inl _, _, w) \<Rightarrow> connect_attempts E n (fst st, w))"

definition new_KrpcChannel :: "net_env \<Rightarrow> config_map \<Rightarrow> bool \<Rightarrow> u16 \<Rightarrow> world \<Rightarrow> chan_state" where
  "new_KrpcChannel E cfg connectNow junk w =
     (case clock_now E w of
        (now, w1) \<Rightarrow>
          (let ch = config_channel cfg junk now;
               cool = ParseConfigInt (Load cfg ''lb_fail_cooldown_ms'') 3000;
               w2 = w1\<lparr>g_endpoint_fail_cooldown_ms := (if cool < 0 then 0 else cool),
                       w_metrics := (w_metrics w1)\<lparr>g_metrics :=
                         SetWindowMs (ParseConfigInt (Load cfg ''metrics_window_ms'') 10000)
                           (g_metrics (w_metrics w1))\<rparr>\<rparr>
           in if \<not> connectNow then (ch, w2)
              else (let ch1 = ch\<lparr>m_endpoint_key := endpoint_key (m_ip ch) (m_port ch)\<rparr>
                    in case connect_attempts E 3 (ch1, w2) of
                         (Inr f, w3) \<Rightarrow> (ch1\<lparr>m_clientfd := f\<rparr>, w3)
                       | (Inl _, w3) \<Rightarrow> (ch1, w3))))"

definition delete_KrpcChannel :: "net_env \<Rightarrow> chan_state \<Rightarrow> chan_state" where
  "delete_KrpcChannel E st =
     (if m_clientfd (fst st) \<noteq> -1 then ReleaseConnection E True st else st)"

subsection \<open>Discovery\<close>

definition query_nodes :: "discovery \<Rightarrow> nat \<Rightarrow> string \<Rightarrow> string \<Rightarrow> Endpoint list" where
  "query_nodes D n svc mname = QueryServiceNodes (d_children D n) (d_data D n) svc mname"

definition store_endpoints :: "net_env \<Rightarrow> string \<Rightarrow> Endpoint list \<Rightarrow> world \<Rightarrow> world" where
  "store_endpoints E key eps w =
     (case clock_now E w of
        (now, w1) \<Rightarrow> w1\<lparr>w_cache := StoreCachedEndpoints key eps now (w_cache w1)\<rparr>)"

text \<open>The loop of discovery retries: \<open>n\<close> attempts are left, \<open>q\<close> queries were made.\<close>

fun retry_discovery ::
    "net_env \<Rightarrow> discovery \<Rightarrow> string \<Rightarrow> string \<Rightarrow> nat \<Rightarrow> nat \<Rightarrow> Endpoint list \<Rightarrow> world \<Rightarrow>
     Endpoint list \<times> world" where
  "retry_discovery E D svc mname 0 q eps w = (eps, w)"
| "retry_discovery E D svc mname (Suc n) q eps w =
     (if eps \<noteq> [] then (eps, w)
      else (let found = query_nodes D q svc mname
            in retry_discovery E D svc mname n (Suc q) found
                 (store_endpoints E (svc @ ''/'' @ mname) found w)))"

definition discover ::
    "net_env \<Rightarrow> discovery \<Rightarrow> string \<Rightarrow> string \<Rightarrow> world \<Rightarrow> Endpoint list \<times> world" where
  "discover E D svc mname w =
     (let retries = nat (ParseConfigInt (Load (d_config D) ''discovery_retry'') 3);
          cache_key = svc @ ''/'' @ mname
      in case GetStaticEndpoints (d_static_env D) (w_static w) of
           (static, once) \<Rightarrow>
             (let w0 = w\<lparr>w_static := once\<rparr>
              in if static \<noteq> [] then retry_discovery E D svc mname retries 0 static w0
                 else (case clock_now E w0 of
                         (now, w1) \<Rightarrow>
                           (case TryGetCachedEndpoints cache_key now (w_cache w1) of
                              (Some eps, c) \<Rightarrow>
                                retry_discovery E D svc mname retries 0 eps (w1\<lparr>w_cache := c\<rparr>)
                            | (None, c) \<Rightarrow>
                                (let eps = query_nodes D 0 svc mname
                                 in retry_discovery E D svc mname retries 1 eps
                                      (store_endpoints E cache_key eps (w1\<lparr>w_cache := c\<rparr>)))))))"

subsection \<open>Connecting\<close>

text \<open>One candidate: keep the connection if it is already the right one, else give it back and
  connect. \<open>Inl\<close> is \<open>last_error\<close>.\<close>

definition connect_to :: "net_env \<Rightarrow> Endpoint \<Rightarrow> chan_state \<Rightarrow> (string + unit) \<times> chan_state" where
  "connect_to E cand st =
     (let ch = fst st
      in if m_clientfd ch \<noteq> -1 \<and> host cand = m_ip ch \<and> port cand = m_port ch then (Inr (), st)
         else (case (if m_clientfd ch \<noteq> -1 then ReleaseConnection E True st else st) of
                 (ch1, w1) \<Rightarrow>
                   (let ch2 = ch1\<lparr>m_ip := host cand, m_port := port cand, m_endpoint_key := ep_key cand\<rparr>
                    in case AcquireConnection E (host cand) (port cand) (ch2, w1) of
                         (Inr f, _, w2) \<Rightarrow>
                           (Inr (), (ch2\<lparr>m_clientfd := f,
                                         m_fail_states := ClearEndpointFailure cand (m_fail_states ch2)\<rparr>, w2))
                       | (Inl connect_error, _, w2) \<Rightarrow>
                           (case clock_now E w2 of
                              (now, w3) \<Rightarrow>
                                (Inl (if connect_error = [] then ''connect server error'' else connect_error),
                                 (ch2\<lparr>m_fail_states := MarkEndpointFailure (g_endpoint_fail_cooldown_ms w3)
                                                          now cand (m_fail_states ch2)\<rparr>, w3))))))"

text \<open>The failover loop; \<open>best\<close> is \<open>earliest_retry\<close>, whose initial value \<open>max()\<close> is \<open>None\<close>.\<close>

fun failover ::
    "net_env \<Rightarrow> nanos \<Rightarrow> Endpoint list \<Rightarrow> nat list \<Rightarrow> nanos option \<Rightarrow> nat \<Rightarrow> chan_state \<Rightarrow>
     (nat + unit) \<times> chan_state" where
  "failover E now eps [] best best_index st = (Inl best_index, st)"
| "failover E now eps (idx # more_idx) best best_index st =
     (case EndpointAvailable (eps ! idx) now (m_fail_states (fst st)) of
        (False, Some retry_at) \<Rightarrow>
          (if (case best of None \<Rightarrow> True | Some b \<Rightarrow> retry_at < b)
           then failover E now eps more_idx (Some retry_at) idx st
           else failover E now eps more_idx best best_index st)
      | _ \<Rightarrow>
          (case connect_to E (eps ! idx) st of
             (Inr u, st') \<Rightarrow> (Inr u, st')
           | (Inl _, st') \<Rightarrow> failover E now eps more_idx best best_index st'))"

definition rotation :: "nat \<Rightarrow> nat \<Rightarrow> nat list" where
  "rotation start n = map (\<lambda>i. (start + i) mod n) [0..<n]"

definition choose_start :: "string \<Rightarrow> Endpoint list \<Rightarrow> chan_state \<Rightarrow> nat \<times> chan_state" where
  "choose_start mname eps st =
     (case st of (ch, w) \<Rightarrow>
        (case Select mname (UpdateNodes eps \<lparr>rr_nodes = m_lb_nodes ch, s_global_index = w_lb_index w\<rparr>) of
           (sel, lb) \<Rightarrow>
             (find_start_index eps (case sel of None \<Rightarrow> hd eps | Some e \<Rightarrow> e),
              (ch\<lparr>m_lb_nodes := rr_nodes lb\<rparr>, w\<lparr>w_lb_index := s_global_index lb\<rparr>))))"

definition connect_any ::
    "net_env \<Rightarrow> string \<Rightarrow> Endpoint list \<Rightarrow> nat option \<Rightarrow> chan_state \<Rightarrow> (string + unit) \<times> chan_state" where
  "connect_any E mname eps ctl st =
     (case choose_start mname eps st of
        (start_index, (ch1, w1)) \<Rightarrow>
          (case clock_now E w1 of
             (now, w2) \<Rightarrow>
               (case failover E now eps (rotation start_index (length eps)) None start_index (ch1, w2) of
                  (Inr u, st3) \<Rightarrow> (Inr u, st3)
                | (Inl idx, st3) \<Rightarrow>
                    (case connect_to E (eps ! idx) st3 of
                       (Inr u, st4) \<Rightarrow> (Inr u, st4)
                     | (Inl last_error, (ch4, w4)) \<Rightarrow>
                         (Inl last_error, (ch4, set_failed ctl last_error w4))))))"

definition EnsureConnection ::
    "net_env \<Rightarrow> discovery \<Rightarrow> method_desc \<Rightarrow> nat option \<Rightarrow> chan_state \<Rightarrow> (string + unit) \<times> chan_state" where
  "EnsureConnection E D md ctl st =
     (case st of (ch, w) \<Rightarrow>
        (case md_service md of
           None \<Rightarrow> (Inl ''service descriptor missing'',
                    (ch, set_failed ctl ''service descriptor missing'' w))
         | Some svc \<Rightarrow>
             (case discover E D svc (md_name md) w of
                (eps, w1) \<Rightarrow>
                  if eps = []
                  then (let reason = ''service node not found: '' @ svc @ ''/'' @ md_name md
                        in (Inl reason, (ch, set_failed ctl reason w1)))
                  else connect_any E (md_name md) eps ctl (ch, w1))))"

subsection \<open>Ownership of descriptors\<close>

definition held :: "channel \<Rightarrow> fd multiset" where
  "held ch = (if m_clientfd ch = -1 then {#} else {#m_clientfd ch#})"

definition own :: "fd multiset \<Rightarrow> chan_state \<Rightarrow> bool" where
  "own h st \<longleftrightarrow> owns (held (fst st) + h) (w_pools (snd st)) (w_os (snd st))"

lemma own_clock: "clock_now E w = (t, w') \<Longrightarrow> own h (ch, w') = own h (ch, w)"
  by (drule clock_now_frame) (simp add: own_def owns_def)

lemma own_world: "own h (ch, w) \<Longrightarrow> w_pools w' = w_pools w \<Longrightarrow> w_os w' = w_os w \<Longrightarrow> own h (ch, w')"
  by (simp add: own_def)

lemma own_channel: "own h (ch, w) \<Longrightarrow> m_clientfd ch' = m_clientfd ch \<Longrightarrow> own h (ch', w)"
  by (auto simp: own_def held_def)

lemma own_AcquireConnection:
  assumes "own h (ch, w)" "m_clientfd ch = -1" "AcquireConnection E ip p (ch, w) = (r, b, w')"
  shows "case r of Inl _ \<Rightarrow> own h (ch, w') | Inr f \<Rightarrow> own h (ch\<lparr>m_clientfd := f\<rparr>, w') \<and> f \<noteq> -1"
proof -
  have o: "owns h (w_pools w) (w_os w)" using assms(1,2) by (simp add: own_def held_def)
  show ?thesis
  proof (cases "m_use_pool ch")
    case True
    then obtain ps s where a: "Pool_Acquire E (endpoint_key ip p) ip p (w_pools w) (w_os w) = (r, b, ps, s)"
      "w' = w\<lparr>w_pools := ps, w_os := s\<rparr>"
      using assms(3) by (auto simp: AcquireConnection_def split: prod.splits)
    from owns_Acquire[OF o a(1)] a(2) assms(2) show ?thesis
      by (auto simp: own_def held_def split: sum.splits)
  next
    case False
    then obtain s where a: "CreateConnectionFd E ip p (w_os w) = (r, s)" "w' = w\<lparr>w_os := s\<rparr>"
      using assms(3) by (auto simp: AcquireConnection_def split: prod.splits)
    from owns_CreateConnectionFd[OF o a(1)] a(2) assms(2) show ?thesis
      by (auto simp: own_def held_def split: sum.splits)
  qed
qed

lemma own_ReleaseConnection:
  assumes "own h (ch, w)" "ReleaseConnection E b (ch, w) = (ch', w')"
  shows "own h (ch', w')" "m_clientfd ch' = -1"
proof -
  show fd: "m_clientfd ch' = -1"
    using assms(2) by (auto simp: ReleaseConnection_def Let_def split: if_splits prod.splits)
  show "own h (ch', w')"
  proof (cases "m_clientfd ch = -1")
    case True
    with assms show ?thesis by (simp add: ReleaseConnection_def)
  next
    case False
    with assms(1) have o: "owns (add_mset (m_clientfd ch) h) (w_pools w) (w_os w)"
      by (simp add: own_def held_def)
    obtain ps s where r: "Pool_Release E (m_endpoint_key ch) (m_clientfd ch) (nat (m_pool_max_idle ch))
        (w_pools w) (w_os w) = (ps, s)" by fastforce
    from owns_close[OF o] owns_Release[OF o r] assms(2) False fd r show ?thesis
      by (auto simp: own_def held_def ReleaseConnection_def Let_def split: if_splits)
  qed
qed

lemma own_connect_to:
  assumes "own h st" "connect_to E cand st = (r, st')"
  shows "own h st'" "r = Inr u \<Longrightarrow> m_clientfd (fst st') \<noteq> -1 \<and> m_ip (fst st') = host cand \<and>
      m_port (fst st') = port cand"
proof -
  obtain ch w where st: "st = (ch, w)" by (cases st)
  have "own h st' \<and> (r = Inr u \<longrightarrow> m_clientfd (fst st') \<noteq> -1 \<and> m_ip (fst st') = host cand \<and>
      m_port (fst st') = port cand)"
  proof (cases "m_clientfd ch \<noteq> -1 \<and> host cand = m_ip ch \<and> port cand = m_port ch")
    case True
    with assms st show ?thesis by (auto simp: connect_to_def)
  next
    case False
    obtain ch1 w1 where rel: "(if m_clientfd ch \<noteq> -1 then ReleaseConnection E True st else st) = (ch1, w1)"
      by (cases "if m_clientfd ch \<noteq> -1 then ReleaseConnection E True st else st")
    have o1: "own h (ch1, w1)" "m_clientfd ch1 = -1"
      using rel assms(1) own_ReleaseConnection[of h ch w E True ch1 w1] by (auto simp: st split: if_splits)
    let ?ch2 = "ch1\<lparr>m_ip := host cand, m_port := port cand, m_endpoint_key := ep_key cand\<rparr>"
    obtain q b w2 where acq: "AcquireConnection E (host cand) (port cand) (?ch2, w1) = (q, b, w2)"
      by (cases "AcquireConnection E (host cand) (port cand) (?ch2, w1)")
    have o2: "own h (?ch2, w1)" "m_clientfd ?ch2 = -1" using o1 by (auto intro: own_channel)
    have sel: "fst st = ch" using st by simp
    show ?thesis
    proof (cases q)
      case (Inr f)
      with own_AcquireConnection[OF o2 acq] have "own h (?ch2\<lparr>m_clientfd := f\<rparr>, w2)" "f \<noteq> -1" by auto
      with assms(2) rel acq Inr False show ?thesis
        unfolding connect_to_def Let_def sel by (auto simp: own_def held_def)
    next
      case (Inl e)
      with own_AcquireConnection[OF o2 acq] have "own h (?ch2, w2)" by auto
      with assms(2) rel acq Inl False o2(2) show ?thesis
        unfolding connect_to_def Let_def sel
        by (auto simp: own_def held_def owns_def dest!: clock_now_frame split: prod.splits)
    qed
  qed
  then show "own h st'" "r = Inr u \<Longrightarrow> m_clientfd (fst st') \<noteq> -1 \<and> m_ip (fst st') = host cand \<and>
      m_port (fst st') = port cand" by blast+
qed

lemma failover_try:
  assumes "fst (EndpointAvailable (eps ! idx) now (m_fail_states (fst st)))"
  shows "failover E now eps (idx # rest) best bi st =
    (case connect_to E (eps ! idx) st of
       (Inr u, st') \<Rightarrow> (Inr u, st')
     | (Inl _, st') \<Rightarrow> failover E now eps rest best bi st')"
  using assms by (cases "EndpointAvailable (eps ! idx) now (m_fail_states (fst st))") simp

lemma failover_skip:
  assumes "\<not> fst (EndpointAvailable (eps ! idx) now (m_fail_states (fst st)))"
  obtains best' bi' where "bi' = bi \<or> bi' = idx"
    "failover E now eps (idx # rest) best bi st = failover E now eps rest best' bi' st"
proof -
  from assms obtain v where "EndpointAvailable (eps ! idx) now (m_fail_states (fst st)) = (False, Some v)"
    by (auto simp: EndpointAvailable_def split: option.splits if_splits)
  then have "failover E now eps (idx # rest) best bi st =
      (if case best of None \<Rightarrow> True | Some b \<Rightarrow> v < b
       then failover E now eps rest (Some v) idx st else failover E now eps rest best bi st)"
    by simp
  then show ?thesis using that by metis
qed

lemma own_failover:
  "own h st \<Longrightarrow> failover E now eps idxs best bi st = (r, st') \<Longrightarrow> set idxs \<subseteq> {..<length eps} \<Longrightarrow>
     bi < length eps \<Longrightarrow>
     own h st' \<and> (case r of Inl i \<Rightarrow> i < length eps
       | Inr _ \<Rightarrow> m_clientfd (fst st') \<noteq> -1 \<and> (\<exists>ep \<in> set eps. m_ip (fst st') = host ep \<and> m_port (fst st') = port ep))"
proof (induction idxs arbitrary: best bi st)
  case Nil
  then show ?case by auto
next
  case (Cons idx rest)
  have mem: "eps ! idx \<in> set eps" "set rest \<subseteq> {..<length eps}" "idx < length eps"
    using Cons.prems(3) by auto
  show ?case
  proof (cases "fst (EndpointAvailable (eps ! idx) now (m_fail_states (fst st)))")
    case True
    obtain q st1 where c: "connect_to E (eps ! idx) st = (q, st1)" by (cases "connect_to E (eps ! idx) st")
    note o1 = own_connect_to[OF Cons.prems(1) c]
    show ?thesis
    proof (cases q)
      case (Inl e)
      with Cons.prems(2) failover_try[OF True] c have "failover E now eps rest best bi st1 = (r, st')" by simp
      from Cons.IH[OF o1(1) this mem(2) Cons.prems(4)] show ?thesis .
    next
      case (Inr u)
      with Cons.prems(2) failover_try[OF True] c have "r = Inr u" "st' = st1" by simp_all
      with o1(1) o1(2)[OF Inr] mem(1) show ?thesis by auto
    qed
  next
    case False
    then obtain best' bi' where s: "bi' = bi \<or> bi' = idx"
      "failover E now eps (idx # rest) best bi st = failover E now eps rest best' bi' st"
      by (rule failover_skip)
    show ?thesis
      by (rule Cons.IH[OF Cons.prems(1) _ mem(2), of best' bi']) (use s Cons.prems mem in auto)
  qed
qed

lemma rotation_bound: "0 < n \<Longrightarrow> set (rotation s n) \<subseteq> {..<n}"
  by (auto simp: rotation_def)

lemma choose_start_frame:
  assumes "eps \<noteq> []" "choose_start m eps (ch, w) = (i, (ch', w'))"
  shows "i < length eps" "\<exists>ns. ch' = ch\<lparr>m_lb_nodes := ns\<rparr>" "\<exists>k. w' = w\<lparr>w_lb_index := k\<rparr>"
  using assms find_start_from_bound[of eps 0] by (auto simp: choose_start_def find_start_index_def split: prod.splits)

lemma own_connect_any:
  assumes "own h (ch, w)" "eps \<noteq> []" "connect_any E m eps ctl (ch, w) = (r, st')"
  shows "own h st'" "r = Inr u \<Longrightarrow> m_clientfd (fst st') \<noteq> -1 \<and>
     (\<exists>ep \<in> set eps. m_ip (fst st') = host ep \<and> m_port (fst st') = port ep)"
proof -
  obtain i ch1 w1 where c: "choose_start m eps (ch, w) = (i, (ch1, w1))"
    by (metis prod.collapse)
  note cf = choose_start_frame[OF assms(2) c]
  obtain now w2 where k: "clock_now E w1 = (now, w2)" by (cases "clock_now E w1")
  obtain q st3 where f: "failover E now eps (rotation i (length eps)) None i (ch1, w2) = (q, st3)"
    by (metis prod.collapse)
  have "own h (ch1, w1)" using assms(1) cf(2,3) by (auto simp: own_def held_def)
  then have o2: "own h (ch1, w2)" using own_clock[OF k] by simp
  have n: "0 < length eps" using assms(2) by simp
  note o3 = own_failover[OF o2 f rotation_bound[OF n] cf(1)]
  have "own h st' \<and> (r = Inr u \<longrightarrow> m_clientfd (fst st') \<noteq> -1 \<and>
     (\<exists>ep \<in> set eps. m_ip (fst st') = host ep \<and> m_port (fst st') = port ep))"
  proof (cases q)
    case (Inr _)
    with o3 assms(3) c k f show ?thesis by (auto simp: connect_any_def)
  next
    case (Inl j)
    obtain q4 ch4 w4 where ct: "connect_to E (eps ! j) st3 = (q4, (ch4, w4))" by (metis prod.collapse)
    from o3 Inl have o4: "own h st3" "eps ! j \<in> set eps" by auto
    note o5 = own_connect_to[OF o4(1) ct]
    show ?thesis
      using o5 o4(2) assms(3) c k f Inl ct
      by (cases q4) (auto simp: connect_any_def own_def held_def)
  qed
  then show "own h st'" "r = Inr u \<Longrightarrow> m_clientfd (fst st') \<noteq> -1 \<and>
     (\<exists>ep \<in> set eps. m_ip (fst st') = host ep \<and> m_port (fst st') = port ep)" by blast+
qed

subsection \<open>What connecting leaves alone\<close>

text \<open>Connecting touches neither the calls nor the request ids nor any effect.\<close>

definition quiet :: "chan_state \<Rightarrow> chan_state \<Rightarrow> bool" where
  "quiet st st' \<longleftrightarrow> m_pending_calls (fst st') = m_pending_calls (fst st) \<and>
     m_send_queue (fst st') = m_send_queue (fst st) \<and> w_effects (snd st') = w_effects (snd st) \<and>
     g_request_id (snd st') = g_request_id (snd st)"

lemma quiet_refl: "quiet st st"
  by (simp add: quiet_def)

lemma quiet_trans: "quiet a b \<Longrightarrow> quiet b c \<Longrightarrow> quiet a c"
  by (simp add: quiet_def)

lemma clock_now_quiet: "clock_now E w = (t, w') \<Longrightarrow> quiet (ch, w) (ch, w')"
  by (drule clock_now_frame) (simp add: quiet_def)

lemma world_same_pools: "\<exists>ps t. w\<lparr>w_os := s\<rparr> = w\<lparr>w_pools := ps, w_os := t\<rparr>"
  by (intro exI[of _ "w_pools w"] exI[of _ s]) simp

lemma world_same: "\<exists>ps t. w = w\<lparr>w_pools := ps, w_os := t\<rparr>"
  by (intro exI[of _ "w_pools w"] exI[of _ "w_os w"]) simp

lemma AcquireConnection_frame:
  "AcquireConnection E ip p (ch, w) = (r, b, w') \<Longrightarrow> \<exists>ps s. w' = w\<lparr>w_pools := ps, w_os := s\<rparr>"
  by (cases "m_use_pool ch") (auto simp: AcquireConnection_def world_same_pools split: prod.splits)

lemma ReleaseConnection_frame:
  assumes "ReleaseConnection E b (ch, w) = (ch', w')"
  shows "\<exists>ps s. w' = w\<lparr>w_pools := ps, w_os := s\<rparr>"
    "\<exists>f buf. ch' = ch\<lparr>m_clientfd := f, m_recv_buffer := buf\<rparr>"
proof -
  show "\<exists>ps s. w' = w\<lparr>w_pools := ps, w_os := s\<rparr>"
    using assms world_same world_same_pools
    by (auto simp: ReleaseConnection_def Let_def split: if_splits prod.splits)
  have "ch' = ch \<or> ch' = ch\<lparr>m_clientfd := -1, m_recv_buffer := []\<rparr>"
    using assms by (auto simp: ReleaseConnection_def Let_def split: if_splits prod.splits)
  then show "\<exists>f buf. ch' = ch\<lparr>m_clientfd := f, m_recv_buffer := buf\<rparr>"
  proof
    assume "ch' = ch"
    then show ?thesis by (intro exI[of _ "m_clientfd ch"] exI[of _ "m_recv_buffer ch"]) simp
  qed blast
qed

text \<open>The connection that a channel holds is given back before it takes another.\<close>

lemma release_current:
  assumes "(if m_clientfd ch \<noteq> -1 then ReleaseConnection E True (ch, w) else (ch, w)) = (ch1, w1)"
  obtains buf pools sys where "ch1 = ch\<lparr>m_clientfd := -1, m_recv_buffer := buf\<rparr>" "w1 = w\<lparr>w_pools := pools, w_os := sys\<rparr>"
proof (cases "m_clientfd ch = -1")
  case True
  with assms that[where buf = "m_recv_buffer ch" and pools = "w_pools w" and sys = "w_os w"] show ?thesis by simp
next
  case fd: False
  with assms have r: "ReleaseConnection E True (ch, w) = (ch1, w1)" by simp
  have "m_clientfd ch1 = -1"
    using r fd by (auto simp: ReleaseConnection_def Let_def split: if_splits prod.splits)
  with ReleaseConnection_frame[OF r] that show ?thesis by auto
qed

text \<open>The outcome of one candidate, in one case split for all the lemmas below.\<close>

lemma connect_to_cases:
  assumes "connect_to E cand st = (r, st')"
  obtains
    (already) "r = Inr ()" "st' = st" "m_ip (fst st) = host cand" "m_port (fst st) = port cand"
  | (connected) f b buf w1 w2 ps s where "r = Inr ()"
      "AcquireConnection E (host cand) (port cand) ((fst st)\<lparr>m_clientfd := -1, m_recv_buffer := buf,
         m_ip := host cand, m_port := port cand, m_endpoint_key := ep_key cand\<rparr>, w1) = (Inr f, b, w2)"
      "st' = ((fst st)\<lparr>m_clientfd := f, m_recv_buffer := buf, m_ip := host cand, m_port := port cand,
         m_endpoint_key := ep_key cand, m_fail_states := ClearEndpointFailure cand (m_fail_states (fst st))\<rparr>, w2)"
      "w2 = (snd st)\<lparr>w_pools := ps, w_os := s\<rparr>"
  | (failed) err b buf w1 w2 now w3 ps s where
      "r = Inl (if err = [] then ''connect server error'' else err)"
      "AcquireConnection E (host cand) (port cand) ((fst st)\<lparr>m_clientfd := -1, m_recv_buffer := buf,
         m_ip := host cand, m_port := port cand, m_endpoint_key := ep_key cand\<rparr>, w1) = (Inl err, b, w2)"
      "clock_now E w2 = (now, w3)"
      "st' = ((fst st)\<lparr>m_clientfd := -1, m_recv_buffer := buf, m_ip := host cand, m_port := port cand,
         m_endpoint_key := ep_key cand,
         m_fail_states := MarkEndpointFailure (g_endpoint_fail_cooldown_ms w3) now cand
           (m_fail_states (fst st))\<rparr>, w3)"
      "w2 = (snd st)\<lparr>w_pools := ps, w_os := s\<rparr>"
proof -
  obtain ch w where st: "st = (ch, w)" by (cases st)
  show ?thesis
  proof (cases "m_clientfd ch \<noteq> -1 \<and> host cand = m_ip ch \<and> port cand = m_port ch")
    case True
    show ?thesis by (rule already) (use True assms in \<open>auto simp: connect_to_def st\<close>)
  next
    case False
    obtain ch1 w1 where rel: "(if m_clientfd ch \<noteq> -1 then ReleaseConnection E True (ch, w) else (ch, w)) = (ch1, w1)"
      by (cases "if m_clientfd ch \<noteq> -1 then ReleaseConnection E True (ch, w) else (ch, w)")
    obtain buf pools sys where ch1: "ch1 = ch\<lparr>m_clientfd := -1, m_recv_buffer := buf\<rparr>"
      and w1: "w1 = w\<lparr>w_pools := pools, w_os := sys\<rparr>" by (rule release_current[OF rel])
    let ?ch2 = "ch\<lparr>m_clientfd := -1, m_recv_buffer := buf, m_ip := host cand, m_port := port cand,
        m_endpoint_key := ep_key cand\<rparr>"
    have ch2: "ch1\<lparr>m_ip := host cand, m_port := port cand, m_endpoint_key := ep_key cand\<rparr> = ?ch2"
      by (simp add: ch1)
    obtain q b w2 where acq: "AcquireConnection E (host cand) (port cand) (?ch2, w1) = (q, b, w2)"
      by (cases "AcquireConnection E (host cand) (port cand) (?ch2, w1)")
    obtain ps s where w2: "w2 = w\<lparr>w_pools := ps, w_os := s\<rparr>"
      using AcquireConnection_frame[OF acq] w1 by auto
    have res: "connect_to E cand st = (case AcquireConnection E (host cand) (port cand) (?ch2, w1) of
        (Inr f, _, w2) \<Rightarrow> (Inr (), (?ch2\<lparr>m_clientfd := f,
           m_fail_states := ClearEndpointFailure cand (m_fail_states ch)\<rparr>, w2))
      | (Inl e, _, w2) \<Rightarrow> (case clock_now E w2 of (now, w3) \<Rightarrow>
          (Inl (if e = [] then ''connect server error'' else e),
           (?ch2\<lparr>m_fail_states := MarkEndpointFailure (g_endpoint_fail_cooldown_ms w3) now cand
              (m_fail_states ch)\<rparr>, w3))))"
      unfolding connect_to_def st fst_conv Let_def if_not_P[OF False] rel prod.case ch2
      by (simp split: sum.split prod.split)
    show ?thesis
    proof (cases q)
      case (Inr f)
      show ?thesis by (rule connected[where buf = buf and f = f and b = b])
        (use assms res acq Inr w2 st in simp_all)
    next
      case (Inl e)
      obtain now w3 where k: "clock_now E w2 = (now, w3)" by (cases "clock_now E w2")
      show ?thesis by (rule failed[where err = e and buf = buf and b = b and now = now])
        (use assms res acq Inl w2 k st in simp_all)
    qed
  qed
qed

lemma quiet_connect_to: "connect_to E cand st = (r, st') \<Longrightarrow> quiet st st'"
  by (erule connect_to_cases) (auto simp: quiet_def dest!: clock_now_frame)

lemma quiet_failover: "failover E now eps idxs best bi st = (r, st') \<Longrightarrow> quiet st st'"
proof (induction idxs arbitrary: best bi st)
  case Nil
  then show ?case by (simp add: quiet_refl)
next
  case (Cons idx rest)
  show ?case
  proof (cases "fst (EndpointAvailable (eps ! idx) now (m_fail_states (fst st)))")
    case True
    obtain q st1 where c: "connect_to E (eps ! idx) st = (q, st1)" by (cases "connect_to E (eps ! idx) st")
    have "quiet st1 st'" if "q = Inl e" for e
      by (rule Cons.IH[of best bi]) (use Cons.prems failover_try[OF True] c that in simp)
    moreover have "st' = st1" if "q = Inr e" for e
      using Cons.prems failover_try[OF True] c that by simp
    ultimately show ?thesis
      using quiet_connect_to[OF c] quiet_refl quiet_trans by (cases q) blast+
  next
    case False
    with Cons show ?thesis by (metis failover_skip)
  qed
qed

lemma quiet_connect_any:
  assumes "eps \<noteq> []" "connect_any E m eps ctl (ch, w) = (r, st')"
  shows "quiet (ch, w) st'"
proof -
  obtain i ch1 w1 where c: "choose_start m eps (ch, w) = (i, (ch1, w1))" by (metis prod.collapse)
  obtain now w2 where k: "clock_now E w1 = (now, w2)" by (cases "clock_now E w1")
  obtain q st3 where f: "failover E now eps (rotation i (length eps)) None i (ch1, w2) = (q, st3)"
    by (metis prod.collapse)
  obtain j where j: "q = Inl j \<or> q = Inr ()" by (cases q) auto
  obtain q4 ch4 w4 where ct: "connect_to E (eps ! j) st3 = (q4, (ch4, w4))" by (metis prod.collapse)
  have "quiet (ch, w) (ch1, w1)" using choose_start_frame[OF assms(1) c] by (auto simp: quiet_def)
  from quiet_trans[OF quiet_trans[OF this clock_now_quiet[OF k]] quiet_failover[OF f]]
  have q3: "quiet (ch, w) st3" .
  from quiet_trans[OF q3 quiet_connect_to[OF ct]] have "quiet (ch, w) (ch4, w4)" .
  then have "quiet (ch, w) (ch4, set_failed ctl e w4)" for e by (simp add: quiet_def)
  with q3 \<open>quiet (ch, w) (ch4, w4)\<close> assms(2) c k f j ct show ?thesis
    by (cases q4) (auto simp: connect_any_def)
qed

definition world_quiet :: "world \<Rightarrow> world \<Rightarrow> bool" where
  "world_quiet w w' \<longleftrightarrow> w_effects w' = w_effects w \<and> g_request_id w' = g_request_id w \<and>
     w_pools w' = w_pools w \<and> w_controllers w' = w_controllers w \<and>
     os_open (w_os w') = os_open (w_os w) \<and> os_bad_close (w_os w') = os_bad_close (w_os w)"

lemma world_quiet_refl: "world_quiet w w"
  by (simp add: world_quiet_def)

lemma world_quiet_trans: "world_quiet a b \<Longrightarrow> world_quiet b c \<Longrightarrow> world_quiet a c"
  by (simp add: world_quiet_def)

lemma world_quiet_store: "world_quiet w (store_endpoints E key eps w)"
  by (auto simp: world_quiet_def store_endpoints_def split: prod.splits dest!: clock_now_frame)

lemma world_quiet_retry:
  "retry_discovery E D svc m n q eps w = (r, w') \<Longrightarrow> world_quiet w w'"
proof (induction E D svc m n q eps w rule: retry_discovery.induct)
  case (2 E D svc m n q eps w)
  show ?case
  proof (cases "eps = []")
    case True
    let ?found = "query_nodes D q svc m"
    from True "2.prems" have "retry_discovery E D svc m n (Suc q) ?found
        (store_endpoints E (svc @ ''/'' @ m) ?found w) = (r, w')" by (simp add: Let_def)
    from "2.IH"[OF _ refl this] True world_quiet_trans[OF world_quiet_store] show ?thesis by blast
  qed (use "2.prems" world_quiet_refl in auto)
qed (simp add: world_quiet_refl)

lemma world_quiet_discover:
  assumes "discover E D svc m w = (r, w')"
  shows "world_quiet w w'"
proof -
  obtain static once where g: "GetStaticEndpoints (d_static_env D) (w_static w) = (static, once)"
    by fastforce
  obtain now w1 where k: "clock_now E (w\<lparr>w_static := once\<rparr>) = (now, w1)"
    by (cases "clock_now E (w\<lparr>w_static := once\<rparr>)")
  obtain res c where t: "TryGetCachedEndpoints (svc @ ''/'' @ m) now (w_cache w1) = (res, c)" by fastforce
  have w0: "world_quiet w (w\<lparr>w_static := once\<rparr>)" by (simp add: world_quiet_def)
  have w1: "world_quiet w (w1\<lparr>w_cache := c\<rparr>)" using clock_now_frame[OF k] by (simp add: world_quiet_def)
  show ?thesis
    using assms g k t
    by (cases res)
      (auto simp: discover_def Let_def split: if_splits
        dest!: world_quiet_retry intro: world_quiet_trans[OF w0] world_quiet_trans[OF w1]
          world_quiet_trans[OF world_quiet_trans[OF w1 world_quiet_store]])
qed

lemma EnsureConnection_found:
  assumes "EnsureConnection E D md ctl (ch, w) = (Inr u, st')"
  obtains svc eps w1 where "md_service md = Some svc" "discover E D svc (md_name md) w = (eps, w1)"
    "eps \<noteq> []" "connect_any E (md_name md) eps ctl (ch, w1) = (Inr u, st')"
  using assms by (auto simp: EnsureConnection_def Let_def split: option.splits prod.splits if_splits)

lemma EnsureConnection_cases:
  assumes "EnsureConnection E D md ctl (ch, w) = (r, st')"
  obtains (refused) w1 reason where "world_quiet w w1" "r = Inl reason" "reason \<noteq> []"
      "st' = (ch, set_failed ctl reason w1)"
  | (tried) svc eps w1 where "world_quiet w w1" "eps \<noteq> []" "discover E D svc (md_name md) w = (eps, w1)"
      "connect_any E (md_name md) eps ctl (ch, w1) = (r, st')"
proof (cases "md_service md")
  case None
  with assms show ?thesis
    by (intro refused[of w]) (auto simp: EnsureConnection_def world_quiet_refl)
next
  case (Some svc)
  obtain eps w1 where d: "discover E D svc (md_name md) w = (eps, w1)" by fastforce
  note q = world_quiet_discover[OF d]
  show ?thesis
  proof (cases "eps = []")
    case True
    with assms Some d show ?thesis
      by (intro refused[OF q]) (auto simp: EnsureConnection_def Let_def)
  next
    case False
    with assms Some d show ?thesis by (intro tried[OF q False d]) (simp add: EnsureConnection_def)
  qed
qed

lemma quiet_EnsureConnection:
  assumes "EnsureConnection E D md ctl (ch, w) = (r, st')"
  shows "quiet (ch, w) st'"
  using assms
proof (cases rule: EnsureConnection_cases)
  case (refused w1 reason)
  then show ?thesis by (simp add: quiet_def world_quiet_def)
next
  case (tried svc eps w1)
  from quiet_connect_any[OF tried(2,4)] tried(1) show ?thesis by (auto simp: quiet_def world_quiet_def)
qed

lemma own_EnsureConnection:
  assumes "own h (ch, w)" "EnsureConnection E D md ctl (ch, w) = (r, st')"
  shows "own h st'"
  using assms(2)
proof (cases rule: EnsureConnection_cases)
  case (refused w1 reason)
  with assms(1) show ?thesis by (simp add: own_def owns_def world_quiet_def)
next
  case (tried svc eps w1)
  have "own h (ch, w1)" using assms(1) tried(1) by (simp add: own_def owns_def world_quiet_def)
  from own_connect_any(1)[OF this tried(2,4)] show ?thesis .
qed

lemma EnsureConnection_open:
  assumes "own h (ch, w)" "EnsureConnection E D md ctl (ch, w) = (Inr u, (ch', w'))"
  shows "m_clientfd ch' \<noteq> -1 \<and> (\<exists>svc eps w1. md_service md = Some svc \<and>
    discover E D svc (md_name md) w = (eps, w1) \<and> (\<exists>ep \<in> set eps. m_ip ch' = host ep \<and> m_port ch' = port ep))"
proof -
  obtain svc eps w1 where d: "md_service md = Some svc" "discover E D svc (md_name md) w = (eps, w1)"
    "eps \<noteq> []" "connect_any E (md_name md) eps ctl (ch, w1) = (Inr u, (ch', w'))"
    using EnsureConnection_found[OF assms(2)] by blast
  have "own h (ch, w1)" using assms(1) world_quiet_discover[OF d(2)] by (simp add: own_def owns_def world_quiet_def)
  from own_connect_any(2)[OF this d(3,4)] d(1,2) show ?thesis by auto
qed

subsection \<open>Failover finds every usable endpoint\<close>

definition accepts :: "net_env \<Rightarrow> Endpoint \<Rightarrow> bool" where
  "accepts E ep \<longleftrightarrow> (\<forall>t. env_socket_ok E t \<and> env_connect_ok E t (host ep) (port ep))"

lemma accepts_AcquireConnection:
  "accepts E ep \<Longrightarrow> AcquireConnection E (host ep) (port ep) st \<noteq> (Inl e, b, w')"
  by (auto simp: AcquireConnection_def Pool_Acquire_def CreateConnectionFd_def accepts_def Let_def
      split: prod.splits option.splits if_splits)

definition usable :: "net_env \<Rightarrow> Endpoint \<Rightarrow> fail_states \<Rightarrow> bool" where
  "usable E ep fs \<longleftrightarrow> accepts E ep \<and>
     (\<forall>t. map_of fs (ep_key ep) = Some t \<longrightarrow> (\<forall>k. t \<le> env_clock E k))"

lemma usable_available: "usable E ep fs \<Longrightarrow> fst (EndpointAvailable ep (env_clock E k) fs)"
  by (auto simp: usable_def EndpointAvailable_def split: option.splits)

lemma failed_other_usable:
  assumes "connect_to E cand st = (Inl e, st')" "usable E ep (m_fail_states (fst st))"
    "CHR '':'' \<notin> set (host cand)" "CHR '':'' \<notin> set (host ep)"
  shows "usable E ep (m_fail_states (fst st'))"
proof -
  have acc: "accepts E ep" using assms(2) by (simp add: usable_def)
  have "ep_key cand \<noteq> ep_key ep"
  proof
    assume "ep_key cand = ep_key ep"
    then have "host cand = host ep" "port cand = port ep"
      using endpoint_key_inj[OF assms(3,4)] by auto
    then have "accepts E cand" using acc by (simp add: accepts_def)
    with assms(1) show False
      by (elim connect_to_cases) (auto dest: accepts_AcquireConnection)
  qed
  with assms(1,2) show ?thesis
    by (elim connect_to_cases) (auto simp: usable_def MarkEndpointFailure_def AList.update_conv')
qed

lemma failover_usable:
  assumes "i \<in> set idxs" "usable E (eps ! i) (m_fail_states (fst st))"
    "\<forall>j \<in> set idxs. CHR '':'' \<notin> set (host (eps ! j))"
  shows "\<exists>st'. failover E (env_clock E k) eps idxs best bi st = (Inr (), st')"
  using assms
proof (induction idxs arbitrary: best bi st)
  case (Cons idx rest)
  show ?case
  proof (cases "fst (EndpointAvailable (eps ! idx) (env_clock E k) (m_fail_states (fst st)))")
    case True
    obtain q st1 where c: "connect_to E (eps ! idx) st = (q, st1)" by (cases "connect_to E (eps ! idx) st")
    show ?thesis
    proof (cases q)
      case (Inr u)
      with failover_try[OF True] c show ?thesis by simp
    next
      case (Inl e)
      have "idx \<noteq> i"
      proof
        assume "idx = i"
        with Cons.prems(2) have "accepts E (eps ! idx)" by (simp add: usable_def)
        with c Inl show False by (auto elim!: connect_to_cases dest: accepts_AcquireConnection)
      qed
      moreover have "usable E (eps ! i) (m_fail_states (fst st1))"
        using failed_other_usable[OF c[unfolded Inl] Cons.prems(2)] Cons.prems(1,3) by auto
      ultimately show ?thesis
        using failover_try[OF True] c Inl Cons.IH[of st1 best bi] Cons.prems by auto
    qed
  next
    case False
    with usable_available[OF Cons.prems(2)] have "idx \<noteq> i" by auto
    from False obtain best' bi' where
      "failover E (env_clock E k) eps (idx # rest) best bi st = failover E (env_clock E k) eps rest best' bi' st"
      by (rule failover_skip)
    with Cons \<open>idx \<noteq> i\<close> show ?thesis by auto
  qed
qed simp

lemma rotation_all: "i < n \<Longrightarrow> i \<in> set (rotation s n)"
proof -
  assume i: "i < n"
  let ?k = "(i + (n - s mod n)) mod n"
  have "(s + ?k) mod n = (s mod n + (i + (n - s mod n))) mod n" by (simp add: mod_add_left_eq mod_add_right_eq)
  also have "s mod n + (i + (n - s mod n)) = i + n"
    using i mod_less_divisor[of n s] by linarith
  finally have "(s + ?k) mod n = i" using i by simp
  moreover have "?k < n" using i by simp
  ultimately show ?thesis by (force simp: rotation_def)
qed

lemma connect_any_usable:
  assumes "ep \<in> set eps" "usable E ep (m_fail_states ch)" "\<forall>e \<in> set eps. CHR '':'' \<notin> set (host e)"
  shows "\<exists>st'. connect_any E m eps ctl (ch, w) = (Inr (), st')"
proof -
  from assms(1) obtain j where j: "j < length eps" "eps ! j = ep" by (auto simp: in_set_conv_nth)
  obtain i ch1 w1 where c: "choose_start m eps (ch, w) = (i, (ch1, w1))" by (metis prod.collapse)
  have ne: "eps \<noteq> []" using assms(1) by auto
  note cf = choose_start_frame[OF ne c]
  obtain w2 where k: "clock_now E w1 = (env_clock E (os_tick (w_os w1)), w2)"
    by (simp add: clock_now_def os_clock_def)
  have "\<forall>j \<in> set (rotation i (length eps)). CHR '':'' \<notin> set (host (eps ! j))"
    using assms(3) rotation_bound[of "length eps" i] ne by (force simp: subset_iff)
  then obtain st3 where
    "failover E (env_clock E (os_tick (w_os w1))) eps (rotation i (length eps)) None i (ch1, w2) = (Inr (), st3)"
    using failover_usable[OF rotation_all[OF j(1)], of E eps "(ch1, w2)" i
        "os_tick (w_os w1)" None i] assms(2) cf(2) j(2) by auto
  with c k show ?thesis by (simp add: connect_any_def)
qed

lemma EnsureConnection_usable:
  assumes "md_service md = Some svc" "discover E D svc (md_name md) w = (eps, w1)" "ep \<in> set eps"
    "usable E ep (m_fail_states ch)" "\<forall>e \<in> set eps. CHR '':'' \<notin> set (host e)"
  shows "\<exists>st'. EnsureConnection E D md ctl (ch, w) = (Inr (), st')"
  using connect_any_usable[OF assms(3-5), of "md_name md" ctl w1] assms(1,2,3)
  by (auto simp: EnsureConnection_def)

subsection \<open>The receive buffer survives a reconnection\<close>

text \<open>Only \<open>ReleaseConnection\<close> empties the buffer, and it is not called when the connection is
  already closed.\<close>

lemma connect_to_keeps_buffer:
  assumes "connect_to E cand st = (r, st')" "m_clientfd (fst st) = -1"
  shows "m_recv_buffer (fst st') = m_recv_buffer (fst st)" "r = Inl e \<Longrightarrow> m_clientfd (fst st') = -1"
  using assms by (cases st; auto simp: connect_to_def Let_def split: sum.splits prod.splits)+

lemma failover_keeps_buffer:
  "failover E now eps idxs best bi st = (r, st') \<Longrightarrow> m_clientfd (fst st) = -1 \<Longrightarrow>
     m_recv_buffer (fst st') = m_recv_buffer (fst st) \<and> ((\<exists>j. r = Inl j) \<longrightarrow> m_clientfd (fst st') = -1)"
proof (induction idxs arbitrary: best bi st)
  case (Cons idx rest)
  show ?case
  proof (cases "fst (EndpointAvailable (eps ! idx) now (m_fail_states (fst st)))")
    case True
    obtain q st1 where c: "connect_to E (eps ! idx) st = (q, st1)" by (cases "connect_to E (eps ! idx) st")
    note k = connect_to_keeps_buffer[OF c Cons.prems(2)]
    show ?thesis
    proof (cases q)
      case (Inr u)
      with failover_try[OF True] c k Cons.prems show ?thesis by auto
    next
      case (Inl e)
      with failover_try[OF True] c k Cons.prems Cons.IH[of best bi st1] show ?thesis by auto
    qed
  next
    case False
    then obtain best' bi' where
      "failover E now eps (idx # rest) best bi st = failover E now eps rest best' bi' st"
      by (rule failover_skip)
    with Cons show ?thesis by metis
  qed
qed auto

lemma EnsureConnection_keeps_buffer:
  assumes "EnsureConnection E D md ctl (ch, w) = (r, st')" "m_clientfd ch = -1"
  shows "m_recv_buffer (fst st') = m_recv_buffer ch"
  using assms(1)
proof (cases rule: EnsureConnection_cases)
  case (tried svc eps w1)
  obtain i ch1 w2 where c: "choose_start (md_name md) eps (ch, w1) = (i, (ch1, w2))" by (metis prod.collapse)
  from choose_start_frame(2)[OF tried(2) c] assms(2) have fd: "m_clientfd ch1 = -1"
    and b: "m_recv_buffer ch1 = m_recv_buffer ch" by auto
  obtain now w3 where k: "clock_now E w2 = (now, w3)" by (cases "clock_now E w2")
  obtain q st4 where f: "failover E now eps (rotation i (length eps)) None i (ch1, w3) = (q, st4)"
    by (metis prod.collapse)
  from failover_keeps_buffer[OF f] fd b have f1: "m_recv_buffer (fst st4) = m_recv_buffer ch"
    "(\<exists>j. q = Inl j) \<longrightarrow> m_clientfd (fst st4) = -1" by auto
  show ?thesis
  proof (cases q)
    case (Inr u)
    with tried(4) c k f f1 show ?thesis by (auto simp: connect_any_def)
  next
    case (Inl j)
    obtain q5 st5 where c5: "connect_to E (eps ! j) st4 = (q5, st5)" by (cases "connect_to E (eps ! j) st4")
    from connect_to_keeps_buffer(1)[OF c5] f1 Inl have "m_recv_buffer (fst st5) = m_recv_buffer ch" by auto
    with tried(4) c k f Inl c5 show ?thesis
      by (cases q5; cases st5) (auto simp: connect_any_def)
  qed
qed simp

end
