(* ===== verification/Channel_Calls.thy ===== *)
theory Channel_Calls
  imports Channel_Recv Channel_Connect
begin

section \<open>The client channel: calls\<close>

text \<open>
  The model of \<open>CallFuture\<close> and of the three entry points \<open>CallMethod\<close>, \<open>CallAsync\<close> and
  \<open>CallAsyncFuture\<close>. \<open>CallFuture\<close> is cut where other threads may run in between: preparing the call
  (which ends with \<open>EnsureConnection\<close>), inserting it into the table, storing the user's callback in it,
  and queueing the frame. The step relation \<open>chan_step\<close> interleaves these pieces of any number of
  callers with the send, receive and timeout threads, and is an instance of \<open>call_protocol\<close>.
\<close>

text \<open>The request is \<open>None\<close> for a null pointer, \<open>Some None\<close> when it does not serialise.\<close>

record call_args =
  ca_method :: "method_desc option"
  ca_controller :: "nat option"
  ca_request :: "string option option"
  ca_response :: "nat option"
  ca_done :: "nat option"
  ca_callback :: "nat option"

record prepared =
  pr_pending :: PendingCall
  pr_varint :: string
  pr_header :: string
  pr_body :: string
  pr_callback :: "nat option"

definition fail_immediately :: "call_args \<Rightarrow> string \<Rightarrow> chan_state \<Rightarrow> chan_state" where
  "fail_immediately a reason st =
     (case st of (ch, w) \<Rightarrow>
        (ch, emit ((case ca_done a of None \<Rightarrow> [] | Some d \<Rightarrow> [Done_run 0 d]) @
                   (case ca_callback a of
                      None \<Rightarrow> [] | Some cb \<Rightarrow> [Callback_run 0 cb (ca_controller a) (ca_response a)]))
              (if reason \<noteq> [] then set_failed (ca_controller a) reason w else w)))"

definition call_timeout :: "channel \<Rightarrow> world \<Rightarrow> nat option \<Rightarrow> int" where
  "call_timeout ch w ctl =
     (case ctl of
        None \<Rightarrow> m_request_timeout_ms ch
      | Some c \<Rightarrow> (case map_of (w_controllers w) c of
                     None \<Rightarrow> m_request_timeout_ms ch
                   | Some k \<Rightarrow> if TimeoutMs k > 0 then TimeoutMs k else m_request_timeout_ms ch))"

definition request_header :: "u64 \<Rightarrow> string \<Rightarrow> string \<Rightarrow> string \<Rightarrow> RpcHeader" where
  "request_header rid svc mname args_str =
     Clear\<lparr>magic := kDefaultMagic, version := kDefaultVersion, msg_type := MSG_TYPE_REQUEST,
           body_size := of_nat (length args_str), compress_type := COMPRESS_NONE,
           service_name := svc, method_name := mname, request_id := rid\<rparr>"

definition prepare_call ::
    "pb_runtime \<Rightarrow> net_env \<Rightarrow> discovery \<Rightarrow> call_args \<Rightarrow> chan_state \<Rightarrow> prepared option \<times> chan_state" where
  "prepare_call rt E D a st =
     (case (ca_method a, ca_request a, ca_response a) of
        (Some md, Some req, Some resp) \<Rightarrow>
          (case st of (ch, w) \<Rightarrow>
             (let timeout = call_timeout ch w (ca_controller a)
              in case clock_now E w of
                   (now, w1) \<Rightarrow>
                     (case req of
                        None \<Rightarrow> (None, fail_immediately a ''serialize request fail'' (ch, w1))
                      | Some args_str \<Rightarrow>
                          (case md_service md of
                             None \<Rightarrow> (None, fail_immediately a ''service descriptor missing'' (ch, w1))
                           | Some svc \<Rightarrow>
                               (case NextRequestId w1 of
                                  (rid, w2) \<Rightarrow>
                                    (case SerializeToString rt (request_header rid svc (md_name md) args_str) of
                                       None \<Rightarrow> (None, fail_immediately a ''serialize rpc header error'' (ch, w2))
                                     | Some hs \<Rightarrow>
                                         (case EnsureConnection E D md (ca_controller a) (ch, w2) of
                                            (Inl ensure_error, st3) \<Rightarrow>
                                              (None, fail_immediately a ensure_error st3)
                                          | (Inr _, st3) \<Rightarrow>
                                              (Some \<lparr>pr_pending = \<lparr>p_response = Some resp,
                                                       p_controller = ca_controller a, p_timeout_ms = timeout,
                                                       p_start_time = now, p_request_id = rid,
                                                       p_done = ca_done a, p_async_callback = None,
                                                       p_service_name = svc, p_method_name = md_name md,
                                                       p_peer = m_endpoint_key (fst st3)\<rparr>,
                                                     pr_varint = WriteVarint32 rt (of_nat (length hs)),
                                                     pr_header = hs, pr_body = args_str,
                                                     pr_callback = ca_callback a\<rparr>, st3))))))))
      | _ \<Rightarrow> (None, fail_immediately a ''invalid call parameters'' st))"

definition insert_call :: "prepared \<Rightarrow> chan_state \<Rightarrow> chan_state" where
  "insert_call pr st =
     (case st of (ch, w) \<Rightarrow>
        (ch\<lparr>m_pending_calls := AList.update (p_request_id (pr_pending pr)) (pr_pending pr) (m_pending_calls ch)\<rparr>, w))"

text \<open>\<open>pending->async_callback = std::move(user_callback)\<close>: the object is found through the table; if the
  call has left it meanwhile, nobody will look at the object again.\<close>

definition set_callback :: "prepared \<Rightarrow> chan_state \<Rightarrow> chan_state" where
  "set_callback pr st =
     (case st of (ch, w) \<Rightarrow>
        (ch\<lparr>m_pending_calls := map (\<lambda>(i, p). (i, if i = p_request_id (pr_pending pr)
              then p\<lparr>p_async_callback := pr_callback pr\<rparr> else p)) (m_pending_calls ch)\<rparr>, w))"

definition enqueue_call :: "prepared \<Rightarrow> chan_state \<Rightarrow> chan_state" where
  "enqueue_call pr st =
     (case st of (ch, w) \<Rightarrow>
        (EnqueueSend (p_request_id (pr_pending pr)) (pr_varint pr) (pr_header pr) (pr_body pr) ch, w))"

text \<open>The result is the request id of the pending call, \<open>None\<close> for the null pointer.\<close>

definition CallFuture ::
    "pb_runtime \<Rightarrow> net_env \<Rightarrow> discovery \<Rightarrow> call_args \<Rightarrow> chan_state \<Rightarrow> PendingCall option \<times> chan_state" where
  "CallFuture rt E D a st =
     (case prepare_call rt E D a st of
        (None, st1) \<Rightarrow> (None, st1)
      | (Some pr, st1) \<Rightarrow>
          (Some (pr_pending pr), enqueue_call pr (set_callback pr (insert_call pr st1))))"

text \<open>The synchronous wait: \<open>ready\<close> tells whether the future became ready in time.\<close>

definition CallMethod_wait :: "net_env \<Rightarrow> PendingCall \<Rightarrow> bool \<Rightarrow> chan_state \<Rightarrow> chan_state" where
  "CallMethod_wait E p ready st =
     (if p_done p \<noteq> None then st
      else if \<not> ready then RemovePendingCall E (p_request_id p) ''timeout'' st
      else st)"

definition CallAsync ::
    "pb_runtime \<Rightarrow> net_env \<Rightarrow> discovery \<Rightarrow> call_args \<Rightarrow> chan_state \<Rightarrow> chan_state" where
  "CallAsync rt E D a st = snd (CallFuture rt E D (a\<lparr>ca_done := None\<rparr>) st)"

definition CallAsyncFuture ::
    "pb_runtime \<Rightarrow> net_env \<Rightarrow> discovery \<Rightarrow> call_args \<Rightarrow> chan_state \<Rightarrow> u64 option \<times> chan_state" where
  "CallAsyncFuture rt E D a st =
     (case CallFuture rt E D (a\<lparr>ca_done := None, ca_callback := None\<rparr>) st of
        (p, st') \<Rightarrow> (map_option p_request_id p, st'))"

definition CallMethod_start ::
    "pb_runtime \<Rightarrow> net_env \<Rightarrow> discovery \<Rightarrow> call_args \<Rightarrow> chan_state \<Rightarrow> PendingCall option \<times> chan_state" where
  "CallMethod_start rt E D a st = CallFuture rt E D (a\<lparr>ca_callback := None\<rparr>) st"

subsection \<open>The threads of a channel\<close>

text \<open>A caller is in one of the phases of \<open>CallFuture\<close>, or waits for its future.\<close>

datatype phase = Prepared prepared | Inserted prepared | Called_back prepared | Waiting_for PendingCall

record threads =
  th_chan :: chan_state
  th_callers :: "phase list"

definition th_view :: "threads \<Rightarrow> call_view" where
  "th_view t = \<lparr>
     cv_allocated = List.map_filter (\<lambda>p. case p of Prepared pr \<Rightarrow> Some (p_request_id (pr_pending pr)) | _ \<Rightarrow> None)
                      (th_callers t),
     cv_pending = pending_ids (th_chan t),
     cv_completed = completed_ids (w_effects (snd (th_chan t))),
     cv_next = g_request_id (snd (th_chan t))\<rparr>"

text \<open>The id counter does not reach the end of its 64 bits (\<open>ids_left\<close>).\<close>

definition ids_left :: "chan_state \<Rightarrow> bool" where
  "ids_left st \<longleftrightarrow> unat (g_request_id (snd st)) + 1 < 18446744073709551616"

text \<open>The steps of the channel's own threads and of the callers behind \<open>EnsureConnection\<close>.\<close>

inductive chan_own_step :: "pb_runtime \<Rightarrow> net_env \<Rightarrow> discovery \<Rightarrow> threads \<Rightarrow> threads \<Rightarrow> bool"
  for rt E D where
  call_failed: "ids_left st \<Longrightarrow> prepare_call rt E D a st = (None, st') \<Longrightarrow>
    chan_own_step rt E D \<lparr>th_chan = st, th_callers = cs\<rparr> \<lparr>th_chan = st', th_callers = cs\<rparr>"
| insert: "Prepared pr \<in> set cs \<Longrightarrow>
    chan_own_step rt E D \<lparr>th_chan = st, th_callers = cs\<rparr>
      \<lparr>th_chan = insert_call pr st, th_callers = Inserted pr # remove1 (Prepared pr) cs\<rparr>"
| callback: "Inserted pr \<in> set cs \<Longrightarrow>
    chan_own_step rt E D \<lparr>th_chan = st, th_callers = cs\<rparr>
      \<lparr>th_chan = set_callback pr st, th_callers = Called_back pr # remove1 (Inserted pr) cs\<rparr>"
| enqueue: "Called_back pr \<in> set cs \<Longrightarrow>
    chan_own_step rt E D \<lparr>th_chan = st, th_callers = cs\<rparr>
      \<lparr>th_chan = enqueue_call pr st, th_callers = Waiting_for (pr_pending pr) # remove1 (Called_back pr) cs\<rparr>"
| wait_over: "Waiting_for p \<in> set cs \<Longrightarrow>
    chan_own_step rt E D \<lparr>th_chan = st, th_callers = cs\<rparr>
      \<lparr>th_chan = CallMethod_wait E p ready st, th_callers = remove1 (Waiting_for p) cs\<rparr>"
| send: "SendLoop_turn E ws st = Some st' \<Longrightarrow>
    chan_own_step rt E D \<lparr>th_chan = st, th_callers = cs\<rparr> \<lparr>th_chan = st', th_callers = cs\<rparr>"
| timeout: "chan_own_step rt E D \<lparr>th_chan = st, th_callers = cs\<rparr>
      \<lparr>th_chan = TimeoutLoop_turn E st, th_callers = cs\<rparr>"
| heartbeat: "ids_left st \<Longrightarrow> SendHeartbeat_start rt ok st = (r, st') \<Longrightarrow>
    chan_own_step rt E D \<lparr>th_chan = st, th_callers = cs\<rparr> \<lparr>th_chan = st', th_callers = cs\<rparr>"
| heartbeat_end: "SendHeartbeat_finish st = (r, st1) \<Longrightarrow>
    chan_own_step rt E D \<lparr>th_chan = st, th_callers = cs\<rparr>
      \<lparr>th_chan = HeartbeatLoop_result E r st1, th_callers = cs\<rparr>"

text \<open>All steps: those, a new call, and a turn of the receive thread.\<close>

inductive chan_step :: "pb_runtime \<Rightarrow> net_env \<Rightarrow> discovery \<Rightarrow> (nat \<Rightarrow> string \<Rightarrow> bool) \<Rightarrow> threads \<Rightarrow> threads \<Rightarrow> bool"
  for rt E D parse where
  own: "chan_own_step rt E D t t' \<Longrightarrow> chan_step rt E D parse t t'"
| call: "ids_left st \<Longrightarrow> prepare_call rt E D a st = (Some pr, st') \<Longrightarrow>
    chan_step rt E D parse \<lparr>th_chan = st, th_callers = cs\<rparr> \<lparr>th_chan = st', th_callers = Prepared pr # cs\<rparr>"
| recv: "chan_step rt E D parse \<lparr>th_chan = st, th_callers = cs\<rparr>
      \<lparr>th_chan = RecvLoop_turn rt E parse ob st, th_callers = cs\<rparr>"

inductive_cases chan_stepE: "chan_step rt E D parse t t'"

subsection \<open>The channel implements the life of a request id\<close>

lemma fail_immediately_view:
  "fail_immediately a reason (ch, w) = (ch', w') \<Longrightarrow> ch' = ch \<and>
     completed_ids (w_effects w') = completed_ids (w_effects w) \<and> g_request_id w' = g_request_id w"
  by (auto simp: fail_immediately_def emit_def split: option.splits if_splits)

lemma quiet_view:
  "quiet (ch, w) (ch', w') \<Longrightarrow> m_pending_calls ch' = m_pending_calls ch \<and>
     w_effects w' = w_effects w \<and> g_request_id w' = g_request_id w"
  by (simp add: quiet_def)

definition same_calls :: "chan_state \<Rightarrow> chan_state \<Rightarrow> bool" where
  "same_calls st st' \<longleftrightarrow> m_pending_calls (fst st') = m_pending_calls (fst st) \<and>
     completed_ids (w_effects (snd st')) = completed_ids (w_effects (snd st))"

lemma fail_immediately_same_calls:
  assumes "m_pending_calls ch' = m_pending_calls ch" "w_effects w' = w_effects w"
  shows "same_calls (ch, w) (fail_immediately a reason (ch', w'))"
    "g_request_id (snd (fail_immediately a reason (ch', w'))) = g_request_id w'"
  using fail_immediately_view[of a reason ch' w'] assms by (auto simp: same_calls_def) (metis prod.collapse)+

lemma prepare_call_view:
  assumes "prepare_call rt E D a st = (r, st')"
  shows "same_calls st st'"
    "case r of Some pr \<Rightarrow> p_request_id (pr_pending pr) = g_request_id (snd st) \<and>
                 g_request_id (snd st') = g_request_id (snd st) + 1
     | None \<Rightarrow> g_request_id (snd st') = g_request_id (snd st) \<or> g_request_id (snd st') = g_request_id (snd st) + 1"
proof -
  obtain ch w where st: "st = (ch, w)" by (cases st)
  note fail = fail_immediately_same_calls[where ch = ch and w = w and a = a]
  have goal: "same_calls st st' \<and> (case r of Some pr \<Rightarrow> p_request_id (pr_pending pr) = g_request_id (snd st) \<and>
                 g_request_id (snd st') = g_request_id (snd st) + 1
     | None \<Rightarrow> g_request_id (snd st') = g_request_id (snd st) \<or> g_request_id (snd st') = g_request_id (snd st) + 1)"
  proof (cases "\<exists>md req resp. ca_method a = Some md \<and> ca_request a = Some req \<and> ca_response a = Some resp")
    case False
    then have "prepare_call rt E D a st = (None, fail_immediately a ''invalid call parameters'' st)"
      by (auto simp: prepare_call_def split: option.splits)
    with assms fail[of ch w] show ?thesis by (auto simp: st)
  next
    case True
    then obtain md req resp where m: "ca_method a = Some md" "ca_request a = Some req" "ca_response a = Some resp"
      by blast
    obtain now w1 where k: "clock_now E w = (now, w1)" by (cases "clock_now E w")
    note kf = clock_now_frame[OF k]
    show ?thesis
    proof (cases "req = None \<or> md_service md = None")
      case True
      with assms m k kf fail[of ch w1] show ?thesis
        by (auto simp: prepare_call_def st Let_def split: option.splits)
    next
      case False
      then obtain args svc where m2: "req = Some args" "md_service md = Some svc" by auto
      obtain w2 where w2: "NextRequestId w1 = (g_request_id w, w2)"
        "g_request_id w2 = g_request_id w + 1" "w_effects w2 = w_effects w"
        using kf by (simp add: NextRequestId_def)
      show ?thesis
      proof (cases "SerializeToString rt (request_header (g_request_id w) svc (md_name md) args)")
        case None
        with assms m m2 k w2 fail[of ch w2] show ?thesis by (auto simp: prepare_call_def st Let_def)
      next
        case (Some hs)
        obtain e ch3 w3 where en: "EnsureConnection E D md (ca_controller a) (ch, w2) = (e, (ch3, w3))"
          by (metis prod.collapse)
        note q = quiet_EnsureConnection[OF en]
        with assms m m2 k w2 Some en fail[of ch3 w3] quiet_view[OF q] show ?thesis
          by (cases e) (auto simp: prepare_call_def st Let_def same_calls_def)
      qed
    qed
  qed
  then show "same_calls st st'" "case r of Some pr \<Rightarrow> p_request_id (pr_pending pr) = g_request_id (snd st) \<and>
                 g_request_id (snd st') = g_request_id (snd st) + 1
     | None \<Rightarrow> g_request_id (snd st') = g_request_id (snd st) \<or> g_request_id (snd st') = g_request_id (snd st) + 1"
    by blast+
qed

definition th_ok :: "threads \<Rightarrow> bool" where
  "th_ok t \<longleftrightarrow> table_ok (fst (th_chan t)) \<and> cv_ok (th_view t)"

abbreviation allocated_ids :: "phase list \<Rightarrow> u64 list" where
  "allocated_ids cs \<equiv> List.map_filter
     (\<lambda>p. case p of Prepared pr \<Rightarrow> Some (p_request_id (pr_pending pr)) | _ \<Rightarrow> None) cs"

lemma allocated_ids_simps [simp]:
  "allocated_ids (Prepared pr # cs) = p_request_id (pr_pending pr) # allocated_ids cs"
  "allocated_ids (Inserted pr # cs) = allocated_ids cs"
  "allocated_ids (Called_back pr # cs) = allocated_ids cs"
  "allocated_ids (Waiting_for p # cs) = allocated_ids cs"
  by (simp_all add: List.map_filter_def)

lemma allocated_ids_remove_other:
  assumes "case p of Prepared pr \<Rightarrow> False | _ \<Rightarrow> True"
  shows "allocated_ids (remove1 p cs) = allocated_ids cs"
  using assms by (induction cs) (auto simp: List.map_filter_def split: phase.splits)

lemma allocated_ids_remove:
  "Prepared pr \<in> set cs \<Longrightarrow> distinct (allocated_ids cs) \<Longrightarrow>
     p_request_id (pr_pending pr) \<in> set (allocated_ids cs) \<and>
     allocated_ids (remove1 (Prepared pr) cs) = remove1 (p_request_id (pr_pending pr)) (allocated_ids cs)"
proof (induction cs)
  case (Cons c cs)
  have mem: "p_request_id (pr_pending q) \<in> set (allocated_ids cs)" if "Prepared q \<in> set cs" for q
    using that by (force simp: List.map_filter_def)
  show ?case
  proof (cases c)
    case (Prepared q)
    with Cons mem[of pr] show ?thesis by (cases "q = pr") auto
  qed (use Cons in auto)
qed simp

lemma view_drained:
  assumes "drained st st'"
  shows "call_step\<^sup>*\<^sup>* (th_view \<lparr>th_chan = st, th_callers = cs\<rparr>) (th_view \<lparr>th_chan = st', th_callers = cs\<rparr>)"
proof -
  from assms obtain ids where d: "drains ids st st'" by (auto simp: drained_def)
  let ?v = "th_view \<lparr>th_chan = st, th_callers = cs\<rparr>"
  have "th_view \<lparr>th_chan = st', th_callers = cs\<rparr> =
      ?v\<lparr>cv_pending := filter (\<lambda>i. i \<notin> set ids) (cv_pending ?v), cv_completed := cv_completed ?v @ ids\<rparr>"
    using d by (simp add: th_view_def drains_def)
  with call_step.complete[of ids ?v] d show ?thesis
    by (metis (no_types, lifting) call_view.select_convs(2) drains_def r_into_rtranclp th_view_def threads.select_convs(1))
qed

lemma view_allocate:
  assumes "ids_left st" "same_calls st st'" "g_request_id (snd st') = g_request_id (snd st) + 1"
    "p_request_id (pr_pending pr) = g_request_id (snd st)"
  shows "call_step (th_view \<lparr>th_chan = st, th_callers = cs\<rparr>)
    (th_view \<lparr>th_chan = st', th_callers = Prepared pr # cs\<rparr>)"
proof -
  let ?v = "th_view \<lparr>th_chan = st, th_callers = cs\<rparr>"
  have "th_view \<lparr>th_chan = st', th_callers = Prepared pr # cs\<rparr> =
      ?v\<lparr>cv_allocated := cv_next ?v # cv_allocated ?v, cv_next := cv_next ?v + 1\<rparr>"
    using assms by (simp add: th_view_def same_calls_def pending_ids_def)
  with call_step.allocate[of ?v] assms(1) show ?thesis by (simp add: ids_left_def th_view_def)
qed

text \<open>An id that is consumed without a call being inserted.\<close>

lemma view_spend:
  assumes "ids_left st" "same_calls st st'"
    "g_request_id (snd st') = g_request_id (snd st) \<or> g_request_id (snd st') = g_request_id (snd st) + 1"
  shows "call_step\<^sup>*\<^sup>* (th_view \<lparr>th_chan = st, th_callers = cs\<rparr>) (th_view \<lparr>th_chan = st', th_callers = cs\<rparr>)"
  using assms(3)
proof
  assume "g_request_id (snd st') = g_request_id (snd st)"
  then have "th_view \<lparr>th_chan = st', th_callers = cs\<rparr> = th_view \<lparr>th_chan = st, th_callers = cs\<rparr>"
    using assms(2) by (simp add: th_view_def same_calls_def pending_ids_def)
  then show ?thesis by simp
next
  assume g: "g_request_id (snd st') = g_request_id (snd st) + 1"
  let ?v = "th_view \<lparr>th_chan = st, th_callers = cs\<rparr>"
  let ?v1 = "?v\<lparr>cv_allocated := cv_next ?v # cv_allocated ?v, cv_next := cv_next ?v + 1\<rparr>"
  have "call_step ?v ?v1"
    by (rule call_step.allocate) (use assms(1) in \<open>simp add: ids_left_def th_view_def\<close>)
  moreover have "call_step ?v1 (?v1\<lparr>cv_allocated := remove1 (cv_next ?v) (cv_allocated ?v1)\<rparr>)"
    by (rule call_step.abandon) simp
  moreover have "?v1\<lparr>cv_allocated := remove1 (cv_next ?v) (cv_allocated ?v1)\<rparr> =
      th_view \<lparr>th_chan = st', th_callers = cs\<rparr>"
    using g assms(2) by (simp add: th_view_def same_calls_def pending_ids_def)
  ultimately show ?thesis by (metis converse_rtranclp_into_rtranclp r_into_rtranclp)
qed

lemma view_insert:
  assumes ok: "th_ok \<lparr>th_chan = st, th_callers = cs\<rparr>" and pr: "Prepared pr \<in> set cs"
  shows "call_step (th_view \<lparr>th_chan = st, th_callers = cs\<rparr>)
    (th_view \<lparr>th_chan = insert_call pr st, th_callers = Inserted pr # remove1 (Prepared pr) cs\<rparr>)"
    "table_ok (fst (insert_call pr st))"
proof -
  obtain ch w where st: "st = (ch, w)" by (cases st)
  let ?v = "th_view \<lparr>th_chan = st, th_callers = cs\<rparr>" and ?i = "p_request_id (pr_pending pr)"
  have d: "distinct (allocated_ids cs)" "set (allocated_ids cs) \<inter> set (pending_ids st) = {}"
    using ok by (auto simp: th_ok_def th_view_def cv_ok_def)
  note rem = allocated_ids_remove[OF pr d(1)]
  with d have new: "?i \<notin> set (pending_ids st)" by auto
  have upd: "AList.update ?i (pr_pending pr) (m_pending_calls ch) = m_pending_calls ch @ [(?i, pr_pending pr)]"
    using new by (intro update_new_key) (simp add: pending_ids_def st)
  have "th_view \<lparr>th_chan = insert_call pr st, th_callers = Inserted pr # remove1 (Prepared pr) cs\<rparr> =
      ?v\<lparr>cv_allocated := remove1 ?i (cv_allocated ?v), cv_pending := cv_pending ?v @ [?i]\<rparr>"
    using rem upd by (simp add: th_view_def insert_call_def st pending_ids_def)
  with call_step.insert[of ?i ?v] rem show "call_step ?v
    (th_view \<lparr>th_chan = insert_call pr st, th_callers = Inserted pr # remove1 (Prepared pr) cs\<rparr>)"
    by (simp add: th_view_def)
  show "table_ok (fst (insert_call pr st))"
    using ok new upd by (auto simp: th_ok_def table_ok_def insert_call_def st pending_ids_def)
qed

lemma set_callback_view:
  "pending_ids (set_callback pr st) = pending_ids st" "snd (set_callback pr st) = snd st"
  "table_ok (fst st) \<Longrightarrow> table_ok (fst (set_callback pr st))"
  by (cases st; force simp: set_callback_def pending_ids_def table_ok_def comp_def case_prod_beta)+

lemma enqueue_call_view:
  "pending_ids (enqueue_call pr st) = pending_ids st" "snd (enqueue_call pr st) = snd st"
  "table_ok (fst st) \<Longrightarrow> table_ok (fst (enqueue_call pr st))"
  by (cases st; simp add: enqueue_call_def EnqueueSend_def pending_ids_def table_ok_def)+

lemma drained_CallMethod_wait:
  "table_ok (fst st) \<Longrightarrow> drained st (CallMethod_wait E p ready st)"
  using drains_RemovePendingCall[of st "p_request_id p" E "''timeout''"]
  by (auto simp: CallMethod_wait_def drained_refl) (auto simp: drained_def)

lemma drained_heartbeat_end:
  assumes "table_ok (fst st)" "SendHeartbeat_finish st = (r, st1)"
  shows "drained st (HeartbeatLoop_result E r st1)"
proof -
  obtain ch w where st: "st = (ch, w)" by (cases st)
  from assms obtain ch1 where f: "st1 = (ch1, w)" "m_pending_calls ch1 = m_pending_calls ch"
    by (auto simp: SendHeartbeat_finish_def st split: if_splits)
  have d1: "drained st (ch1, w)" using assms(1) f by (simp add: st drained_same)
  have miss: "drained (ch1, w) (ch1\<lparr>m_missed_heartbeat_count := k\<rparr>, w)" for k
    using drained_ok[OF d1] by (simp add: drained_same)
  have set0: "drained s (ch'\<lparr>m_missed_heartbeat_count := 0\<rparr>, w')" if "drained s (ch', w')" for s ch' w'
    by (rule drained_trans[OF that drained_same]) (use drained_ok[OF that] in auto)
  have fail: "drained st (ch'\<lparr>m_missed_heartbeat_count := 0\<rparr>, w')"
    if "drained st s" "HandleHeartbeatFailure E reason s = (ch', w')" for s reason ch' w'
    using set0[of st] drained_trans[OF that(1) drained_HandleHeartbeatFailure[OF drained_ok[OF that(1)]]]
      that(2) by metis
  show ?thesis
  proof (cases r)
    case kSuccess
    then show ?thesis
      unfolding f HeartbeatLoop_result_def
      using drained_ok[OF d1]
      by (auto intro!: drained_trans[OF d1] drained_same split: prod.splits dest: clock_now_frame)
  next
    case kTimeout
    show ?thesis
      unfolding f HeartbeatLoop_result_def kTimeout
      using fail[OF drained_trans[OF d1 miss]] drained_trans[OF d1 miss]
      by (auto simp: Let_def split: prod.splits)
  next
    case kFatal
    show ?thesis
      unfolding f HeartbeatLoop_result_def kFatal
      using fail[OF d1] by (auto split: prod.splits)
  qed
qed

lemma heartbeat_start_view:
  assumes "SendHeartbeat_start rt sent st = (r, st')"
  shows "same_calls st st'" "g_request_id (snd st') = g_request_id (snd st) \<or>
      g_request_id (snd st') = g_request_id (snd st) + 1"
  using assms
  by (cases st; auto simp: SendHeartbeat_start_def NextRequestId_def same_calls_def emit_def Let_def
      split: if_splits option.splits)+

text \<open>Steps that leave the callers in the same phase with respect to allocation.\<close>

lemma view_same:
  assumes "pending_ids st' = pending_ids st" "snd st' = snd st" "allocated_ids cs' = allocated_ids cs"
  shows "th_view \<lparr>th_chan = st', th_callers = cs'\<rparr> = th_view \<lparr>th_chan = st, th_callers = cs\<rparr>"
  using assms by (simp add: th_view_def)

lemma same_calls_ok: "same_calls st st' \<Longrightarrow> table_ok (fst st) \<Longrightarrow> table_ok (fst st')"
  by (simp add: same_calls_def table_ok_def)

lemma chan_own_step_refines:
  assumes "th_ok t" "chan_own_step rt E D t t'"
  shows "call_step\<^sup>*\<^sup>* (th_view t) (th_view t') \<and> table_ok (fst (th_chan t'))"
  using assms(2)
proof cases
  case (call_failed st a st' cs)
  have ok: "table_ok (fst st)" using assms(1) call_failed by (simp add: th_ok_def)
  note v = prepare_call_view[OF call_failed(4)]
  from view_spend[OF call_failed(3) v(1)] v(2) same_calls_ok[OF v(1) ok] show ?thesis
    unfolding call_failed(1,2) by auto
next
  case (insert pr cs st)
  from view_insert[of st cs pr] assms(1) insert(3) show ?thesis
    unfolding insert(1,2) by auto
next
  case (callback pr cs st)
  have ok: "table_ok (fst st)" using assms(1) callback by (simp add: th_ok_def)
  have "th_view t' = th_view t" unfolding callback(1,2)
    by (rule view_same) (simp_all add: set_callback_view allocated_ids_remove_other)
  with ok show ?thesis by (simp add: callback(2) set_callback_view)
next
  case (enqueue pr cs st)
  have ok: "table_ok (fst st)" using assms(1) enqueue by (simp add: th_ok_def)
  have "th_view t' = th_view t" unfolding enqueue(1,2)
    by (rule view_same) (simp_all add: enqueue_call_view allocated_ids_remove_other)
  with ok show ?thesis by (simp add: enqueue(2) enqueue_call_view)
next
  case (wait_over p cs st ready)
  have ok: "table_ok (fst st)" using assms(1) wait_over by (simp add: th_ok_def)
  note d = drained_CallMethod_wait[OF ok, of E p ready]
  have "th_view \<lparr>th_chan = st, th_callers = remove1 (Waiting_for p) cs\<rparr> = th_view t"
    unfolding wait_over(1) by (rule view_same) (simp_all add: allocated_ids_remove_other)
  with view_drained[OF d, of "remove1 (Waiting_for p) cs"] drained_ok[OF d] show ?thesis
    by (simp add: wait_over(2))
next
  case (send ws st st' cs)
  have ok: "table_ok (fst st)" using assms(1) send by (simp add: th_ok_def)
  have d: "drained st st'" using SendLoop_turn_drains[OF ok send(3)] by (simp add: drained_def)
  from view_drained[OF d] drained_ok[OF d] show ?thesis unfolding send(1,2) by simp
next
  case (timeout st cs)
  obtain ch w where st: "st = (ch, w)" by (cases st)
  have ok: "table_ok ch" using assms(1) timeout st by (simp add: th_ok_def)
  have d: "drained st (TimeoutLoop_turn E st)"
    using drains_TimeoutLoop_turn[OF ok, of E w] st drained_def by blast
  from view_drained[OF d] drained_ok[OF d] show ?thesis unfolding timeout(1,2) by simp
next
  case (heartbeat st ok r st' cs)
  have ok: "table_ok (fst st)" using assms(1) heartbeat by (simp add: th_ok_def)
  note v = heartbeat_start_view[OF heartbeat(4)]
  from view_spend[OF heartbeat(3) v] same_calls_ok[OF v(1) ok] show ?thesis
    unfolding heartbeat(1,2) by simp
next
  case (heartbeat_end st r st1 cs)
  have ok: "table_ok (fst st)" using assms(1) heartbeat_end by (simp add: th_ok_def)
  note d = drained_heartbeat_end[OF ok heartbeat_end(3), of E]
  from view_drained[OF d] drained_ok[OF d] show ?thesis unfolding heartbeat_end(1,2) by simp
qed

lemma chan_step_refines:
  assumes "th_ok t" "chan_step rt E D parse t t'"
  shows "call_step\<^sup>*\<^sup>* (th_view t) (th_view t') \<and> table_ok (fst (th_chan t'))"
  using assms(2)
proof cases
  case own
  from chan_own_step_refines[OF assms(1) own] show ?thesis .
next
  case (call st a pr st' cs)
  have ok: "table_ok (fst st)" using assms(1) call by (simp add: th_ok_def)
  note v = prepare_call_view[OF call(4)]
  from view_allocate[OF call(3) v(1)] v(2) same_calls_ok[OF v(1) ok] show ?thesis
    unfolding call(1,2) by auto
next
  case (recv st cs ob)
  have ok: "table_ok (fst st)" using assms(1) recv by (simp add: th_ok_def)
  note d = drained_RecvLoop_turn[OF ok, of rt E parse ob]
  from view_drained[OF d] drained_ok[OF d] show ?thesis unfolding recv(1,2) by simp
qed

interpretation channel_calls: call_protocol "chan_step rt E D parse" th_view th_ok
  for rt E D parse
proof
  fix s s'
  assume "th_ok s" "chan_step rt E D parse s s'"
  note r = chan_step_refines[OF this]
  then show "call_step\<^sup>*\<^sup>* (th_view s) (th_view s')" by blast
  from \<open>th_ok s\<close> r cv_ok_steps[of "th_view s" "th_view s'"] show "th_ok s'" by (simp add: th_ok_def)
qed

subsection \<open>The frame of a request\<close>

text \<open>What a prepared call sends is the frame of its header and its serialised arguments.\<close>

lemma prepare_call_frame:
  assumes "prepare_call rt E D a st = (Some pr, st')"
  obtains md svc args resp where "ca_method a = Some md" "md_service md = Some svc"
    "ca_request a = Some (Some args)" "ca_response a = Some resp" "p_response (pr_pending pr) = Some resp"
    "pr_body pr = args" "p_request_id (pr_pending pr) = g_request_id (snd st)"
    "frame_bytes rt (request_header (g_request_id (snd st)) svc (md_name md) args) args =
       Some (pr_varint pr @ pr_header pr @ pr_body pr)"
proof -
  obtain ch w where st: "st = (ch, w)" by (cases st)
  from assms obtain md req resp where m: "ca_method a = Some md" "ca_request a = Some req" "ca_response a = Some resp"
    by (auto simp: prepare_call_def split: option.splits)
  obtain now w1 where k: "clock_now E w = (now, w1)" by (cases "clock_now E w")
  note kf = clock_now_frame[OF k]
  from assms m k obtain args svc where s: "req = Some args" "md_service md = Some svc"
    by (auto simp: prepare_call_def st Let_def split: option.splits)
  obtain w2 where w2: "NextRequestId w1 = (g_request_id w, w2)"
    using kf by (simp add: NextRequestId_def)
  from assms m k s w2 obtain hs where hs:
    "SerializeToString rt (request_header (g_request_id w) svc (md_name md) args) = Some hs"
    by (auto simp: prepare_call_def st Let_def split: option.splits)
  obtain e st3 where en: "EnsureConnection E D md (ca_controller a) (ch, w2) = (e, st3)"
    by (cases "EnsureConnection E D md (ca_controller a) (ch, w2)")
  from assms m k s w2 hs en have "p_response (pr_pending pr) = Some resp" "pr_body pr = args" "pr_header pr = hs"
    "pr_varint pr = WriteVarint32 rt (of_nat (length hs))" "p_request_id (pr_pending pr) = g_request_id w"
    by (auto simp: prepare_call_def st Let_def split: sum.splits)
  with m s hs that show ?thesis by (simp add: frame_bytes_def st)
qed

lemma prepare_call_pending:
  assumes "prepare_call rt E D a st = (Some pr, st')"
  shows "p_request_id (pr_pending pr) = g_request_id (snd st)" "p_done (pr_pending pr) = ca_done a"
    "p_async_callback (pr_pending pr) = None" "pr_callback pr = ca_callback a"
proof -
  show "p_request_id (pr_pending pr) = g_request_id (snd st)" using prepare_call_view(2)[OF assms] by simp
  show "p_done (pr_pending pr) = ca_done a" "p_async_callback (pr_pending pr) = None" "pr_callback pr = ca_callback a"
    using assms by (auto simp: prepare_call_def Let_def split: option.splits prod.splits sum.splits)
qed

end
