(* ===== verification/Channel_Threads.thy ===== *)
theory Channel_Threads
  imports Channel_Calls
begin

section \<open>The client channel: starting and stopping its threads\<close>

text \<open>
  The model of the eight \<open>Start...Thread\<close> and \<open>Stop...Thread\<close> operations of \<open>KrpcChannel\<close> and of the whole
  destructor. Of a thread only the flag \<open>m_..._thread_started\<close> is kept. Stopping joins the thread: the
  send thread first empties its queue, for which \<open>wss\<close> gives the answers of \<open>writev\<close>, one list for each
  task, and the result is \<open>None\<close> when the thread never comes back from \<open>writev\<close>; a heartbeat in progress
  waits until its time is up. None of these operations is called from one of the threads themselves here.
\<close>

record channel_threads =
  m_send_thread_started :: bool
  m_recv_thread_started :: bool
  m_heartbeat_thread_started :: bool
  m_timeout_thread_started :: bool

definition StartSendThread :: "channel_threads \<Rightarrow> channel_threads" where
  "StartSendThread t = (if m_send_thread_started t then t else t\<lparr>m_send_thread_started := True\<rparr>)"

definition StartRecvThread :: "channel_threads \<Rightarrow> channel_threads" where
  "StartRecvThread t = (if m_recv_thread_started t then t else t\<lparr>m_recv_thread_started := True\<rparr>)"

definition StartHeartbeatThread :: "channel_threads \<Rightarrow> channel_threads" where
  "StartHeartbeatThread t = (if m_heartbeat_thread_started t then t else t\<lparr>m_heartbeat_thread_started := True\<rparr>)"

definition StartTimeoutThread :: "channel_threads \<Rightarrow> channel_threads" where
  "StartTimeoutThread t = (if m_timeout_thread_started t then t else t\<lparr>m_timeout_thread_started := True\<rparr>)"

text \<open>The constructor starts all four.\<close>

definition start_threads :: channel_threads where
  "start_threads = StartTimeoutThread (StartHeartbeatThread (StartRecvThread (StartSendThread
     \<lparr>m_send_thread_started = False, m_recv_thread_started = False,
      m_heartbeat_thread_started = False, m_timeout_thread_started = False\<rparr>)))"

fun send_drain :: "net_env \<Rightarrow> writev_result list list \<Rightarrow> chan_state \<Rightarrow> chan_state option" where
  "send_drain E wss st =
     (if m_send_queue (fst st) = [] then Some st
      else (case wss of
              [] \<Rightarrow> None
            | ws # wss' \<Rightarrow> (case SendLoop_turn E ws st of None \<Rightarrow> None | Some st' \<Rightarrow> send_drain E wss' st')))"

declare send_drain.simps [simp del]

definition StopSendThread ::
    "net_env \<Rightarrow> writev_result list list \<Rightarrow> channel_threads \<times> chan_state \<Rightarrow> (channel_threads \<times> chan_state) option" where
  "StopSendThread E wss s =
     (case s of (t, st) \<Rightarrow>
        if \<not> m_send_thread_started t then Some (t, st)
        else map_option (\<lambda>st'. (t\<lparr>m_send_thread_started := False\<rparr>, st')) (send_drain E wss st))"

definition StopTimeoutThread :: "channel_threads \<times> chan_state \<Rightarrow> channel_threads \<times> chan_state" where
  "StopTimeoutThread s =
     (case s of (t, st) \<Rightarrow> if \<not> m_timeout_thread_started t then (t, st) else (t\<lparr>m_timeout_thread_started := False\<rparr>, st))"

definition StopHeartbeatThread :: "channel_threads \<times> chan_state \<Rightarrow> channel_threads \<times> chan_state" where
  "StopHeartbeatThread s =
     (case s of (t, st) \<Rightarrow>
        if \<not> m_heartbeat_thread_started t then (t, st)
        else (t\<lparr>m_heartbeat_thread_started := False\<rparr>, snd (SendHeartbeat_finish st)))"

definition StopRecvThread :: "channel_threads \<times> chan_state \<Rightarrow> channel_threads \<times> chan_state" where
  "StopRecvThread s =
     (case s of (t, st) \<Rightarrow> if \<not> m_recv_thread_started t then (t, st) else (t\<lparr>m_recv_thread_started := False\<rparr>, st))"

definition destroy_KrpcChannel ::
    "net_env \<Rightarrow> writev_result list list \<Rightarrow> channel_threads \<times> chan_state \<Rightarrow> (channel_threads \<times> chan_state) option" where
  "destroy_KrpcChannel E wss s =
     map_option (\<lambda>s2. case StopRecvThread (StopHeartbeatThread s2) of (t, st) \<Rightarrow> (t, delete_KrpcChannel E st))
       (StopSendThread E wss (StopTimeoutThread s))"

subsection \<open>What the destructor does\<close>

lemma start_threads_all:
  "start_threads = \<lparr>m_send_thread_started = True, m_recv_thread_started = True,
     m_heartbeat_thread_started = True, m_timeout_thread_started = True\<rparr>"
  by (simp add: start_threads_def StartSendThread_def StartRecvThread_def StartHeartbeatThread_def StartTimeoutThread_def)

text \<open>The answers \<open>ws\<close> of the kernel take the whole frame of \<open>task\<close>.\<close>

definition takes_frame :: "SendTask \<Rightarrow> writev_result list \<Rightarrow> bool" where
  "takes_frame task ws \<longleftrightarrow> t_body task \<noteq> [] \<and> positive_writes ws \<and> length (task_frame task) \<le> writes_count ws"

lemma send_drain_all:
  "list_all2 takes_frame (m_send_queue ch) wss \<Longrightarrow> m_clientfd ch \<noteq> -1 \<Longrightarrow>
     send_drain E wss (ch, w) =
       Some (ch\<lparr>m_send_queue := []\<rparr>, emit (map (\<lambda>task. Bytes_sent (m_clientfd ch) (task_frame task)) (m_send_queue ch)) w)"
proof (induction "m_send_queue ch" wss arbitrary: ch w rule: list_all2_induct)
  case Nil
  then show ?case by (simp add: send_drain.simps emit_def)
next
  case (Cons task queue ws wss)
  from Cons have q: "m_send_queue ch = task # queue" and t: "takes_frame task ws" by simp_all
  let ?ch = "ch\<lparr>m_send_queue := queue\<rparr>" and ?w = "emit [Bytes_sent (m_clientfd ch) (task_frame task)] w"
  have "SendLoop_turn E ws (ch, w) = Some (?ch, ?w)"
    using SendLoop_turn_whole[OF q Cons.prems] t by (simp add: takes_frame_def task_frame_def)
  with Cons(3)[of ?ch ?w] Cons.prems q show ?case
    by (simp add: send_drain.simps[of E "ws # wss"] emit_def)
qed

lemma delete_KrpcChannel_frame:
  "m_pending_calls (fst (delete_KrpcChannel E st)) = m_pending_calls (fst st)"
  "w_effects (snd (delete_KrpcChannel E st)) = w_effects (snd st)"
  "m_clientfd (fst (delete_KrpcChannel E st)) = -1"
  by (cases st; auto simp: delete_KrpcChannel_def ReleaseConnection_def Let_def split: prod.splits)+

lemma SendHeartbeat_finish_frame:
  "m_pending_calls (fst (snd (SendHeartbeat_finish st))) = m_pending_calls (fst st)"
  "snd (snd (SendHeartbeat_finish st)) = snd st"
  by (cases st; simp add: SendHeartbeat_finish_def)+

lemma destroy_flushes:
  assumes "list_all2 takes_frame (m_send_queue ch) wss" "m_clientfd ch \<noteq> -1"
  shows "\<exists>t' st'. destroy_KrpcChannel E wss (start_threads, (ch, w)) = Some (t', st') \<and>
    w_effects (snd st') = w_effects w @ map (\<lambda>task. Bytes_sent (m_clientfd ch) (task_frame task)) (m_send_queue ch) \<and>
    m_pending_calls (fst st') = m_pending_calls ch \<and> m_clientfd (fst st') = -1"
  using send_drain_all[OF assms, of E w]
  by (simp add: destroy_KrpcChannel_def StopTimeoutThread_def StopSendThread_def StopHeartbeatThread_def
      StopRecvThread_def start_threads_all delete_KrpcChannel_frame SendHeartbeat_finish_frame case_prod_beta)
    (simp add: emit_def)

end
