(* ===== verification/Bounded_Queue.thy ===== *)
theory Bounded_Queue
  imports Krpc_Prelude
begin

section \<open>Bounded task queues\<close>

text \<open>
  The contract of the worker queues of both providers: producers block while the queue is full,
  workers block while it is empty, and tasks leave in the order they came. A schedule is a list of
  attempts, \<open>Some x\<close> of a producer that wants to put \<open>x\<close> and \<open>None\<close> of a worker; a blocked attempt has
  no effect. The theorem of the locale says that what was taken followed by what is queued is exactly
  what was accepted, in order, and that the queue never outgrows its capacity.
\<close>

fun run_queue :: "('a \<Rightarrow> 'q \<Rightarrow> 'q option) \<Rightarrow> ('q \<Rightarrow> ('a \<times> 'q) option) \<Rightarrow> 'a option list \<Rightarrow> 'q \<Rightarrow>
    'a list \<times> 'a list \<times> 'q" where
  "run_queue enq deq [] q = ([], [], q)"
| "run_queue enq deq (Some x # evs) q =
     (case enq x q of
        None \<Rightarrow> run_queue enq deq evs q
      | Some q' \<Rightarrow> (case run_queue enq deq evs q' of (acc, taken, q'') \<Rightarrow> (x # acc, taken, q'')))"
| "run_queue enq deq (None # evs) q =
     (case deq q of
        None \<Rightarrow> run_queue enq deq evs q
      | Some (x, q') \<Rightarrow> (case run_queue enq deq evs q' of (acc, taken, q'') \<Rightarrow> (acc, x # taken, q'')))"

locale bounded_queue =
  fixes enq :: "'a \<Rightarrow> 'q \<Rightarrow> 'q option"
    and deq :: "'q \<Rightarrow> ('a \<times> 'q) option"
    and items :: "'q \<Rightarrow> 'a list"
    and capacity :: "'q \<Rightarrow> nat"
    and ok :: "'q \<Rightarrow> bool"
  assumes enq_Some: "ok q \<Longrightarrow> enq x q = Some q' \<Longrightarrow>
      ok q' \<and> items q' = items q @ [x] \<and> capacity q' = capacity q"
    and enq_None: "ok q \<Longrightarrow> enq x q = None \<longleftrightarrow> capacity q \<le> length (items q)"
    and deq_Some: "ok q \<Longrightarrow> deq q = Some (x, q') \<Longrightarrow>
      ok q' \<and> items q = x # items q' \<and> capacity q' = capacity q"
    and deq_None: "ok q \<Longrightarrow> deq q = None \<longleftrightarrow> items q = []"
begin

lemma run_fifo:
  "ok q \<Longrightarrow> run_queue enq deq evs q = (acc, taken, q') \<Longrightarrow>
     ok q' \<and> items q @ acc = taken @ items q' \<and> capacity q' = capacity q"
proof (induction evs arbitrary: q acc taken)
  case Nil
  then show ?case by simp
next
  case (Cons ev evs)
  show ?case
  proof (cases ev)
    case x: (Some x)
    show ?thesis
    proof (cases "enq x q")
      case None
      with Cons x show ?thesis by simp
    next
      case (Some q1)
      with Cons.prems(2) x obtain a where r: "run_queue enq deq evs q1 = (a, taken, q')" "acc = x # a"
        by (auto split: prod.splits)
      note s = enq_Some[OF Cons.prems(1) Some]
      from Cons.IH[OF _ r(1)] s r(2) show ?thesis by auto
    qed
  next
    case ev: None
    show ?thesis
    proof (cases "deq q")
      case None
      with Cons ev show ?thesis by simp
    next
      case (Some xq)
      then obtain x q1 where d: "deq q = Some (x, q1)" by (cases xq) auto
      with Cons.prems(2) ev obtain t where r: "run_queue enq deq evs q1 = (acc, t, q')" "taken = x # t"
        by (auto split: prod.splits)
      note s = deq_Some[OF Cons.prems(1) d]
      from Cons.IH[OF _ r(1)] s r(2) show ?thesis by auto
    qed
  qed
qed

lemma run_bounded:
  "ok q \<Longrightarrow> length (items q) \<le> capacity q \<Longrightarrow> run_queue enq deq evs q = (acc, taken, q') \<Longrightarrow>
     length (items q') \<le> capacity q'"
proof (induction evs arbitrary: q acc taken)
  case Nil
  then show ?case by simp
next
  case (Cons ev evs)
  show ?case
  proof (cases ev)
    case x: (Some x)
    show ?thesis
    proof (cases "enq x q")
      case None
      with Cons x show ?thesis by simp
    next
      case (Some q1)
      with Cons.prems(3) x obtain a where r: "run_queue enq deq evs q1 = (a, taken, q')"
        by (auto split: prod.splits)
      note s = enq_Some[OF Cons.prems(1) Some]
      have "length (items q) < capacity q" using enq_None[OF Cons.prems(1), of x] Some by simp
      with Cons.IH[OF _ _ r] s show ?thesis by simp
    qed
  next
    case ev: None
    show ?thesis
    proof (cases "deq q")
      case None
      with Cons ev show ?thesis by simp
    next
      case (Some xq)
      then obtain x q1 where d: "deq q = Some (x, q1)" by (cases xq) auto
      with Cons.prems(3) ev obtain t where r: "run_queue enq deq evs q1 = (acc, t, q')"
        by (auto split: prod.splits)
      note s = deq_Some[OF Cons.prems(1) d]
      from Cons.IH[OF _ _ r] s Cons.prems(2) show ?thesis by simp
    qed
  qed
qed

text \<open>Enough workers' turns empty the queue, so a producer never waits for ever.\<close>

lemma run_drains:
  "ok q \<Longrightarrow> length (items q) \<le> n \<Longrightarrow>
     \<exists>q'. run_queue enq deq (replicate n None) q = ([], items q, q') \<and> ok q' \<and> items q' = []"
proof (induction n arbitrary: q)
  case (Suc n)
  show ?case
  proof (cases "deq q")
    case None
    with Suc.IH[of q] Suc.prems(1) deq_None[OF Suc.prems(1)] show ?thesis by auto
  next
    case (Some xq)
    then obtain x q1 where d: "deq q = Some (x, q1)" by (cases xq) auto
    note s = deq_Some[OF Suc.prems(1) d]
    with Suc.IH[of q1] Suc.prems(2) d show ?thesis by auto
  qed
qed simp

end

end
