(* ===== verification/Provider.thy ===== *)
theory Provider
  imports Framing Zk_Client Endpoint_Discovery Metrics Bounded_Queue
begin

section \<open>The server: KrpcProvider\<close>

text \<open>
  The model of \<open>Krpcprovider.h\<close> and \<open>Krpcprovider.cc\<close>. Connections, service objects, closures and
  messages are opaque; a message object is named by the task that made it. What the process does to
  the outside (bytes handed to a connection, forced closes) and to the heap (objects freed) is a
  list of effects. A service implementation is a parameter: for a method and a request it says whether
  it runs \<open>done\<close> before it returns, how the response serialises, and whether it throws. Times are
  microseconds (\<open>muduo::Timestamp\<close>), and the doubles of the idle test are exact.
\<close>

record handler_outcome =
  ho_runs_done :: bool
  ho_response :: "string option"
  ho_throws :: bool

record services =
  sv_descriptor :: "nat \<Rightarrow> string \<times> string list"
  sv_parse_request :: "nat \<Rightarrow> string \<Rightarrow> string \<Rightarrow> bool"
  sv_handle :: "nat \<Rightarrow> string \<Rightarrow> string \<Rightarrow> handler_outcome"

record ServiceInfo =
  si_service :: nat
  si_method_map :: "(string \<times> nat) list"

record RpcTask =
  rt_id :: nat
  rt_service :: nat
  rt_method :: string
  rt_request :: string
  rt_conn :: nat
  rt_request_id :: u64

record ConnectionState =
  last_activity :: int
  missed_heartbeats :: int
  conn_alive :: bool

datatype provider_effect =
    Sent_to nat string
  | Force_closed nat
  | Shut_down nat
  | Freed_request nat
  | Freed_response nat
  | Freed_done nat

record provider =
  service_map :: "(string \<times> ServiceInfo) list"
  connection_states :: "(nat \<times> ConnectionState) list"
  idle_close_threshold_ms :: int
  task_queue :: "RpcTask list"
  task_queue_capacity :: nat
  queue_warn_threshold :: nat
  queue_high_watermark :: nat
  queue_warn_active :: bool
  worker_thread_count :: int
  workers_started :: bool
  stop_workers :: bool
  next_task :: nat
  waiting_task :: "RpcTask option"
  pv_metrics :: metrics_state
  pv_effects :: "provider_effect list"

definition pv_emit :: "provider_effect list \<Rightarrow> provider \<Rightarrow> provider" where
  "pv_emit es p = p\<lparr>pv_effects := pv_effects p @ es\<rparr>"

definition new_KrpcProvider :: "metrics_state \<Rightarrow> provider" where
  "new_KrpcProvider g = \<lparr>service_map = [], connection_states = [], idle_close_threshold_ms = 0,
     task_queue = [], task_queue_capacity = 1024, queue_warn_threshold = 0, queue_high_watermark = 0,
     queue_warn_active = False, worker_thread_count = 0, workers_started = False,
     stop_workers = False, next_task = 0, waiting_task = None, pv_metrics = g, pv_effects = []\<rparr>"

subsection \<open>Registering services\<close>

fun index_methods :: "nat \<Rightarrow> string list \<Rightarrow> (string \<times> nat) list \<Rightarrow> (string \<times> nat) list" where
  "index_methods i [] m = m"
| "index_methods i (name # names) m = index_methods (Suc i) names (emplace name i m)"

definition NotifyService :: "services \<Rightarrow> nat \<Rightarrow> provider \<Rightarrow> provider" where
  "NotifyService S svc p =
     (case sv_descriptor S svc of
        (sname, methods) \<Rightarrow>
          p\<lparr>service_map := emplace sname \<lparr>si_service = svc, si_method_map = index_methods 0 methods []\<rparr>
                             (service_map p)\<rparr>)"

text \<open>The loops of \<open>Run\<close> that create the nodes in ZooKeeper. \<open>sprintf\<close> formats the port as an
  \<open>int\<close> into a buffer of 128 bytes, which has to be long enough.\<close>

definition instance_data :: "string \<Rightarrow> int \<Rightarrow> string" where
  "instance_data ip p = ip @ '':'' @ int_to_string p"

fun register_methods ::
    "'z zk_api \<Rightarrow> string \<Rightarrow> int \<Rightarrow> string \<Rightarrow> (string \<times> nat) list \<Rightarrow> 'z \<Rightarrow> exit_code + 'z" where
  "register_methods api ip p service_path [] z = Inr z"
| "register_methods api ip p service_path ((m, i) # ms) z =
     (let mpath = service_path @ ''/'' @ m; d = instance_data ip p
      in case Create api mpath None 0 False z of
           Inl e \<Rightarrow> Inl e
         | Inr z1 \<Rightarrow>
             (case Create api (mpath @ ''/'' @ d) (Some d) (length d) True z1 of
                Inl e \<Rightarrow> Inl e
              | Inr z2 \<Rightarrow> register_methods api ip p service_path ms z2))"

fun register_services ::
    "'z zk_api \<Rightarrow> string \<Rightarrow> int \<Rightarrow> (string \<times> ServiceInfo) list \<Rightarrow> 'z \<Rightarrow> exit_code + 'z" where
  "register_services api ip p [] z = Inr z"
| "register_services api ip p ((s, info) # ss) z =
     (case Create api (''/'' @ s) None 0 False z of
        Inl e \<Rightarrow> Inl e
      | Inr z1 \<Rightarrow>
          (case register_methods api ip p (''/'' @ s) (si_method_map info) z1 of
             Inl e \<Rightarrow> Inl e
           | Inr z2 \<Rightarrow> register_services api ip p ss z2))"

definition Run_register :: "'z zk_api \<Rightarrow> config_map \<Rightarrow> provider \<Rightarrow> 'z \<Rightarrow> exit_code + 'z" where
  "Run_register api cfg p z =
     register_services api (Load cfg ''rpcserverip'') (atoi (Load cfg ''rpcserverport'')) (service_map p) z"

subsection \<open>Connections\<close>

definition TouchConnection :: "int \<Rightarrow> nat \<Rightarrow> provider \<Rightarrow> provider" where
  "TouchConnection now conn p =
     (case map_of (connection_states p) conn of
        None \<Rightarrow> p
      | Some c \<Rightarrow> p\<lparr>connection_states :=
          AList.update conn (c\<lparr>last_activity := now, missed_heartbeats := 0\<rparr>) (connection_states p)\<rparr>)"

definition RegisterConnection :: "int \<Rightarrow> nat \<Rightarrow> provider \<Rightarrow> provider" where
  "RegisterConnection now conn p = p\<lparr>connection_states := AList.update conn
     \<lparr>last_activity = now, missed_heartbeats = 0, conn_alive = True\<rparr> (connection_states p)\<rparr>"

definition RemoveConnection :: "nat \<Rightarrow> provider \<Rightarrow> provider" where
  "RemoveConnection conn p = p\<lparr>connection_states := AList.delete conn (connection_states p)\<rparr>"

definition OnConnection :: "int \<Rightarrow> nat \<Rightarrow> bool \<Rightarrow> provider \<Rightarrow> provider" where
  "OnConnection now conn established p =
     (if established then RegisterConnection now conn p
      else pv_emit [Shut_down conn] (RemoveConnection conn p))"

definition ScheduleIdleScan :: "config_map \<Rightarrow> provider \<Rightarrow> provider" where
  "ScheduleIdleScan cfg p =
     (let interval = ParseConfigInt (Load cfg ''heartbeat_interval_ms'') kDefaultHeartbeatIntervalMs;
          limit = ParseConfigInt (Load cfg ''heartbeat_miss_limit'') kDefaultHeartbeatMissLimit
      in p\<lparr>idle_close_threshold_ms := interval * (limit + 1)\<rparr>)"

definition is_idle :: "int \<Rightarrow> int \<Rightarrow> ConnectionState \<Rightarrow> bool" where
  "is_idle now threshold_ms c \<longleftrightarrow> now - last_activity c \<ge> threshold_ms * 1000"

definition OnIdleScan :: "int \<Rightarrow> provider \<Rightarrow> provider" where
  "OnIdleScan now p =
     pv_emit (map (Force_closed \<circ> fst)
       (filter (\<lambda>e. is_idle now (idle_close_threshold_ms p) (snd e) \<and> conn_alive (snd e))
          (connection_states p))) p"

subsection \<open>Sending frames\<close>

definition response_header :: "u64 \<Rightarrow> string \<Rightarrow> RpcHeader" where
  "response_header rid body = Clear\<lparr>magic := kDefaultMagic, version := kDefaultVersion,
     msg_type := MSG_TYPE_RESPONSE, request_id := rid, body_size := of_nat (length body),
     compress_type := COMPRESS_NONE\<rparr>"

text \<open>\<open>SendResponseClosure::Run\<close> calls \<open>SendRpcResponse\<close> and deletes itself.\<close>

definition SendRpcResponse :: "pb_runtime \<Rightarrow> RpcTask \<Rightarrow> string option \<Rightarrow> provider \<Rightarrow> provider" where
  "SendRpcResponse rt t response_str p =
     (case response_str of
        None \<Rightarrow> pv_emit [Freed_response (rt_id t)] p
      | Some body \<Rightarrow>
          (case frame_bytes rt (response_header (rt_request_id t) body) body of
             None \<Rightarrow> p
           | Some bytes \<Rightarrow> pv_emit [Sent_to (rt_conn t) bytes, Freed_response (rt_id t)] p))"

definition SendResponseClosure_Run :: "pb_runtime \<Rightarrow> RpcTask \<Rightarrow> string option \<Rightarrow> provider \<Rightarrow> provider" where
  "SendResponseClosure_Run rt t response_str p =
     pv_emit [Freed_done (rt_id t)] (SendRpcResponse rt t response_str p)"

definition heartbeat_header :: "u32 \<Rightarrow> u64 \<Rightarrow> RpcHeader" where
  "heartbeat_header t rid = Clear\<lparr>magic := kDefaultMagic, version := kDefaultVersion, msg_type := t,
     request_id := rid, body_size := 0, compress_type := COMPRESS_NONE\<rparr>"

definition SendHeartbeatFrame :: "pb_runtime \<Rightarrow> nat \<Rightarrow> u32 \<Rightarrow> u64 \<Rightarrow> provider \<Rightarrow> provider" where
  "SendHeartbeatFrame rt conn t rid p =
     (case frame_bytes rt (heartbeat_header t rid) [] of
        None \<Rightarrow> p
      | Some bytes \<Rightarrow> pv_emit [Sent_to conn bytes] p)"

definition HandleHeartbeatFrame :: "pb_runtime \<Rightarrow> nat \<Rightarrow> RpcHeader \<Rightarrow> provider \<Rightarrow> provider" where
  "HandleHeartbeatFrame rt conn h p =
     (if msg_type h = MSG_TYPE_PING then SendHeartbeatFrame rt conn MSG_TYPE_PONG (request_id h) p else p)"

subsection \<open>Running a call\<close>

definition CallAndMeasure ::
    "pb_runtime \<Rightarrow> services \<Rightarrow> nanos \<Rightarrow> int \<Rightarrow> RpcTask \<Rightarrow> provider \<Rightarrow> bool \<times> provider" where
  "CallAndMeasure rt S now cost_ms t p =
     (let out = sv_handle S (rt_service t) (rt_method t) (rt_request t);
          p1 = (if ho_runs_done out then SendResponseClosure_Run rt t (ho_response out) p else p);
          ok = (\<not> ho_throws out);
          label = fst (sv_descriptor S (rt_service t)) @ ''.'' @ rt_method t
      in (ok, p1\<lparr>pv_metrics := RecordMetricsSampleWithLabel now label ok cost_ms (pv_metrics p1)\<rparr>))"

subsection \<open>The worker pool\<close>

definition LogQueueMetricsLocked :: "nat \<Rightarrow> provider \<Rightarrow> provider" where
  "LogQueueMetricsLocked queue_size p =
     (let p1 = (if queue_size > queue_high_watermark p then p\<lparr>queue_high_watermark := queue_size\<rparr> else p)
      in if queue_warn_threshold p1 = 0 then p1
         else if queue_size \<ge> queue_warn_threshold p1 then p1\<lparr>queue_warn_active := True\<rparr>
         else if queue_warn_active p1 \<and> queue_size \<le> queue_warn_threshold p1 div 2
         then p1\<lparr>queue_warn_active := False\<rparr>
         else p1)"

definition StartWorkerPool :: "config_map \<Rightarrow> nat \<Rightarrow> provider \<Rightarrow> provider" where
  "StartWorkerPool cfg hardware_concurrency p =
     (if workers_started p then p
      else (let default_threads = (if hardware_concurrency = 0 then 4 else int hardware_concurrency);
                t0 = ParseConfigInt (Load cfg ''provider_worker_threads'') default_threads;
                threads = (if t0 \<le> 0 then default_threads else t0);
                c0 = ParseConfigInt (Load cfg ''provider_queue_capacity'') 1024;
                capacity = nat (if c0 \<le> 0 then 1024 else c0)
            in p\<lparr>task_queue_capacity := capacity,
                 queue_warn_threshold := (if capacity > 0 then capacity * 8 div 10 else 0),
                 queue_high_watermark := 0, queue_warn_active := False,
                 worker_thread_count := threads, stop_workers := False, workers_started := True\<rparr>))"

text \<open>\<open>EnqueueTask\<close>: \<open>None\<close> while the caller waits on the condition variable.\<close>

definition EnqueueTask :: "RpcTask \<Rightarrow> provider \<Rightarrow> (bool \<times> provider) option" where
  "EnqueueTask t p =
     (if stop_workers p then Some (False, p)
      else if length (task_queue p) < task_queue_capacity p
      then (let p1 = p\<lparr>task_queue := task_queue p @ [t]\<rparr>
            in Some (True, LogQueueMetricsLocked (length (task_queue p1)) p1))
      else None)"

text \<open>The locked part of a turn of \<open>WorkerLoop\<close>: \<open>None\<close> while it waits (and when it leaves the loop).\<close>

definition worker_take :: "provider \<Rightarrow> (RpcTask \<times> provider) option" where
  "worker_take p =
     (case task_queue p of
        [] \<Rightarrow> None
      | t # queue \<Rightarrow> Some (t, LogQueueMetricsLocked (length queue) (p\<lparr>task_queue := queue\<rparr>)))"

definition worker_run :: "pb_runtime \<Rightarrow> services \<Rightarrow> nanos \<Rightarrow> int \<Rightarrow> RpcTask \<Rightarrow> provider \<Rightarrow> provider" where
  "worker_run rt S now cost_ms t p =
     (case CallAndMeasure rt S now cost_ms t p of
        (ok, p1) \<Rightarrow>
          pv_emit ((if ok then [] else [Freed_response (rt_id t), Freed_done (rt_id t)]) @ [Freed_request (rt_id t)]) p1)"

definition WorkerLoop_turn :: "pb_runtime \<Rightarrow> services \<Rightarrow> nanos \<Rightarrow> int \<Rightarrow> provider \<Rightarrow> provider option" where
  "WorkerLoop_turn rt S now cost_ms p =
     map_option (\<lambda>(t, p1). worker_run rt S now cost_ms t p1) (worker_take p)"

text \<open>The workers run until the queue is empty, then \<open>StopWorkerPool\<close> joins them and frees what a
  late producer left behind.\<close>

fun workers_finish :: "pb_runtime \<Rightarrow> services \<Rightarrow> nanos \<Rightarrow> int \<Rightarrow> nat \<Rightarrow> provider \<Rightarrow> provider" where
  "workers_finish rt S now cost_ms 0 p = p"
| "workers_finish rt S now cost_ms (Suc n) p =
     (case WorkerLoop_turn rt S now cost_ms p of None \<Rightarrow> p | Some p' \<Rightarrow> workers_finish rt S now cost_ms n p')"

definition StopWorkerPool :: "pb_runtime \<Rightarrow> services \<Rightarrow> nanos \<Rightarrow> int \<Rightarrow> provider \<Rightarrow> provider" where
  "StopWorkerPool rt S now cost_ms p =
     (if \<not> workers_started p then p
      else (let p1 = workers_finish rt S now cost_ms (length (task_queue p)) (p\<lparr>stop_workers := True\<rparr>);
                left = task_queue p1
            in pv_emit (concat (map (\<lambda>t. [Freed_request (rt_id t), Freed_response (rt_id t), Freed_done (rt_id t)]) left))
                 (p1\<lparr>workers_started := False, task_queue := []\<rparr>)))"

subsection \<open>Incoming messages\<close>

definition submit_task :: "pb_runtime \<Rightarrow> services \<Rightarrow> nanos \<Rightarrow> int \<Rightarrow> RpcTask \<Rightarrow> provider \<Rightarrow> provider \<times> bool" where
  "submit_task rt S now cost_ms t p =
     (case EnqueueTask t p of
        None \<Rightarrow> (p\<lparr>waiting_task := Some t\<rparr>, False)
      | Some (True, p1) \<Rightarrow> (p1, True)
      | Some (False, p1) \<Rightarrow>
          (case CallAndMeasure rt S now cost_ms t p1 of
             (ok, p2) \<Rightarrow> (pv_emit [Freed_request (rt_id t)] p2, True)))"

text \<open>The part of the loop of \<open>OnMessage\<close> behind \<open>buffer->retrieve\<close>. \<open>False\<close>: the loop ends, because
  the connection is closed or because the thread waits in \<open>EnqueueTask\<close>.\<close>

definition OnMessage_frame ::
    "pb_runtime \<Rightarrow> services \<Rightarrow> nanos \<Rightarrow> int \<Rightarrow> int \<Rightarrow> nat \<Rightarrow> rpc_frame \<Rightarrow> provider \<Rightarrow> provider \<times> bool" where
  "OnMessage_frame rt S now ts cost_ms conn f p0 =
     (case f of (h, args_str) \<Rightarrow>
        (let p = TouchConnection ts conn p0
         in if msg_type h = MSG_TYPE_PING \<or> msg_type h = MSG_TYPE_PONG
            then (HandleHeartbeatFrame rt conn h p, True)
            else if msg_type h \<noteq> MSG_TYPE_REQUEST then (pv_emit [Force_closed conn] p, False)
            else (case map_of (service_map p) (service_name h) of
                    None \<Rightarrow> (p, True)
                  | Some info \<Rightarrow>
                      (case map_of (si_method_map info) (method_name h) of
                         None \<Rightarrow> (p, True)
                       | Some md \<Rightarrow>
                           if \<not> sv_parse_request S (si_service info) (method_name h) args_str then (p, True)
                           else submit_task rt S now cost_ms
                                  \<lparr>rt_id = next_task p, rt_service = si_service info,
                                   rt_method = method_name h, rt_request = args_str, rt_conn = conn,
                                   rt_request_id = request_id h\<rparr>
                                  (p\<lparr>next_task := Suc (next_task p)\<rparr>)))))"

definition OnMessage ::
    "pb_runtime \<Rightarrow> services \<Rightarrow> nanos \<Rightarrow> int \<Rightarrow> int \<Rightarrow> nat \<Rightarrow> string \<Rightarrow> provider \<Rightarrow> string \<times> provider" where
  "OnMessage rt S now ts cost_ms conn buf p =
     (case consume (provider_next_frame rt) (OnMessage_frame rt S now ts cost_ms conn) buf p of
        (Broken why, buf', p') \<Rightarrow> (buf', pv_emit [Force_closed conn] p')
      | (_, buf', p') \<Rightarrow> (buf', p'))"

subsection \<open>The queue\<close>

lemma LogQueueMetricsLocked_frame [simp]:
  "task_queue (LogQueueMetricsLocked n p) = task_queue p"
  "task_queue_capacity (LogQueueMetricsLocked n p) = task_queue_capacity p"
  "stop_workers (LogQueueMetricsLocked n p) = stop_workers p"
  "pv_effects (LogQueueMetricsLocked n p) = pv_effects p"
  "service_map (LogQueueMetricsLocked n p) = service_map p"
  "connection_states (LogQueueMetricsLocked n p) = connection_states p"
  "queue_warn_threshold (LogQueueMetricsLocked n p) = queue_warn_threshold p"
  "workers_started (LogQueueMetricsLocked n p) = workers_started p"
  "queue_high_watermark (LogQueueMetricsLocked n p) = max (queue_high_watermark p) n"
  by (auto simp: LogQueueMetricsLocked_def Let_def max_def)

definition provider_enq :: "RpcTask \<Rightarrow> provider \<Rightarrow> provider option" where
  "provider_enq t p = (case EnqueueTask t p of Some (True, p') \<Rightarrow> Some p' | _ \<Rightarrow> None)"

interpretation provider_queue: bounded_queue provider_enq worker_take task_queue task_queue_capacity
  "\<lambda>p. \<not> stop_workers p"
  by unfold_locales
    (auto simp: provider_enq_def EnqueueTask_def worker_take_def Let_def split: if_splits list.splits)

text \<open>The high watermark is the largest queue since the pool started and stays within the capacity.\<close>

definition watermark_ok :: "provider \<Rightarrow> bool" where
  "watermark_ok p \<longleftrightarrow> length (task_queue p) \<le> queue_high_watermark p \<and>
     queue_high_watermark p \<le> task_queue_capacity p"

lemma watermark_ok_enq: "watermark_ok p \<Longrightarrow> provider_enq t p = Some p' \<Longrightarrow> watermark_ok p'"
  by (auto simp: watermark_ok_def provider_enq_def EnqueueTask_def Let_def split: if_splits)

lemma watermark_ok_take: "watermark_ok p \<Longrightarrow> worker_take p = Some (t, p') \<Longrightarrow> watermark_ok p'"
  by (auto simp: watermark_ok_def worker_take_def split: list.splits)

lemma watermark_ok_run:
  "watermark_ok p \<Longrightarrow> run_queue provider_enq worker_take evs p = (acc, taken, p') \<Longrightarrow> watermark_ok p'"
proof (induction evs arbitrary: p acc taken)
  case (Cons ev evs)
  show ?case
  proof (cases ev)
    case None
    with Cons show ?thesis
      by (cases "worker_take p") (auto split: prod.splits dest: watermark_ok_take)
  next
    case (Some x)
    with Cons show ?thesis
      by (cases "provider_enq x p") (auto split: prod.splits dest: watermark_ok_enq)
  qed
qed simp

lemma StartWorkerPool_ok:
  "\<not> workers_started p \<Longrightarrow> task_queue p = [] \<Longrightarrow>
     watermark_ok (StartWorkerPool cfg hw p) \<and> 0 < task_queue_capacity (StartWorkerPool cfg hw p) \<and>
     0 < worker_thread_count (StartWorkerPool cfg hw p) \<and> \<not> stop_workers (StartWorkerPool cfg hw p)"
  by (auto simp: StartWorkerPool_def Let_def watermark_ok_def)

subsection \<open>Every object is freed once\<close>

definition sends_response :: "pb_runtime \<Rightarrow> RpcTask \<Rightarrow> string option \<Rightarrow> bool" where
  "sends_response rt t r = (case r of None \<Rightarrow> True
     | Some body \<Rightarrow> frame_bytes rt (response_header (rt_request_id t) body) body \<noteq> None)"

lemma pv_emit_simps [simp]:
  "pv_effects (pv_emit es p) = pv_effects p @ es" "task_queue (pv_emit es p) = task_queue p"
  "service_map (pv_emit es p) = service_map p" "connection_states (pv_emit es p) = connection_states p"
  "stop_workers (pv_emit es p) = stop_workers p" "task_queue_capacity (pv_emit es p) = task_queue_capacity p"
  "pv_metrics (pv_emit es p) = pv_metrics p" "workers_started (pv_emit es p) = workers_started p"
  "next_task (pv_emit es p) = next_task p"
  by (simp_all add: pv_emit_def)

lemma Closure_Run_effects:
  "pv_effects (SendResponseClosure_Run rt t r p) = pv_effects p @
     (case r of None \<Rightarrow> [Freed_response (rt_id t)]
      | Some body \<Rightarrow> (case frame_bytes rt (response_header (rt_request_id t) body) body of
          None \<Rightarrow> [] | Some bytes \<Rightarrow> [Sent_to (rt_conn t) bytes, Freed_response (rt_id t)])) @
     [Freed_done (rt_id t)]"
  by (auto simp: SendResponseClosure_Run_def SendRpcResponse_def split: option.splits)

lemma Closure_Run_frame [simp]:
  "task_queue (SendResponseClosure_Run rt t r p) = task_queue p"
  "stop_workers (SendResponseClosure_Run rt t r p) = stop_workers p"
  by (auto simp: SendResponseClosure_Run_def SendRpcResponse_def split: option.splits)

lemma worker_run_effects:
  "pv_effects (worker_run rt S now c t p) = pv_effects p @
     (let out = sv_handle S (rt_service t) (rt_method t) (rt_request t) in
      (if ho_runs_done out
       then (case ho_response out of None \<Rightarrow> [Freed_response (rt_id t)]
         | Some body \<Rightarrow> (case frame_bytes rt (response_header (rt_request_id t) body) body of
             None \<Rightarrow> [] | Some bytes \<Rightarrow> [Sent_to (rt_conn t) bytes, Freed_response (rt_id t)])) @
           [Freed_done (rt_id t)]
       else []) @
      (if ho_throws out then [Freed_response (rt_id t), Freed_done (rt_id t)] else []) @
      [Freed_request (rt_id t)])"
  by (simp add: worker_run_def CallAndMeasure_def Let_def Closure_Run_effects)

lemma worker_run_frame [simp]:
  "task_queue (worker_run rt S now c t p) = task_queue p"
  "stop_workers (worker_run rt S now c t p) = stop_workers p"
  by (simp_all add: worker_run_def CallAndMeasure_def Let_def)

lemma count_list_append [simp]: "count_list (xs @ ys) x = count_list xs x + count_list ys x"
  by (induction xs) auto

lemma worker_run_frees:
  fixes t :: RpcTask and S :: services
  defines "out \<equiv> sv_handle S (rt_service t) (rt_method t) (rt_request t)"
  assumes "sends_response rt t (ho_response out)"
  shows "count_list (pv_effects (worker_run rt S now c t p)) (Freed_request (rt_id t)) =
      count_list (pv_effects p) (Freed_request (rt_id t)) + 1"
    "count_list (pv_effects (worker_run rt S now c t p)) (Freed_response (rt_id t)) =
      count_list (pv_effects p) (Freed_response (rt_id t)) +
      (if ho_runs_done out then 1 else 0) + (if ho_throws out then 1 else 0)"
    "count_list (pv_effects (worker_run rt S now c t p)) (Freed_done (rt_id t)) =
      count_list (pv_effects p) (Freed_done (rt_id t)) +
      (if ho_runs_done out then 1 else 0) + (if ho_throws out then 1 else 0)"
  using assms(2) unfolding worker_run_effects Let_def out_def[symmetric]
  by (auto simp: sends_response_def split: option.splits)

subsection \<open>Connections\<close>

lemma TouchConnection_frame [simp]:
  "pv_effects (TouchConnection ts conn p) = pv_effects p" "task_queue (TouchConnection ts conn p) = task_queue p"
  "service_map (TouchConnection ts conn p) = service_map p"
  "stop_workers (TouchConnection ts conn p) = stop_workers p"
  "next_task (TouchConnection ts conn p) = next_task p"
  "task_queue_capacity (TouchConnection ts conn p) = task_queue_capacity p"
  "idle_close_threshold_ms (TouchConnection ts conn p) = idle_close_threshold_ms p"
  by (auto simp: TouchConnection_def split: option.splits)

lemma TouchConnection_last:
  "map_of (connection_states p) conn = Some c \<Longrightarrow>
     map_of (connection_states (TouchConnection ts conn p)) conn = Some (c\<lparr>last_activity := ts, missed_heartbeats := 0\<rparr>)"
  by (simp add: TouchConnection_def AList.update_conv')

definition closed_by_scan :: "int \<Rightarrow> provider \<Rightarrow> nat set" where
  "closed_by_scan now p = {conn. Force_closed conn \<in> set (drop (length (pv_effects p)) (pv_effects (OnIdleScan now p)))}"

lemma closed_by_scan_iff:
  "wf_map (connection_states p) \<Longrightarrow> conn \<in> closed_by_scan now p \<longleftrightarrow>
     (\<exists>c. map_of (connection_states p) conn = Some c \<and> conn_alive c \<and>
       idle_close_threshold_ms p * 1000 \<le> now - last_activity c)"
proof -
  assume wf: "wf_map (connection_states p)"
  have "conn \<in> closed_by_scan now p \<longleftrightarrow> (\<exists>c. (conn, c) \<in> set (connection_states p) \<and>
      is_idle now (idle_close_threshold_ms p) c \<and> conn_alive c)"
    by (force simp: closed_by_scan_def OnIdleScan_def)
  then show ?thesis by (auto simp: in_set_wf_map[OF wf] is_idle_def)
qed

subsection \<open>Incoming frames\<close>

lemma OnMessage_refused:
  assumes "rt_ok rt" "header_fits rt h body" "frame_bytes rt h body = Some w"
    "magic h \<noteq> kDefaultMagic \<or> version h \<noteq> kDefaultVersion"
  shows "OnMessage rt S now ts c conn (w @ later) p = (w @ later, pv_emit [Force_closed conn] p)"
proof -
  obtain why where "provider_next_frame rt (w @ later) = Bad why"
    using provider_next_frame_refused(1,2)[OF assms(1-3), of later] assms(4) by blast
  with provider_next_frame_refused(3)[OF assms(1-3)] show ?thesis
    by (simp add: OnMessage_def provider_frames.consume_bad[OF assms(1)])
qed

lemma OnMessage_one:
  assumes "rt_ok rt" "header_fits rt h body" "frame_bytes rt h body = Some w"
    "magic h = kDefaultMagic" "version h = kDefaultVersion"
    "OnMessage_frame rt S now ts c conn (h, body) p = (p', b)"
  shows "OnMessage rt S now ts c conn (w @ later) p = (if b then OnMessage rt S now ts c conn later p' else (later, p'))"
  unfolding OnMessage_def provider_frames.consume_got[OF assms(1) provider_next_frame_frame_bytes[OF assms(1-5)]]
  using assms(6) by simp

lemma OnMessage_Nil [simp]: "OnMessage rt S now ts c conn [] p = ([], p)"
  by (simp add: OnMessage_def)

text \<open>A request for a known method whose arguments parse becomes one task at the end of the queue.\<close>

lemma OnMessage_frame_request:
  assumes "msg_type h = MSG_TYPE_REQUEST" "map_of (service_map p) (service_name h) = Some info"
    "map_of (si_method_map info) (method_name h) = Some i"
    "sv_parse_request S (si_service info) (method_name h) args"
    "\<not> stop_workers p" "length (task_queue p) < task_queue_capacity p"
  shows "\<exists>p'. OnMessage_frame rt S now ts c conn (h, args) p = (p', True) \<and>
    task_queue p' = task_queue p @ [\<lparr>rt_id = next_task p, rt_service = si_service info,
      rt_method = method_name h, rt_request = args, rt_conn = conn, rt_request_id = request_id h\<rparr>] \<and>
    pv_effects p' = pv_effects p"
  using assms
  by (simp add: OnMessage_frame_def Let_def msg_type_defs submit_task_def EnqueueTask_def)

lemma StopWorkerPool_empty:
  "workers_started p \<Longrightarrow> task_queue (StopWorkerPool rt S now c p) = [] \<and>
     \<not> workers_started (StopWorkerPool rt S now c p)"
  by (simp add: StopWorkerPool_def Let_def)

text \<open>\<open>StopWorkerPool\<close> runs every queued task; none is left to be thrown away.\<close>

lemma workers_finish_all:
  "length (task_queue p) \<le> n \<Longrightarrow> task_queue (workers_finish rt S now c n p) = []"
proof (induction n arbitrary: p)
  case (Suc n)
  show ?case
  proof (cases "task_queue p")
    case Nil
    then show ?thesis by (simp add: WorkerLoop_turn_def worker_take_def)
  next
    case (Cons t ts)
    then have "worker_take p = Some (t, LogQueueMetricsLocked (length ts) (p\<lparr>task_queue := ts\<rparr>))"
      by (simp add: worker_take_def)
    with Suc Cons show ?thesis by (simp add: WorkerLoop_turn_def)
  qed
qed simp

fun run_all :: "pb_runtime \<Rightarrow> services \<Rightarrow> nanos \<Rightarrow> int \<Rightarrow> RpcTask list \<Rightarrow> provider_effect list" where
  "run_all rt S now c [] = []"
| "run_all rt S now c (t # ts) =
     pv_effects (worker_run rt S now c t (new_KrpcProvider \<lparr>g_metrics = new_MetricsAggregator 0, g_labeled_metrics = []\<rparr>))
       @ run_all rt S now c ts"

lemma new_KrpcProvider_effects [simp]: "pv_effects (new_KrpcProvider g) = []"
  by (simp add: new_KrpcProvider_def)

lemma workers_finish_effects:
  "length (task_queue p) \<le> n \<Longrightarrow>
     pv_effects (workers_finish rt S now c n p) = pv_effects p @ run_all rt S now c (task_queue p)"
proof (induction n arbitrary: p)
  case (Suc n)
  show ?case
  proof (cases "task_queue p")
    case Nil
    then show ?thesis by (simp add: WorkerLoop_turn_def worker_take_def)
  next
    case (Cons t ts)
    then have w: "worker_take p = Some (t, LogQueueMetricsLocked (length ts) (p\<lparr>task_queue := ts\<rparr>))"
      by (simp add: worker_take_def)
    let ?p1 = "worker_run rt S now c t (LogQueueMetricsLocked (length ts) (p\<lparr>task_queue := ts\<rparr>))"
    have "pv_effects (workers_finish rt S now c (Suc n) p) = pv_effects ?p1 @ run_all rt S now c ts"
      using Suc.IH[of ?p1] Suc.prems Cons w by (simp add: WorkerLoop_turn_def)
    with Cons show ?thesis by (simp add: worker_run_effects)
  qed
qed simp

lemma StopWorkerPool_effects:
  "workers_started p \<Longrightarrow>
     pv_effects (StopWorkerPool rt S now c p) = pv_effects p @ run_all rt S now c (task_queue p)"
  using workers_finish_all[of "p\<lparr>stop_workers := True\<rparr>" "length (task_queue p)" rt S now c]
    workers_finish_effects[of "p\<lparr>stop_workers := True\<rparr>" "length (task_queue p)" rt S now c]
  by (simp add: StopWorkerPool_def Let_def)

subsection \<open>Registration\<close>

lemma Create_dom:
  assumes "zk_ok api view" "Create api path data n e z = Inr z'"
  shows "dom (view z') = insert path (dom (view z))"
  using Create_view[OF assms] by auto

lemma register_methods_view:
  assumes "zk_ok api view"
  shows "register_methods api ip p sp ms z = Inr z' \<Longrightarrow> dom (view z) \<subseteq> dom (view z')"
    "register_methods api ip p sp ms z = Inr z' \<Longrightarrow> (m, i) \<in> set ms \<Longrightarrow>
       sp @ ''/'' @ m @ ''/'' @ instance_data ip p \<in> dom (view z')"
proof (induction ms arbitrary: z)
  case Nil
  {
    case 1
    then show ?case by simp
  next
    case 2
    then show ?case by simp
  }
next
  case (Cons mi ms)
  obtain n j where mi: "mi = (n, j)" by (cases mi)
  let ?mp = "sp @ ''/'' @ n" and ?d = "instance_data ip p"
  have steps: "\<exists>z1 z2. Create api ?mp None 0 False z = Inr z1 \<and>
      Create api (?mp @ ''/'' @ ?d) (Some ?d) (length ?d) True z1 = Inr z2 \<and>
      register_methods api ip p sp ms z2 = Inr z'" if "register_methods api ip p sp (mi # ms) z = Inr z'" for z
    using that by (auto simp: mi Let_def split: sum.splits)
  {
    case 1
    from steps[OF this] obtain z1 z2 where s: "Create api ?mp None 0 False z = Inr z1"
      "Create api (?mp @ ''/'' @ ?d) (Some ?d) (length ?d) True z1 = Inr z2"
      "register_methods api ip p sp ms z2 = Inr z'" by blast
    from Create_dom[OF assms s(1)] Create_dom[OF assms s(2)] Cons.IH(1)[OF s(3)] show ?case by auto
  next
    case 2
    from steps[OF 2(1)] obtain z1 z2 where s: "Create api ?mp None 0 False z = Inr z1"
      "Create api (?mp @ ''/'' @ ?d) (Some ?d) (length ?d) True z1 = Inr z2"
      "register_methods api ip p sp ms z2 = Inr z'" by blast
    from Create_dom[OF assms s(2)] have "?mp @ ''/'' @ ?d \<in> dom (view z2)" by simp
    with Cons.IH(1)[OF s(3)] Cons.IH(2)[OF s(3)] 2(2) mi show ?case by auto
  }
qed

lemma register_services_view:
  assumes "zk_ok api view"
  shows "register_services api ip p ss z = Inr z' \<Longrightarrow> dom (view z) \<subseteq> dom (view z')"
    "register_services api ip p ss z = Inr z' \<Longrightarrow> (s, info) \<in> set ss \<Longrightarrow> (m, i) \<in> set (si_method_map info) \<Longrightarrow>
       ''/'' @ s @ ''/'' @ m @ ''/'' @ instance_data ip p \<in> dom (view z')"
proof (induction ss arbitrary: z)
  case Nil
  {
    case 1
    then show ?case by simp
  next
    case 2
    then show ?case by simp
  }
next
  case (Cons si ss)
  obtain n inf where si: "si = (n, inf)" by (cases si)
  have steps: "\<exists>z1 z2. Create api (''/'' @ n) None 0 False z = Inr z1 \<and>
      register_methods api ip p (''/'' @ n) (si_method_map inf) z1 = Inr z2 \<and>
      register_services api ip p ss z2 = Inr z'" if "register_services api ip p (si # ss) z = Inr z'" for z
    using that by (auto simp: si split: sum.splits)
  {
    case 1
    from steps[OF this] obtain z1 z2 where s: "Create api (''/'' @ n) None 0 False z = Inr z1"
      "register_methods api ip p (''/'' @ n) (si_method_map inf) z1 = Inr z2"
      "register_services api ip p ss z2 = Inr z'" by blast
    from Create_dom[OF assms s(1)] register_methods_view(1)[OF assms s(2)] Cons.IH(1)[OF s(3)]
    show ?case by blast
  next
    case 2
    from steps[OF 2(1)] obtain z1 z2 where s: "Create api (''/'' @ n) None 0 False z = Inr z1"
      "register_methods api ip p (''/'' @ n) (si_method_map inf) z1 = Inr z2"
      "register_services api ip p ss z2 = Inr z'" by blast
    have "''/'' @ s @ ''/'' @ m @ ''/'' @ instance_data ip p \<in> dom (view z2)" if "si = (s, info)"
      using register_methods_view(2)[OF assms s(2), of m i] 2(3) that si by auto
    with Cons.IH(1)[OF s(3)] Cons.IH(2)[OF s(3) _ 2(3)] 2(2) show ?case by auto
  }
qed

end
