(* ===== verification/Metrics_Http.thy ===== *)
theory Metrics_Http
  imports Metrics Connection_Pool
begin

section \<open>The metrics HTTP endpoint\<close>

text \<open>
  The model of \<open>metrics_http_server.cc\<close>. What \<open>bind\<close>, \<open>listen\<close>, \<open>poll\<close> and \<open>accept\<close> answer is given as
  arguments; descriptors come from the operating system state of the theory \<open>Connection_Pool\<close>.
  A running server is its thread, which owns the listening descriptor.
\<close>

definition crlf :: string where "crlf = [CHR 0x0D, CHR 0x0A]"

definition BuildHttpResponse :: "string \<Rightarrow> string" where
  "BuildHttpResponse body =
     ''HTTP/1.1 200 OK'' @ crlf @
     ''Content-Type: text/plain; charset=utf-8'' @ crlf @
     ''Content-Length: '' @ nat_to_string (length body) @ crlf @
     ''Connection: close'' @ crlf @ crlf @
     body"

text \<open>\<open>HandleClient\<close>: the request is read and ignored; the result is what is sent.\<close>

definition HandleClient ::
    "(rat \<Rightarrow> string) \<Rightarrow> nanos \<Rightarrow> metrics_state \<Rightarrow> string \<times> metrics_state" where
  "HandleClient show_double now g =
     (case RenderMetricsPrometheus show_double now g of
        (body, g') \<Rightarrow>
          (BuildHttpResponse (if body = [] then ''# no metrics yet'' @ nl else body), g'))"

record listen_env =
  le_socket_ok :: bool
  le_bind_ok :: bool
  le_listen_ok :: bool

definition CreateListenFd :: "listen_env \<Rightarrow> os \<Rightarrow> fd \<times> os" where
  "CreateListenFd E s =
     (if \<not> le_socket_ok E then (-1, s)
      else (let f = fresh_fd (os_open s); s1 = s\<lparr>os_open := f # os_open s\<rparr>
            in if \<not> le_bind_ok E then (-1, os_close f s1)
               else if \<not> le_listen_ok E then (-1, os_close f s1)
               else (f, s1)))"

record http_server =
  running :: bool
  thread_fd :: "fd option"

definition http_server0 :: http_server where
  "http_server0 = \<lparr>running = False, thread_fd = None\<rparr>"

definition StartMetricsHttpServer ::
    "listen_env \<Rightarrow> http_server \<times> os \<Rightarrow> bool \<times> http_server \<times> os" where
  "StartMetricsHttpServer E st =
     (case st of (h, s) \<Rightarrow>
        if running h then (True, h, s)
        else (case CreateListenFd E s of
                (f, s1) \<Rightarrow>
                  if f < 0 then (False, h, s1)
                  else (True, h\<lparr>running := True, thread_fd := Some f\<rparr>, s1)))"

text \<open>One turn of \<open>Serve\<close> while the server runs: what \<open>poll\<close> and \<open>accept\<close> report, the answer that a
  client gets, and the client descriptor closed again.\<close>

definition Serve_turn ::
    "(rat \<Rightarrow> string) \<Rightarrow> nanos \<Rightarrow> int \<Rightarrow> bool \<Rightarrow> metrics_state \<times> os \<Rightarrow> string option \<times> metrics_state \<times> os" where
  "Serve_turn show_double now rc accept_ok st =
     (case st of (g, s) \<Rightarrow>
        if rc \<le> 0 \<or> \<not> accept_ok then (None, g, s)
        else (let cfd = fresh_fd (os_open s); s1 = s\<lparr>os_open := cfd # os_open s\<rparr>
              in case HandleClient show_double now g of
                   (resp, g') \<Rightarrow> (Some resp, g', os_close cfd s1)))"

text \<open>\<open>Stop\<close>: the thread leaves its loop, closes the listening descriptor and is joined.\<close>

definition StopMetricsHttpServer :: "http_server \<times> os \<Rightarrow> http_server \<times> os" where
  "StopMetricsHttpServer st =
     (case st of (h, s) \<Rightarrow>
        (case thread_fd h of
           None \<Rightarrow> (h\<lparr>running := False\<rparr>, s)
         | Some f \<Rightarrow> (h\<lparr>running := False, thread_fd := None\<rparr>, os_close f s)))"

subsection \<open>Lemmas\<close>

definition http_ok :: "http_server \<times> os \<Rightarrow> bool" where
  "http_ok st = (case st of (h, s) \<Rightarrow>
     (running h \<longleftrightarrow> thread_fd h \<noteq> None) \<and> distinct (os_open s) \<and>
     (\<forall>f. thread_fd h = Some f \<longrightarrow> f \<in> set (os_open s)))"

lemma CreateListenFd_cases:
  "CreateListenFd E s = (f, s') \<Longrightarrow>
     f = -1 \<and> set (os_open s') = set (os_open s) \<and> (distinct (os_open s) \<longrightarrow> distinct (os_open s')) \<or>
     0 \<le> f \<and> f \<notin> set (os_open s) \<and> os_open s' = f # os_open s"
  using fresh_fd_new[of "os_open s"] fresh_fd_nonneg[of "os_open s"]
  by (auto simp: CreateListenFd_def Let_def os_close_def split: if_splits)

lemma http_ok_Start:
  assumes "http_ok (h, s)" "StartMetricsHttpServer E (h, s) = (b, st')"
  shows "http_ok st' \<and> (b \<longrightarrow> running (fst st'))"
proof (cases "running h")
  case True
  with assms show ?thesis by (auto simp: StartMetricsHttpServer_def)
next
  case False
  obtain f s1 where c: "CreateListenFd E s = (f, s1)" by (cases "CreateListenFd E s")
  from False assms(1) have t: "thread_fd h = None" by (auto simp: http_ok_def)
  have st: "(b, st') = (if f < 0 then (False, h, s1) else (True, h\<lparr>running := True, thread_fd := Some f\<rparr>, s1))"
    using assms(2) False c by (simp add: StartMetricsHttpServer_def)
  from CreateListenFd_cases[OF c] consider "f = -1" "set (os_open s1) = set (os_open s)"
      "distinct (os_open s1)" | "0 \<le> f" "f \<notin> set (os_open s)" "os_open s1 = f # os_open s"
    using assms(1) by (fastforce simp: http_ok_def)
  then show ?thesis
  proof cases
    case 1
    with st False t show ?thesis by (simp add: http_ok_def)
  next
    case 2
    with st assms(1) show ?thesis by (simp add: http_ok_def)
  qed
qed

lemma http_ok_Stop:
  "http_ok st \<Longrightarrow> http_ok (StopMetricsHttpServer st) \<and> \<not> running (fst (StopMetricsHttpServer st))"
  by (auto simp: http_ok_def StopMetricsHttpServer_def os_close_def split: prod.splits option.splits)

end
