(* ===== verification/Provider_Server.thy ===== *)
theory Provider_Server
  imports Provider Metrics_Http
begin

section \<open>The server as a whole: \<open>Run\<close> and the interleaving of its threads\<close>

text \<open>
  The model of \<open>KrpcProvider::Run\<close> and of what happens while it is in the event loop. The I/O threads of
  the network library append to the buffer of a connection and run the callback, the workers take and run
  tasks, the timer scans for idle connections, and \<open>Run\<close> ends with \<open>StopWorkerPool\<close>. An I/O thread that
  finds the queue full waits inside \<open>EnqueueTask\<close>; its connection receives nothing until it goes on.
  \<open>server_step\<close> interleaves all of them. The lemmas show that each object of a task is freed exactly once
  when it leaves the server, and that no task is ever stuck.
\<close>

subsection \<open>Run up to the event loop\<close>

record run_env =
  re_zk_init :: bool
  re_zk_events :: "zk_event list"
  re_listen :: "int \<Rightarrow> listen_env"
  re_cores :: nat

definition start_metrics_http :: "config_map \<Rightarrow> (int \<Rightarrow> listen_env) \<Rightarrow> http_server \<times> os \<Rightarrow> http_server \<times> os" where
  "start_metrics_http cfg L hs =
     (let metrics_enabled = (ParseConfigInt (Load cfg ''metrics_http_enabled'') 0 \<noteq> 0);
          metrics_port = ParseConfigInt (Load cfg ''metrics_http_port'') 0
      in if metrics_enabled \<and> metrics_port > 0 then snd (StartMetricsHttpServer (L metrics_port) hs) else hs)"

text \<open>\<open>None\<close> while the ZooKeeper session is not connected, \<open>Inl\<close> when the process exits.\<close>

definition Run_start ::
    "'z zk_api \<Rightarrow> config_map \<Rightarrow> run_env \<Rightarrow> provider \<times> 'z \<times> http_server \<times> os \<Rightarrow>
     (exit_code + provider \<times> 'z \<times> http_server \<times> os) option" where
  "Run_start api cfg env st =
     (case st of (p, z, hs) \<Rightarrow>
        map_option (\<lambda>started. case started of
            Inl e \<Rightarrow> Inl e
          | Inr c \<Rightarrow>
              (case Run_register api cfg p z of
                 Inl e \<Rightarrow> Inl e
               | Inr z' \<Rightarrow>
                   (let hs' = start_metrics_http cfg (re_listen env) hs
                    in Inr (StartWorkerPool cfg (re_cores env) (ScheduleIdleScan cfg p), z', hs'))))
          (Start (re_zk_init env) (re_zk_events env) new_ZkClient))"

subsection \<open>The event loop and the workers\<close>

record server =
  srv_provider :: provider
  srv_buffers :: "nat \<Rightarrow> string"
  srv_waiting :: "(nat \<times> RpcTask) list"
  srv_running :: "RpcTask list"

definition new_server :: "provider \<Rightarrow> server" where
  "new_server p = \<lparr>srv_provider = p, srv_buffers = (\<lambda>_. []), srv_waiting = [], srv_running = []\<rparr>"

text \<open>The I/O thread of \<open>conn\<close> leaves the body of its loop in the state \<open>p\<close>.\<close>

definition settle :: "nat \<Rightarrow> string \<Rightarrow> provider \<Rightarrow> server \<Rightarrow> server" where
  "settle conn buf p s =
     s\<lparr>srv_provider := p\<lparr>waiting_task := None\<rparr>, srv_buffers := (srv_buffers s)(conn := buf),
       srv_waiting := srv_waiting s @ (case waiting_task p of None \<Rightarrow> [] | Some t \<Rightarrow> [(conn, t)])\<rparr>"

inductive server_step :: "pb_runtime \<Rightarrow> services \<Rightarrow> server \<Rightarrow> server \<Rightarrow> bool" for rt S where
  receive: "conn \<notin> fst ` set (srv_waiting s) \<Longrightarrow>
    server_step rt S s (s\<lparr>srv_buffers := (srv_buffers s)(conn := srv_buffers s conn @ bytes)\<rparr>)"
| frame: "conn \<notin> fst ` set (srv_waiting s) \<Longrightarrow> provider_next_frame rt (srv_buffers s conn) = Got f n \<Longrightarrow>
    OnMessage_frame rt S now ts c conn f (srv_provider s) = (p', go_on) \<Longrightarrow>
    server_step rt S s (settle conn (drop n (srv_buffers s conn)) p' s)"
| refuse: "conn \<notin> fst ` set (srv_waiting s) \<Longrightarrow> provider_next_frame rt (srv_buffers s conn) = Bad why \<Longrightarrow>
    server_step rt S s (s\<lparr>srv_provider := pv_emit [Force_closed conn] (srv_provider s)\<rparr>)"
| resume: "(conn, t) \<in> set (srv_waiting s) \<Longrightarrow> submit_task rt S now c t (srv_provider s) = (p', True) \<Longrightarrow>
    server_step rt S s (s\<lparr>srv_provider := p', srv_waiting := remove1 (conn, t) (srv_waiting s)\<rparr>)"
| take: "worker_take (srv_provider s) = Some (t, p') \<Longrightarrow>
    int (length (srv_running s)) < worker_thread_count (srv_provider s) \<Longrightarrow>
    server_step rt S s (s\<lparr>srv_provider := p', srv_running := srv_running s @ [t]\<rparr>)"
| run: "t \<in> set (srv_running s) \<Longrightarrow>
    server_step rt S s (s\<lparr>srv_provider := worker_run rt S now c t (srv_provider s),
      srv_running := remove1 t (srv_running s)\<rparr>)"
| connection: "server_step rt S s (s\<lparr>srv_provider := OnConnection ts conn established (srv_provider s)\<rparr>)"
| idle_scan: "server_step rt S s (s\<lparr>srv_provider := OnIdleScan ts (srv_provider s)\<rparr>)"
| stop: "workers_started (srv_provider s) \<Longrightarrow>
    server_step rt S s (s\<lparr>srv_provider := (srv_provider s)\<lparr>stop_workers := True\<rparr>\<rparr>)"
| joined: "stop_workers (srv_provider s) \<Longrightarrow> task_queue (srv_provider s) = [] \<Longrightarrow> srv_running s = [] \<Longrightarrow>
    server_step rt S s (s\<lparr>srv_provider := StopWorkerPool rt S now c (srv_provider s)\<rparr>)"

inductive_cases server_stepE: "server_step rt S s s'"

subsection \<open>The objects of the tasks\<close>

text \<open>The ids of the tasks that the server holds, and the effects that free the objects of task \<open>i\<close>.\<close>

definition live :: "server \<Rightarrow> nat list" where
  "live s = map rt_id (task_queue (srv_provider s)) @ map (rt_id \<circ> snd) (srv_waiting s) @ map rt_id (srv_running s)"

definition frees :: "nat \<Rightarrow> provider_effect list" where
  "frees i = [Freed_request i, Freed_response i, Freed_done i]"

definition freed_ok :: "nat \<Rightarrow> nat list \<Rightarrow> provider_effect list \<Rightarrow> bool" where
  "freed_ok n ids es \<longleftrightarrow> distinct ids \<and> (\<forall>i \<in> set ids. i < n) \<and>
     (\<forall>i. \<forall>e \<in> set (frees i). count_list es e = (if i < n \<and> i \<notin> set ids then 1 else 0))"

text \<open>What the effects of a step free: nothing, or the objects of one task, once each.\<close>

definition frees_only :: "nat set \<Rightarrow> provider_effect list \<Rightarrow> bool" where
  "frees_only I es \<longleftrightarrow> (\<forall>i. \<forall>e \<in> set (frees i). count_list es e = (if i \<in> I then 1 else 0))"

lemma freed_ok_perm:
  "freed_ok n ids es \<Longrightarrow> mset ids' = mset ids \<Longrightarrow> frees_only {} es' \<Longrightarrow> freed_ok n ids' (es @ es')"
  by (auto simp: freed_ok_def frees_only_def dest: mset_eq_setD mset_eq_imp_distinct_iff)

lemma freed_ok_new:
  "freed_ok n ids es \<Longrightarrow> mset ids' = add_mset n (mset ids) \<Longrightarrow> freed_ok (Suc n) ids' es"
proof -
  assume ok: "freed_ok n ids es" and m: "mset ids' = add_mset n (mset ids)"
  from m have s: "set ids' = insert n (set ids)" by (metis set_mset_add_mset_insert set_mset_mset)
  from ok have "n \<notin> set ids" "distinct ids" by (auto simp: freed_ok_def)
  then have "distinct (n # ids)" by simp
  with m have "distinct ids'" by (metis mset.simps(2) mset_eq_imp_distinct_iff)
  with ok s show ?thesis by (auto simp: freed_ok_def)
qed

lemma freed_ok_free:
  "freed_ok n ids es \<Longrightarrow> mset ids = add_mset i (mset ids') \<Longrightarrow> frees_only {i} es' \<Longrightarrow> freed_ok n ids' (es @ es')"
proof -
  assume ok: "freed_ok n ids es" and m: "mset ids = add_mset i (mset ids')" and f: "frees_only {i} es'"
  from m have s: "set ids = insert i (set ids')" by (metis set_mset_add_mset_insert set_mset_mset)
  from ok m have "distinct (i # ids')" by (metis freed_ok_def mset.simps(2) mset_eq_imp_distinct_iff)
  with ok s f show ?thesis by (auto simp: freed_ok_def frees_only_def)
qed

lemma frees_only_empty:
  "(\<And>i. Freed_request i \<notin> set es \<and> Freed_response i \<notin> set es \<and> Freed_done i \<notin> set es) \<Longrightarrow> frees_only {} es"
  by (auto simp: frees_only_def frees_def count_list_0_iff)

subsection \<open>The effect of each operation on the objects\<close>

text \<open>A handler that keeps its contract runs its closure, does not throw, and its response can be framed.\<close>

definition good_handlers :: "pb_runtime \<Rightarrow> services \<Rightarrow> bool" where
  "good_handlers rt S \<longleftrightarrow> (\<forall>t. let out = sv_handle S (rt_service t) (rt_method t) (rt_request t) in
     ho_runs_done out \<and> \<not> ho_throws out \<and> sends_response rt t (ho_response out))"

lemma worker_run_frees_only:
  assumes "good_handlers rt S"
  shows "\<exists>es. pv_effects (worker_run rt S now c t p) = pv_effects p @ es \<and> frees_only {rt_id t} es"
proof -
  from assms have g: "ho_runs_done (sv_handle S (rt_service t) (rt_method t) (rt_request t))"
    "\<not> ho_throws (sv_handle S (rt_service t) (rt_method t) (rt_request t))"
    "sends_response rt t (ho_response (sv_handle S (rt_service t) (rt_method t) (rt_request t)))"
    by (auto simp: good_handlers_def Let_def)
  then show ?thesis
    unfolding worker_run_effects Let_def
    by (auto simp: frees_only_def frees_def sends_response_def split: option.splits)
qed

lemma frame_more [simp]:
  "next_task (LogQueueMetricsLocked n p) = next_task p" "waiting_task (LogQueueMetricsLocked n p) = waiting_task p"
  "worker_thread_count (LogQueueMetricsLocked n p) = worker_thread_count p"
  "waiting_task (TouchConnection ts conn p) = waiting_task p"
  "worker_thread_count (TouchConnection ts conn p) = worker_thread_count p"
  "waiting_task (pv_emit es p) = waiting_task p" "worker_thread_count (pv_emit es p) = worker_thread_count p"
  by (auto simp: LogQueueMetricsLocked_def Let_def TouchConnection_def pv_emit_def split: option.splits)

lemma Closure_Run_more [simp]:
  "next_task (SendResponseClosure_Run rt t r p) = next_task p"
  "waiting_task (SendResponseClosure_Run rt t r p) = waiting_task p"
  "worker_thread_count (SendResponseClosure_Run rt t r p) = worker_thread_count p"
  "task_queue_capacity (SendResponseClosure_Run rt t r p) = task_queue_capacity p"
  by (auto simp: SendResponseClosure_Run_def SendRpcResponse_def split: option.splits)

lemma worker_run_more [simp]:
  "next_task (worker_run rt S now c t p) = next_task p" "waiting_task (worker_run rt S now c t p) = waiting_task p"
  "worker_thread_count (worker_run rt S now c t p) = worker_thread_count p"
  "task_queue_capacity (worker_run rt S now c t p) = task_queue_capacity p"
  by (simp_all add: worker_run_def CallAndMeasure_def Let_def)

lemma worker_takeD:
  "worker_take p = Some (t, p') \<Longrightarrow> task_queue p = t # task_queue p' \<and> next_task p' = next_task p \<and>
     pv_effects p' = pv_effects p \<and> waiting_task p' = waiting_task p \<and>
     task_queue_capacity p' = task_queue_capacity p \<and> worker_thread_count p' = worker_thread_count p"
  by (auto simp: worker_take_def split: list.splits)

text \<open>Submitting a task: it is queued, or it makes the thread wait, or the pool is stopping and it runs at
  once, with the same effects as in a worker.\<close>

lemma submit_task_cases:
  assumes "submit_task rt S now c t p = (p', b)" "good_handlers rt S"
  obtains (queued) "b" "task_queue p' = task_queue p @ [t]" "pv_effects p' = pv_effects p"
      "next_task p' = next_task p" "waiting_task p' = waiting_task p"
    | (waits) "\<not> b" "p' = p\<lparr>waiting_task := Some t\<rparr>"
    | (inline) "b" "p' = worker_run rt S now c t p"
proof -
  from assms(2) have "\<not> ho_throws (sv_handle S (rt_service t) (rt_method t) (rt_request t))"
    by (simp add: good_handlers_def Let_def)
  with assms(1) that show thesis
    by (auto simp: submit_task_def EnqueueTask_def worker_run_def CallAndMeasure_def Let_def
        split: if_splits option.splits)
qed

lemma submit_task_config:
  "submit_task rt S now c t p = (p', b) \<Longrightarrow>
     task_queue_capacity p' = task_queue_capacity p \<and> worker_thread_count p' = worker_thread_count p"
  by (auto simp: submit_task_def EnqueueTask_def CallAndMeasure_def Let_def split: if_splits)

text \<open>A frame is answered or dropped, or it becomes a new task that is submitted.\<close>

lemma HandleHeartbeatFrame_effects:
  "\<exists>es. HandleHeartbeatFrame rt conn h p = pv_emit es p \<and> frees_only {} es"
proof -
  have "p = pv_emit [] p" by (simp add: pv_emit_def)
  moreover have "frees_only {} []" "frees_only {} [Sent_to conn bytes]" for bytes
    by (simp_all add: frees_only_empty)
  ultimately show ?thesis
    unfolding HandleHeartbeatFrame_def SendHeartbeatFrame_def by (auto split: option.splits)
qed

lemma OnMessage_frame_cases:
  assumes "OnMessage_frame rt S now ts c conn f p = (p', b)"
  obtains (no_task) es where "p' = pv_emit es (TouchConnection ts conn p)" "frees_only {} es"
    | (task) t p1 where "rt_id t = next_task p" "p1 = (TouchConnection ts conn p)\<lparr>next_task := Suc (next_task p)\<rparr>"
        "submit_task rt S now c t p1 = (p', b)"
proof -
  let ?p = "TouchConnection ts conn p"
  obtain h args where f: "f = (h, args)" by (cases f)
  have "(\<exists>es. p' = pv_emit es ?p \<and> frees_only {} es) \<or>
    (\<exists>t. rt_id t = next_task p \<and> submit_task rt S now c t (?p\<lparr>next_task := Suc (next_task p)\<rparr>) = (p', b))"
  proof (cases "p' = ?p \<or> p' = pv_emit [Force_closed conn] ?p \<or> p' = HandleHeartbeatFrame rt conn h ?p")
    case True
    have "?p = pv_emit [] ?p" by (simp add: pv_emit_def)
    moreover have "frees_only {} []" "frees_only {} [Force_closed conn]" by (simp_all add: frees_only_empty)
    ultimately show ?thesis using True HandleHeartbeatFrame_effects[of rt conn h ?p] by metis
  next
    case False
    with assms have "\<exists>t. rt_id t = next_task p \<and> submit_task rt S now c t (?p\<lparr>next_task := Suc (next_task p)\<rparr>) = (p', b)"
      unfolding f OnMessage_frame_def Let_def
      by (simp split: option.splits if_splits) (metis RpcTask.select_convs(1))
    then show ?thesis ..
  qed
  with that show thesis by blast
qed

subsection \<open>The invariant of the server\<close>

definition server_ok :: "server \<Rightarrow> bool" where
  "server_ok s \<longleftrightarrow> waiting_task (srv_provider s) = None \<and>
     freed_ok (next_task (srv_provider s)) (live s) (pv_effects (srv_provider s))"

lemma server_ok_effects:
  assumes "server_ok s" "pv_effects p' = pv_effects (srv_provider s) @ es" "frees_only {} es"
    "task_queue p' = task_queue (srv_provider s)" "next_task p' = next_task (srv_provider s)"
    "waiting_task p' = None"
  shows "server_ok (s\<lparr>srv_provider := p'\<rparr>)"
  using assms freed_ok_perm[of _ "live s" "pv_effects (srv_provider s)" "live s" es]
  by (simp add: server_ok_def live_def)

lemma server_ok_submit:
  assumes "submit_task rt S now c t p1 = (p', b)" "good_handlers rt S" "waiting_task p1 = None"
    "freed_ok (next_task p1) ids (pv_effects p1)"
    "mset ids = add_mset (rt_id t) (mset (map rt_id (task_queue p1)) + rest)" "mset l = rest"
  shows "next_task p' = next_task p1 \<and>
    freed_ok (next_task p1) (map rt_id (task_queue p') @ l @
      (case waiting_task p' of None \<Rightarrow> [] | Some t \<Rightarrow> [rt_id t])) (pv_effects p')"
  using assms(1,2)
proof (cases rule: submit_task_cases)
  case queued
  have "freed_ok (next_task p1) (map rt_id (task_queue p') @ l) (pv_effects p1 @ [])"
    by (rule freed_ok_perm[OF assms(4)]) (simp_all add: assms(5,6) queued frees_only_empty)
  with queued assms(3) show ?thesis by simp
next
  case waits
  have "freed_ok (next_task p1) (map rt_id (task_queue p1) @ l @ [rt_id t]) (pv_effects p1 @ [])"
    by (rule freed_ok_perm[OF assms(4)]) (simp_all add: assms(5,6) frees_only_empty)
  with waits show ?thesis by simp
next
  case inline
  from worker_run_frees_only[OF assms(2)] obtain es where
    es: "pv_effects p' = pv_effects p1 @ es" "frees_only {rt_id t} es" using inline by blast
  have "freed_ok (next_task p1) (map rt_id (task_queue p1) @ l) (pv_effects p1 @ es)"
    by (rule freed_ok_free[OF assms(4) _ es(2)]) (simp add: assms(5,6))
  with inline es assms(3) show ?thesis by simp
qed

lemma live_settle:
  "mset (live (settle conn buf p' s)) = mset (map rt_id (task_queue p') @
     (map (rt_id \<circ> snd) (srv_waiting s) @ map rt_id (srv_running s)) @
     (case waiting_task p' of None \<Rightarrow> [] | Some t \<Rightarrow> [rt_id t]))"
  by (simp add: live_def settle_def split: option.splits)

lemma server_ok_frame:
  assumes ok: "server_ok s" and g: "good_handlers rt S"
    and f: "OnMessage_frame rt S now ts c conn f (srv_provider s) = (p', b)"
  shows "server_ok (settle conn buf p' s)"
  using f
proof (cases rule: OnMessage_frame_cases)
  case (no_task es)
  with ok have w: "waiting_task p' = None" by (simp add: server_ok_def)
  with server_ok_effects[OF ok _ no_task(2), of p'] no_task show ?thesis
    by (simp add: server_ok_def live_def settle_def)
next
  case (task t p1)
  let ?l = "map (rt_id \<circ> snd) (srv_waiting s) @ map rt_id (srv_running s)"
  have "freed_ok (next_task p1) (rt_id t # live s) (pv_effects p1)"
    using ok task freed_ok_new[of _ "live s"] by (simp add: server_ok_def)
  with server_ok_submit[OF task(3) g, of "rt_id t # live s" "mset ?l" ?l] ok task have
    r: "next_task p' = next_task p1 \<and> freed_ok (next_task p1) (map rt_id (task_queue p') @ ?l @
      (case waiting_task p' of None \<Rightarrow> [] | Some t \<Rightarrow> [rt_id t])) (pv_effects p')"
    by (simp add: server_ok_def live_def)
  have "freed_ok (next_task p1) (live (settle conn buf p' s)) (pv_effects p' @ [])"
    by (rule freed_ok_perm[OF conjunct2[OF r] live_settle]) (simp add: frees_only_empty)
  with r show ?thesis by (simp add: server_ok_def) (simp add: settle_def)
qed

lemma mset_remove1_map: "x \<in> set xs \<Longrightarrow> mset (map f xs) = add_mset (f x) (mset (map f (remove1 x xs)))"
  by (metis image_mset_add_mset insert_DiffM mset_map mset_remove1 set_mset_mset)

lemma server_ok_resume:
  assumes ok: "server_ok s" and g: "good_handlers rt S" and m: "(conn, t) \<in> set (srv_waiting s)"
    and f: "submit_task rt S now c t (srv_provider s) = (p', True)"
  shows "server_ok (s\<lparr>srv_provider := p', srv_waiting := remove1 (conn, t) (srv_waiting s)\<rparr>)"
proof -
  let ?l = "map (rt_id \<circ> snd) (remove1 (conn, t) (srv_waiting s)) @ map rt_id (srv_running s)"
  have "waiting_task p' = None"
    using f g ok by (cases rule: submit_task_cases) (auto simp: server_ok_def)
  moreover have "mset (live s) = add_mset (rt_id t) (mset (map rt_id (task_queue (srv_provider s))) + mset ?l)"
    using mset_remove1_map[OF m, of "rt_id \<circ> snd"] by (simp add: live_def)
  ultimately show ?thesis
    using server_ok_submit[OF f g, of "live s" "mset ?l" ?l] ok by (simp add: server_ok_def live_def)
qed

lemma server_ok_run:
  assumes ok: "server_ok s" and g: "good_handlers rt S" and m: "t \<in> set (srv_running s)"
  shows "server_ok (s\<lparr>srv_provider := worker_run rt S now c t (srv_provider s), srv_running := remove1 t (srv_running s)\<rparr>)"
proof -
  obtain es where es: "pv_effects (worker_run rt S now c t (srv_provider s)) = pv_effects (srv_provider s) @ es"
    "frees_only {rt_id t} es" using worker_run_frees_only[OF g] by blast
  have "mset (live s) = add_mset (rt_id t) (mset (map rt_id (task_queue (srv_provider s)) @
      map (rt_id \<circ> snd) (srv_waiting s) @ map rt_id (remove1 t (srv_running s))))"
    using mset_remove1_map[OF m, of rt_id] by (simp add: live_def)
  from freed_ok_free[OF _ this es(2)] ok show ?thesis by (simp add: server_ok_def live_def es(1))
qed

lemma OnConnection_frame [simp]:
  "pv_effects (OnConnection ts conn established p) = pv_effects p @ (if established then [] else [Shut_down conn])"
  "task_queue (OnConnection ts conn established p) = task_queue p"
  "next_task (OnConnection ts conn established p) = next_task p"
  "waiting_task (OnConnection ts conn established p) = waiting_task p"
  "worker_thread_count (OnConnection ts conn established p) = worker_thread_count p"
  "task_queue_capacity (OnConnection ts conn established p) = task_queue_capacity p"
  by (simp_all add: OnConnection_def RegisterConnection_def RemoveConnection_def)

lemma StopWorkerPool_idle:
  "task_queue p = [] \<Longrightarrow> StopWorkerPool rt S now c p =
     (if workers_started p then pv_emit [] (p\<lparr>stop_workers := True, workers_started := False, task_queue := []\<rparr>) else p)"
  by (simp add: StopWorkerPool_def)

lemma server_ok_step:
  assumes "server_step rt S s s'" "server_ok s" "good_handlers rt S"
  shows "server_ok s'"
  using assms(1)
proof cases
  case (receive conn bytes)
  with assms(2) show ?thesis by (simp add: server_ok_def live_def)
next
  case frame
  with server_ok_frame[OF assms(2,3)] show ?thesis by blast
next
  case (refuse conn why)
  with server_ok_effects[OF assms(2), of "pv_emit [Force_closed conn] (srv_provider s)" "[Force_closed conn]"] assms(2)
  show ?thesis by (simp add: frees_only_empty server_ok_def)
next
  case resume
  with server_ok_resume[OF assms(2,3)] show ?thesis by blast
next
  case (take t p')
  have "freed_ok (next_task (srv_provider s)) (live s') (pv_effects (srv_provider s) @ [])"
    by (rule freed_ok_perm[of _ "live s"])
      (use assms(2) take worker_takeD[OF take(2)] in \<open>simp_all add: server_ok_def live_def frees_only_empty\<close>)
  with take worker_takeD[OF take(2)] assms(2) show ?thesis by (simp add: server_ok_def)
next
  case run
  with server_ok_run[OF assms(2,3)] show ?thesis by blast
next
  case (connection ts conn established)
  with server_ok_effects[OF assms(2), of "OnConnection ts conn established (srv_provider s)"
      "if established then [] else [Shut_down conn]"] assms(2) show ?thesis
    by (simp add: frees_only_empty server_ok_def)
next
  case (idle_scan ts)
  then obtain es where "pv_effects (OnIdleScan ts (srv_provider s)) = pv_effects (srv_provider s) @ es" "frees_only {} es"
    by (force simp: OnIdleScan_def intro!: frees_only_empty)
  with server_ok_effects[OF assms(2), of "OnIdleScan ts (srv_provider s)"] assms(2) idle_scan show ?thesis
    by (simp add: server_ok_def OnIdleScan_def)
next
  case stop
  with assms(2) show ?thesis by (simp add: server_ok_def live_def)
next
  case (joined now c)
  with assms(2) show ?thesis
    by (simp add: server_ok_def live_def StopWorkerPool_idle)
qed

lemma server_ok_steps:
  "(server_step rt S)\<^sup>*\<^sup>* s s' \<Longrightarrow> good_handlers rt S \<Longrightarrow> server_ok s \<Longrightarrow> server_ok s'"
  by (induction rule: rtranclp_induct) (auto intro: server_ok_step)

lemma server_ok_new:
  "next_task p = 0 \<Longrightarrow> task_queue p = [] \<Longrightarrow> waiting_task p = None \<Longrightarrow> pv_effects p = [] \<Longrightarrow> server_ok (new_server p)"
  by (auto simp: server_ok_def live_def new_server_def freed_ok_def frees_def)

subsection \<open>No task is stuck\<close>

definition can_work :: "server \<Rightarrow> bool" where
  "can_work s \<longleftrightarrow> 0 < worker_thread_count (srv_provider s) \<and> 0 < task_queue_capacity (srv_provider s)"

lemma OnMessage_frame_config:
  assumes "OnMessage_frame rt S now ts c conn f p = (p', b)"
  shows "task_queue_capacity p' = task_queue_capacity p \<and> worker_thread_count p' = worker_thread_count p"
  using assms by (cases rule: OnMessage_frame_cases) (auto dest: submit_task_config)

lemma can_work_step: "server_step rt S s s' \<Longrightarrow> can_work s' = can_work s"
  by (cases rule: server_step.cases)
    (auto simp: can_work_def settle_def OnIdleScan_def
      StopWorkerPool_idle split: if_splits dest: OnMessage_frame_config submit_task_config worker_takeD)

lemma can_work_steps: "(server_step rt S)\<^sup>*\<^sup>* s s' \<Longrightarrow> can_work s' = can_work s"
  by (induction rule: rtranclp_induct) (auto dest: can_work_step)

definition work_left :: "server \<Rightarrow> nat" where
  "work_left s = 3 * length (srv_waiting s) + 2 * length (task_queue (srv_provider s)) + length (srv_running s)"

lemma progressI:
  "server_step rt S s s' \<Longrightarrow> work_left s' < work_left s \<Longrightarrow> \<exists>s'. server_step rt S s s' \<and> work_left s' < work_left s"
  by blast

lemma server_progress:
  assumes "can_work s" "live s \<noteq> []"
  shows "\<exists>s'. server_step rt S s s' \<and> work_left s' < work_left s"
proof -
  consider (run) t where "t \<in> set (srv_running s)" | (take) t ts where "srv_running s = []" "task_queue (srv_provider s) = t # ts"
    | (resume) w where "task_queue (srv_provider s) = []" "w \<in> set (srv_waiting s)"
    using assms(2) by (cases "srv_running s"; cases "task_queue (srv_provider s)"; cases "srv_waiting s")
      (auto simp: live_def)
  then show ?thesis
  proof cases
    case (run t)
    then have "srv_running s \<noteq> []" by auto
    with run show ?thesis
      by (intro progressI[OF server_step.run[OF run]]) (simp add: work_left_def length_remove1)
  next
    case (take t ts)
    then obtain p' where w: "worker_take (srv_provider s) = Some (t, p')" by (simp add: worker_take_def)
    show ?thesis
      by (rule progressI[OF server_step.take[OF w]])
        (use take assms(1) worker_takeD[OF w] in \<open>simp_all add: work_left_def can_work_def\<close>)
  next
    case (resume w)
    obtain conn t where wt: "w = (conn, t)" by (cases w)
    obtain p' b where r: "submit_task rt S 0 0 t (srv_provider s) = (p', b)" by fastforce
    with assms(1) resume(1) have b: "b" "length (task_queue p') \<le> 1"
      by (auto simp: submit_task_def EnqueueTask_def can_work_def CallAndMeasure_def Let_def split: if_splits)
    have "0 < length (srv_waiting s)" using resume(2) by (rule length_pos_if_in_set)
    then obtain n where "length (srv_waiting s) = Suc n" by (metis gr0_conv_Suc)
    with b r resume wt show ?thesis
      by (intro progressI[OF server_step.resume[of conn t s rt S 0 0 p']]) (simp_all add: work_left_def length_remove1)
  qed
qed

lemma server_drains:
  "can_work s \<Longrightarrow> \<exists>s'. (server_step rt S)\<^sup>*\<^sup>* s s' \<and> live s' = []"
proof (induction "work_left s" arbitrary: s rule: less_induct)
  case less
  show ?case
  proof (cases "live s = []")
    case False
    from server_progress[OF less.prems False] obtain s1 where
      s1: "server_step rt S s s1" "work_left s1 < work_left s" by blast
    from less.hyps[OF s1(2)] can_work_step[OF s1(1)] less.prems obtain s' where
      "(server_step rt S)\<^sup>*\<^sup>* s1 s'" "live s' = []" by auto
    with s1(1) show ?thesis by (meson converse_rtranclp_into_rtranclp)
  qed blast
qed

subsection \<open>What \<open>Run\<close> starts\<close>

lemma Run_start_ready:
  assumes "Run_start api cfg env (p, z, hs) = Some (Inr (p', z', hs'))" "\<not> workers_started p" "task_queue p = []"
    "next_task p = 0" "waiting_task p = None" "pv_effects p = []"
  shows "server_ok (new_server p') \<and> can_work (new_server p') \<and> \<not> stop_workers p' \<and> watermark_ok p' \<and>
    Run_register api cfg p z = Inr z' \<and> service_map p' = service_map p \<and> task_queue p' = []"
proof -
  have p': "p' = StartWorkerPool cfg (re_cores env) (ScheduleIdleScan cfg p)"
    "Run_register api cfg p z = Inr z'"
  proof -
    from assms(1) obtain d where "Start (re_zk_init env) (re_zk_events env) new_ZkClient = Some d"
      by (auto simp: Run_start_def)
    with assms(1) show "p' = StartWorkerPool cfg (re_cores env) (ScheduleIdleScan cfg p)" "Run_register api cfg p z = Inr z'"
      by (cases d; cases "Run_register api cfg p z"; auto simp: Run_start_def Let_def)+
  qed
  have s: "\<not> workers_started (ScheduleIdleScan cfg p)" "task_queue (ScheduleIdleScan cfg p) = []"
    using assms(2,3) by (simp_all add: ScheduleIdleScan_def Let_def)
  have "next_task p' = 0" "task_queue p' = []" "waiting_task p' = None" "pv_effects p' = []"
    "service_map p' = service_map p"
    using assms by (simp_all add: p'(1) StartWorkerPool_def ScheduleIdleScan_def Let_def)
  with StartWorkerPool_ok[OF s, of cfg "re_cores env"] p'(2) server_ok_new[of p'] show ?thesis
    by (simp add: p'(1)[symmetric] can_work_def new_server_def)
qed

end
