(* ===== verification/Rpc_Streams.thy ===== *)
theory Rpc_Streams
  imports Channel_Threads Provider_Server
begin

section \<open>The protobuf connection: what the two sides send\<close>

text \<open>
  The streams of a connection between a \<open>KrpcChannel\<close> and a \<open>KrpcProvider\<close>. \<open>pb_request\<close> says which frames a
  client sends that has made the calls \<open>calls\<close>, \<open>pb_reply\<close> which frames the server sends for them. The lemmas
  are about one operation each: what the operations of the client leave of its table and its queue
  (\<open>chan_local\<close>), what a turn of the receive thread does with replies, what the server makes of a request, and
  what it sends when it runs a task.
\<close>

subsection \<open>Requests and replies\<close>

text \<open>\<open>calls\<close> lists the request ids that the client has given out, with the arguments of the calls; \<open>M\<close> is the
  service table of the server and \<open>S\<close> its services.\<close>

type_synonym issued_calls = "(u64 \<times> call_args) list"

type_synonym service_table = "(string \<times> ServiceInfo) list"

definition call_request :: "call_args \<Rightarrow> string \<Rightarrow> string \<Rightarrow> string \<Rightarrow> bool" where
  "call_request a svc mname req \<longleftrightarrow> (\<exists>md. ca_method a = Some md \<and> md_service md = Some svc \<and> md_name md = mname \<and>
     ca_request a = Some (Some req))"

definition pb_framing :: "pb_runtime \<Rightarrow> (RpcHeader \<Rightarrow> string \<Rightarrow> bool) \<Rightarrow> string \<Rightarrow> bool" where
  "pb_framing rt V c \<longleftrightarrow> (\<exists>h b. V h b \<and> header_fits rt h b \<and> frame_bytes rt h b = Some c)"

definition pb_request :: "issued_calls \<Rightarrow> RpcHeader \<Rightarrow> string \<Rightarrow> bool" where
  "pb_request calls h b \<longleftrightarrow> (\<exists>i. h = ping_header i \<and> b = []) \<or>
     (\<exists>i a svc mname. (i, a) \<in> set calls \<and> call_request a svc mname b \<and> h = request_header i svc mname b)"

text \<open>The reply that a call deserves: what the handler of its method makes of its request.\<close>

definition reply_of :: "service_table \<Rightarrow> services \<Rightarrow> call_args \<Rightarrow> string \<Rightarrow> bool" where
  "reply_of M S a reply \<longleftrightarrow> (\<exists>svc mname req info. call_request a svc mname req \<and> map_of M svc = Some info \<and>
     ho_response (sv_handle S (si_service info) mname req) = Some reply)"

definition pb_reply :: "service_table \<Rightarrow> services \<Rightarrow> issued_calls \<Rightarrow> RpcHeader \<Rightarrow> string \<Rightarrow> bool" where
  "pb_reply M S calls h b \<longleftrightarrow> magic h = kDefaultMagic \<and> (msg_type h = MSG_TYPE_PONG \<or>
     msg_type h = MSG_TYPE_RESPONSE \<and> (\<exists>a. (request_id h, a) \<in> set calls \<and> reply_of M S a b))"

abbreviation requests :: "pb_runtime \<Rightarrow> issued_calls \<Rightarrow> string \<Rightarrow> bool" where
  "requests rt calls \<equiv> stream_of (pb_framing rt (pb_request calls))"

abbreviation replies :: "pb_runtime \<Rightarrow> service_table \<Rightarrow> services \<Rightarrow> issued_calls \<Rightarrow> string \<Rightarrow> bool" where
  "replies rt M S calls \<equiv> stream_of (pb_framing rt (pb_reply M S calls))"

lemma pb_framing_mono: "pb_framing rt V c \<Longrightarrow> (\<And>h b. V h b \<Longrightarrow> W h b) \<Longrightarrow> pb_framing rt W c"
  unfolding pb_framing_def by blast

lemma pb_request_mono: "pb_request calls h b \<Longrightarrow> set calls \<subseteq> set calls' \<Longrightarrow> pb_request calls' h b"
  unfolding pb_request_def by blast

lemma pb_reply_mono: "pb_reply M S calls h b \<Longrightarrow> set calls \<subseteq> set calls' \<Longrightarrow> pb_reply M S calls' h b"
  unfolding pb_reply_def by blast

lemma requests_mono: "requests rt calls s \<Longrightarrow> set calls \<subseteq> set calls' \<Longrightarrow> requests rt calls' s"
  by (erule stream_mono) (blast intro: pb_framing_mono pb_request_mono)

lemma replies_mono: "replies rt M S calls s \<Longrightarrow> set calls \<subseteq> set calls' \<Longrightarrow> replies rt M S calls' s"
  by (erule stream_mono) (blast intro: pb_framing_mono pb_reply_mono)

lemma requests_read_back:
  assumes "rt_ok rt"
  shows "reads_back (provider_next_frame rt) (pb_framing rt (pb_request calls)) (\<lambda>(h, b). pb_request calls h b)"
proof (rule reads_backI)
  fix c
  assume "pb_framing rt (pb_request calls) c"
  then obtain h b where hb: "pb_request calls h b" "header_fits rt h b" "frame_bytes rt h b = Some c"
    by (auto simp: pb_framing_def)
  from hb(1) have "magic h = kDefaultMagic" "version h = kDefaultVersion"
    by (auto simp: pb_request_def ping_header_def request_header_def)
  with provider_next_frame_frame_bytes[OF assms hb(2,3)] hb(1)
  show "\<exists>f. (case f of (h, b) \<Rightarrow> pb_request calls h b) \<and> (\<forall>s. provider_next_frame rt (c @ s) = Got f (length c))"
    by (intro exI[of _ "(h, b)"]) simp
qed

lemma replies_read_back:
  assumes "rt_ok rt"
  shows "reads_back (channel_next_frame rt) (pb_framing rt (pb_reply M S calls)) (\<lambda>(h, b). pb_reply M S calls h b)"
  by (rule reads_backI) (use channel_next_frame_frame_bytes[OF assms] in \<open>fastforce simp: pb_framing_def\<close>)

subsection \<open>The client: operations that complete calls\<close>

fun silent_effect :: "effect \<Rightarrow> bool" where
  "silent_effect (Response_parsed resp b) \<longleftrightarrow> False"
| "silent_effect (Bytes_sent f s) \<longleftrightarrow> False"
| "silent_effect _ \<longleftrightarrow> True"

text \<open>Nothing is written or parsed, no task is queued, and no call is added to the table.\<close>

definition table_responses :: "channel \<Rightarrow> (u64 \<times> nat option) set" where
  "table_responses ch = (\<lambda>(i, p). (i, p_response p)) ` set (m_pending_calls ch)"

definition chan_local :: "chan_state \<Rightarrow> chan_state \<Rightarrow> bool" where
  "chan_local st st' \<longleftrightarrow> (\<exists>es. w_effects (snd st') = w_effects (snd st) @ es \<and> list_all silent_effect es) \<and>
     set (m_send_queue (fst st')) \<subseteq> set (m_send_queue (fst st)) \<and>
     table_responses (fst st') \<subseteq> table_responses (fst st)"

lemma chan_local_trans:
  assumes "chan_local a b" "chan_local b c"
  shows "chan_local a c"
proof -
  from assms obtain xs ys where "w_effects (snd b) = w_effects (snd a) @ xs" "list_all silent_effect xs"
    "w_effects (snd c) = w_effects (snd b) @ ys" "list_all silent_effect ys"
    unfolding chan_local_def by blast
  with assms show ?thesis unfolding chan_local_def by (intro conjI exI[of _ "xs @ ys"]) auto
qed

lemma chan_localI:
  "w_effects (snd st') = w_effects (snd st) @ es \<Longrightarrow> list_all silent_effect es \<Longrightarrow>
     set (m_send_queue (fst st')) \<subseteq> set (m_send_queue (fst st)) \<Longrightarrow>
     set (m_pending_calls (fst st')) \<subseteq> set (m_pending_calls (fst st)) \<Longrightarrow> chan_local st st'"
  unfolding chan_local_def table_responses_def by blast

lemma chan_local_quiet:
  "w_effects (snd st') = w_effects (snd st) \<Longrightarrow> set (m_send_queue (fst st')) \<subseteq> set (m_send_queue (fst st)) \<Longrightarrow>
     set (m_pending_calls (fst st')) \<subseteq> set (m_pending_calls (fst st)) \<Longrightarrow> chan_local st st'"
  using chan_localI[of st' st "[]"] by simp

lemma chan_local_refl: "chan_local st st"
  by (rule chan_local_quiet) simp_all

lemma silent_completion: "list_all silent_effect (completion_effects p)"
  by (simp add: completion_effects_def split: option.splits)

lemma silent_completions: "list_all silent_effect (concat (map completion_effects ps))"
  by (induction ps) (simp_all add: silent_completion)

lemma set_AList_delete: "set (AList.delete k m) \<subseteq> set m"
  by (simp add: AList.delete_eq)

lemma chan_local_RemovePendingCall: "chan_local st (RemovePendingCall E i reason st)"
proof (cases st)
  case (Pair ch w)
  show ?thesis
  proof (cases "map_of (m_pending_calls ch) i")
    case None
    then show ?thesis by (simp add: Pair RemovePendingCall_def chan_local_refl)
  next
    case (Some p)
    with set_AList_delete[of i "m_pending_calls ch"] show ?thesis
      by (intro chan_localI[of _ _ "completion_effects p"])
        (simp_all add: Pair RemovePendingCall_def CompletePending_effects silent_completion)
  qed
qed

lemma chan_local_remove_all: "chan_local st (foldl (\<lambda>s i. RemovePendingCall E i reason s) st is)"
proof (induction "is" arbitrary: st)
  case Nil
  show ?case by (simp add: chan_local_refl)
next
  case (Cons i "is")
  from chan_local_trans[OF chan_local_RemovePendingCall Cons.IH] show ?case by simp
qed

lemma chan_local_FailPendingCalls: "chan_local st (FailPendingCalls E reason st)"
  by (cases st, rule chan_localI[of _ _ "concat (map completion_effects (map snd (m_pending_calls (fst st))))"])
    (simp_all add: FailPendingCalls_def CompleteAll_effects silent_completions del: map_map)

lemma chan_local_CloseConnectionLocked: "chan_local st (CloseConnectionLocked st)"
  by (cases st) (auto simp: CloseConnectionLocked_def intro: chan_local_quiet)

lemma chan_local_HandleHeartbeatFailure: "chan_local st (HandleHeartbeatFailure E reason st)"
proof -
  obtain ch1 w1 where c: "CloseConnectionLocked st = (ch1, w1)" by (rule prod.exhaust)
  have 1: "chan_local st (ch1\<lparr>m_send_queue := []\<rparr>, w1)"
    by (rule chan_local_trans[OF chan_local_CloseConnectionLocked[of st, unfolded c]]) (rule chan_local_quiet; simp)
  have reset: "chan_local s (reset_waiting s)" for s
    by (cases s) (simp add: reset_waiting_def chan_local_quiet)
  show ?thesis
    unfolding HandleHeartbeatFailure_unfold[OF c]
    by (rule chan_local_trans[OF chan_local_trans[OF chan_local_trans[OF 1 chan_local_remove_all]
      chan_local_FailPendingCalls] reset])
qed

lemma chan_local_CallMethod_wait: "chan_local st (CallMethod_wait E p ready st)"
  by (simp add: CallMethod_wait_def chan_local_refl chan_local_RemovePendingCall)

lemma chan_local_TimeoutLoop_turn: "chan_local st (TimeoutLoop_turn E st)"
proof -
  obtain ch w where st: "st = (ch, w)" by (cases st)
  obtain now w1 where k: "clock_now E w = (now, w1)" by (rule prod.exhaust)
  show ?thesis
    by (rule chan_localI[of _ _ "concat (map completion_effects (filter (expired now) (map snd (m_pending_calls ch))))"])
      (use clock_now_frame[OF k] in \<open>simp_all add: TimeoutLoop_turn_def st k CompleteAll_effects silent_completions filter_is_subset\<close>)
qed

lemma chan_local_set_callback: "chan_local st (set_callback pr st)"
proof (cases st)
  case (Pair ch w)
  have "table_responses (fst (set_callback pr st)) \<subseteq> table_responses (fst st)"
    by (auto simp: Pair set_callback_def table_responses_def image_image case_prod_beta)
  then show ?thesis unfolding chan_local_def by (simp add: Pair set_callback_def)
qed

lemma chan_local_heartbeat_end:
  assumes "SendHeartbeat_finish st = (r, st1)"
  shows "chan_local st (HeartbeatLoop_result E r st1)"
proof -
  obtain ch w where st: "st = (ch, w)" by (cases st)
  obtain ch1 w1 where st1: "st1 = (ch1, w1)" by (cases st1)
  have 1: "chan_local st (ch1, w1)"
    using assms by (auto simp: SendHeartbeat_finish_def st st1 intro!: chan_local_quiet split: if_splits)
  have set0: "chan_local s (ch'\<lparr>m_missed_heartbeat_count := k\<rparr>, w')" if "chan_local s (ch', w')" for s ch' w' k
    by (rule chan_local_trans[OF that]) (rule chan_local_quiet; simp)
  have fail: "chan_local s (case HandleHeartbeatFailure E reason s' of (ch', w') \<Rightarrow> (ch'\<lparr>m_missed_heartbeat_count := 0\<rparr>, w'))"
    if "chan_local s s'" for s s' reason
  proof -
    obtain ch' w' where h: "HandleHeartbeatFailure E reason s' = (ch', w')" by (rule prod.exhaust)
    from set0[OF chan_local_trans[OF that chan_local_HandleHeartbeatFailure[of s' E reason], unfolded h]] h
    show ?thesis by simp
  qed
  show ?thesis
  proof (cases r)
    case kSuccess
    obtain now w2 where k: "clock_now E w1 = (now, w2)" by (rule prod.exhaust)
    show ?thesis
      by (rule chan_local_trans[OF 1]) (use clock_now_frame[OF k] in \<open>simp add: HeartbeatLoop_result_def st1 k kSuccess chan_local_quiet\<close>)
  next
    case kTimeout
    with fail[OF set0[OF 1]] set0[OF 1] show ?thesis by (simp add: HeartbeatLoop_result_def st1 Let_def)
  next
    case kFatal
    with fail[OF 1] show ?thesis by (simp add: HeartbeatLoop_result_def st1)
  qed
qed

lemma chan_local_fail_immediately: "chan_local st st' \<Longrightarrow> chan_local st (fail_immediately a reason st')"
  by (rule chan_local_trans, assumption, cases st',
      rule chan_localI[of _ _ "(case ca_done a of None \<Rightarrow> [] | Some d \<Rightarrow> [Done_run 0 d]) @
        (case ca_callback a of None \<Rightarrow> [] | Some cb \<Rightarrow> [Callback_run 0 cb (ca_controller a) (ca_response a)])"])
    (simp_all add: fail_immediately_def emit_def split: option.splits)

lemma chan_local_prepare_call:
  assumes "prepare_call rt E D a st = (r, st')"
  shows "chan_local st st'"
proof -
  obtain ch w where st: "st = (ch, w)" by (cases st)
  obtain now w1 where k: "clock_now E w = (now, w1)" by (rule prod.exhaust)
  have l1: "chan_local st (ch, w1)" and l2: "chan_local st (ch, snd (NextRequestId w1))"
    using clock_now_frame[OF k] by (simp_all add: st chan_local_quiet NextRequestId_def)
  note fails = chan_local_fail_immediately[OF chan_local_refl] chan_local_fail_immediately[OF l1] chan_local_fail_immediately[OF l2]
  have l3: "chan_local st st3" if "EnsureConnection E D md ctl (ch, snd (NextRequestId w1)) = (e, st3)" for md ctl e st3
    by (rule chan_local_trans[OF l2])
      (use quiet_EnsureConnection[OF that] in \<open>simp add: quiet_def chan_local_quiet\<close>)
  show ?thesis
    using assms fails l3 chan_local_fail_immediately[OF l3]
    by (auto simp: prepare_call_def k Let_def st split: option.splits prod.splits sum.splits)
qed

subsection \<open>The client: what its state promises\<close>

text \<open>Everything in the table and in the queue comes from a call, and every response that was parsed into a message is
  the reply to the call that this message belongs to.\<close>

definition call_responses :: "issued_calls \<Rightarrow> (u64 \<times> nat option) set" where
  "call_responses calls = (\<lambda>(i, a). (i, ca_response a)) ` set calls"

definition own_response :: "service_table \<Rightarrow> services \<Rightarrow> issued_calls \<Rightarrow> nat \<Rightarrow> string \<Rightarrow> bool" where
  "own_response M S calls resp b \<longleftrightarrow> (\<exists>i a. (i, a) \<in> set calls \<and> ca_response a = Some resp \<and> reply_of M S a b)"

definition chan_holds :: "pb_runtime \<Rightarrow> service_table \<Rightarrow> services \<Rightarrow> issued_calls \<Rightarrow> chan_state \<Rightarrow> bool" where
  "chan_holds rt M S calls st \<longleftrightarrow> table_responses (fst st) \<subseteq> call_responses calls \<and>
     (\<forall>task\<in>set (m_send_queue (fst st)). pb_framing rt (pb_request calls) (task_frame task)) \<and>
     (\<forall>resp b. Response_parsed resp b \<in> set (w_effects (snd st)) \<longrightarrow> own_response M S calls resp b)"

definition issued_prepared :: "pb_runtime \<Rightarrow> issued_calls \<Rightarrow> prepared \<Rightarrow> bool" where
  "issued_prepared rt calls pr \<longleftrightarrow> (p_request_id (pr_pending pr), p_response (pr_pending pr)) \<in> call_responses calls \<and>
     pb_framing rt (pb_request calls) (pr_varint pr @ pr_header pr @ pr_body pr)"

definition phases_hold :: "pb_runtime \<Rightarrow> issued_calls \<Rightarrow> phase list \<Rightarrow> bool" where
  "phases_hold rt calls cs \<longleftrightarrow>
     (\<forall>pr. Prepared pr \<in> set cs \<or> Inserted pr \<in> set cs \<or> Called_back pr \<in> set cs \<longrightarrow> issued_prepared rt calls pr)"

lemma call_responses_mono: "set calls \<subseteq> set calls' \<Longrightarrow> call_responses calls \<subseteq> call_responses calls'"
  unfolding call_responses_def by blast

lemma framing_more:
  "pb_framing rt (pb_request calls) c \<Longrightarrow> set calls \<subseteq> set calls' \<Longrightarrow> pb_framing rt (pb_request calls') c"
  by (erule pb_framing_mono) (rule pb_request_mono)

lemma chan_holds_more:
  assumes "chan_holds rt M S calls st" "set calls \<subseteq> set calls'"
  shows "chan_holds rt M S calls' st"
proof -
  have "own_response M S calls' resp b" if "own_response M S calls resp b" for resp b
    using that assms(2) unfolding own_response_def by blast
  with assms call_responses_mono[OF assms(2)] framing_more[OF _ assms(2)] show ?thesis
    unfolding chan_holds_def by blast
qed

lemma phases_hold_more:
  "phases_hold rt calls cs \<Longrightarrow> set calls \<subseteq> set calls' \<Longrightarrow> phases_hold rt calls' cs"
  using call_responses_mono[of calls calls'] framing_more[of rt calls _ calls']
  unfolding phases_hold_def issued_prepared_def by blast

lemma chan_holds_local:
  assumes "chan_holds rt M S calls st" "chan_local st st'"
  shows "chan_holds rt M S calls st'"
proof -
  obtain es where es: "w_effects (snd st') = w_effects (snd st) @ es" "list_all silent_effect es"
    using assms(2) unfolding chan_local_def by blast
  then have "Response_parsed resp b \<notin> set es" for resp b by (auto simp: list_all_iff)
  with assms es(1) show ?thesis unfolding chan_holds_def chan_local_def by auto
qed

lemma chan_holds_sent:
  "chan_holds rt M S calls st \<Longrightarrow> table_responses (fst st') = table_responses (fst st) \<Longrightarrow>
     set (m_send_queue (fst st')) \<subseteq> set (m_send_queue (fst st)) \<Longrightarrow>
     w_effects (snd st') = w_effects (snd st) @ [Bytes_sent f s] \<Longrightarrow> chan_holds rt M S calls st'"
  unfolding chan_holds_def by auto

lemma chan_holds_insert:
  assumes "chan_holds rt M S calls st" "issued_prepared rt calls pr"
  shows "chan_holds rt M S calls (insert_call pr st)"
proof (cases st)
  case (Pair ch w)
  have "set (AList.update i p m) \<subseteq> insert (i, p) (set m)" for i :: u64 and p :: PendingCall and m
    by (induction m) auto
  then have "table_responses (fst (insert_call pr st)) \<subseteq>
      insert (p_request_id (pr_pending pr), p_response (pr_pending pr)) (table_responses ch)"
    unfolding table_responses_def by (force simp: Pair insert_call_def)
  with assms show ?thesis by (auto simp: chan_holds_def issued_prepared_def Pair insert_call_def)
qed

lemma chan_holds_enqueue:
  "chan_holds rt M S calls st \<Longrightarrow> issued_prepared rt calls pr \<Longrightarrow> chan_holds rt M S calls (enqueue_call pr st)"
  by (cases st) (auto simp: chan_holds_def issued_prepared_def enqueue_call_def EnqueueSend_def task_frame_def table_responses_def)

subsection \<open>The client: what it writes\<close>

definition sent_bytes :: "effect list \<Rightarrow> string" where
  "sent_bytes es = concat (List.map_filter (\<lambda>e. case e of Bytes_sent f s \<Rightarrow> Some s | _ \<Rightarrow> None) es)"

lemma sent_bytes_simps [simp]: "sent_bytes [] = []" "sent_bytes (Bytes_sent f s # es) = s @ sent_bytes es"
  by (simp_all add: sent_bytes_def List.map_filter_def)

lemma sent_bytes_silent: "list_all silent_effect es \<Longrightarrow> sent_bytes es = []"
  by (induction es) (auto simp: sent_bytes_def List.map_filter_def elim: silent_effect.elims)

lemma chan_local_send_fail: "chan_local s (send_fail E i reason s)"
  using chan_local_refl chan_local_trans[OF chan_local_RemovePendingCall chan_local_HandleHeartbeatFailure]
  by (simp add: send_fail_def)

lemma SendLoop_turn_writes:
  assumes "SendLoop_turn E ws (ch, w) = Some st'"
  obtains (local) "chan_local (ch, w) st'"
  | (sent) task queue where "m_send_queue ch = task # queue"
      "st' = (ch\<lparr>m_send_queue := queue\<rparr>, emit [Bytes_sent (m_clientfd ch) (task_frame task)] w)"
  | (broken) out where "m_clientfd ch \<noteq> -1" "m_clientfd (fst st') = -1"
      "chan_local (ch, emit [Bytes_sent (m_clientfd ch) out] w) st'"
  using assms
proof (cases rule: SendLoop_turn_cases)
  case (unconnected task queue)
  have "chan_local (ch, w) (ch\<lparr>m_send_queue := queue\<rparr>, w)" by (rule chan_local_quiet) (auto simp: unconnected(1))
  from chan_local_trans[OF this chan_local_send_fail] show ?thesis by (intro local) (simp add: unconnected(3))
next
  case (sent task queue)
  show ?thesis by (rule that(2)[OF sent(1,3)])
next
  case (broken task queue out err)
  let ?v = "emit [Bytes_sent (m_clientfd ch) out] w"
  have "chan_local (ch, ?v) (ch\<lparr>m_send_queue := queue\<rparr>, ?v)" by (rule chan_local_quiet) (auto simp: broken(1))
  from chan_local_trans[OF chan_local_trans[OF this chan_local_CloseConnectionLocked] chan_local_send_fail]
  have l: "chan_local (ch, ?v) st'" by (simp add: broken(5))
  have "m_clientfd (fst st') = -1"
    by (simp add: broken(5) send_fail_def CloseConnectionLocked_def HandleHeartbeatFailure_fd)
  from that(3)[OF broken(2) this l] show ?thesis .
qed

lemma SendHeartbeat_start_writes:
  assumes "SendHeartbeat_start rt ok st = (r, st')"
  obtains (local) "chan_local st st'"
  | (sent) i bytes where "frame_bytes rt (ping_header i) [] = Some bytes"
      "w_effects (snd st') = w_effects (snd st) @ [Bytes_sent (m_clientfd (fst st)) bytes]"
      "m_send_queue (fst st') = m_send_queue (fst st)" "m_pending_calls (fst st') = m_pending_calls (fst st)"
proof -
  obtain ch w where st: "st = (ch, w)" by (cases st)
  show ?thesis
  proof (cases "m_clientfd ch = -1 \<or> \<not> ok \<or> frame_bytes rt (ping_header (g_request_id w)) [] = None")
    case True
    with assms have "chan_local st st'"
      by (auto simp: SendHeartbeat_start_def st NextRequestId_def Let_def split: if_splits option.splits intro!: chan_local_quiet)
    then show ?thesis by (rule local)
  next
    case False
    then obtain bytes where "frame_bytes rt (ping_header (g_request_id w)) [] = Some bytes" by auto
    with False assms show ?thesis
      by (intro sent[of "g_request_id w" bytes]) (auto simp: SendHeartbeat_start_def st NextRequestId_def Let_def emit_def)
  qed
qed

subsection \<open>The client: what it reads\<close>

text \<open>The id of a reply belongs to one call only.\<close>

lemma chan_holds_resolve:
  assumes "chan_holds rt M S calls st" "distinct (map fst calls)" "(request_id h, a) \<in> set calls" "reply_of M S a b"
  shows "chan_holds rt M S calls (ResolvePendingCall E parse h b st)"
proof (cases st)
  case (Pair ch w)
  show ?thesis
  proof (cases "map_of (m_pending_calls ch) (request_id h)")
    case None
    with assms(1) show ?thesis by (simp add: Pair ResolvePendingCall_def)
  next
    case (Some p)
    let ?ch = "ch\<lparr>m_pending_calls := AList.delete (request_id h) (m_pending_calls ch)\<rparr>"
    have "(request_id h, p_response p) \<in> table_responses ch"
      using map_of_SomeD[OF Some] unfolding table_responses_def by force
    with assms(1) have "(request_id h, p_response p) \<in> call_responses calls"
      unfolding chan_holds_def by (auto simp: Pair)
    then obtain a' where "(request_id h, a') \<in> set calls" "ca_response a' = p_response p"
      unfolding call_responses_def by force
    with assms(2,3) have resp: "ca_response a = p_response p" by (metis eq_key_imp_eq_value)
    define es where "es = (case p_response p of None \<Rightarrow> [] | Some resp \<Rightarrow> [Response_parsed resp b])"
    have own: "own_response M S calls resp c" if "Response_parsed resp c \<in> set es" for resp c
      using that assms(3,4) resp unfolding own_response_def by (auto simp: es_def split: option.splits)
    have "table_responses ?ch \<subseteq> table_responses ch"
      unfolding table_responses_def using set_AList_delete[of "request_id h" "m_pending_calls ch"] by auto
    then have "chan_holds rt M S calls (?ch, w\<lparr>w_effects := w_effects w @ es\<rparr>)"
      using assms(1) own unfolding chan_holds_def by (auto simp: Pair)
    moreover have "chan_local (?ch, w\<lparr>w_effects := w_effects w @ es\<rparr>) (ResolvePendingCall E parse h b st)"
      by (rule chan_localI[of _ _ "completion_effects p"])
        (simp_all add: Pair ResolvePendingCall_def Some Let_def es_def CompletePending_effects emit_def
          silent_completion split: option.split)
    ultimately show ?thesis by (rule chan_holds_local)
  qed
qed

lemma handle_frame_reads:
  assumes "distinct (map fst calls)" "pb_reply M S calls h b" "handle_frame E parse (h, b) st = (st', go_on)"
    and st: "chan_holds rt M S calls st"
  shows "chan_holds rt M S calls st' \<and> m_clientfd (fst st') = m_clientfd (fst st)"
proof -
  have beat: "chan_local st (ResolveHeartbeat E h st) \<and> m_clientfd (fst (ResolveHeartbeat E h st)) = m_clientfd (fst st)"
    by (cases st) (auto simp: ResolveHeartbeat_def split: prod.splits dest!: clock_now_frame intro!: chan_local_quiet)
  have fd: "m_clientfd (fst (ResolvePendingCall E parse h b st)) = m_clientfd (fst st)"
    using only_table_ResolvePendingCall[of st E parse h b] by (auto simp: only_table_def)
  from assms(2) consider "magic h = kDefaultMagic" "msg_type h = MSG_TYPE_PONG"
    | a where "magic h = kDefaultMagic" "msg_type h = MSG_TYPE_RESPONSE" "(request_id h, a) \<in> set calls" "reply_of M S a b"
    unfolding pb_reply_def by blast
  then show ?thesis
  proof cases
    case 1
    with assms(3) have "st' = ResolveHeartbeat E h st" by (simp add: handle_frame_def msg_type_defs)
    with beat chan_holds_local[OF st] show ?thesis by simp
  next
    case 2
    with assms(3) have "st' = ResolvePendingCall E parse h b st" by (simp add: handle_frame_def)
    with fd chan_holds_resolve[OF st assms(1) 2(3,4)] show ?thesis by simp
  qed
qed

lemma RecvLoop_turn_reads:
  assumes rt: "rt_ok rt" and ids: "distinct (map fst calls)" and st: "chan_holds rt M S calls st"
    and fd: "m_clientfd (fst st) \<noteq> -1" and stream: "replies rt M S calls (m_recv_buffer (fst st) @ bytes @ later)"
    and st': "st' = RecvLoop_turn rt E parse (Recv_data bytes) st"
  shows "chan_holds rt M S calls st' \<and> replies rt M S calls (m_recv_buffer (fst st') @ later)"
proof -
  let ?R = "\<lambda>a b. chan_holds rt M S calls a \<longrightarrow> chan_holds rt M S calls b"
  obtain status buf s1 where c: "consume (channel_next_frame rt) (handle_frame E parse) (m_recv_buffer (fst st) @ bytes) st
      = (status, buf, s1)" by (metis prod.collapse)
  have "replies rt M S calls (buf @ later) \<and> ?R st s1 \<and> (\<forall>why. status \<noteq> Broken why)"
    by (rule channel_frames.stream_consume[where R = ?R, OF rt replies_read_back[OF rt] _ _ _ _ c[unfolded consume_def]])
      (use stream handle_frame_reads[OF ids] in auto)
  with st have r: "replies rt M S calls (buf @ later)" "chan_holds rt M S calls s1" "\<forall>why. status \<noteq> Broken why" by blast+
  have "st' = set_buf buf s1"
    using fd r(3) by (cases status) (simp_all add: st' RecvLoop_turn_def recv_bytes_alt c)
  moreover have "chan_holds rt M S calls (set_buf buf s1)"
    by (rule chan_holds_local[OF r(2)]) (rule chan_local_quiet; simp add: set_buf_def)
  ultimately show ?thesis using r(1) by simp
qed

subsection \<open>The server: tasks and what is sent for them\<close>

text \<open>Every frame that the client writes by itself and every reply of a handler fits into a frame.\<close>

definition frames_small :: "pb_runtime \<Rightarrow> services \<Rightarrow> bool" where
  "frames_small rt S \<longleftrightarrow> (\<forall>i. header_fits rt (ping_header i) [] \<and> header_fits rt (heartbeat_header MSG_TYPE_PONG i) []) \<and>
     (\<forall>svc m req i reply. ho_response (sv_handle S svc m req) = Some reply \<longrightarrow> header_fits rt (response_header i reply) reply)"

definition issued_task :: "service_table \<Rightarrow> issued_calls \<Rightarrow> RpcTask \<Rightarrow> bool" where
  "issued_task M calls t \<longleftrightarrow> (\<exists>a svc info. (rt_request_id t, a) \<in> set calls \<and> call_request a svc (rt_method t) (rt_request t) \<and>
     map_of M svc = Some info \<and> rt_service t = si_service info)"

definition tasks_issued :: "service_table \<Rightarrow> issued_calls \<Rightarrow> nat \<Rightarrow> RpcTask set \<Rightarrow> bool" where
  "tasks_issued M calls conn T \<longleftrightarrow> (\<forall>t\<in>T. rt_conn t = conn \<longrightarrow> issued_task M calls t)"

text \<open>What a provider does from one state to the next: on the connection it sends replies only.\<close>

definition answers :: "pb_runtime \<Rightarrow> services \<Rightarrow> issued_calls \<Rightarrow> nat \<Rightarrow> provider \<Rightarrow> provider \<Rightarrow> bool" where
  "answers rt S calls conn p p' \<longleftrightarrow> service_map p' = service_map p \<and> (\<exists>es. pv_effects p' = pv_effects p @ es \<and>
     (\<forall>bytes. Sent_to conn bytes \<in> set es \<longrightarrow> pb_framing rt (pb_reply (service_map p) S calls) bytes))"

lemma answers_trans:
  assumes "answers rt S calls conn p q" "answers rt S calls conn q r"
  shows "answers rt S calls conn p r"
proof -
  obtain xs ys where "pv_effects q = pv_effects p @ xs" "pv_effects r = pv_effects q @ ys"
    "\<forall>bytes. Sent_to conn bytes \<in> set xs \<longrightarrow> pb_framing rt (pb_reply (service_map p) S calls) bytes"
    "\<forall>bytes. Sent_to conn bytes \<in> set ys \<longrightarrow> pb_framing rt (pb_reply (service_map q) S calls) bytes"
    using assms unfolding answers_def by blast
  with assms show ?thesis unfolding answers_def by (intro conjI exI[of _ "xs @ ys"]) auto
qed

lemma answers_quiet:
  "service_map p' = service_map p \<Longrightarrow> pv_effects p' = pv_effects p @ es \<Longrightarrow> (\<And>bytes. Sent_to conn bytes \<notin> set es) \<Longrightarrow>
     answers rt S calls conn p p'"
  unfolding answers_def by blast

lemma answers_same: "service_map p' = service_map p \<Longrightarrow> pv_effects p' = pv_effects p \<Longrightarrow> answers rt S calls conn p p'"
  by (rule answers_quiet[of _ _ "[]"]) simp_all

lemma answers_emit: "(\<And>bytes. Sent_to conn bytes \<notin> set es) \<Longrightarrow> answers rt S calls conn p (pv_emit es p)"
  by (rule answers_quiet[of _ _ es]) simp_all

lemma CallAndMeasure_answers:
  assumes small: "frames_small rt S" and t: "tasks_issued (service_map p) calls conn {t}"
    and c: "CallAndMeasure rt S now c t p = (ok, p')"
  shows "answers rt S calls conn p p'"
proof -
  let ?out = "sv_handle S (rt_service t) (rt_method t) (rt_request t)"
  let ?r = "SendResponseClosure_Run rt t (ho_response ?out) p"
  have m: "service_map ?r = service_map p"
    by (auto simp: SendResponseClosure_Run_def SendRpcResponse_def split: option.splits)
  have reply: "pb_framing rt (pb_reply (service_map p) S calls) bytes"
    if "rt_conn t = conn" "ho_response ?out = Some body" "frame_bytes rt (response_header (rt_request_id t) body) body = Some bytes"
    for body bytes
  proof -
    let ?h = "response_header (rt_request_id t) body"
    have "issued_task (service_map p) calls t" using t that(1) by (simp add: tasks_issued_def)
    then obtain a svc info where a: "(rt_request_id t, a) \<in> set calls" "call_request a svc (rt_method t) (rt_request t)"
      "map_of (service_map p) svc = Some info" "rt_service t = si_service info"
      unfolding issued_task_def by blast
    then have "reply_of (service_map p) S a body" using that(2) unfolding reply_of_def by metis
    with a(1) have "pb_reply (service_map p) S calls ?h body"
      unfolding pb_reply_def by (auto simp: response_header_def Clear_def)
    moreover have "header_fits rt ?h body" using small that(2) unfolding frames_small_def by blast
    ultimately show ?thesis using that(3) unfolding pb_framing_def by blast
  qed
  have "answers rt S calls conn p ?r"
    unfolding answers_def using reply by (auto simp: m Closure_Run_effects split: option.splits)
  moreover obtain m where "p' = (if ho_runs_done ?out then ?r else p)\<lparr>pv_metrics := m\<rparr>"
    using c by (auto simp: CallAndMeasure_def Let_def)
  then have "answers rt S calls conn (if ho_runs_done ?out then ?r else p) p'" by (intro answers_same) simp_all
  ultimately show ?thesis using answers_trans by (cases "ho_runs_done ?out") auto
qed

lemma worker_run_answers:
  assumes "frames_small rt S" "tasks_issued (service_map p) calls conn {t}"
  shows "answers rt S calls conn p (worker_run rt S now c t p)"
proof -
  obtain ok p1 where c: "CallAndMeasure rt S now c t p = (ok, p1)" by (rule prod.exhaust)
  show ?thesis
    unfolding worker_run_def c prod.case
    by (rule answers_trans[OF CallAndMeasure_answers[OF assms c] answers_emit]) auto
qed

text \<open>A task is queued, waits, or runs at once.\<close>

definition tasks_of :: "provider \<Rightarrow> RpcTask set" where
  "tasks_of p = set (task_queue p) \<union> set_option (waiting_task p)"

lemma submit_task_answers:
  assumes small: "frames_small rt S" and t: "tasks_issued (service_map p) calls conn {t}"
    and s: "submit_task rt S now c t p = (p', go_on)"
  shows "answers rt S calls conn p p' \<and> tasks_of p' \<subseteq> insert t (tasks_of p)"
proof (cases "EnqueueTask t p")
  case None
  with s show ?thesis by (auto simp: submit_task_def tasks_of_def intro: answers_same)
next
  case (Some r)
  show ?thesis
  proof (cases "fst r")
    case True
    with s Some have "EnqueueTask t p = Some (True, p')" by (cases r) (simp add: submit_task_def)
    then have "task_queue p' = task_queue p @ [t]" "service_map p' = service_map p" "pv_effects p' = pv_effects p"
      "waiting_task p' = waiting_task p"
      by (auto simp: EnqueueTask_def Let_def split: if_splits)
    then show ?thesis by (auto simp: tasks_of_def intro: answers_same)
  next
    case False
    with Some have r: "r = (False, p)" by (auto simp: EnqueueTask_def Let_def split: if_splits)
    obtain ok p2 where c: "CallAndMeasure rt S now c t p = (ok, p2)" by (rule prod.exhaust)
    with s Some r have p': "p' = pv_emit [Freed_request (rt_id t)] p2" by (simp add: submit_task_def)
    have "task_queue p2 = task_queue p \<and> waiting_task p2 = waiting_task p"
      using c by (auto simp: CallAndMeasure_def Let_def)
    with answers_trans[OF CallAndMeasure_answers[OF small t c] answers_emit] show ?thesis
      by (auto simp: p' tasks_of_def)
  qed
qed

lemma request_task_issued:
  assumes "k = conn \<longrightarrow> pb_request calls h b" "msg_type h = MSG_TYPE_REQUEST" "map_of M (service_name h) = Some info"
  shows "tasks_issued M calls conn {\<lparr>rt_id = n, rt_service = si_service info, rt_method = method_name h,
    rt_request = b, rt_conn = k, rt_request_id = request_id h\<rparr>}"
proof (cases "k = conn")
  case True
  with assms(1,2) obtain i a svc mname where a: "(i, a) \<in> set calls" "call_request a svc mname b"
    "h = request_header i svc mname b"
    by (auto simp: pb_request_def ping_header_def Clear_def msg_type_defs)
  have "service_name h = svc" "method_name h = mname" "request_id h = i" by (simp_all add: a(3) request_header_def)
  with a(1,2) assms(3) show ?thesis unfolding tasks_issued_def issued_task_def by auto
qed (simp add: tasks_issued_def)

lemma OnMessage_frame_answers:
  assumes small: "frames_small rt S" and h: "k = conn \<longrightarrow> pb_request calls h b"
    and p: "tasks_issued (service_map p) calls conn (tasks_of p)"
    and f: "OnMessage_frame rt S now ts c k (h, b) p = (p', go_on)"
  shows "answers rt S calls conn p p' \<and> tasks_issued (service_map p') calls conn (tasks_of p')"
proof -
  let ?p = "TouchConnection ts k p"
  have touch: "service_map ?p = service_map p" "tasks_of ?p = tasks_of p" by (simp_all add: tasks_of_def)
  have t0: "answers rt S calls conn p ?p" by (rule answers_same) simp_all
  have pong: "answers rt S calls conn p (HandleHeartbeatFrame rt k h ?p) \<and> tasks_of (HandleHeartbeatFrame rt k h ?p) = tasks_of p"
  proof -
    let ?h = "heartbeat_header MSG_TYPE_PONG (request_id h)"
    have "pb_reply (service_map p) S calls ?h []" by (simp add: pb_reply_def heartbeat_header_def Clear_def)
    then have "pb_framing rt (pb_reply (service_map p) S calls) bytes" if "frame_bytes rt ?h [] = Some bytes" for bytes
      using small that unfolding pb_framing_def frames_small_def by blast
    then show ?thesis
      by (auto simp: HandleHeartbeatFrame_def SendHeartbeatFrame_def tasks_of_def answers_def pv_emit_def split: option.splits)
  qed
  have close: "answers rt S calls conn p (pv_emit [Force_closed k] ?p)"
    by (rule answers_trans[OF t0 answers_emit]) simp
  have task: "answers rt S calls conn p q \<and> tasks_issued (service_map q) calls conn (tasks_of q)"
    if s: "submit_task rt S now c t (?p\<lparr>next_task := m\<rparr>) = (q, g)" and t: "tasks_issued (service_map p) calls conn {t}" for q g t m
  proof -
    have "answers rt S calls conn p (?p\<lparr>next_task := m\<rparr>)" by (rule answers_same) simp_all
    with submit_task_answers[OF small _ s, of calls conn] t touch have
      a: "answers rt S calls conn p q" "tasks_of q \<subseteq> insert t (tasks_of p)"
      by (auto simp: tasks_of_def intro: answers_trans)
    moreover have "service_map q = service_map p" using a(1) by (simp add: answers_def)
    ultimately show ?thesis using p t by (auto simp: tasks_issued_def)
  qed
  have same: "tasks_of (pv_emit [Force_closed k] ?p) = tasks_of p" by (simp add: tasks_of_def)
  show ?thesis
  proof (cases "p' = ?p \<or> p' = HandleHeartbeatFrame rt k h ?p \<or> p' = pv_emit [Force_closed k] ?p")
    case True
    then have "answers rt S calls conn p p' \<and> tasks_of p' = tasks_of p" using t0 pong close same touch by metis
    with p show ?thesis by (auto simp: answers_def)
  next
    case False
    with f obtain info where "msg_type h = MSG_TYPE_REQUEST" "map_of (service_map p) (service_name h) = Some info"
      "submit_task rt S now c \<lparr>rt_id = next_task p, rt_service = si_service info, rt_method = method_name h, rt_request = b,
         rt_conn = k, rt_request_id = request_id h\<rparr> (?p\<lparr>next_task := Suc (next_task p)\<rparr>) = (p', go_on)"
      by (auto simp: OnMessage_frame_def Let_def split: option.splits if_splits)
    with task request_task_issued[OF h] show ?thesis by blast
  qed
qed

end
