(* ===== verification/Rpc_Session.thy ===== *)
theory Rpc_Session
  imports Rpc_Streams
begin

section \<open>A protobuf session: client, network and server\<close>

text \<open>
  The composition of a \<open>KrpcChannel\<close> with all its threads, the network, and a \<open>KrpcProvider\<close> with its I/O threads
  and workers. A state holds the client (\<open>threads\<close>), the server (\<open>server\<close>) and the bytes under way in either
  direction of the current connection; TCP delivers them in order and in pieces. Whatever else the server
  receives, from other clients or from connections that were left, is arbitrary. \<open>cs_calls\<close> is a history of the
  calls that were given a request id.
  A connection that the client gets must be a clean one (\<open>clean_connection\<close>): it is not taken from the pool, where
  responses to calls of its last owner may still arrive on it, and the receive buffer is empty, which
  \<open>HandleHeartbeatFailure\<close> does not see to (\<open>stale_bytes_swallow_response\<close>). A step to another connection is not
  a step of the session, and what is proved here holds up to that point.
\<close>

record call_session =
  cs_client :: threads
  cs_server :: server
  cs_conn :: nat
  cs_to_server :: string
  cs_to_client :: string
  cs_calls :: issued_calls

definition new_call_session :: "chan_state \<Rightarrow> provider \<Rightarrow> nat \<Rightarrow> call_session" where
  "new_call_session st p conn = \<lparr>cs_client = \<lparr>th_chan = st, th_callers = []\<rparr>, cs_server = new_server p, cs_conn = conn,
     cs_to_server = [], cs_to_client = [], cs_calls = []\<rparr>"

subsection \<open>Steps\<close>

text \<open>The lengths of a request fit into its header; the code does not check them.\<close>

definition call_fits :: "pb_runtime \<Rightarrow> u64 \<Rightarrow> call_args \<Rightarrow> bool" where
  "call_fits rt i a \<longleftrightarrow> (\<forall>svc mname req. call_request a svc mname req \<longrightarrow> header_fits rt (request_header i svc mname req) req)"

text \<open>A step of the client that reads nothing, with the calls made before and after it.\<close>

inductive client_step :: "pb_runtime \<Rightarrow> net_env \<Rightarrow> discovery \<Rightarrow> (nat \<Rightarrow> string \<Rightarrow> bool) \<Rightarrow>
    issued_calls \<Rightarrow> threads \<Rightarrow> issued_calls \<Rightarrow> threads \<Rightarrow> bool" for rt E D parse where
  call: "ids_left (th_chan t) \<Longrightarrow> prepare_call rt E D a (th_chan t) = (Some pr, st') \<Longrightarrow> i = p_request_id (pr_pending pr) \<Longrightarrow>
    call_fits rt i a \<Longrightarrow>
    client_step rt E D parse calls t (calls @ [(i, a)]) \<lparr>th_chan = st', th_callers = Prepared pr # th_callers t\<rparr>"
| own: "chan_own_step rt E D t t' \<Longrightarrow> client_step rt E D parse calls t calls t'"
| recv_end: "(\<And>bytes. ob \<noteq> Recv_data bytes) \<Longrightarrow>
    client_step rt E D parse calls t calls (t\<lparr>th_chan := RecvLoop_turn rt E parse ob (th_chan t)\<rparr>)"

definition chan_news :: "threads \<Rightarrow> threads \<Rightarrow> effect list" where
  "chan_news t t' = drop (length (w_effects (snd (th_chan t)))) (w_effects (snd (th_chan t')))"

definition sent_to :: "nat \<Rightarrow> provider_effect list \<Rightarrow> string" where
  "sent_to conn es = concat (List.map_filter
     (\<lambda>e. case e of Sent_to c bytes \<Rightarrow> (if c = conn then Some bytes else None) | _ \<Rightarrow> None) es)"

definition same_connection :: "threads \<Rightarrow> threads \<Rightarrow> bool" where
  "same_connection t t' \<longleftrightarrow> m_clientfd (fst (th_chan t')) = m_clientfd (fst (th_chan t)) \<and>
     m_recv_buffer (fst (th_chan t')) = m_recv_buffer (fst (th_chan t))"

definition clean_connection :: "threads \<Rightarrow> threads \<Rightarrow> bool" where
  "clean_connection t t' \<longleftrightarrow> (case (th_chan t, th_chan t') of ((ch, w), (ch', w')) \<Rightarrow>
     m_clientfd ch' = -1 \<or>
     m_recv_buffer ch' = [] \<and> (m_use_pool ch' \<longrightarrow> m_clientfd ch' \<noteq> m_clientfd ch \<and> m_clientfd ch' \<notin># idle_fds (w_pools w)))"

definition server_tasks :: "server \<Rightarrow> RpcTask set" where
  "server_tasks s = set (task_queue (srv_provider s)) \<union> snd ` set (srv_waiting s) \<union> set (srv_running s)"

definition unseen_conn :: "nat \<Rightarrow> call_session \<Rightarrow> bool" where
  "unseen_conn c Z \<longleftrightarrow> c \<noteq> cs_conn Z \<and> c \<notin> rt_conn ` server_tasks (cs_server Z) \<and> srv_buffers (cs_server Z) c = []"

text \<open>\<open>stay\<close> and \<open>leave\<close> are the steps of the client on its connection and from one to another, \<open>serve\<close> is every step
  of the server but one that puts new bytes into the buffer of the current connection: that is \<open>deliver\<close>.\<close>

inductive rpc_step :: "pb_runtime \<Rightarrow> net_env \<Rightarrow> discovery \<Rightarrow> (nat \<Rightarrow> string \<Rightarrow> bool) \<Rightarrow> services \<Rightarrow>
    call_session \<Rightarrow> call_session \<Rightarrow> bool" for rt E D parse S where
  stay: "client_step rt E D parse (cs_calls Z) (cs_client Z) calls t' \<Longrightarrow> same_connection (cs_client Z) t' \<Longrightarrow>
    rpc_step rt E D parse S Z (Z\<lparr>cs_client := t', cs_calls := calls,
      cs_to_server := cs_to_server Z @ sent_bytes (chan_news (cs_client Z) t')\<rparr>)"
| leave: "client_step rt E D parse (cs_calls Z) (cs_client Z) calls t' \<Longrightarrow> clean_connection (cs_client Z) t' \<Longrightarrow>
    unseen_conn c Z \<Longrightarrow>
    rpc_step rt E D parse S Z (Z\<lparr>cs_client := t', cs_calls := calls, cs_conn := c, cs_to_server := [], cs_to_client := []\<rparr>)"
| receive: "m_clientfd (fst (th_chan t)) \<noteq> -1 \<Longrightarrow> t = cs_client Z \<Longrightarrow> cs_to_client Z = bytes @ rest \<Longrightarrow>
    rpc_step rt E D parse S Z (Z\<lparr>cs_client := t\<lparr>th_chan := RecvLoop_turn rt E parse (Recv_data bytes) (th_chan t)\<rparr>,
      cs_to_client := rest\<rparr>)"
| deliver: "cs_conn Z \<notin> fst ` set (srv_waiting (cs_server Z)) \<Longrightarrow> cs_to_server Z = bytes @ rest \<Longrightarrow>
    buffers = srv_buffers (cs_server Z) \<Longrightarrow>
    rpc_step rt E D parse S Z (Z\<lparr>cs_server := (cs_server Z)\<lparr>srv_buffers := buffers(cs_conn Z := buffers (cs_conn Z) @ bytes)\<rparr>,
      cs_to_server := rest\<rparr>)"
| serve: "server_step rt S (cs_server Z) s' \<Longrightarrow>
    length (srv_buffers s' (cs_conn Z)) \<le> length (srv_buffers (cs_server Z) (cs_conn Z)) \<Longrightarrow>
    rpc_step rt E D parse S Z (Z\<lparr>cs_server := s', cs_to_client := cs_to_client Z @
      sent_to (cs_conn Z) (drop (length (pv_effects (srv_provider (cs_server Z)))) (pv_effects (srv_provider s')))\<rparr>)"

text \<open>A session is made of steps of the client and steps of the server, so what is proved of each holds here.\<close>

lemma th_eta:
  "\<lparr>th_chan = th_chan t, th_callers = th_callers t\<rparr> = t" "t\<lparr>th_chan := st\<rparr> = \<lparr>th_chan = st, th_callers = th_callers t\<rparr>"
  by (cases t; simp)+

lemma client_step_chan:
  assumes "client_step rt E D parse calls t calls' t'"
  shows "chan_step rt E D parse t t'"
  using assms
proof cases
  case (call a pr st' i)
  with chan_step.call[of "th_chan t" rt E D a pr st' parse "th_callers t"] show ?thesis by (simp add: th_eta)
next
  case own
  then show ?thesis by (intro chan_step.own)
next
  case (recv_end ob)
  with chan_step.recv[of rt E D parse "th_chan t" "th_callers t" ob] show ?thesis by (simp add: th_eta)
qed

lemma rpc_step_client:
  assumes "rpc_step rt E D parse S Z Z'"
  shows "cs_client Z' = cs_client Z \<or> chan_step rt E D parse (cs_client Z) (cs_client Z')"
  using assms
proof cases
  case (receive t bytes rest)
  with chan_step.recv[of rt E D parse "th_chan t" "th_callers t" "Recv_data bytes"] show ?thesis by (simp add: th_eta)
qed (auto dest: client_step_chan)

lemma rpc_step_server:
  "rpc_step rt E D parse S Z Z' \<Longrightarrow> cs_server Z' = cs_server Z \<or> server_step rt S (cs_server Z) (cs_server Z')"
  by (induction rule: rpc_step.cases) (simp_all add: server_step.receive)

interpretation rpc_calls: call_protocol "rpc_step rt E D parse S" "\<lambda>Z. th_view (cs_client Z)" "\<lambda>Z. th_ok (cs_client Z)"
  for rt E D parse S
proof
  fix Z Z' :: call_session
  assume "th_ok (cs_client Z)" "rpc_step rt E D parse S Z Z'"
  with rpc_step_client[of rt E D parse S Z Z'] show "th_ok (cs_client Z')" "call_step\<^sup>*\<^sup>* (th_view (cs_client Z)) (th_view (cs_client Z'))"
    using channel_calls.ok_step channel_calls.refines by fastforce+
qed

subsection \<open>The client keeps its promises\<close>

definition caller_holds :: "pb_runtime \<Rightarrow> service_table \<Rightarrow> services \<Rightarrow> issued_calls \<Rightarrow> threads \<Rightarrow> bool" where
  "caller_holds rt M S calls t \<longleftrightarrow> chan_holds rt M S calls (th_chan t) \<and> phases_hold rt calls (th_callers t)"

lemma caller_holds_more:
  "caller_holds rt M S calls t \<Longrightarrow> set calls \<subseteq> set calls' \<Longrightarrow> caller_holds rt M S calls' t"
  using chan_holds_more phases_hold_more unfolding caller_holds_def by blast

lemma phases_hold_sub: "phases_hold rt calls cs \<Longrightarrow> set cs' \<subseteq> set cs \<Longrightarrow> phases_hold rt calls cs'"
  unfolding phases_hold_def by blast

lemma chan_news_append: "w_effects (snd (th_chan t')) = w_effects (snd (th_chan t)) @ es \<Longrightarrow> chan_news t t' = es"
  by (simp add: chan_news_def)

lemma chan_news_local: "chan_local (th_chan t) (th_chan t') \<Longrightarrow> sent_bytes (chan_news t t') = []"
  unfolding chan_local_def by (auto simp: chan_news_append sent_bytes_silent)

text \<open>What a step of the client means for the connection that it keeps: whole requests were written.\<close>

definition client_keeps :: "pb_runtime \<Rightarrow> service_table \<Rightarrow> services \<Rightarrow> issued_calls \<Rightarrow> threads \<Rightarrow> threads \<Rightarrow> bool" where
  "client_keeps rt M S calls t t' \<longleftrightarrow> caller_holds rt M S calls t' \<and>
     (same_connection t t' \<longrightarrow> requests rt calls (sent_bytes (chan_news t t')))"

lemma client_keeps_local:
  assumes "caller_holds rt M S calls t" "chan_local (th_chan t) (th_chan t')" "phases_hold rt calls (th_callers t')"
  shows "client_keeps rt M S calls t t'"
  using assms chan_holds_local[OF _ assms(2)] chan_news_local[OF assms(2)]
  by (simp add: client_keeps_def caller_holds_def stream_Nil)

lemma client_keeps_sent:
  assumes "caller_holds rt M S calls t" "pb_framing rt (pb_request calls) s" "phases_hold rt calls (th_callers t')"
    "w_effects (snd (th_chan t')) = w_effects (snd (th_chan t)) @ [Bytes_sent f s]"
    "set (m_send_queue (fst (th_chan t'))) \<subseteq> set (m_send_queue (fst (th_chan t)))"
    "m_pending_calls (fst (th_chan t')) = m_pending_calls (fst (th_chan t))"
  shows "client_keeps rt M S calls t t'"
proof -
  have "table_responses (fst (th_chan t')) = table_responses (fst (th_chan t))" by (simp add: table_responses_def assms(6))
  with assms chan_holds_sent[of rt M S calls "th_chan t" "th_chan t'" f s] stream_one[of "pb_framing rt (pb_request calls)" s] show ?thesis
    by (simp add: client_keeps_def caller_holds_def chan_news_append[OF assms(4)])
qed

lemma client_keeps_send:
  assumes c: "caller_holds rt M S calls t" and s: "SendLoop_turn E ws (th_chan t) = Some (th_chan t')"
    and cs: "th_callers t' = th_callers t"
  shows "client_keeps rt M S calls t t'"
proof -
  obtain ch w where st: "th_chan t = (ch, w)" by (rule prod.exhaust)
  have p: "phases_hold rt calls (th_callers t')" using c by (simp add: caller_holds_def cs)
  from s[unfolded st] show ?thesis
  proof (cases rule: SendLoop_turn_writes)
    case local
    from client_keeps_local[OF c _ p] local show ?thesis by (simp add: st)
  next
    case (sent task queue)
    have "pb_framing rt (pb_request calls) (task_frame task)"
      using c sent(1) by (auto simp: caller_holds_def chan_holds_def st)
    from client_keeps_sent[OF c this p] sent show ?thesis by (auto simp: st emit_def)
  next
    case (broken out)
    have "chan_holds rt M S calls (ch, emit [Bytes_sent (m_clientfd ch) out] w)"
      using c by (auto simp: caller_holds_def st emit_def intro: chan_holds_sent)
    from chan_holds_local[OF this broken(3)] broken(1,2) p show ?thesis
      by (simp add: client_keeps_def caller_holds_def same_connection_def st)
  qed
qed

lemma client_keeps_own:
  assumes c: "caller_holds rt M S calls t" and small: "frames_small rt S" and st: "chan_own_step rt E D t t'"
  shows "client_keeps rt M S calls t t'"
proof -
  have p: "phases_hold rt calls (th_callers t)" using c by (simp add: caller_holds_def)
  note local = client_keeps_local[OF c]
  from st show ?thesis
  proof cases
    case (call_failed st a st' cs)
    with local[of t'] chan_local_prepare_call p show ?thesis by simp
  next
    case (insert pr cs st)
    have i: "issued_prepared rt calls pr" using p insert(1,3) by (simp add: phases_hold_def)
    have "phases_hold rt calls (th_callers t')"
      using p i insert(1) set_remove1_subset[of "Prepared pr" cs] by (auto simp: insert(2) phases_hold_def)
    with c chan_holds_insert[OF _ i, of M S st] insert(1) show ?thesis
      by (auto simp: client_keeps_def caller_holds_def insert(2) chan_news_def insert_call_def stream_Nil split: prod.splits)
  next
    case (callback pr cs st)
    have i: "issued_prepared rt calls pr" using p callback(1,3) by (simp add: phases_hold_def)
    have "phases_hold rt calls (th_callers t')"
      using p i callback(1) set_remove1_subset[of "Inserted pr" cs] by (auto simp: callback(2) phases_hold_def)
    with local[of t'] callback chan_local_set_callback show ?thesis by simp
  next
    case (enqueue pr cs st)
    have i: "issued_prepared rt calls pr" using p enqueue(1,3) by (simp add: phases_hold_def)
    have "phases_hold rt calls (th_callers t')"
      using p enqueue(1) set_remove1_subset[of "Called_back pr" cs] by (auto simp: enqueue(2) phases_hold_def)
    with c chan_holds_enqueue[OF _ i, of M S st] enqueue(1) show ?thesis
      by (auto simp: client_keeps_def caller_holds_def enqueue(2) chan_news_def enqueue_call_def stream_Nil split: prod.splits)
  next
    case (wait_over q cs st ready)
    with local[of t'] chan_local_CallMethod_wait phases_hold_sub[OF p set_remove1_subset] show ?thesis by simp
  next
    case (send ws st st' cs)
    with client_keeps_send[OF c, of E ws t'] show ?thesis by simp
  next
    case (timeout st cs)
    with local[of t'] chan_local_TimeoutLoop_turn p show ?thesis by simp
  next
    case (heartbeat st ok r st' cs)
    from heartbeat(4) show ?thesis
    proof (cases rule: SendHeartbeat_start_writes)
      case local
      with client_keeps_local[OF c, of t'] heartbeat p show ?thesis by simp
    next
      case (sent i bytes)
      have "pb_request calls (ping_header i) []" unfolding pb_request_def by blast
      with small sent(1) have "pb_framing rt (pb_request calls) bytes"
        unfolding pb_framing_def frames_small_def by blast
      from client_keeps_sent[OF c this, of t'] sent heartbeat p show ?thesis by simp
    qed
  next
    case (heartbeat_end st r st1 cs)
    with local[of t'] chan_local_heartbeat_end p show ?thesis by simp
  qed
qed

lemma prepare_call_issues:
  assumes p: "prepare_call rt E D a (th_chan t) = (Some pr, st')" and i: "i = p_request_id (pr_pending pr)"
    and fits: "call_fits rt i a" and a: "(i, a) \<in> set calls"
  shows "issued_prepared rt calls pr"
proof -
  from p obtain md svc args resp where pr: "ca_method a = Some md" "md_service md = Some svc"
    "ca_request a = Some (Some args)" "ca_response a = Some resp" "p_response (pr_pending pr) = Some resp"
    "pr_body pr = args" "p_request_id (pr_pending pr) = g_request_id (snd (th_chan t))"
    "frame_bytes rt (request_header (g_request_id (snd (th_chan t))) svc (md_name md) args) args =
       Some (pr_varint pr @ pr_header pr @ pr_body pr)"
    by (rule prepare_call_frame)
  let ?h = "request_header i svc (md_name md) args"
  have c: "call_request a svc (md_name md) args" using pr(1-3) by (auto simp: call_request_def)
  then have "header_fits rt ?h args" "pb_request calls ?h args"
    using fits a unfolding call_fits_def pb_request_def by blast+
  with pr(7,8) i have "pb_framing rt (pb_request calls) (pr_varint pr @ pr_header pr @ pr_body pr)"
    unfolding pb_framing_def by auto
  moreover have "(i, p_response (pr_pending pr)) \<in> call_responses calls"
    using a pr(4,5) unfolding call_responses_def by force
  ultimately show ?thesis using i by (simp add: issued_prepared_def)
qed

lemma client_step_keeps:
  assumes c: "caller_holds rt M S calls t" and small: "frames_small rt S" and st: "client_step rt E D parse calls t calls' t'"
  shows "client_keeps rt M S calls' t t' \<and> set calls \<subseteq> set calls'"
  using st
proof cases
  case (call a pr st' i)
  have more: "set calls \<subseteq> set calls'" by (auto simp: call(1))
  note c' = caller_holds_more[OF c more]
  have "issued_prepared rt calls' pr" by (rule prepare_call_issues[OF call(4,5,6)]) (simp add: call(1))
  with c' have "phases_hold rt calls' (th_callers t')" by (auto simp: caller_holds_def call(2) phases_hold_def)
  with client_keeps_local[OF c', of t'] chan_local_prepare_call[OF call(4)] more show ?thesis by (simp add: call(2))
next
  case own
  with client_keeps_own[OF c small] show ?thesis by simp
next
  case (recv_end ob)
  have "\<forall>bytes. ob \<noteq> Recv_data bytes" using recv_end(3) by blast
  then have "chan_local (th_chan t) (RecvLoop_turn rt E parse ob (th_chan t))"
    by (cases ob) (simp_all add: RecvLoop_turn_def chan_local_refl chan_local_HandleHeartbeatFailure)
  with client_keeps_local[OF c, of t'] c recv_end(1,2) show ?thesis by (simp add: caller_holds_def)
qed

subsection \<open>The server keeps its promises\<close>

definition provider_holds :: "pb_runtime \<Rightarrow> issued_calls \<Rightarrow> nat \<Rightarrow> string \<Rightarrow> server \<Rightarrow> bool" where
  "provider_holds rt calls conn u s \<longleftrightarrow> waiting_task (srv_provider s) = None \<and>
     tasks_issued (service_map (srv_provider s)) calls conn (server_tasks s) \<and> requests rt calls (srv_buffers s conn @ u)"

lemma tasks_issued_sub: "tasks_issued M calls conn T \<Longrightarrow> U \<subseteq> T \<Longrightarrow> tasks_issued M calls conn U"
  unfolding tasks_issued_def by blast

lemma provider_holds_more:
  assumes "provider_holds rt calls conn u s" "set calls \<subseteq> set calls'"
  shows "provider_holds rt calls' conn u s"
proof -
  have "issued_task M calls' t" if "issued_task M calls t" for M t
    using that assms(2) unfolding issued_task_def by blast
  with assms(1) requests_mono[OF _ assms(2)] show ?thesis unfolding provider_holds_def tasks_issued_def by blast
qed

lemma submit_task_waiting: "submit_task rt S now c t p = (p', True) \<Longrightarrow> waiting_task p' = waiting_task p"
  by (auto simp: submit_task_def EnqueueTask_def CallAndMeasure_def Let_def split: if_splits)

text \<open>A step that leaves the tasks and the buffer as they are, or fewer of them.\<close>

lemma provider_holds_answers:
  assumes "provider_holds rt calls conn u s" "answers rt S calls conn (srv_provider s) (srv_provider s')"
    "waiting_task (srv_provider s') = None" "server_tasks s' \<subseteq> server_tasks s" "srv_buffers s' conn = srv_buffers s conn"
  shows "provider_holds rt calls conn u s' \<and> answers rt S calls conn (srv_provider s) (srv_provider s')"
proof -
  have "service_map (srv_provider s') = service_map (srv_provider s)" using assms(2) by (simp add: answers_def)
  with assms tasks_issued_sub[OF _ assms(4)] show ?thesis by (simp add: provider_holds_def)
qed

lemma server_step_frame:
  assumes rt: "rt_ok rt" and small: "frames_small rt S" and s: "provider_holds rt calls conn u s"
    and g: "provider_next_frame rt (srv_buffers s k) = Got f n"
    and f: "OnMessage_frame rt S now ts c k f (srv_provider s) = (p', go_on)"
    and s': "s' = settle k (drop n (srv_buffers s k)) p' s"
  shows "provider_holds rt calls conn u s' \<and> answers rt S calls conn (srv_provider s) (srv_provider s')"
proof -
  let ?p = "srv_provider s"
  obtain h b where hb: "f = (h, b)" by (rule prod.exhaust)
  have p: "waiting_task ?p = None" "tasks_issued (service_map ?p) calls conn (server_tasks s)"
    "requests rt calls (srv_buffers s conn @ u)" using s by (simp_all add: provider_holds_def)
  have r: "(k = conn \<longrightarrow> pb_request calls h b) \<and> requests rt calls (srv_buffers s' conn @ u)"
  proof (cases "k = conn")
    case True
    with g have "provider_next_frame rt (srv_buffers s conn) = Got f n" by simp
    from provider_frames.stream_got[OF rt requests_read_back[OF rt] p(3) this] True hb show ?thesis
      by (simp add: s' settle_def)
  next
    case False
    with p(3) show ?thesis by (simp add: s' settle_def)
  qed
  have q: "tasks_issued (service_map ?p) calls conn (tasks_of ?p)"
    by (rule tasks_issued_sub[OF p(2)]) (auto simp: tasks_of_def server_tasks_def p(1))
  from OnMessage_frame_answers[OF small _ q f[unfolded hb]] r
  have a: "answers rt S calls conn ?p p'" "tasks_issued (service_map p') calls conn (tasks_of p')" by blast+
  have "answers rt S calls conn ?p (srv_provider s')"
    by (rule answers_trans[OF a(1)]) (auto simp: s' settle_def intro: answers_same)
  moreover have m: "service_map (srv_provider s') = service_map ?p" using a(1) by (simp add: s' settle_def answers_def)
  have "server_tasks s' \<subseteq> server_tasks s \<union> tasks_of p'"
    by (auto simp: s' settle_def server_tasks_def tasks_of_def split: option.splits)
  with p(2) a have "tasks_issued (service_map ?p) calls conn (server_tasks s')"
    unfolding tasks_issued_def answers_def by auto
  ultimately show ?thesis using r m by (simp add: provider_holds_def s' settle_def)
qed

lemma server_step_keeps:
  assumes rt: "rt_ok rt" and small: "frames_small rt S" and s: "provider_holds rt calls conn u s"
    and st: "server_step rt S s s'" and quiet: "length (srv_buffers s' conn) \<le> length (srv_buffers s conn)"
  shows "provider_holds rt calls conn u s' \<and> answers rt S calls conn (srv_provider s) (srv_provider s')"
proof -
  let ?p = "srv_provider s"
  note sub = provider_holds_answers[OF s]
  have p: "waiting_task ?p = None" "tasks_issued (service_map ?p) calls conn (server_tasks s)"
    using s by (simp_all add: provider_holds_def)
  have one: "tasks_issued (service_map ?p) calls conn {t}" if "t \<in> server_tasks s" for t
    by (rule tasks_issued_sub[OF p(2)]) (simp add: that)
  from st show ?thesis
  proof cases
    case (receive k bytes)
    with quiet have "srv_buffers s' conn = srv_buffers s conn" by (auto split: if_splits)
    with sub[of S s'] p(1) receive(1) show ?thesis by (simp add: answers_same server_tasks_def)
  next
    case (frame k f n now ts c p' go_on)
    from server_step_frame[OF rt small s frame(3,4,1)] show ?thesis .
  next
    case (refuse k why)
    have "answers rt S calls conn ?p (srv_provider s')" unfolding refuse(1) by (simp add: answers_emit)
    from sub[OF this] p(1) show ?thesis by (simp add: refuse(1) server_tasks_def)
  next
    case (resume k t now c p')
    have t: "t \<in> server_tasks s" using resume(2) by (force simp: server_tasks_def)
    from submit_task_answers[OF small one[OF t] resume(3)]
    have a: "answers rt S calls conn ?p p'" "tasks_of p' \<subseteq> insert t (tasks_of ?p)" by blast+
    have "server_tasks s' \<subseteq> server_tasks s"
      using a(2) t p(1) set_remove1_subset[of "(k, t)" "srv_waiting s"]
      by (auto simp: resume(1) server_tasks_def tasks_of_def)
    with sub[of S s'] a(1) submit_task_waiting[OF resume(3)] p(1) show ?thesis by (simp add: resume(1))
  next
    case (take t p')
    have "service_map p' = service_map ?p" using take(2) by (auto simp: worker_take_def split: list.splits)
    moreover have "server_tasks s' \<subseteq> server_tasks s"
      using worker_takeD[OF take(2)] by (auto simp: take(1) server_tasks_def)
    ultimately show ?thesis using sub[of S s'] worker_takeD[OF take(2)] p(1) by (simp add: take(1) answers_same)
  next
    case (run t now c)
    let ?q = "worker_run rt S now c t ?p"
    have "t \<in> server_tasks s" using run(2) by (simp add: server_tasks_def)
    from worker_run_answers[OF small one[OF this]] have a: "answers rt S calls conn ?p ?q" .
    have "task_queue ?q = task_queue ?p \<and> waiting_task ?q = waiting_task ?p"
      by (auto simp: worker_run_def CallAndMeasure_def Let_def split: prod.splits)
    moreover have "server_tasks s' \<subseteq> server_tasks s"
      using calculation set_remove1_subset[of t "srv_running s"] by (auto simp: run(1) server_tasks_def)
    ultimately show ?thesis using sub[of S s'] a p(1) by (simp add: run(1))
  next
    case (connection ts k established)
    have "answers rt S calls conn ?p (srv_provider s')"
      by (rule answers_quiet[of _ _ "if established then [] else [Shut_down k]"])
        (auto simp: connection OnConnection_def RegisterConnection_def RemoveConnection_def)
    from sub[OF this] p(1) show ?thesis by (simp add: connection server_tasks_def)
  next
    case (idle_scan ts)
    have "answers rt S calls conn ?p (srv_provider s')"
      unfolding idle_scan by (simp add: OnIdleScan_def, rule answers_emit) auto
    from sub[OF this] p(1) show ?thesis by (simp add: idle_scan server_tasks_def OnIdleScan_def)
  next
    case stop
    with sub[of S s'] p(1) show ?thesis by (simp add: server_tasks_def answers_same)
  next
    case (joined now c)
    with sub[of S s'] p(1) show ?thesis by (simp add: server_tasks_def StopWorkerPool_idle answers_same)
  qed
qed

text \<open>What the server sends on the connection is a sequence of whole replies.\<close>

lemma answers_sent:
  assumes "answers rt S calls conn p p'"
  shows "replies rt (service_map p) S calls (sent_to conn (drop (length (pv_effects p)) (pv_effects p')))"
proof -
  obtain es where es: "pv_effects p' = pv_effects p @ es"
    "\<forall>bytes. Sent_to conn bytes \<in> set es \<longrightarrow> pb_framing rt (pb_reply (service_map p) S calls) bytes"
    using assms unfolding answers_def by blast
  have "replies rt (service_map p) S calls (sent_to conn es)"
    unfolding sent_to_def
  proof (rule stream_concat)
    fix bytes
    assume "bytes \<in> set (List.map_filter
       (\<lambda>e. case e of Sent_to c bytes \<Rightarrow> (if c = conn then Some bytes else None) | _ \<Rightarrow> None) es)"
    then have "Sent_to conn bytes \<in> set es"
      by (auto simp: List.map_filter_def split: provider_effect.splits if_splits)
    then have "pb_framing rt (pb_reply (service_map p) S calls) bytes" using es(2) by blast
    then show "replies rt (service_map p) S calls bytes" by (rule stream_one)
  qed
  then show ?thesis by (simp add: es(1))
qed

subsection \<open>The invariant\<close>

text \<open>No request id is given out twice, and what arrives at a client that has a connection is a sequence of replies.\<close>

definition calls_new :: "call_session \<Rightarrow> bool" where
  "calls_new Z \<longleftrightarrow> distinct (map fst (cs_calls Z)) \<and>
     (\<forall>i\<in>set (map fst (cs_calls Z)). i < g_request_id (snd (th_chan (cs_client Z))))"

definition rpc_ok :: "pb_runtime \<Rightarrow> service_table \<Rightarrow> services \<Rightarrow> call_session \<Rightarrow> bool" where
  "rpc_ok rt M S Z \<longleftrightarrow> th_ok (cs_client Z) \<and> calls_new Z \<and> caller_holds rt M S (cs_calls Z) (cs_client Z) \<and>
     service_map (srv_provider (cs_server Z)) = M \<and>
     provider_holds rt (cs_calls Z) (cs_conn Z) (cs_to_server Z) (cs_server Z) \<and>
     (m_clientfd (fst (th_chan (cs_client Z))) \<noteq> -1 \<longrightarrow>
        replies rt M S (cs_calls Z) (m_recv_buffer (fst (th_chan (cs_client Z))) @ cs_to_client Z))"

lemma client_step_new:
  assumes st: "client_step rt E D parse calls t calls' t'" and ok: "th_ok t"
    and f: "distinct (map fst calls)" "\<forall>i\<in>set (map fst calls). i < g_request_id (snd (th_chan t))"
  shows "distinct (map fst calls') \<and> (\<forall>i\<in>set (map fst calls'). i < g_request_id (snd (th_chan t')))"
proof -
  have mono: "g_request_id (snd (th_chan t)) \<le> g_request_id (snd (th_chan t'))"
    using call_step_next[OF channel_calls.refines[OF ok client_step_chan[OF st]]] by (simp add: th_view_def)
  from st show ?thesis
  proof cases
    case (call a pr st' i)
    have i: "i = g_request_id (snd (th_chan t))" "g_request_id (snd (th_chan t')) = g_request_id (snd (th_chan t)) + 1"
      using prepare_call_view(2)[OF call(4)] call(5) by (simp_all add: call(2))
    with f word_less_succ[OF call(3)[unfolded ids_left_def]] show ?thesis by (auto simp: call(1))
  qed (use f mono in \<open>auto intro: less_le_trans\<close>)
qed

lemma rpc_step_new:
  assumes st: "rpc_step rt E D parse S Z Z'" and ok: "th_ok (cs_client Z)" and f: "calls_new Z"
  shows "calls_new Z'"
proof -
  have mono: "g_request_id (snd (th_chan (cs_client Z))) \<le> g_request_id (snd (th_chan (cs_client Z')))"
    using call_step_next[OF rpc_calls.refines[OF ok st]] by (simp add: th_view_def)
  from st show ?thesis
  proof cases
    case (stay calls t')
    with client_step_new[OF stay(2) ok] f show ?thesis by (simp add: calls_new_def)
  next
    case (leave calls t' c)
    with client_step_new[OF leave(2) ok] f show ?thesis by (simp add: calls_new_def)
  qed (use f mono in \<open>auto simp: calls_new_def intro: less_le_trans\<close>)
qed

lemma rpc_step_ok:
  assumes rt: "rt_ok rt" and small: "frames_small rt S" and st: "rpc_step rt E D parse S Z Z'" and ok: "rpc_ok rt M S Z"
  shows "rpc_ok rt M S Z'"
proof -
  have th: "th_ok (cs_client Z')" "calls_new Z'"
    using rpc_calls.ok_step[OF _ st] rpc_step_new[OF st] ok by (simp_all add: rpc_ok_def)
  have c: "caller_holds rt M S (cs_calls Z) (cs_client Z)" and m: "service_map (srv_provider (cs_server Z)) = M"
    and s: "provider_holds rt (cs_calls Z) (cs_conn Z) (cs_to_server Z) (cs_server Z)"
    and r: "m_clientfd (fst (th_chan (cs_client Z))) \<noteq> -1 \<Longrightarrow>
      replies rt M S (cs_calls Z) (m_recv_buffer (fst (th_chan (cs_client Z))) @ cs_to_client Z)"
    using ok by (simp_all add: rpc_ok_def)
  from st show ?thesis
  proof cases
    case (stay calls t')
    from client_step_keeps[OF c small stay(2)] have k: "client_keeps rt M S calls (cs_client Z) t'"
      and more: "set (cs_calls Z) \<subseteq> set calls" by blast+
    from k stay(3) have "caller_holds rt M S calls t'" "requests rt calls (sent_bytes (chan_news (cs_client Z) t'))"
      by (simp_all add: client_keeps_def)
    moreover have "provider_holds rt calls (cs_conn Z) (cs_to_server Z @ x) (cs_server Z)" if "requests rt calls x" for x
      using provider_holds_more[OF s more] stream_append[OF _ that] unfolding provider_holds_def
      by (metis append.assoc)
    ultimately show ?thesis
      using th m replies_mono[OF r more] stay(3) by (simp add: rpc_ok_def stay(1) same_connection_def)
  next
    case (leave calls t' c')
    from client_step_keeps[OF c small leave(2)] have "caller_holds rt M S calls t'" by (simp add: client_keeps_def)
    moreover have "provider_holds rt calls c' [] (cs_server Z)"
      using s leave(4) by (auto simp: provider_holds_def unseen_conn_def tasks_issued_def stream_Nil)
    moreover have "m_clientfd (fst (th_chan t')) \<noteq> -1 \<Longrightarrow> m_recv_buffer (fst (th_chan t')) = []"
      using leave(3) by (auto simp: clean_connection_def split: prod.splits)
    ultimately show ?thesis using th m by (simp add: rpc_ok_def leave(1) stream_Nil)
  next
    case (receive t bytes rest)
    let ?st = "RecvLoop_turn rt E parse (Recv_data bytes) (th_chan t)"
    have "chan_holds rt M S (cs_calls Z) (th_chan t)" "distinct (map fst (cs_calls Z))"
      using c ok receive(3) by (simp_all add: caller_holds_def rpc_ok_def calls_new_def)
    from RecvLoop_turn_reads[OF rt this(2,1) receive(2) _ refl, of bytes rest E parse] r receive
    have "chan_holds rt M S (cs_calls Z) ?st \<and> replies rt M S (cs_calls Z) (m_recv_buffer (fst ?st) @ rest)" by simp
    with th m s c show ?thesis by (simp add: rpc_ok_def receive(1,3) caller_holds_def)
  next
    case (deliver bytes rest buffers)
    with th m s c r show ?thesis by (simp add: rpc_ok_def provider_holds_def server_tasks_def)
  next
    case (serve s')
    from server_step_keeps[OF rt small s serve(2,3)]
    have k: "provider_holds rt (cs_calls Z) (cs_conn Z) (cs_to_server Z) s'"
      "answers rt S (cs_calls Z) (cs_conn Z) (srv_provider (cs_server Z)) (srv_provider s')" by blast+
    let ?new = "sent_to (cs_conn Z) (drop (length (pv_effects (srv_provider (cs_server Z)))) (pv_effects (srv_provider s')))"
    have "replies rt M S (cs_calls Z) ?new" using answers_sent[OF k(2)] m by simp
    note more = stream_append[OF r this]
    have "service_map (srv_provider s') = M" using k(2) m by (simp add: answers_def)
    with th k(1) c more show ?thesis by (simp add: rpc_ok_def serve(1))
  qed
qed

lemma rpc_steps_ok:
  "(rpc_step rt E D parse S)\<^sup>*\<^sup>* Z Z' \<Longrightarrow> rt_ok rt \<Longrightarrow> frames_small rt S \<Longrightarrow> rpc_ok rt M S Z \<Longrightarrow> rpc_ok rt M S Z'"
  by (induction rule: rtranclp_induct) (auto intro: rpc_step_ok)

subsection \<open>The start\<close>

lemma rpc_start:
  assumes "task_queue p = []" "waiting_task p = None" "w_effects w = []"
  shows "rpc_ok rt (service_map p) S (new_call_session (new_KrpcChannel E cfg False junk w) p conn) \<and>
    cv_ok (th_view (cs_client (new_call_session (new_KrpcChannel E cfg False junk w) p conn)))"
proof -
  obtain ch w1 where c: "new_KrpcChannel E cfg False junk w = (ch, w1)" by (rule prod.exhaust)
  then have f: "m_pending_calls ch = []" "m_send_queue ch = []" "m_clientfd ch = -1" "w_effects w1 = []"
    using assms(3) clock_now_frame by (auto simp: new_KrpcChannel_def config_channel_def Let_def split: prod.splits)
  then have v: "cv_ok (th_view \<lparr>th_chan = (ch, w1), th_callers = []\<rparr>)"
    by (simp add: th_view_def cv_ok_def pending_ids_def List.map_filter_def)
  with f assms(1,2) show ?thesis
    by (simp add: new_call_session_def c rpc_ok_def th_ok_def table_ok_def calls_new_def caller_holds_def chan_holds_def
        table_responses_def phases_hold_def provider_holds_def new_server_def server_tasks_def tasks_issued_def stream_Nil)
qed

end
