(* ===== verification/Wire_Instance.thy ===== *)
theory Wire_Instance
  imports Framing
begin

section \<open>A concrete wire format\<close>

text \<open>
  An instance of the protobuf runtime with the documented encoding: little-endian base-128
  varints of at most ten bytes, length-delimited strings, and unknown fields kept as raw bytes.
  It shows that the laws \<open>pb_ok\<close> can hold, and the witnesses of the wire properties run on it.
\<close>

fun varint_bytes :: "nat \<Rightarrow> string" where
  "varint_bytes n =
     (if n < 128 then [char_of n] else char_of (128 + n mod 128) # varint_bytes (n div 128))"

declare varint_bytes.simps [simp del]

fun read_varint :: "nat \<Rightarrow> string \<Rightarrow> (nat \<times> string) option" where
  "read_varint 0 s = None"
| "read_varint (Suc k) [] = None"
| "read_varint (Suc k) (c # cs) =
     (let b = of_char c :: nat
      in if b < 128 then Some (b, cs)
         else (case read_varint k cs of
                 None \<Rightarrow> None
               | Some (m, r) \<Rightarrow> Some (b - 128 + 128 * m, r)))"

lemma read_varint_bytes: "n < 128 ^ k \<Longrightarrow> 0 < k \<Longrightarrow> read_varint k (varint_bytes n @ r) = Some (n, r)"
proof (induction k arbitrary: n)
  case 0
  then show ?case by simp
next
  case (Suc k)
  show ?case
  proof (cases "n < 128")
    case True
    then show ?thesis by (subst varint_bytes.simps) simp
  next
    case False
    from Suc.prems have "n div 128 < 128 ^ k" by (simp add: less_mult_imp_div_less mult.commute)
    moreover from Suc.prems False have "0 < k" by (cases k) auto
    ultimately have ih: "read_varint k (varint_bytes (n div 128) @ r) = Some (n div 128, r)" by (rule Suc.IH)
    have "n mod 128 < 128" by simp
    then have "128 + n mod 128 < 256" by linarith
    then have "(of_char (char_of (128 + n mod 128)) :: nat) = 128 + n mod 128"
      by (simp only: of_char_of mod_less)
    with False ih show ?thesis by (subst varint_bytes.simps) (simp del: of_char_of)
  qed
qed

lemma read_varint_extend:
  "read_varint k s = Some (n, r) \<Longrightarrow>
     length r < length s \<and> (\<forall>t. read_varint k (s @ t) = Some (n, r @ t))"
proof (induction k s arbitrary: n r rule: read_varint.induct)
  case (3 k c cs)
  then show ?case by (fastforce simp: Let_def split: if_splits option.splits)
qed simp_all

lemma read_varint_small:
  "of_char c < (128 :: nat) \<Longrightarrow> read_varint 10 (c # cs) = Some (of_char c, cs)"
  using read_varint.simps(3)[of 9 c cs] by simp

definition read64 :: "string \<Rightarrow> (u64 \<times> string) option" where
  "read64 s = map_option (\<lambda>(n, r). (of_nat n, r)) (read_varint 10 s)"

definition read32 :: "string \<Rightarrow> (u32 \<times> string) option" where
  "read32 s = map_option (\<lambda>(n, r). (of_nat n, r)) (read_varint 10 s)"

definition read_bytes :: "string \<Rightarrow> (string \<times> string) option" where
  "read_bytes s =
     (case read_varint 5 s of
        None \<Rightarrow> None
      | Some (n, r) \<Rightarrow> if n \<le> length r then Some (take n r, drop n r) else None)"

definition read_unknown :: "u32 \<Rightarrow> string \<Rightarrow> (string \<times> string) option" where
  "read_unknown tag s =
     (case (if unat tag mod 8 = 0 then map_option snd (read_varint 10 s)
            else if unat tag mod 8 = 1 \<and> 8 \<le> length s then Some (drop 8 s)
            else if unat tag mod 8 = 2 then map_option snd (read_bytes s)
            else if unat tag mod 8 = 5 \<and> 4 \<le> length s then Some (drop 4 s)
            else None) of
        None \<Rightarrow> None
      | Some r \<Rightarrow> Some (varint_bytes (unat tag) @ take (length s - length r) s, r))"

definition wire_rt :: pb_runtime where
  "wire_rt = \<lparr>
     WriteUInt32ToArray = (\<lambda>f v. varint_bytes (8 * f) @ varint_bytes (unat v)),
     WriteUInt64ToArray = (\<lambda>f v. varint_bytes (8 * f) @ varint_bytes (unat v)),
     WriteEnumToArray = (\<lambda>f v. varint_bytes (8 * f) @ varint_bytes (unat (scast v :: u64))),
     WriteBytesMaybeAliased = (\<lambda>f s. varint_bytes (8 * f + 2) @ varint_bytes (length s) @ s),
     ReadTag = read32,
     ReadVarint32 = read32,
     ReadVarint64 = read64,
     InlineGreedyStringParser = read_bytes,
     UnknownFieldParse = read_unknown,
     UInt32Size = (\<lambda>v. length (varint_bytes (unat v))),
     UInt64Size = (\<lambda>v. length (varint_bytes (unat v))),
     EnumSize = (\<lambda>v. length (varint_bytes (unat (scast v :: u64)))),
     BytesSize = (\<lambda>s. length (varint_bytes (length s)) + length s),
     SerializeFits = (\<lambda>n. n < 2147483648),
     WriteVarint32 = (\<lambda>v. varint_bytes (unat v)),
     coded_ReadVarint32 = (\<lambda>s. map_option (\<lambda>(n, r). (of_nat n, length s - length r)) (read_varint 10 s)),
     coded_ReadString = (\<lambda>s n. if unat n < 2147483648 \<and> unat n \<le> length s
                              then Some (take (unat n) s) else None)\<rparr>"

lemma length_varint_1: "n < 128 \<Longrightarrow> length (varint_bytes n) = 1"
  by (subst varint_bytes.simps) simp

lemma wire_rt_ok: "pb_ok wire_rt varint_bytes"
proof -
  have rd: "read_varint 10 (varint_bytes n @ r) = Some (n, r)" if "n < 18446744073709551616" for n r
    using that by (intro read_varint_bytes) simp_all
  have rd32: "read_varint 10 (varint_bytes (unat v) @ r) = Some (unat v, r)" for v :: u32 and r
    using unat_bounds(2)[of v] by (intro rd) linarith
  have rd5: "read_varint 5 (varint_bytes n @ r) = Some (n, r)" if "n < 2147483648" for n r
    using that by (intro read_varint_bytes) simp_all
  have "pb_writes_ok wire_rt varint_bytes"
    by (simp add: pb_writes_ok_def wire_rt_def length_varint_1)
  moreover have "pb_reads_ok wire_rt varint_bytes"
    unfolding pb_reads_ok_def wire_rt_def
    by (auto simp: read32_def read64_def read_bytes_def rd rd32 rd5 dest!: read_varint_extend)
  ultimately show ?thesis by (simp add: pb_ok_def)
qed

lemma wire_rt_ok' [simp]: "rt_ok wire_rt"
  using wire_rt_ok by (auto simp: rt_ok_def)

end
