(* ===== verification/Support_Properties.thy ===== *)
theory Support_Properties
  imports Wire_Instance Endpoint_Discovery Connection_Pool Metrics_Http
begin

section \<open>Properties of the supporting components\<close>

text \<open>
  What the protobuf header, the configuration file, the endpoint list, the load balancer, the
  connection pool and the metrics promise, each with an instance where its hypotheses hold.
\<close>

subsection \<open>The header message\<close>

text \<open>C13: A header without unknown fields whose encoding fits into 2 GiB serialises to exactly
  \<open>ByteSizeLong\<close> bytes, and parsing those bytes gives the same header back, every field included.\<close>

theorem header_round_trip:
  assumes "pb_ok rt vi" "unknown_fields h = []" "ByteSizeLong rt h < 2147483648"
  shows "\<exists>s. SerializeToString rt h = Some s \<and> length s = ByteSizeLong rt h \<and>
    ParseFromString rt s = Some h"
proof -
  note len = ByteSizeLong_length[OF assms(1), of h]
  have "length (service_name h) < 2147483648" "length (method_name h) < 2147483648"
    using assms(3) by (auto simp: ByteSizeLong_def pb_write_simps[OF assms(1)] split: if_splits)
  with assms ParseFromString_SerializeToString[OF assms(1,2)] len show ?thesis
    by (simp add: SerializeToString_def pb_write_simps[OF assms(1)])
qed

definition example_header :: RpcHeader where
  "example_header = Clear\<lparr>magic := kDefaultMagic, version := kDefaultVersion, msg_type := MSG_TYPE_REQUEST,
     request_id := 300, body_size := 2, service_name := ''User'', method_name := ''Login''\<rparr>"

lemma example_header_size: "ByteSizeLong wire_rt example_header = 28"
  by (simp add: ByteSizeLong_def wire_rt_def example_header_def Clear_def kDefaultMagic_def
      kDefaultVersion_def msg_type_defs varint_bytes.simps)

theorem header_round_trip_witness:
  "\<exists>s. SerializeToString wire_rt example_header = Some s \<and> length s = ByteSizeLong wire_rt example_header \<and>
    ParseFromString wire_rt s = Some example_header"
  by (rule header_round_trip[OF wire_rt_ok])
    (simp_all only: example_header_size, simp_all add: example_header_def Clear_def)

subsection \<open>Configuration and endpoints\<close>



text \<open>The static endpoint list is read back: joining endpoints with commas and parsing the result
  gives the same endpoints in the same order, and the parsed list is kept for later calls, whatever
  the variable then holds.\<close>

theorem static_endpoints_round_trip:
  assumes "\<forall>ep \<in> set eps. endpoint_ok ep"
  shows "GetStaticEndpoints (Some (join_endpoints eps)) None = (eps, Some eps) \<and>
    GetStaticEndpoints later (snd (GetStaticEndpoints (Some (join_endpoints eps)) None)) = (eps, Some eps)"
proof -
  have "static_loop (join_endpoints eps) 0 [] = eps"
    using static_loop_split[of 0 "join_endpoints eps" "[]"] split_join[OF assms] by simp
  then show ?thesis by (simp add: GetStaticEndpoints_def InitStaticEndpoints_def)
qed

theorem static_endpoints_round_trip_witness:
  "GetStaticEndpoints (Some (join_endpoints [mk_endpoint ''10.0.0.1'' 8000, mk_endpoint ''h'' 1])) None
     = ([mk_endpoint ''10.0.0.1'' 8000, mk_endpoint ''h'' 1], Some [mk_endpoint ''10.0.0.1'' 8000, mk_endpoint ''h'' 1]) \<and>
   GetStaticEndpoints None (snd (GetStaticEndpoints (Some (join_endpoints
       [mk_endpoint ''10.0.0.1'' 8000, mk_endpoint ''h'' 1])) None))
     = ([mk_endpoint ''10.0.0.1'' 8000, mk_endpoint ''h'' 1], Some [mk_endpoint ''10.0.0.1'' 8000, mk_endpoint ''h'' 1])"
  by (rule static_endpoints_round_trip) (simp add: endpoint_ok_def)

text \<open>A stored list of endpoints is served until exactly five seconds have passed, then the entry is
  dropped; other keys are untouched.\<close>

theorem endpoint_cache_ttl:
  assumes "eps \<noteq> []"
  shows "fst (TryGetCachedEndpoints key now (StoreCachedEndpoints key eps t cache)) =
      (if now < t + milliseconds 5000 then Some eps else None) \<and>
    (t + milliseconds 5000 \<le> now \<longrightarrow>
      map_of (snd (TryGetCachedEndpoints key now (StoreCachedEndpoints key eps t cache))) key = None) \<and>
    (other \<noteq> key \<longrightarrow>
      map_of (snd (TryGetCachedEndpoints key now (StoreCachedEndpoints key eps t cache))) other = map_of cache other)"
  using assms
  by (simp add: TryGetCachedEndpoints_def StoreCachedEndpoints_def kEndpointCacheTtl_def AList.update_conv'
      AList.delete_conv')

theorem endpoint_cache_ttl_witness:
  "fst (TryGetCachedEndpoints ''S.m'' 4999999999
      (StoreCachedEndpoints ''S.m'' [mk_endpoint ''h'' 1] 0 [])) = Some [mk_endpoint ''h'' 1] \<and>
   fst (TryGetCachedEndpoints ''S.m'' 5000000000
      (StoreCachedEndpoints ''S.m'' [mk_endpoint ''h'' 1] 0 [])) = None"
  using endpoint_cache_ttl[of "[mk_endpoint ''h'' 1]" "''S.m''" 4999999999 0 "[]" "''S.m''"]
    endpoint_cache_ttl[of "[mk_endpoint ''h'' 1]" "''S.m''" 5000000000 0 "[]" "''S.m''"]
  by (simp add: milliseconds_def)

subsection \<open>The load balancer\<close>

text \<open>C28: The round robin is fair: \<open>r\<close> rounds of as many selections as there are nodes choose every
  node exactly \<open>r\<close> times each, from any position of the shared counter that does not wrap, and
  successive selections walk the node list cyclically.\<close>

theorem round_robin_fair:
  assumes "rr_nodes lb \<noteq> []" "unat (s_global_index lb) + r * length (rr_nodes lb) < 2 ^ 64"
  shows "mset (select_many (r * length (rr_nodes lb)) lb) = repeat_mset r (mset (rr_nodes lb)) \<and>
    select_many (r * length (rr_nodes lb)) lb =
      map (\<lambda>j. rr_nodes lb ! ((unat (s_global_index lb) + j) mod length (rr_nodes lb)))
        [0..<r * length (rr_nodes lb)]"
  using select_many_nth[OF assms] rounds_mset[OF assms(1)] by simp

theorem round_robin_fair_witness:
  "mset (select_many (2 * 2) \<lparr>rr_nodes = [mk_endpoint ''a'' 1, mk_endpoint ''b'' 2], s_global_index = 7\<rparr>)
     = repeat_mset 2 {#mk_endpoint ''a'' 1, mk_endpoint ''b'' 2#}"
  using round_robin_fair[of "\<lparr>rr_nodes = [mk_endpoint ''a'' 1, mk_endpoint ''b'' 2], s_global_index = 7\<rparr>" 2,
    THEN conjunct1]
  by simp

subsection \<open>The connection pool\<close>

text \<open>Acquiring and releasing keep the pool within its bound and the descriptors accounted for: what
  the callers hold and what is idle are distinct open descriptors, nothing is closed twice, and a
  reused connection was idle under the same key.\<close>

theorem pool_acquire_release_safe:
  assumes "owns h ps s" "pool_bound n ps" "Pool_Acquire E key ip p ps s = (Inr f, reused, ps1, s1)"
    "Pool_Release E key f n ps1 s1 = (ps2, s2)"
  shows "owns (add_mset f h) ps1 s1 \<and> pool_bound n ps1 \<and> owns h ps2 s2 \<and> pool_bound n ps2 \<and>
    os_bad_close s2 = 0 \<and> (reused \<longrightarrow> (\<exists>idle. map_of ps key = Some idle \<and> f \<in> set idle))"
proof -
  have o1: "owns (add_mset f h) ps1 s1" using owns_Acquire[OF assms(1,3)] by simp
  note o2 = owns_Release[OF o1 assms(4)]
  have "\<exists>idle. map_of ps key = Some idle \<and> f \<in> set idle" if reused
    using Pool_Acquire_reused[of E key ip p ps s f ps1 s1] assms(3) that by simp
  with Pool_Acquire_bound[OF assms(2,3)] Pool_Release_bound[OF _ assms(4)] o1 o2 show ?thesis
    by (simp add: owns_def)
qed

definition good_net :: net_env where
  "good_net = \<lparr>env_socket_ok = (\<lambda>t. True), env_connect_ok = (\<lambda>t ip p. True), env_errtxt = (\<lambda>t. ''error''),
     env_poll = (\<lambda>t f. \<lparr>po_rc = 0, po_err = False, po_in = False, po_peek = 0, po_again = False\<rparr>),
     env_clock = (\<lambda>t. milliseconds (int t))\<rparr>"

lemma good_net_simps [simp]:
  "env_socket_ok good_net t" "env_connect_ok good_net t ip p"
  "env_poll good_net t f = \<lparr>po_rc = 0, po_err = False, po_in = False, po_peek = 0, po_again = False\<rparr>"
  "env_clock good_net t = milliseconds (int t)" "env_errtxt good_net t = ''error''"
  by (simp_all add: good_net_def)

theorem pool_acquire_release_safe_witness:
  "owns {#} [(''k'', [5])] \<lparr>os_tick = 2, os_open = [5], os_bad_close = 0\<rparr>"
  using pool_acquire_release_safe[of "{#}" "[(''k'', [5])]" "\<lparr>os_tick = 0, os_open = [5], os_bad_close = 0\<rparr>" 1
      good_net "''k''" "''h''" 1 5 True "[(''k'', [])]" "\<lparr>os_tick = 1, os_open = [5], os_bad_close = 0\<rparr>"
      "[(''k'', [5])]" "\<lparr>os_tick = 2, os_open = [5], os_bad_close = 0\<rparr>"]
  by (simp add: owns_def idle_fds_def pool_bound_def Pool_Acquire_def Pool_Release_def
      IsConnectionHealthy_def)

subsection \<open>Metrics\<close>



text \<open>A snapshot tells the truth about its window: at least half of the samples are at most the
  reported median and at least half are at least the reported median,
  every percentile is one of the samples, the percentiles are ordered and lie between the minimum and
  the maximum.\<close>

theorem snapshot_percentiles:
  assumes "metrics_ok m" "Snapshot now b m = (Some s, m')"
  shows "{p50 s, p95 s, p99 s} \<subseteq> set (samples m) \<and>
    snap_min s \<le> p50 s \<and> p50 s \<le> p95 s \<and> p95 s \<le> p99 s \<and> p99 s \<le> snap_max s \<and>
    length (samples m) \<le> 2 * length (filter (\<lambda>v. v \<le> p50 s) (samples m)) \<and>
    length (samples m) \<le> 2 * length (filter (\<lambda>v. p50 s \<le> v) (samples m)) \<and>
    snap_success s + snap_fail s = int (length (samples m))"
proof -
  note v = Snapshot_values[OF assms]
  let ?xs = "sort (samples m)"
  have ne: "?xs \<noteq> []" and sorted: "sorted ?xs" using v(1) by simp_all
  have "{p50 s, p95 s, p99 s} \<subseteq> set (samples m)"
    unfolding v using perc_in[OF ne, of 50] perc_in[OF ne, of 95] perc_in[OF ne, of 99] by simp
  moreover have "snap_min s \<le> p50 s" "p50 s \<le> p95 s" "p95 s \<le> p99 s" "p99 s \<le> snap_max s"
    unfolding v using perc_bounds[OF sorted ne] perc_mono[OF sorted] by simp_all
  moreover have "length (samples m) \<le> 2 * length (filter (\<lambda>v. v \<le> p50 s) (samples m))"
    "length (samples m) \<le> 2 * length (filter (\<lambda>v. p50 s \<le> v) (samples m))"
    unfolding v using perc_rank[OF v(1), of 50] by (simp_all add: perc_index_def)
  moreover have "snap_success s + snap_fail s = int (length (samples m))"
    unfolding v using assms(1) by (simp add: metrics_ok_def)
  ultimately show ?thesis by blast
qed

theorem snapshot_percentiles_witness:
  "\<exists>s. fst (Snapshot (milliseconds 10) False
      \<lparr>success_count = 2, fail_count = 1, samples = [30, 10, 20], last_flush = 0, flush_interval = 0\<rparr>) = Some s \<and>
    p50 s = 20 \<and> p99 s \<le> 30"
proof -
  let ?m = "\<lparr>success_count = 2, fail_count = 1, samples = [30, 10, 20], last_flush = 0, flush_interval = 0\<rparr>"
  obtain s m' where s: "Snapshot (milliseconds 10) False ?m = (Some s, m')"
    by (auto simp: metrics_defs)
  have ok: "metrics_ok ?m" by (simp add: metrics_ok_def)
  from snapshot_percentiles[OF ok s] Snapshot_values[OF ok s] have "p99 s \<le> 30"
    "p50 s = perc (sort [30, 10, 20]) 50" by auto
  moreover have "perc (sort [30, 10, 20]) 50 = (20 :: int)"
    by (simp add: perc_def perc_index_def)
  ultimately show ?thesis using s by auto
qed

text \<open>The HTTP server keeps exactly one listening descriptor open while it runs: every start and
  stop preserves the ownership of the listening socket, a successful start leaves it running, and a stop
  closes the descriptor that the start opened.\<close>

theorem http_server_lifecycle:
  assumes "http_ok (h, s)" "\<not> running h" "StartMetricsHttpServer E (h, s) = (b, h1, s1)"
  shows "http_ok (h1, s1) \<and> running h1 = b \<and>
    set (os_open (snd (StopMetricsHttpServer (h1, s1)))) = set (os_open s) \<and>
    \<not> running (fst (StopMetricsHttpServer (h1, s1)))"
proof -
  obtain f s' where c: "CreateListenFd E s = (f, s')" by (cases "CreateListenFd E s")
  note cc = CreateListenFd_cases[OF c]
  have t: "thread_fd h = None" using assms(1,2) by (auto simp: http_ok_def)
  from http_ok_Start[OF assms(1,3)] have ok: "http_ok (h1, s1)" by simp
  with assms(2,3) cc t c show ?thesis
    by (auto simp: StartMetricsHttpServer_def StopMetricsHttpServer_def os_close_def split: if_splits)
qed

theorem http_server_lifecycle_witness:
  "running (fst (snd (StartMetricsHttpServer \<lparr>le_socket_ok = True, le_bind_ok = True, le_listen_ok = True\<rparr>
      (http_server0, \<lparr>os_tick = 0, os_open = [], os_bad_close = 0\<rparr>))))"
proof -
  obtain b h1 s1 where st: "StartMetricsHttpServer \<lparr>le_socket_ok = True, le_bind_ok = True, le_listen_ok = True\<rparr>
      (http_server0, \<lparr>os_tick = 0, os_open = [], os_bad_close = 0\<rparr>) = (b, h1, s1)" by (metis prod.collapse)
  then have b by (simp add: StartMetricsHttpServer_def CreateListenFd_def http_server0_def fresh_fd_def
        split: if_splits)
  have "http_ok (http_server0, \<lparr>os_tick = 0, os_open = [], os_bad_close = 0\<rparr>)" "\<not> running http_server0"
    by (simp_all add: http_ok_def http_server0_def)
  from http_server_lifecycle[OF this st] \<open>b\<close> show ?thesis by (simp add: st)
qed

end
