(* ===== verification/Provider_Properties.thy ===== *)
theory Provider_Properties
  imports Provider Support_Properties
begin

section \<open>Properties of the protobuf server\<close>

text \<open>
  What \<open>KrpcProvider\<close> promises: requests become tasks in order and within the bound of the queue,
  every object of a task is freed exactly once, a shutdown runs what was queued, heartbeats are
  answered, foreign bytes close the connection, and the idle scan closes exactly the idle connections.
  The witnesses run on a server with one service, which is defined first.
\<close>

definition metrics0 :: metrics_state where
  "metrics0 = \<lparr>g_metrics = new_MetricsAggregator 0, g_labeled_metrics = []\<rparr>"

text \<open>Service 1 is \<open>User\<close> with one method, \<open>Login\<close>, which answers \<open>ok\<close>.\<close>

definition user_service :: services where
  "user_service = \<lparr>sv_descriptor = (\<lambda>s. (''User'', [''Login''])), sv_parse_request = (\<lambda>s m r. True),
     sv_handle = (\<lambda>s m r. \<lparr>ho_runs_done = True, ho_response = Some ''ok'', ho_throws = False\<rparr>)\<rparr>"

definition server0 :: provider where
  "server0 = StartWorkerPool [] 2 (NotifyService user_service 1 (new_KrpcProvider metrics0))"

lemma server0_simps [simp]:
  "service_map server0 = [(''User'', \<lparr>si_service = 1, si_method_map = [(''Login'', 0)]\<rparr>)]"
  "task_queue server0 = []" "\<not> stop_workers server0" "pv_effects server0 = []" "task_queue_capacity server0 = 1024"
  "queue_high_watermark server0 = 0" "connection_states server0 = []" "workers_started server0" "next_task server0 = 0"
  "idle_close_threshold_ms server0 = 0"
  by (simp_all add: server0_def StartWorkerPool_def NotifyService_def user_service_def new_KrpcProvider_def
      emplace_def Let_def Load_def)

definition task1 :: RpcTask where
  "task1 = \<lparr>rt_id = 0, rt_service = 1, rt_method = ''Login'', rt_request = ''ab'', rt_conn = 4, rt_request_id = 1\<rparr>"

subsection \<open>The task queue\<close>

text \<open>C24: The queue of the worker pool is first in, first out and bounded: over any schedule of producers
  and workers, the tasks taken followed by the tasks still queued are the tasks that were queued and
  accepted, in order; the queue never exceeds its capacity, and the high watermark never falls below its
  length.\<close>

theorem task_queue_fifo_bounded:
  assumes "\<not> stop_workers p" "watermark_ok p" "run_queue provider_enq worker_take evs p = (accepted, taken, p')"
  shows "task_queue p @ accepted = taken @ task_queue p' \<and> length (task_queue p') \<le> task_queue_capacity p \<and>
    length (task_queue p') \<le> queue_high_watermark p' \<and> queue_high_watermark p' \<le> task_queue_capacity p"
proof -
  have "length (task_queue p) \<le> task_queue_capacity p" using assms(2) by (simp add: watermark_ok_def)
  from provider_queue.run_fifo[OF assms(1,3)] provider_queue.run_bounded[OF assms(1) this assms(3)]
    watermark_ok_run[OF assms(2,3)]
  show ?thesis by (simp add: watermark_ok_def)
qed

theorem task_queue_fifo_bounded_witness:
  "\<exists>accepted taken p'. run_queue provider_enq worker_take [Some task1, None, None, Some task1] server0
      = (accepted, taken, p') \<and> accepted = taken @ task_queue p'"
proof -
  obtain a t p' where r: "run_queue provider_enq worker_take [Some task1, None, None, Some task1] server0 = (a, t, p')"
    by (metis prod.collapse)
  from task_queue_fifo_bounded[OF _ _ r] r show ?thesis by (simp add: watermark_ok_def)
qed

text \<open>Nothing stays queued for ever: as many worker turns as there are queued tasks take them all, in
  order, so a producer that waits for room gets it.\<close>

theorem task_queue_drains:
  assumes "\<not> stop_workers p"
  shows "\<exists>p'. run_queue provider_enq worker_take (replicate (length (task_queue p)) None) p
    = ([], task_queue p, p') \<and> task_queue p' = []"
  using provider_queue.run_drains[OF assms, of "length (task_queue p)"] by auto

theorem task_queue_drains_witness:
  "\<exists>p'. run_queue provider_enq worker_take [None, None] (server0\<lparr>task_queue := [task1, task1]\<rparr>)
    = ([], [task1, task1], p') \<and> task_queue p' = []"
  using task_queue_drains[of "server0\<lparr>task_queue := [task1, task1]\<rparr>"] by (simp add: numeral_2_eq_2)

text \<open>Shutting the pool down loses no task: every queued task is run, in order, with the same effects
  as a worker's turn on it, and afterwards the queue is empty and the pool is stopped.\<close>

theorem shutdown_runs_queued_tasks:
  assumes "workers_started p"
  shows "pv_effects (StopWorkerPool rt S now c p) = pv_effects p @ run_all rt S now c (task_queue p) \<and>
    task_queue (StopWorkerPool rt S now c p) = [] \<and> \<not> workers_started (StopWorkerPool rt S now c p)"
  using StopWorkerPool_effects[OF assms] StopWorkerPool_empty[OF assms] by blast

theorem shutdown_runs_queued_tasks_witness:
  "pv_effects (StopWorkerPool wire_rt user_service 0 1 (server0\<lparr>task_queue := [task1]\<rparr>)) =
     run_all wire_rt user_service 0 1 [task1]"
  using shutdown_runs_queued_tasks[of "server0\<lparr>task_queue := [task1]\<rparr>" wire_rt user_service 0 1] by simp

subsection \<open>Ownership of the objects of a task\<close>

text \<open>A handler that either runs its closure or throws leaves no leak and no double free: a worker's
  turn frees the request, the response and the closure of the task exactly once each.\<close>

theorem task_objects_freed_once:
  assumes "ho_runs_done (sv_handle S (rt_service t) (rt_method t) (rt_request t)) \<noteq>
      ho_throws (sv_handle S (rt_service t) (rt_method t) (rt_request t))"
    "sends_response rt t (ho_response (sv_handle S (rt_service t) (rt_method t) (rt_request t)))"
    "e \<in> {Freed_request (rt_id t), Freed_response (rt_id t), Freed_done (rt_id t)}"
  shows "count_list (pv_effects (worker_run rt S now c t p)) e = count_list (pv_effects p) e + 1"
  using worker_run_frees[OF assms(2), of now c p] assms(1,3) by auto

lemma ok_header_size: "ByteSizeLong wire_rt (response_header 1 ''ok'') < 2147483648"
  by (simp add: ByteSizeLong_def wire_rt_def response_header_def Clear_def kDefaultMagic_def
      kDefaultVersion_def msg_type_defs varint_bytes.simps)

lemma ok_response_sends: "frame_bytes wire_rt (response_header 1 ''ok'') ''ok'' \<noteq> None"
  using ok_header_size by (simp add: frame_bytes_def SerializeToString_def) (simp add: wire_rt_def)

theorem task_objects_freed_once_witness:
  "count_list (pv_effects (worker_run wire_rt user_service 0 1 task1 server0)) (Freed_response 0) = 1"
  using task_objects_freed_once[of user_service task1 wire_rt "Freed_response 0" 0 1 server0] ok_response_sends
  by (simp add: user_service_def task1_def sends_response_def)

text \<open>C40: A handler that runs its closure and then throws makes the worker free the response and the
  closure a second time.\<close>

theorem throwing_handler_double_free:
  assumes "ho_runs_done (sv_handle S (rt_service t) (rt_method t) (rt_request t))"
    "ho_throws (sv_handle S (rt_service t) (rt_method t) (rt_request t))"
    "sends_response rt t (ho_response (sv_handle S (rt_service t) (rt_method t) (rt_request t)))"
  shows "count_list (pv_effects (worker_run rt S now c t p)) (Freed_response (rt_id t)) =
      count_list (pv_effects p) (Freed_response (rt_id t)) + 2 \<and>
    count_list (pv_effects (worker_run rt S now c t p)) (Freed_done (rt_id t)) =
      count_list (pv_effects p) (Freed_done (rt_id t)) + 2"
  using worker_run_frees[OF assms(3), of now c p] assms(1,2) by simp

definition throwing_service :: services where
  "throwing_service = user_service\<lparr>sv_handle :=
     (\<lambda>s m r. \<lparr>ho_runs_done = True, ho_response = Some ''ok'', ho_throws = True\<rparr>)\<rparr>"

theorem throwing_handler_double_free_witness:
  "count_list (pv_effects (worker_run wire_rt throwing_service 0 1 task1 server0)) (Freed_response 0) = 2"
  using throwing_handler_double_free[of throwing_service task1 wire_rt 0 1 server0] ok_response_sends
  by (simp add: throwing_service_def task1_def sends_response_def)

subsection \<open>Incoming bytes\<close>

text \<open>C12: The server cuts a stream of well-formed frames of its protocol version into exactly these
  frames, whatever the chunks in which they arrive.\<close>

theorem server_reads_frames:
  assumes "rt_ok rt" "list_all2 (\<lambda>f w. header_fits rt (fst f) (snd f) \<and> frame_bytes rt (fst f) (snd f) = Some w \<and>
      magic (fst f) = kDefaultMagic \<and> version (fst f) = kDefaultVersion) fs ws" "concat cs = concat ws"
  shows "feed (provider_next_frame rt) (\<lambda>f s. (s @ [f], True)) cs [] [] = (Waiting, [], fs)"
proof -
  have "list_all2 (\<lambda>f w. \<forall>later. provider_next_frame rt (w @ later) = Got f (length w)) fs ws"
    using assms(2) by (rule list_all2_mono) (use provider_next_frame_frame_bytes[OF assms(1)] in auto)
  from provider_frames.consume_frames[OF assms(1) this, of "[]" "[]"]
    provider_frames.feed_concat[OF assms(1), of "\<lambda>f s. (s @ [f], True)" "[]" "[]" cs] assms(3)
  show ?thesis by simp
qed

lemma ping_fits: "header_fits wire_rt (heartbeat_header MSG_TYPE_PING 9) []"
  by (simp add: header_fits_def ByteSizeLong_def wire_rt_def heartbeat_header_def Clear_def kDefaultMagic_def
      kDefaultVersion_def msg_type_defs varint_bytes.simps)

lemma frame_bytes_exists: "header_fits wire_rt h b \<Longrightarrow> \<exists>w. frame_bytes wire_rt h b = Some w"
  using frame_bytes_read[OF wire_rt_ok', of h b] by blast

theorem server_reads_frames_witness:
  "\<exists>w. feed (provider_next_frame wire_rt) (\<lambda>f s. (s @ [f], True)) [take 1 w, drop 1 w] [] [] =
    (Waiting, [], [(heartbeat_header MSG_TYPE_PING 9, [])])"
proof -
  obtain w where w: "frame_bytes wire_rt (heartbeat_header MSG_TYPE_PING 9) [] = Some w"
    using frame_bytes_exists[OF ping_fits] by blast
  with server_reads_frames[OF wire_rt_ok', of "[(heartbeat_header MSG_TYPE_PING 9, [])]" "[w]" "[take 1 w, drop 1 w]"]
    ping_fits show ?thesis by (auto simp: heartbeat_header_def Clear_def)
qed

text \<open>A ping is answered: the server sends back a pong with the request id of the ping on the same
  connection, touches the connection and goes on with the next frame.\<close>

theorem ping_answered_with_pong:
  assumes "rt_ok rt" "header_fits rt (heartbeat_header MSG_TYPE_PING rid) []"
    "header_fits rt (heartbeat_header MSG_TYPE_PONG rid) []"
    "frame_bytes rt (heartbeat_header MSG_TYPE_PING rid) [] = Some ping"
    "frame_bytes rt (heartbeat_header MSG_TYPE_PONG rid) [] = Some pong"
  shows "OnMessage rt S now ts c conn (ping @ later) p =
    OnMessage rt S now ts c conn later (pv_emit [Sent_to conn pong] (TouchConnection ts conn p)) \<and>
    channel_next_frame rt pong = Got (heartbeat_header MSG_TYPE_PONG rid, []) (length pong)"
proof -
  have h: "magic (heartbeat_header t rid) = kDefaultMagic" "version (heartbeat_header t rid) = kDefaultVersion"
    "msg_type (heartbeat_header t rid) = t" "request_id (heartbeat_header t rid) = rid" for t
    by (simp_all add: heartbeat_header_def Clear_def)
  have "OnMessage_frame rt S now ts c conn (heartbeat_header MSG_TYPE_PING rid, []) p =
      (pv_emit [Sent_to conn pong] (TouchConnection ts conn p), True)"
    using assms(5) by (simp add: OnMessage_frame_def Let_def h HandleHeartbeatFrame_def SendHeartbeatFrame_def)
  from OnMessage_one[OF assms(1,2,4) h(1,2) this] channel_next_frame_frame_bytes[OF assms(1,3,5), of "[]"]
  show ?thesis by simp
qed

lemma pong_fits: "header_fits wire_rt (heartbeat_header MSG_TYPE_PONG 9) []"
  by (simp add: header_fits_def ByteSizeLong_def wire_rt_def heartbeat_header_def Clear_def kDefaultMagic_def
      kDefaultVersion_def msg_type_defs varint_bytes.simps)

theorem ping_answered_with_pong_witness:
  "\<exists>ping pong. pv_effects (snd (OnMessage wire_rt user_service 0 5 1 4 ping server0)) = [Sent_to 4 pong]"
proof -
  obtain ping pong where w: "frame_bytes wire_rt (heartbeat_header MSG_TYPE_PING 9) [] = Some ping"
    "frame_bytes wire_rt (heartbeat_header MSG_TYPE_PONG 9) [] = Some pong"
    using frame_bytes_exists[OF ping_fits] frame_bytes_exists[OF pong_fits] by blast
  from ping_answered_with_pong[OF wire_rt_ok' ping_fits pong_fits w, of user_service 0 5 1 4 "[]" server0]
  have "pv_effects (snd (OnMessage wire_rt user_service 0 5 1 4 ping server0)) = [Sent_to 4 pong]" by simp
  then show ?thesis by blast
qed

text \<open>A frame with a foreign magic number or version closes the connection at once: no handler runs,
  nothing is queued, and none of the later bytes is looked at.\<close>

theorem foreign_frame_closes_connection:
  assumes "rt_ok rt" "header_fits rt h body" "frame_bytes rt h body = Some w"
    "magic h \<noteq> kDefaultMagic \<or> version h \<noteq> kDefaultVersion"
  shows "OnMessage rt S now ts c conn (w @ later) p = (w @ later, pv_emit [Force_closed conn] p)"
  by (rule OnMessage_refused[OF assms])

theorem foreign_frame_closes_connection_witness:
  "\<exists>w. OnMessage wire_rt user_service 0 5 1 4 (w @ ''xy'') server0 = (w @ ''xy'', pv_emit [Force_closed 4] server0)"
proof -
  let ?h = "(heartbeat_header MSG_TYPE_PING 9)\<lparr>magic := 1\<rparr>"
  have f: "header_fits wire_rt ?h []"
    by (simp add: header_fits_def ByteSizeLong_def wire_rt_def heartbeat_header_def Clear_def kDefaultMagic_def
      kDefaultVersion_def msg_type_defs varint_bytes.simps)
  then obtain w where "frame_bytes wire_rt ?h [] = Some w" using frame_bytes_exists by blast
  from foreign_frame_closes_connection[OF wire_rt_ok' f this, of user_service 0 5 1 4 "''xy''" server0] show ?thesis
    by (auto simp: kDefaultMagic_def)
qed



subsection \<open>Idle connections\<close>

text \<open>The idle scan closes exactly the living connections whose last activity lies at least the idle
  threshold, the heartbeat interval times one more than the miss limit, in the past; a connection that
  has just been touched survives whenever the threshold is positive.\<close>

theorem idle_scan_exact:
  assumes "wf_map (connection_states p)"
  shows "(conn \<in> closed_by_scan now (ScheduleIdleScan cfg p) \<longleftrightarrow>
      (\<exists>s. map_of (connection_states p) conn = Some s \<and> conn_alive s \<and>
         now - last_activity s \<ge> 1000 *
           (ParseConfigInt (Load cfg ''heartbeat_interval_ms'') kDefaultHeartbeatIntervalMs *
            (ParseConfigInt (Load cfg ''heartbeat_miss_limit'') kDefaultHeartbeatMissLimit + 1)))) \<and>
    (idle_close_threshold_ms p > 0 \<longrightarrow> conn \<notin> closed_by_scan now (TouchConnection now conn p))"
proof -
  have "wf_map (connection_states (ScheduleIdleScan cfg p))"
    "connection_states (ScheduleIdleScan cfg p) = connection_states p"
    using assms by (simp_all add: ScheduleIdleScan_def Let_def)
  moreover have "wf_map (connection_states (TouchConnection now conn p))"
    using assms by (auto simp: TouchConnection_def split: option.splits)
  moreover have "last_activity s = now"
    if "map_of (connection_states (TouchConnection now conn p)) conn = Some s" for s
    using that by (auto simp: TouchConnection_def AList.update_conv' split: option.splits)
  ultimately show ?thesis
    by (auto simp: closed_by_scan_iff ScheduleIdleScan_def Let_def algebra_simps)
qed

theorem idle_scan_exact_witness:
  "4 \<in> closed_by_scan 20000000 (ScheduleIdleScan [] (RegisterConnection 0 4 server0))"
  using idle_scan_exact[of "RegisterConnection 0 4 server0" 4 20000000 "[]"]
  by (simp add: RegisterConnection_def Load_def kDefaultHeartbeatIntervalMs_def kDefaultHeartbeatMissLimit_def)

end
