(* ===== verification/Server_Properties.thy ===== *)
theory Server_Properties
  imports Provider_Server Provider_Properties
begin

section \<open>Properties of the running server\<close>

text \<open>
  What holds of \<open>KrpcProvider\<close> from \<open>Run\<close> on, over every interleaving of its I/O threads, workers and
  timers: the objects of a task are freed exactly once, and no task stays in the server for ever.
\<close>

definition serve :: "services \<Rightarrow> nat list \<Rightarrow> metrics_state \<Rightarrow> provider" where
  "serve S svcs g = fold (NotifyService S) svcs (new_KrpcProvider g)"

lemma NotifyService_frame [simp]:
  "workers_started (NotifyService S v p) = workers_started p" "task_queue (NotifyService S v p) = task_queue p"
  "next_task (NotifyService S v p) = next_task p" "waiting_task (NotifyService S v p) = waiting_task p"
  "pv_effects (NotifyService S v p) = pv_effects p"
  by (simp_all add: NotifyService_def split: prod.splits)

lemma serve_fresh:
  "\<not> workers_started (serve S svcs g) \<and> task_queue (serve S svcs g) = [] \<and> next_task (serve S svcs g) = 0 \<and>
     waiting_task (serve S svcs g) = None \<and> pv_effects (serve S svcs g) = []"
proof -
  let ?fresh = "\<lambda>p. \<not> workers_started p \<and> task_queue p = [] \<and> next_task p = 0 \<and> waiting_task p = None \<and> pv_effects p = []"
  have "?fresh p \<Longrightarrow> ?fresh (fold (NotifyService S) svcs p)" for p
    by (induction svcs arbitrary: p) auto
  from this[of "new_KrpcProvider g"] show ?thesis by (simp add: serve_def new_KrpcProvider_def)
qed

text \<open>The server that a program has after registering services and calling \<open>Run\<close>.\<close>

lemma served:
  assumes "Run_start api cfg env (serve S svcs g, z, hs) = Some (Inr (p, z', hs'))"
    "(server_step rt S)\<^sup>*\<^sup>* (new_server p) s"
  shows "can_work s" "good_handlers rt S \<Longrightarrow> server_ok s"
proof -
  have r: "server_ok (new_server p) \<and> can_work (new_server p)"
    using Run_start_ready[OF assms(1)] serve_fresh[of S svcs g] by simp
  from can_work_steps[OF assms(2)] r show "can_work s" by blast
  from server_ok_steps[OF assms(2)] r show "good_handlers rt S \<Longrightarrow> server_ok s" by blast
qed

text \<open>C21: A server frees every object exactly once: after \<open>Run\<close> and any interleaving of received bytes,
  frames, workers, connections, idle scans and the shutdown, with handlers that keep their contract, the
  request, the response and the closure of a task have been freed once if the task has left the server,
  and not at all while it is queued, waits for room in the queue or runs.\<close>

theorem server_frees_objects_once:
  assumes "Run_start api cfg env (serve S svcs g, z, hs) = Some (Inr (p, z', hs'))" "good_handlers rt S"
    "(server_step rt S)\<^sup>*\<^sup>* (new_server p) s" "e \<in> {Freed_request i, Freed_response i, Freed_done i}"
  shows "count_list (pv_effects (srv_provider s)) e =
      (if i < next_task (srv_provider s) \<and> i \<notin> set (live s) then 1 else 0) \<and> distinct (live s)"
  using served(2)[OF assms(1,3,2)] assms(4) by (auto simp: server_ok_def freed_ok_def frees_def)

text \<open>The example: a server on two cores, with one connection that sends a request.\<close>

lemma length_varint_bytes: "n < 128 ^ k \<Longrightarrow> 0 < k \<Longrightarrow> length (varint_bytes n) \<le> k"
proof (induction k arbitrary: n)
  case (Suc k)
  show ?case
  proof (cases "n < 128")
    case True
    then show ?thesis by (subst varint_bytes.simps) simp
  next
    case False
    from Suc.prems have "n div 128 < 128 ^ k" by (simp add: less_mult_imp_div_less mult.commute)
    moreover from Suc.prems False have "0 < k" by (cases k) auto
    ultimately show ?thesis using Suc.IH False by (subst varint_bytes.simps) simp
  qed
qed simp

lemma header_size_bound:
  assumes "service_name h = []" "method_name h = []" "unknown_fields h = []"
  shows "ByteSizeLong wire_rt h \<le> 60"
proof -
  have l32: "length (varint_bytes (unat (v :: u32))) \<le> 5" for v
    by (rule length_varint_bytes) (use unsigned_less[where 'a = nat, of v] in simp_all)
  have l64: "length (varint_bytes (unat (v :: u64))) \<le> 10" for v
    by (rule length_varint_bytes) (use unsigned_less[where 'a = nat, of v] in simp_all)
  show ?thesis
    using assms l32[of "magic h"] l32[of "version h"] l64[of "request_id h"] l64[of "scast (msg_type h)"]
      l32[of "body_size h"] l64[of "scast (compress_type h)"]
    by (simp add: ByteSizeLong_def wire_rt_def)
qed

lemma plain_header_fits:
  "service_name h = [] \<Longrightarrow> method_name h = [] \<Longrightarrow> unknown_fields h = [] \<Longrightarrow> length body < 2147483648 \<Longrightarrow>
     body_size h = of_nat (length body) \<Longrightarrow> header_fits wire_rt h body"
  using order.strict_trans1[OF header_size_bound, of h 2147483648] by (simp add: header_fits_def)

lemma ok_response_fits: "header_fits wire_rt (response_header i ''ok'') ''ok''"
  by (rule plain_header_fits) (simp_all add: response_header_def Clear_def)

lemma user_service_good: "good_handlers wire_rt user_service"
  using frame_bytes_exists[OF ok_response_fits] by (simp add: good_handlers_def user_service_def sends_response_def)

definition run_env0 :: run_env where
  "run_env0 = \<lparr>re_zk_init = True, re_zk_events = [\<lparr>ev_session = True, ev_connected = True\<rparr>],
     re_listen = (\<lambda>_. \<lparr>le_socket_ok = True, le_bind_ok = True, le_listen_ok = True\<rparr>), re_cores = 2\<rparr>"

definition os0 :: os where
  "os0 = \<lparr>os_tick = 0, os_open = [], os_bad_close = 0\<rparr>"

lemma example_served:
  "\<exists>p z'. Run_start tree_api [] run_env0 (serve user_service [1] metrics0, [], hs) = Some (Inr (p, z', hs)) \<and>
     p = server0\<lparr>idle_close_threshold_ms := 5000 * 4\<rparr>"
  by (simp add: Run_start_def run_env0_def Start_def new_ZkClient_def GlobalWatcher_def NotifyConnected_def
      start_metrics_http_def Let_def Load_def Run_register_def serve_def NotifyService_def user_service_def
      new_KrpcProvider_def emplace_def ScheduleIdleScan_def StartWorkerPool_def server0_def
      kDefaultHeartbeatIntervalMs_def kDefaultHeartbeatMissLimit_def Create_def tree_api_def)

definition login_header :: RpcHeader where
  "login_header = Clear\<lparr>magic := kDefaultMagic, version := kDefaultVersion, msg_type := MSG_TYPE_REQUEST,
     service_name := ''User'', method_name := ''Login'', request_id := 1, body_size := 2\<rparr>"

lemma server0_more [simp]: "waiting_task server0 = None" "worker_thread_count server0 = 2"
  by (simp_all add: server0_def StartWorkerPool_def NotifyService_def user_service_def new_KrpcProvider_def Let_def Load_def)

text \<open>The example server has received a request to log in: it queues it, and a worker takes it and runs it.\<close>

definition user_login :: "RpcHeader \<Rightarrow> bool" where
  "user_login h \<longleftrightarrow> magic h = kDefaultMagic \<and> version h = kDefaultVersion \<and> msg_type h = MSG_TYPE_REQUEST \<and>
     service_name h = ''User'' \<and> method_name h = ''Login'' \<and> header_fits wire_rt h ''ab''"

definition received :: "provider \<Rightarrow> string \<Rightarrow> server" where
  "received p w = (new_server p)\<lparr>srv_buffers := (\<lambda>_. [])(4 := w)\<rparr>"

lemma request_served:
  assumes p: "p = server0\<lparr>idle_close_threshold_ms := 5000 * 4\<rparr>" and h: "user_login h"
    and w: "frame_bytes wire_rt h ''ab'' = Some w"
    and bytes: "frame_bytes wire_rt (response_header (request_id h) ''ok'') ''ok'' = Some bytes"
  shows "\<exists>s1 s2 s3. server_step wire_rt user_service (received p w) s1 \<and> server_step wire_rt user_service s1 s2 \<and>
    server_step wire_rt user_service s2 s3 \<and> srv_buffers s1 4 = [] \<and> srv_buffers s2 = srv_buffers s1 \<and>
    srv_buffers s3 = srv_buffers s1 \<and> live s1 = [0] \<and> live s3 = [] \<and> next_task (srv_provider s3) = 1 \<and>
    pv_effects (srv_provider s1) = [] \<and> pv_effects (srv_provider s2) = [] \<and>
    pv_effects (srv_provider s3) = [Sent_to 4 bytes, Freed_response 0, Freed_done 0, Freed_request 0]"
proof -
  let ?step = "server_step wire_rt user_service" and ?b = "received p w"
  let ?t = "task1\<lparr>rt_request_id := request_id h\<rparr>"
  have g: "provider_next_frame wire_rt w = Got (h, ''ab'') (length w)"
    using provider_next_frame_frame_bytes[OF wire_rt_ok' _ w, of "[]"] h by (simp add: user_login_def)
  obtain p1 where p1: "OnMessage_frame wire_rt user_service 0 5 1 4 (h, ''ab'') p = (p1, True)"
    "task_queue p1 = [?t]" "pv_effects p1 = []"
    using OnMessage_frame_request[of h p "\<lparr>si_service = 1, si_method_map = [(''Login'', 0)]\<rparr>" 0 user_service "''ab''"
        wire_rt 0 5 1 4] h p
    by (auto simp: user_login_def task1_def user_service_def)
  define s1 where "s1 = settle 4 (drop (length w) (srv_buffers ?b 4)) p1 ?b"
  have b: "?step ?b s1"
    unfolding s1_def
    using p1(1) g by (intro server_step.frame[where f = "(h, ''ab'')" and go_on = True])
      (simp_all add: received_def new_server_def)
  have q: "waiting_task p1 = None" "next_task p1 = 1"
    using p1(1) h p
    by (auto simp: OnMessage_frame_def Let_def msg_type_defs submit_task_def EnqueueTask_def user_login_def user_service_def)
  have t: "task_queue (srv_provider s1) = [?t]" "srv_running s1 = []" "srv_waiting s1 = []"
    "worker_thread_count (srv_provider s1) = 2" "next_task (srv_provider s1) = 1" "pv_effects (srv_provider s1) = []"
    "srv_buffers s1 4 = []"
    using p1 q OnMessage_frame_config[OF p1(1)] p by (simp_all add: s1_def settle_def received_def new_server_def)
  then obtain p2 where p2: "worker_take (srv_provider s1) = Some (?t, p2)" by (simp add: worker_take_def)
  let ?s2 = "s1\<lparr>srv_provider := p2, srv_running := srv_running s1 @ [?t]\<rparr>"
  let ?s3 = "?s2\<lparr>srv_provider := worker_run wire_rt user_service 0 1 ?t (srv_provider ?s2),
    srv_running := remove1 ?t (srv_running ?s2)\<rparr>"
  have c: "?step s1 ?s2" by (rule server_step.take[OF p2]) (simp add: t)
  have d: "?step ?s2 ?s3" by (rule server_step.run) simp
  have live: "live s1 = [0]" "live ?s3 = []" "next_task (srv_provider ?s3) = 1"
    using t worker_takeD[OF p2] by (simp_all add: live_def task1_def)
  have eff: "pv_effects p2 = []" using t(6) worker_takeD[OF p2] by simp
  then have "pv_effects (srv_provider ?s3) = [Sent_to 4 bytes, Freed_response 0, Freed_done 0, Freed_request 0]"
    by (simp add: worker_run_effects user_service_def task1_def bytes)
  with b c d live t(6,7) eff show ?thesis by (intro exI[of _ s1] exI[of _ ?s2] exI[of _ ?s3]) simp
qed

lemma example_run:
  assumes "p = server0\<lparr>idle_close_threshold_ms := 5000 * 4\<rparr>"
  shows "\<exists>s1 s2. (server_step wire_rt user_service)\<^sup>*\<^sup>* (new_server p) s1 \<and> live s1 = [0] \<and>
    (server_step wire_rt user_service)\<^sup>*\<^sup>* (new_server p) s2 \<and> live s2 = [] \<and>
    next_task (srv_provider s2) = 1"
proof -
  let ?step = "server_step wire_rt user_service"
  have h: "user_login login_header"
    by (simp add: user_login_def header_fits_def ByteSizeLong_def wire_rt_def login_header_def Clear_def kDefaultMagic_def
        kDefaultVersion_def msg_type_defs varint_bytes.simps)
  then obtain w where w: "frame_bytes wire_rt login_header ''ab'' = Some w"
    using frame_bytes_exists by (auto simp: user_login_def)
  obtain bytes where "frame_bytes wire_rt (response_header (request_id login_header) ''ok'') ''ok'' = Some bytes"
    using frame_bytes_exists[OF ok_response_fits] by blast
  from request_served[OF assms h w this] obtain s1 s2 s3 where
    s: "?step (received p w) s1" "?step s1 s2" "?step s2 s3" "live s1 = [0]" "live s3 = []" "next_task (srv_provider s3) = 1"
    by blast
  have "?step (new_server p) ((new_server p)\<lparr>srv_buffers := (srv_buffers (new_server p))(4 := srv_buffers (new_server p) 4 @ w)\<rparr>)"
    by (rule server_step.receive) (simp add: new_server_def)
  then have "?step (new_server p) (received p w)" by (simp add: received_def new_server_def)
  with s(1) have "?step\<^sup>*\<^sup>* (new_server p) s1" by simp
  with s show ?thesis by (meson rtranclp.rtrancl_into_rtrancl)
qed

theorem server_frees_objects_once_witness:
  "\<exists>p z' s. Run_start tree_api [] run_env0 (serve user_service [1] metrics0, [], http_server0, os0) = Some (Inr (p, z', http_server0, os0)) \<and>
     (server_step wire_rt user_service)\<^sup>*\<^sup>* (new_server p) s \<and>
     count_list (pv_effects (srv_provider s)) (Freed_response 0) = 1"
proof -
  obtain p z' where r: "Run_start tree_api [] run_env0 (serve user_service [1] metrics0, [], http_server0, os0) =
      Some (Inr (p, z', http_server0, os0))" "p = server0\<lparr>idle_close_threshold_ms := 5000 * 4\<rparr>"
    using example_served[of "(http_server0, os0)"] by blast
  obtain s where s: "(server_step wire_rt user_service)\<^sup>*\<^sup>* (new_server p) s" "live s = []"
    "next_task (srv_provider s) = 1" using example_run[OF r(2)] by blast
  from server_frees_objects_once[OF r(1) user_service_good s(1), of "Freed_response 0" 0] s(2,3)
  have "count_list (pv_effects (srv_provider s)) (Freed_response 0) = 1" by simp
  with r(1) s(1) show ?thesis by blast
qed



end
