(* ===== verification/Client_Properties.thy ===== *)
theory Client_Properties
  imports Channel_Threads Support_Properties
begin

section \<open>Properties of the protobuf client\<close>

text \<open>
  What \<open>KrpcChannel\<close> promises its callers: every call is completed at most once and never lost,
  a failed connection and an expired timeout complete exactly the calls they should, the chunks of the
  byte stream do not matter, what is queued goes out whole or the connection is closed, and
  \<open>EnsureConnection\<close> finds a usable endpoint. The last section shows three behaviours of the code that
  break a call. The witnesses run on one small channel, which is defined first.
\<close>

definition world0 :: world where
  "world0 = \<lparr>w_os = \<lparr>os_tick = 0, os_open = [3], os_bad_close = 0\<rparr>, w_pools = [], w_cache = [],
     w_static = None, w_lb_index = 0, g_request_id = 2, g_endpoint_fail_cooldown_ms = 3000,
     w_metrics = \<lparr>g_metrics = new_MetricsAggregator 0, g_labeled_metrics = []\<rparr>,
     w_controllers = [(7, new_Krpccontroller)], w_effects = []\<rparr>"

definition call1 :: PendingCall where
  "call1 = \<lparr>p_response = Some 0, p_controller = Some 7, p_timeout_ms = 1000, p_start_time = 0, p_request_id = 1,
     p_done = None, p_async_callback = None, p_service_name = ''User'', p_method_name = ''Login'',
     p_peer = ''h:1''\<rparr>"

definition client0 :: channel where
  "client0 = (config_channel [] 0 0)\<lparr>m_clientfd := 3, m_ip := ''h'', m_port := 1, m_endpoint_key := ''h:1''\<rparr>"

definition client1 :: channel where
  "client1 = client0\<lparr>m_pending_calls := [(1, call1)]\<rparr>"

text \<open>A network on which a second passes with every system call.\<close>

definition slow_net :: net_env where
  "slow_net = good_net\<lparr>env_clock := (\<lambda>t. milliseconds (1000 * int t + 1000))\<rparr>"

lemma slow_net_simps [simp]:
  "env_socket_ok slow_net t" "env_connect_ok slow_net t ip p" "env_clock slow_net t = milliseconds (1000 * int t + 1000)"
  by (simp_all add: slow_net_def)

lemma client1_ok [simp]: "table_ok client1" "table_ok client0" "th_ok \<lparr>th_chan = (client1, world0), th_callers = []\<rparr>"
  by (simp_all add: table_ok_def client1_def client0_def config_channel_def Let_def call1_def th_ok_def cv_ok_def
      th_view_def pending_ids_def world0_def List.map_filter_def)

lemma world0_clock: "clock_now slow_net world0 =
    (milliseconds 1000, world0\<lparr>w_os := \<lparr>os_tick = 1, os_open = [3], os_bad_close = 0\<rparr>\<rparr>)"
  by (simp add: clock_now_def os_clock_def world0_def)

lemmas example_defs = client1_def client0_def config_channel_def Let_def call1_def world0_def

subsection \<open>The life of a call\<close>

text \<open>C4: However the callers, the send, receive, timeout and heartbeat threads interleave, no request id
  is completed twice, a pending call has not been completed, and completions are never taken back.\<close>

theorem calls_complete_at_most_once:
  assumes "(chan_step rt E D parse)\<^sup>*\<^sup>* t t'" "th_ok t"
  shows "distinct (completed_ids (w_effects (snd (th_chan t')))) \<and>
    set (pending_ids (th_chan t')) \<inter> set (completed_ids (w_effects (snd (th_chan t')))) = {} \<and>
    prefix (completed_ids (w_effects (snd (th_chan t)))) (completed_ids (w_effects (snd (th_chan t'))))"
proof -
  have "cv_ok (th_view t)" using assms(2) by (simp add: th_ok_def)
  from channel_calls.at_most_once[OF assms this] channel_calls.completed_stays[OF assms]
  show ?thesis by (simp add: th_view_def)
qed

lemma timeout_step:
  "(chan_step rt slow_net D parse)\<^sup>*\<^sup>* \<lparr>th_chan = (client1, world0), th_callers = []\<rparr>
     \<lparr>th_chan = TimeoutLoop_turn slow_net (client1, world0), th_callers = []\<rparr>"
  by (rule r_into_rtranclp) (rule chan_step.own[OF chan_own_step.timeout])

theorem calls_complete_at_most_once_witness:
  "distinct (completed_ids (w_effects (snd (TimeoutLoop_turn slow_net (client1, world0)))))"
  using calls_complete_at_most_once[OF timeout_step client1_ok(3)] by simp

text \<open>C5: A call that entered the table is never lost: after any interleaving of steps it is still
  pending or it has been completed.\<close>

theorem pending_calls_never_lost:
  assumes "(chan_step rt E D parse)\<^sup>*\<^sup>* t t'" "th_ok t" "i \<in> set (pending_ids (th_chan t))"
  shows "i \<in> set (pending_ids (th_chan t')) \<or> i \<in> set (completed_ids (w_effects (snd (th_chan t'))))"
  using channel_calls.never_lost[OF assms(1,2), of i] assms(3) by (simp add: th_view_def)

theorem pending_calls_never_lost_witness:
  "1 \<in> set (pending_ids (TimeoutLoop_turn slow_net (client1, world0))) \<or>
   1 \<in> set (completed_ids (w_effects (snd (TimeoutLoop_turn slow_net (client1, world0)))))"
  using pending_calls_never_lost[OF timeout_step client1_ok(3), of 1]
  by (simp add: pending_ids_def client1_def)

text \<open>A turn of the timeout thread completes exactly the calls whose time is up, in the order of the
  table, keeps the others, and marks the controllers of the expired calls as failed with the text
  \<open>timeout\<close>.\<close>

theorem timeout_completes_expired:
  assumes "table_ok ch" "clock_now E w = (now, w1)" "TimeoutLoop_turn E (ch, w) = (ch', w')"
  shows "completed_ids (w_effects w') = completed_ids (w_effects w) @
      map fst (filter (\<lambda>e. expired now (snd e)) (m_pending_calls ch)) \<and>
    m_pending_calls ch' = filter (\<lambda>e. \<not> expired now (snd e)) (m_pending_calls ch) \<and>
    (\<forall>(i, p) \<in> set (m_pending_calls ch). \<forall>c \<in> live_controllers w.
       expired now p \<and> p_controller p = Some c \<longrightarrow> failed_with ''timeout'' w' c)"
proof -
  have "live_controllers w1 = live_controllers w"
    using clock_now_frame[OF assms(2)] by (simp add: live_controllers_def)
  moreover have "failed_with ''timeout'' w' c"
    if "(i, p) \<in> set (m_pending_calls ch)" "c \<in> live_controllers w1" "expired now p" "p_controller p = Some c" for i p c
    using assms(2,3) that
    by (auto simp: TimeoutLoop_turn_def image_iff intro!: CompleteAll_failed(3) bexI)
  moreover have "ch' = ch\<lparr>m_pending_calls := filter (\<lambda>e. \<not> expired now (snd e)) (m_pending_calls ch)\<rparr>"
    using assms(2,3) by (auto simp: TimeoutLoop_turn_def)
  ultimately show ?thesis
    using drains_TimeoutLoop_turn[OF assms(1), of E w] assms(2,3) by (auto simp: drains_def)
qed

theorem timeout_completes_expired_witness:
  "completed_ids (w_effects (snd (TimeoutLoop_turn slow_net (client1, world0)))) = [1] \<and>
   failed_with ''timeout'' (snd (TimeoutLoop_turn slow_net (client1, world0))) 7"
proof -
  obtain ch' w' where t: "TimeoutLoop_turn slow_net (client1, world0) = (ch', w')" by fastforce
  from timeout_completes_expired[OF client1_ok(1) world0_clock t] t show ?thesis
    by (simp add: client1_def call1_def expired_def live_controllers_def world0_def)
qed

text \<open>C19: When a connection fails for a reason, nothing is left hanging: the descriptor is closed, the
  table and the send queue are empty, the heartbeat no longer waits, every pending call has been
  completed exactly once, and its controller has failed with the reason.\<close>

theorem connection_failure_fails_all:
  assumes "table_ok ch" "reason \<noteq> []" "HandleHeartbeatFailure E reason (ch, w) = (ch', w')"
  shows "m_clientfd ch' = -1 \<and> m_pending_calls ch' = [] \<and> m_send_queue ch' = [] \<and> \<not> m_waiting_heartbeat ch' \<and>
    (\<exists>ids. distinct ids \<and> set ids = set (pending_ids (ch, w)) \<and>
       completed_ids (w_effects w') = completed_ids (w_effects w) @ ids) \<and>
    (\<forall>(i, p) \<in> set (m_pending_calls ch). \<forall>c \<in> live_controllers w.
       p_controller p = Some c \<longrightarrow> failed_with reason w' c)"
  using HandleHeartbeatFailure_spec[OF assms(1,3)] fails_HandleHeartbeatFailure[OF assms(2), of "(ch, w)" E]
    assms(1,3)
  by (auto simp: drains_def fails_def)

theorem connection_failure_fails_all_witness:
  "failed_with ''gone'' (snd (HandleHeartbeatFailure slow_net ''gone'' (client1, world0))) 7"
proof -
  obtain ch' w' where t: "HandleHeartbeatFailure slow_net ''gone'' (client1, world0) = (ch', w')" by fastforce
  from connection_failure_fails_all[OF client1_ok(1) _ t] t show ?thesis
    by (simp add: client1_def call1_def live_controllers_def world0_def)
qed

subsection \<open>The byte stream\<close>

text \<open>C6: The segmentation of the stream does not matter to the client: as long as the connection
  survives, receiving chunk after chunk leaves the channel, the calls and the effects as receiving all
  the bytes at once does.\<close>

theorem recv_segmentation_irrelevant:
  assumes "rt_ok rt"
    "m_clientfd (fst (foldl (\<lambda>s c. RecvLoop_turn rt E parse (Recv_data c) s) st (cs @ [c]))) \<noteq> -1"
  shows "foldl (\<lambda>s c. RecvLoop_turn rt E parse (Recv_data c) s) st (cs @ [c]) =
    RecvLoop_turn rt E parse (Recv_data (concat (cs @ [c]))) st"
  by (rule recv_chunks[OF assms])

lemma one_byte_waits: "channel_next_frame wire_rt [CHR 0x05] = NeedMore"
  by (simp add: channel_next_frame_def wire_rt_def read_varint_small)

lemma recv_one_byte:
  "m_recv_buffer (fst st) = [] \<Longrightarrow> m_clientfd (fst st) \<noteq> -1 \<Longrightarrow>
     RecvLoop_turn wire_rt E parse (Recv_data [CHR 0x05]) st = set_buf [CHR 0x05] st"
  by (simp add: RecvLoop_turn_def recv_bytes_alt channel_frames.consume_unfold one_byte_waits)

theorem recv_segmentation_irrelevant_witness:
  "RecvLoop_turn wire_rt slow_net (\<lambda>m s. True) (Recv_data [CHR 0x05])
     (RecvLoop_turn wire_rt slow_net (\<lambda>m s. True) (Recv_data []) (client1, world0)) =
   RecvLoop_turn wire_rt slow_net (\<lambda>m s. True) (Recv_data [CHR 0x05]) (client1, world0)"
proof -
  have e: "RecvLoop_turn wire_rt slow_net (\<lambda>m s. True) (Recv_data []) (client1, world0) = (client1, world0)"
    by (simp add: RecvLoop_turn_def recv_bytes_def example_defs)
  have "m_clientfd (fst (RecvLoop_turn wire_rt slow_net (\<lambda>m s. True) (Recv_data [CHR 0x05]) (client1, world0))) \<noteq> -1"
    by (subst recv_one_byte) (simp_all add: example_defs)
  with recv_segmentation_irrelevant[of wire_rt slow_net "\<lambda>m s. True" "(client1, world0)" "[[]]" "[CHR 0x05]"] e
  show ?thesis by simp
qed

text \<open>The client cuts a stream of well-formed frames into exactly these frames, whatever the chunks:
  the handler sees every header and body once and in order, and no byte is left.\<close>

theorem client_reads_frames:
  assumes "rt_ok rt" "list_all2 (\<lambda>f w. header_fits rt (fst f) (snd f) \<and> frame_bytes rt (fst f) (snd f) = Some w) fs ws"
    "concat cs = concat ws"
  shows "feed (channel_next_frame rt) (\<lambda>f s. (s @ [f], True)) cs [] [] = (Waiting, [], fs)"
proof -
  have "list_all2 (\<lambda>f w. \<forall>later. channel_next_frame rt (w @ later) = Got f (length w)) fs ws"
    using assms(2) by (rule list_all2_mono) (use channel_next_frame_frame_bytes[OF assms(1)] in auto)
  from channel_frames.consume_frames[OF assms(1) this, of "[]" "[]"]
    channel_frames.feed_concat[OF assms(1), of "\<lambda>f s. (s @ [f], True)" "[]" "[]" cs] assms(3)
  show ?thesis by simp
qed

definition login_response :: RpcHeader where
  "login_response = Clear\<lparr>magic := kDefaultMagic, version := kDefaultVersion, msg_type := MSG_TYPE_RESPONSE,
     request_id := 1, body_size := 2, compress_type := COMPRESS_NONE\<rparr>"

lemma login_response_fits: "header_fits wire_rt login_response ''ok''"
  by (simp add: header_fits_def ByteSizeLong_def wire_rt_def login_response_def Clear_def kDefaultMagic_def
      kDefaultVersion_def msg_type_defs varint_bytes.simps)

lemma login_response_bytes: "\<exists>w. frame_bytes wire_rt login_response ''ok'' = Some w \<and> w \<noteq> []"
proof -
  from frame_bytes_read[OF wire_rt_ok' login_response_fits] obtain w where
    w: "frame_bytes wire_rt login_response ''ok'' = Some w" by blast
  with provider_next_frame_refused(3)[OF wire_rt_ok' login_response_fits w] show ?thesis by blast
qed

theorem client_reads_frames_witness:
  "\<exists>w. feed (channel_next_frame wire_rt) (\<lambda>f s. (s @ [f], True)) [take 3 w, drop 3 w @ take 1 w, drop 1 w] [] []
     = (Waiting, [], [(login_response, ''ok''), (login_response, ''ok'')])"
proof -
  obtain w where "frame_bytes wire_rt login_response ''ok'' = Some w" using login_response_bytes by blast
  with login_response_fits have "list_all2 (\<lambda>f w. header_fits wire_rt (fst f) (snd f) \<and>
      frame_bytes wire_rt (fst f) (snd f) = Some w)
      [(login_response, ''ok''), (login_response, ''ok'')] [w, w]" by simp
  moreover have "take 3 w @ drop 3 w @ v = w @ v" for v by (simp flip: append_assoc)
  then have "concat [take 3 w, drop 3 w @ take 1 w, drop 1 w] = concat [w, w]" by simp
  ultimately show ?thesis using client_reads_frames[OF wire_rt_ok'] by blast
qed

text \<open>C7: A response with the client's magic completes exactly the call it names: the call leaves the
  table, its promise is set, the payload was parsed into the response message first, and nothing else
  happens to the channel.\<close>

theorem response_completes_call:
  assumes "rt_ok rt" "header_fits rt h body" "frame_bytes rt h body = Some bytes"
    "magic h = kDefaultMagic" "msg_type h = MSG_TYPE_RESPONSE"
    "m_clientfd ch \<noteq> -1" "m_recv_buffer ch = []"
    "map_of (m_pending_calls ch) (request_id h) = Some p" "p_response p = Some resp"
    "RecvLoop_turn rt E parse (Recv_data bytes) (ch, w) = (ch', w')"
  shows "ch' = ch\<lparr>m_pending_calls := AList.delete (request_id h) (m_pending_calls ch)\<rparr> \<and>
    w_effects w' = w_effects w @ [Response_parsed resp body] @ completion_effects p"
  by (rule recv_response[OF assms])

theorem response_completes_call_witness:
  "\<exists>bytes. w_effects (snd (RecvLoop_turn wire_rt slow_net (\<lambda>m s. True) (Recv_data bytes) (client1, world0)))
     = [Response_parsed 0 ''ok'', Promise_set 1]"
proof -
  obtain w where w: "frame_bytes wire_rt login_response ''ok'' = Some w" using login_response_bytes by blast
  obtain ch' w' where t: "RecvLoop_turn wire_rt slow_net (\<lambda>m s. True) (Recv_data w) (client1, world0) = (ch', w')"
    by fastforce
  have h: "magic login_response = kDefaultMagic" "msg_type login_response = MSG_TYPE_RESPONSE"
    "request_id login_response = 1" by (simp_all add: login_response_def Clear_def)
  from response_completes_call[OF wire_rt_ok' login_response_fits w h(1,2) _ _ _ _ t, where p = call1 and resp = 0] t h(3)
  have "w_effects w' = [Response_parsed 0 ''ok'', Promise_set 1]"
    by (simp add: example_defs completion_effects_def)
  with t show ?thesis by (metis snd_conv)
qed

subsection \<open>Sending\<close>



lemma send_fail_frame:
  "\<exists>more. w_effects (snd (send_fail E i reason st)) = w_effects (snd st) @ more"
  "m_clientfd (fst st) = -1 \<Longrightarrow> m_clientfd (fst (send_fail E i reason st)) = -1"
proof -
  let ?r = "RemovePendingCall E i reason st"
  have "\<exists>xs. w_effects (snd ?r) = w_effects (snd st) @ xs"
    by (cases st) (auto simp: RemovePendingCall_def CompletePending_effects split: option.splits)
  then obtain xs where x: "w_effects (snd ?r) = w_effects (snd st) @ xs" by blast
  obtain ys where "w_effects (snd (HandleHeartbeatFailure E reason ?r)) = w_effects (snd ?r) @ ys"
    using effects_HandleHeartbeatFailure[of ?r E reason] by metis
  with x show "\<exists>more. w_effects (snd (send_fail E i reason st)) = w_effects (snd st) @ more"
    by (cases "reason = []") (simp_all add: send_fail_def)
qed (simp add: send_fail_def HandleHeartbeatFailure_fd)

text \<open>C15: The stream is never corrupted by a partial frame that the connection survives: whatever the
  kernel answers, a turn of the send thread writes a prefix of the frame, and if it is not the whole
  frame then the connection is closed.\<close>

theorem send_never_corrupts_stream:
  assumes "m_send_queue ch = task # queue" "m_clientfd ch \<noteq> -1" "SendLoop_turn E ws (ch, w) = Some (ch', w')"
  shows "\<exists>sent more. w_effects w' = w_effects w @ Bytes_sent (m_clientfd ch) sent # more \<and>
    prefix sent (t_header_varint task @ t_header task @ t_body task) \<and>
    (sent = t_header_varint task @ t_header task @ t_body task \<or> m_clientfd ch' = -1)"
  using assms(3)
proof (cases rule: SendLoop_turn_cases)
  case (sent task' queue')
  with assms(1) show ?thesis by (auto simp: emit_def task_frame_def)
next
  case (broken task' queue' out err)
  let ?st = "CloseConnectionLocked (ch\<lparr>m_send_queue := queue'\<rparr>, emit [Bytes_sent (m_clientfd ch) out] w)"
  have st: "m_clientfd (fst ?st) = -1" "w_effects (snd ?st) = w_effects w @ [Bytes_sent (m_clientfd ch) out]"
    using assms(2) by (simp_all add: CloseConnectionLocked_def emit_def)
  from send_fail_frame(1)[of E "t_request_id task'" err ?st] st(2) broken(5) obtain more where
    "w_effects w' = w_effects w @ Bytes_sent (m_clientfd ch) out # more" by (metis snd_conv append.assoc append_Cons append_Nil)
  moreover have "m_clientfd ch' = -1" using send_fail_frame(2)[OF st(1)] broken(5) by (metis fst_conv)
  moreover have "prefix out (t_header_varint task @ t_header task @ t_body task)"
    using broken(1,3) assms(1) by (simp add: task_frame_def)
  ultimately show ?thesis by blast
qed (use assms(2) in simp)

theorem send_never_corrupts_stream_witness:
  "\<exists>ch' w' sent. SendLoop_turn slow_net [Wrote 2, Werror ''broken pipe'']
     (client0\<lparr>m_send_queue := [\<lparr>t_request_id = 1, t_header_varint = ''a'', t_header = ''bcd'', t_body = ''ef''\<rparr>]\<rparr>, world0)
     = Some (ch', w') \<and> prefix sent ''abcdef'' \<and> Bytes_sent 3 sent \<in> set (w_effects w')"
proof -
  let ?task = "\<lparr>t_request_id = 1, t_header_varint = ''a'', t_header = ''bcd'', t_body = ''ef''\<rparr>"
  let ?ch = "client0\<lparr>m_send_queue := [?task]\<rparr>"
  have "\<exists>st'. SendLoop_turn slow_net [Wrote 2, Werror ''broken pipe''] (?ch, world0) = Some st'"
    by (simp add: SendLoop_turn_def client0_def config_channel_def Let_def send_segments.simps advance.simps iov_bytes_def)
  then obtain ch' w' where t: "SendLoop_turn slow_net [Wrote 2, Werror ''broken pipe''] (?ch, world0) = Some (ch', w')"
    by auto
  have fd: "m_clientfd ?ch = 3" by (simp add: client0_def)
  with send_never_corrupts_stream[OF _ _ t, of ?task "[]"] obtain sent more where
    "w_effects w' = w_effects world0 @ Bytes_sent 3 sent # more" "prefix sent ''abcdef''" by auto
  with t show ?thesis by auto
qed

subsection \<open>Connections\<close>


definition static_discovery :: "string \<Rightarrow> discovery" where
  "static_discovery lst = \<lparr>d_config = [], d_static_env = Some lst, d_children = (\<lambda>n p. []), d_data = (\<lambda>n p. [])\<rparr>"

definition login :: method_desc where
  "login = \<lparr>md_service = Some ''User'', md_name = ''Login''\<rparr>"

lemma static_discover:
  assumes "\<forall>ep \<in> set eps. endpoint_ok ep" "eps \<noteq> []" "w_static w = None"
  shows "discover E (static_discovery (join_endpoints eps)) svc m w = (eps, w\<lparr>w_static := Some eps\<rparr>)"
proof -
  have "static_loop (join_endpoints eps) 0 [] = eps"
    using static_loop_split[of 0 "join_endpoints eps" "[]"] split_join[OF assms(1)] by simp
  moreover have "retry_discovery E D s m n q eps x = (eps, x)" for D s m n q x
    using assms(2) by (cases n) simp_all
  ultimately show ?thesis
    using assms(2,3) by (simp add: discover_def static_discovery_def GetStaticEndpoints_def InitStaticEndpoints_def Let_def)
qed

lemma own_client0: "own {#} (client0, world0)"
  by (simp add: own_def owns_def held_def idle_fds_def client0_def config_channel_def Let_def world0_def)


text \<open>C17: Failover is complete: if discovery finds an endpoint that accepts connections and is not
  cooling down, \<open>EnsureConnection\<close> succeeds, wherever the rotation starts and however many other
  endpoints fail before it.\<close>

theorem ensure_connection_complete:
  assumes "md_service md = Some svc" "discover E D svc (md_name md) w = (eps, w1)" "ep \<in> set eps"
    "usable E ep (m_fail_states ch)" "\<forall>e \<in> set eps. CHR '':'' \<notin> set (host e)"
  shows "\<exists>st'. EnsureConnection E D md ctl (ch, w) = (Inr (), st')"
  by (rule EnsureConnection_usable[OF assms])

text \<open>Only the endpoint \<open>b\<close> accepts connections.\<close>

definition half_net :: net_env where
  "half_net = good_net\<lparr>env_connect_ok := (\<lambda>t ip p. ip = ''b'')\<rparr>"

theorem ensure_connection_complete_witness:
  "\<exists>st'. EnsureConnection half_net (static_discovery (join_endpoints [mk_endpoint ''a'' 1, mk_endpoint ''b'' 2]))
     login (Some 7) (client0, world0) = (Inr (), st')"
proof (rule ensure_connection_complete)
  show "discover half_net (static_discovery (join_endpoints [mk_endpoint ''a'' 1, mk_endpoint ''b'' 2])) ''User''
      (md_name login) world0 = ([mk_endpoint ''a'' 1, mk_endpoint ''b'' 2],
      world0\<lparr>w_static := Some [mk_endpoint ''a'' 1, mk_endpoint ''b'' 2]\<rparr>)"
    by (rule static_discover) (simp_all add: endpoint_ok_def world0_def)
  show "usable half_net (mk_endpoint ''b'' 2) (m_fail_states client0)"
    by (simp add: usable_def accepts_def half_net_def client0_def config_channel_def Let_def)
qed (simp_all add: login_def)

text \<open>C20: A dead peer is noticed: once the configured number of heartbeats in a row stays unanswered, the
  connection is closed and no call is left pending.\<close>

theorem silent_peer_closes_connection:
  assumes "table_ok ch" "m_clientfd ch \<noteq> -1" "0 < n"
    "m_heartbeat_miss_limit ch \<le> m_missed_heartbeat_count ch + int n"
  shows "m_clientfd (fst (silent_heartbeats rt E n (ch, w))) = -1 \<and>
    m_pending_calls (fst (silent_heartbeats rt E n (ch, w))) = []"
  using silent_heartbeats_close[OF assms, of rt E w] by (simp add: closed_def)

theorem silent_peer_closes_connection_witness:
  "m_clientfd (fst (silent_heartbeats wire_rt slow_net 3 (client1, world0))) = -1"
  by (rule silent_peer_closes_connection[THEN conjunct1])
    (simp_all add: client1_def client0_def config_channel_def Let_def Load_def kDefaultHeartbeatMissLimit_def
      table_ok_def call1_def)

subsection \<open>Behaviours that break a call\<close>



text \<open>C34: A request whose body is empty is never sent successfully: when the loop has written the header it
  offers zero bytes to \<open>writev\<close>, takes the answer 0 for a closed connection, closes it and, unless an
  error text of the system is empty, fails every pending call.\<close>

theorem empty_body_closes_connection:
  assumes "m_send_queue ch = task # queue" "m_clientfd ch \<noteq> -1" "t_body task = []" "table_ok ch"
    "SendLoop_turn E ws (ch, w) = Some (ch', w')"
  shows "m_clientfd ch' = -1 \<and> (Werror [] \<notin> set ws \<longrightarrow> m_pending_calls ch' = [])"
  using assms(5)
proof (cases rule: SendLoop_turn_cases)
  case (sent task' queue')
  let ?segs = "[t_header_varint task, t_header task, t_body task]"
  have "pos_ok ?segs 0 0" by (simp add: pos_ok_def)
  from send_segments_empty_body[OF this] assms(3) have "fst (send_segments ws ?segs 0 0 []) \<noteq> Sent" by simp
  with sent(1,4) assms(1) show ?thesis by simp
next
  case (broken task' queue' out err)
  let ?st = "CloseConnectionLocked (ch\<lparr>m_send_queue := queue'\<rparr>, emit [Bytes_sent (m_clientfd ch) out] w)"
  have "m_clientfd (fst ?st) = -1" using assms(2) by (simp add: CloseConnectionLocked_def)
  from send_fail_frame(2)[OF this] broken(5) have "m_clientfd ch' = -1" by (metis fst_conv)
  moreover have "m_pending_calls ch' = []" if "Werror [] \<notin> set ws"
  proof -
    have "err \<noteq> []" using send_segments_error[OF broken(4)] that by blast
    moreover have ok: "table_ok (fst ?st)"
      by (rule CloseConnectionLocked_st(1)) (use assms(4) in \<open>simp add: table_ok_def\<close>)
    note closed_HandleHeartbeatFailure[OF drains_table_ok[OF drains_RemovePendingCall[OF ok]]]
    ultimately have "closed (ch', w')" by (simp add: broken(5) send_fail_def)
    then show ?thesis by (simp add: closed_def)
  qed
  ultimately show ?thesis by blast
qed (use assms(2) in simp)

theorem empty_body_closes_connection_witness:
  "\<exists>ch' w'. SendLoop_turn slow_net [Wrote 9, Wrote 9]
     (client1\<lparr>m_send_queue := [\<lparr>t_request_id = 1, t_header_varint = ''a'', t_header = ''bcd'', t_body = []\<rparr>]\<rparr>, world0)
     = Some (ch', w') \<and> m_clientfd ch' = -1 \<and> m_pending_calls ch' = []"
proof -
  let ?task = "\<lparr>t_request_id = 1, t_header_varint = ''a'', t_header = ''bcd'', t_body = []\<rparr>"
  let ?ch = "client1\<lparr>m_send_queue := [?task]\<rparr>"
  have "\<exists>st'. SendLoop_turn slow_net [Wrote 9, Wrote 9] (?ch, world0) = Some st'"
    by (simp add: SendLoop_turn_def client1_def client0_def config_channel_def Let_def send_segments.simps
        advance.simps iov_bytes_def)
  then obtain ch' w' where t: "SendLoop_turn slow_net [Wrote 9, Wrote 9] (?ch, world0) = Some (ch', w')" by auto
  have "table_ok ?ch" "m_clientfd ?ch \<noteq> -1" using client1_ok(1) by (simp_all add: table_ok_def client1_def client0_def)
  with empty_body_closes_connection[OF _ _ _ _ t, of ?task "[]"] t show ?thesis by auto
qed

text \<open>C33: A partial response survives its connection: after a failure the receive buffer still holds the
  bytes of the lost connection, \<open>EnsureConnection\<close> connects again without emptying it, and a complete and
  valid response that then arrives is not recognised but swallowed as a continuation of the old bytes;
  its call stays pending.\<close>

theorem stale_bytes_swallow_response:
  assumes "rt_ok rt" "table_ok ch" "HandleHeartbeatFailure E reason (ch, w) = (ch1, w1)"
    "EnsureConnection E D md ctl (ch1, w1) = (Inr (), (ch2, w2))" "m_clientfd ch2 \<noteq> -1"
    "frame_bytes rt h body = Some bytes" "channel_next_frame rt (m_recv_buffer ch @ bytes) = NeedMore"
  shows "RecvLoop_turn rt E parse (Recv_data bytes) (ch2\<lparr>m_pending_calls := calls\<rparr>, w2) =
      (ch2\<lparr>m_pending_calls := calls, m_recv_buffer := m_recv_buffer ch @ bytes\<rparr>, w2)"
proof -
  note f = HandleHeartbeatFailure_spec[OF assms(2,3)]
  have buf: "m_recv_buffer ch2 = m_recv_buffer ch"
    using EnsureConnection_keeps_buffer[OF assms(4)] f(2,6) by simp
  have "consume (channel_next_frame rt) (handle_frame E parse) (m_recv_buffer ch @ bytes) st =
      (Waiting, m_recv_buffer ch @ bytes, st)" for st
    using assms(7) by (simp add: channel_frames.consume_unfold[OF assms(1)])
  with assms(5) buf show ?thesis by (simp add: RecvLoop_turn_def recv_bytes_def)
qed

text \<open>The lost connection had delivered the first byte of a frame with a header of 100 bytes.\<close>

lemma stale_needs_more:
  "length w < 100 \<Longrightarrow> channel_next_frame wire_rt (CHR 0x64 # w) = NeedMore"
  by (simp add: channel_next_frame_def wire_rt_def read_varint_small)

theorem stale_bytes_swallow_response_witness:
  "\<exists>bytes ch1 w1 ch2 w2. frame_bytes wire_rt login_response ''ok'' = Some bytes \<and>
    HandleHeartbeatFailure good_net ''connection closed'' (client0\<lparr>m_recv_buffer := [CHR 0x64]\<rparr>, world0) = (ch1, w1) \<and>
    EnsureConnection good_net (static_discovery (join_endpoints [mk_endpoint ''b'' 2])) login None
      (ch1, w1) = (Inr (), (ch2, w2)) \<and>
    m_pending_calls (fst (RecvLoop_turn wire_rt good_net (\<lambda>m s. True) (Recv_data bytes)
      (ch2\<lparr>m_pending_calls := [(1, call1)]\<rparr>, w2))) = [(1, call1)]"
proof -
  let ?ch = "client0\<lparr>m_recv_buffer := [CHR 0x64]\<rparr>" and ?D = "static_discovery (join_endpoints [mk_endpoint ''b'' 2])"
  obtain bytes where b: "frame_bytes wire_rt login_response ''ok'' = Some bytes" using login_response_bytes by blast
  have len: "length bytes < 100"
    using b by (auto simp: frame_bytes_def SerializeToString_def ByteSizeLong_def InternalSerialize_def wire_rt_def
        login_response_def Clear_def kDefaultMagic_def kDefaultVersion_def msg_type_defs varint_bytes.simps)
  obtain ch1 w1 where f: "HandleHeartbeatFailure good_net ''connection closed'' (?ch, world0) = (ch1, w1)" by fastforce
  have ok: "table_ok ?ch" using client1_ok(2) by (simp add: table_ok_def)
  have r: "ch1 = ?ch\<lparr>m_clientfd := -1\<rparr>" "w1 = world0\<lparr>w_os := \<lparr>os_tick = 0, os_open = [], os_bad_close = 0\<rparr>\<rparr>"
    using f by (auto simp: HandleHeartbeatFailure_def CloseConnectionLocked_def FailPendingCalls_def CompleteAll_def
        Let_def client0_def config_channel_def world0_def os_close_def)
  then have st: "w_static w1 = None" "m_fail_states ch1 = []"
    by (simp_all add: client0_def config_channel_def Let_def world0_def)
  have "\<exists>st'. EnsureConnection good_net ?D login None (ch1, w1) = (Inr (), st')"
  proof (rule EnsureConnection_usable)
    show "discover good_net ?D ''User'' (md_name login) w1 = ([mk_endpoint ''b'' 2], w1\<lparr>w_static := Some [mk_endpoint ''b'' 2]\<rparr>)"
      by (rule static_discover) (simp_all add: endpoint_ok_def st)
    show "usable good_net (mk_endpoint ''b'' 2) (m_fail_states ch1)" by (simp add: usable_def accepts_def st)
  qed (simp_all add: login_def)
  then obtain ch2 w2 where en: "EnsureConnection good_net ?D login None (ch1, w1) = (Inr (), (ch2, w2))" by auto
  have own: "own {#} (ch1, w1)"
    by (simp add: r own_def owns_def held_def idle_fds_def world0_def)
  from EnsureConnection_open[OF own en] have "m_clientfd ch2 \<noteq> -1" by simp
  from stale_bytes_swallow_response[OF wire_rt_ok' ok f en this b, of "\<lambda>m s. True"] stale_needs_more[OF len]
  have "m_pending_calls (fst (RecvLoop_turn wire_rt good_net (\<lambda>m s. True) (Recv_data bytes)
      (ch2\<lparr>m_pending_calls := [(1, call1)]\<rparr>, w2))) = [(1, call1)]" by simp
  with b f en show ?thesis by blast
qed

text \<open>The timeout thread between the insertion of a call and the storing of its callback.\<close>

lemma overtaken_run:
  "(chan_step rt E D parse)\<^sup>*\<^sup>* \<lparr>th_chan = st, th_callers = [Prepared pr]\<rparr>
     \<lparr>th_chan = enqueue_call pr (set_callback pr (TimeoutLoop_turn E (insert_call pr st))),
      th_callers = [Waiting_for (pr_pending pr)]\<rparr>"
proof -
  let ?step = "chan_step rt E D parse"
  let ?st1 = "insert_call pr st" and ?st2 = "TimeoutLoop_turn E (insert_call pr st)"
  have "?step \<lparr>th_chan = st, th_callers = [Prepared pr]\<rparr> \<lparr>th_chan = ?st1, th_callers = [Inserted pr]\<rparr>"
    using chan_step.own[OF chan_own_step.insert[of pr "[Prepared pr]" rt E D st]] by simp
  moreover have "?step \<lparr>th_chan = ?st1, th_callers = [Inserted pr]\<rparr> \<lparr>th_chan = ?st2, th_callers = [Inserted pr]\<rparr>"
    by (rule chan_step.own[OF chan_own_step.timeout])
  moreover have "?step \<lparr>th_chan = ?st2, th_callers = [Inserted pr]\<rparr>
      \<lparr>th_chan = set_callback pr ?st2, th_callers = [Called_back pr]\<rparr>"
    using chan_step.own[OF chan_own_step.callback[of pr "[Inserted pr]" rt E D ?st2]] by simp
  moreover have "?step \<lparr>th_chan = set_callback pr ?st2, th_callers = [Called_back pr]\<rparr>
      \<lparr>th_chan = enqueue_call pr (set_callback pr ?st2), th_callers = [Waiting_for (pr_pending pr)]\<rparr>"
    using chan_step.own[OF chan_own_step.enqueue[of pr "[Called_back pr]" rt E D "set_callback pr ?st2"]] by simp
  ultimately show ?thesis by (meson converse_rtranclp_into_rtranclp r_into_rtranclp)
qed

lemma timeout_overtakes:
  fixes pr :: prepared
  defines "i \<equiv> p_request_id (pr_pending pr)"
  assumes "table_ok ch" "i \<notin> fst ` set (m_pending_calls ch)" "clock_now E w = (now, w1)"
    "p_async_callback (pr_pending pr) = None" "expired now (pr_pending pr)"
    "TimeoutLoop_turn E (insert_call pr (ch, w)) = (ch2, w2)"
  shows "i \<notin> set (pending_ids (ch2, w2))" "i \<in> set (completed_ids (w_effects w2))"
    "Callback_run i cb c r \<notin> set (drop (length (w_effects w)) (w_effects w2))"
proof -
  define calls where "calls = m_pending_calls ch @ [(i, pr_pending pr)]"
  have ins: "insert_call pr (ch, w) = (ch\<lparr>m_pending_calls := calls\<rparr>, w)"
    using update_new_key[of i "m_pending_calls ch"] assms(3) by (simp add: insert_call_def calls_def i_def)
  let ?ps = "filter (expired now) (map snd calls)"
  have t: "ch2 = ch\<lparr>m_pending_calls := filter (\<lambda>e. \<not> expired now (snd e)) calls\<rparr>"
    "w2 = CompleteAll E ?ps ''timeout'' False w1"
    using assms(7) by (simp_all add: ins TimeoutLoop_turn_def assms(4))
  have eff: "w_effects w2 = w_effects w @ concat (map completion_effects ?ps)"
    using clock_now_frame[OF assms(4)] by (simp add: t(2) CompleteAll_effects)
  show "i \<notin> set (pending_ids (ch2, w2))"
    using assms(3,6) by (force simp: t(1) pending_ids_def calls_def)
  show "i \<in> set (completed_ids (w_effects w2))"
    using assms(6) by (simp add: eff completed_ids_concat calls_def i_def)
  have "Callback_run i cb c r \<notin> set (completion_effects p)" if "p \<in> set ?ps" for p
  proof -
    have "p_request_id q \<noteq> i" if "q \<in> snd ` set (m_pending_calls ch)" for q
      using that assms(2,3) by (force simp: table_ok_def)
    with that have "p = pr_pending pr \<or> p_request_id p \<noteq> i" by (auto simp: calls_def split: if_splits)
    with assms(5) show ?thesis by (auto simp: completion_effects_def split: option.splits)
  qed
  then show "Callback_run i cb c r \<notin> set (drop (length (w_effects w)) (w_effects w2))" by (auto simp: eff)
qed


definition prepared_call :: prepared where
  "prepared_call = \<lparr>pr_pending = call1, pr_varint = ''a'', pr_header = ''bcd'', pr_body = ''ef'', pr_callback = Some 5\<rparr>"


end
