(* ===== verification/Rpc_Session_Properties.thy ===== *)
theory Rpc_Session_Properties
  imports Rpc_Session Server_Properties Client_Properties
begin

section \<open>Properties of protobuf sessions\<close>

text \<open>
  What a caller of a \<open>KrpcChannel\<close> gets from a \<open>KrpcProvider\<close> at the other end of the network, with a witness: the
  run of one call through a session.
\<close>


subsection \<open>The run of one call\<close>

definition login_call :: call_args where
  "login_call = \<lparr>ca_method = Some login, ca_controller = None, ca_request = Some (Some ''ab''),
     ca_response = Some 0, ca_done = None, ca_callback = None\<rparr>"

definition login_server :: discovery where
  "login_server = static_discovery (join_endpoints [mk_endpoint ''h'' 1])"

lemma login_fits: "header_fits wire_rt (request_header 2 ''User'' ''Login'' ''ab'') ''ab''"
  by (simp add: header_fits_def ByteSizeLong_def wire_rt_def request_header_def Clear_def
      kDefaultMagic_def kDefaultVersion_def msg_type_defs varint_bytes.simps)

lemma login_prepared:
  assumes "g_request_id w = 2" "w_static w = None" "m_fail_states ch = []"
  obtains pr ch1 w1 w' where "prepare_call wire_rt good_net login_server login_call (ch, w) = (Some pr, (ch1, w1))"
    "EnsureConnection good_net login_server login None (ch, w') = (Inr (), (ch1, w1))" "w_pools w' = w_pools w"
    "os_open (w_os w') = os_open (w_os w)" "os_bad_close (w_os w') = os_bad_close (w_os w)"
proof -
  obtain now w1 where k: "clock_now good_net w = (now, w1)" by fastforce
  have f: "w_static w1 = w_static w" "g_request_id w1 = g_request_id w" "w_pools w1 = w_pools w"
    "os_open (w_os w1) = os_open (w_os w)" "os_bad_close (w_os w1) = os_bad_close (w_os w)"
    using k by (auto simp: clock_now_def os_clock_def)
  let ?w2 = "w1\<lparr>g_request_id := 3\<rparr>"
  have "\<exists>st3. EnsureConnection good_net login_server login None (ch, ?w2) = (Inr (), st3)"
  proof (rule EnsureConnection_usable)
    show "discover good_net login_server ''User'' (md_name login) ?w2 =
        ([mk_endpoint ''h'' 1], ?w2\<lparr>w_static := Some [mk_endpoint ''h'' 1]\<rparr>)"
      unfolding login_server_def by (rule static_discover) (use f assms in \<open>simp_all add: endpoint_ok_def\<close>)
    show "usable good_net (mk_endpoint ''h'' 1) (m_fail_states ch)" by (simp add: usable_def accepts_def assms)
  qed (simp_all add: login_def)
  then obtain ch1 w3 where en: "EnsureConnection good_net login_server login None (ch, ?w2) = (Inr (), (ch1, w3))" by auto
  obtain hs where "SerializeToString wire_rt (request_header 2 ''User'' ''Login'' ''ab'') = Some hs"
    using frame_bytes_exists[OF login_fits] by (auto simp: frame_bytes_def split: option.splits)
  with en k f assms have "\<exists>pr. prepare_call wire_rt good_net login_server login_call (ch, w) = (Some pr, (ch1, w3))"
    by (simp add: prepare_call_def login_call_def NextRequestId_def login_def Let_def)
  with en f that[of _ ch1 w3 ?w2] show ?thesis by auto
qed


text \<open>A session in which this call was made, on the connection 4: the client, the server and what is under way.\<close>

definition login_run :: "threads \<Rightarrow> server \<Rightarrow> string \<Rightarrow> string \<Rightarrow> call_session" where
  "login_run t s out answer = \<lparr>cs_client = t, cs_server = s, cs_conn = 4, cs_to_server = out, cs_to_client = answer,
     cs_calls = [(2, login_call)]\<rparr>"

definition login_client :: chan_state where
  "login_client = new_KrpcChannel good_net [] False 0 world0"

lemma login_client_new:
  "\<exists>ch w. login_client = (ch, w) \<and> m_clientfd ch = -1 \<and> m_recv_buffer ch = [] \<and> m_pending_calls ch = [] \<and>
     m_send_queue ch = [] \<and> m_fail_states ch = [] \<and> w_pools w = [] \<and> g_request_id w = 2 \<and> w_static w = None \<and>
     w_os w = \<lparr>os_tick = 1, os_open = [3], os_bad_close = 0\<rparr>"
  by (simp add: login_client_def new_KrpcChannel_def config_channel_def clock_now_def os_clock_def world0_def Let_def)

text \<open>The client connects and prepares the call.\<close>

definition prepared_login :: "chan_state \<Rightarrow> prepared \<Rightarrow> bool" where
  "prepared_login st pr \<longleftrightarrow> m_clientfd (fst st) \<noteq> -1 \<and> m_recv_buffer (fst st) = [] \<and> m_pending_calls (fst st) = [] \<and>
     m_send_queue (fst st) = [] \<and> p_request_id (pr_pending pr) = 2 \<and> p_response (pr_pending pr) = Some 0 \<and>
     pr_body pr = ''ab'' \<and> frame_bytes wire_rt (request_header 2 ''User'' ''Login'' ''ab'') ''ab'' =
       Some (pr_varint pr @ pr_header pr @ pr_body pr)"

lemma login_call_step:
  assumes "task_queue p = []"
  shows "\<exists>st pr. rpc_step wire_rt good_net login_server parse S (new_call_session login_client p 3)
     (login_run \<lparr>th_chan = st, th_callers = [Prepared pr]\<rparr> (new_server p) [] []) \<and> prepared_login st pr"
proof -
  obtain ch w where c: "login_client = (ch, w)" "m_clientfd ch = -1" "m_recv_buffer ch = []" "m_pending_calls ch = []"
    "m_send_queue ch = []" "m_fail_states ch = []" "w_pools w = []" "g_request_id w = 2" "w_static w = None"
    "os_open (w_os w) = [3]" "os_bad_close (w_os w) = 0"
    using login_client_new by auto
  obtain pr ch1 w1 w' where p: "prepare_call wire_rt good_net login_server login_call (ch, w) = (Some pr, (ch1, w1))"
    and en: "EnsureConnection good_net login_server login None (ch, w') = (Inr (), (ch1, w1))"
    and w': "w_pools w' = w_pools w" "os_open (w_os w') = os_open (w_os w)" "os_bad_close (w_os w') = os_bad_close (w_os w)"
    by (rule login_prepared[OF c(8,9,6)])
  let ?t0 = "\<lparr>th_chan = (ch, w), th_callers = []\<rparr>" and ?t1 = "\<lambda>pr. \<lparr>th_chan = (ch1, w1), th_callers = [Prepared pr]\<rparr>"
  have "own {#} (ch, w')" using c w' by (simp add: own_def owns_def held_def idle_fds_def)
  from EnsureConnection_open[OF this en] have fd: "m_clientfd ch1 \<noteq> -1" by blast
  have buf: "m_recv_buffer ch1 = []" using EnsureConnection_keeps_buffer[OF en c(2)] c(3) by simp
  obtain md svc args resp where f: "ca_method login_call = Some md" "md_service md = Some svc"
    "ca_request login_call = Some (Some args)" "ca_response login_call = Some resp" "p_response (pr_pending pr) = Some resp"
    "pr_body pr = args" "p_request_id (pr_pending pr) = g_request_id (snd (ch, w))"
    "frame_bytes wire_rt (request_header (g_request_id (snd (ch, w))) svc (md_name md) args) args =
       Some (pr_varint pr @ pr_header pr @ pr_body pr)"
    by (rule prepare_call_frame[OF p])
  have "prepared_login (ch1, w1) pr"
    using f fd buf prepare_call_view(1)[OF p] chan_local_prepare_call[OF p] c(2-11)
    by (auto simp: prepared_login_def login_call_def login_def same_calls_def chan_local_def)
  moreover have "client_step wire_rt good_net login_server parse [] ?t0 ([] @ [(2, login_call)]) (?t1 pr)"
  proof -
    have "call_fits wire_rt 2 login_call"
      using login_fits by (simp add: call_fits_def call_request_def login_call_def login_def)
    moreover have "ids_left (th_chan ?t0)" by (simp add: ids_left_def c(8))
    moreover have "prepare_call wire_rt good_net login_server login_call (th_chan ?t0) = (Some pr, (ch1, w1))" using p by simp
    moreover have "2 = p_request_id (pr_pending pr)" using f(7) c(8) by simp
    ultimately have "client_step wire_rt good_net login_server parse [] ?t0 ([] @ [(2, login_call)])
        \<lparr>th_chan = (ch1, w1), th_callers = Prepared pr # th_callers ?t0\<rparr>" by (intro client_step.call)
    then show ?thesis by (simp only: threads.select_convs)
  qed
  moreover have "clean_connection ?t0 (?t1 pr)"
    using buf fd c(2-11) by (simp add: clean_connection_def idle_fds_def)
  ultimately show ?thesis
    using rpc_step.leave[of wire_rt good_net login_server parse "new_call_session login_client p 3" "[(2, login_call)]"
        "?t1 pr" 4 S]
    by (intro exI[of _ "(ch1, w1)"] exI[of _ pr])
      (simp add: new_call_session_def login_run_def c(1) unseen_conn_def new_server_def server_tasks_def assms)
qed


text \<open>The call enters the table and its frame is written.\<close>

definition awaited :: "threads \<Rightarrow> bool" where
  "awaited t \<longleftrightarrow> m_clientfd (fst (th_chan t)) \<noteq> -1 \<and> m_recv_buffer (fst (th_chan t)) = [] \<and>
     (\<exists>q. map_of (m_pending_calls (fst (th_chan t))) 2 = Some q \<and> p_response q = Some 0)"

lemma login_run_own:
  assumes "chan_own_step wire_rt good_net login_server t t'" "same_connection t t'"
    "w_effects (snd (th_chan t')) = w_effects (snd (th_chan t)) @ es"
  shows "rpc_step wire_rt good_net login_server parse S (login_run t s out answer) (login_run t' s (out @ sent_bytes es) answer)"
  using rpc_step.stay[OF client_step.own, of wire_rt good_net login_server "login_run t s out answer" t' parse S] assms
  by (simp add: login_run_def chan_news_append)

lemma call_written:
  assumes "prepared_login st pr"
  shows "\<exists>t. (rpc_step wire_rt good_net login_server parse S)\<^sup>*\<^sup>*
     (login_run \<lparr>th_chan = st, th_callers = [Prepared pr]\<rparr> s [] [])
     (login_run t s (pr_varint pr @ pr_header pr @ pr_body pr) []) \<and> awaited t"
proof -
  let ?step = "rpc_step wire_rt good_net login_server parse S" and ?frame = "pr_varint pr @ pr_header pr @ pr_body pr"
  let ?Z = "\<lambda>st ph out. login_run \<lparr>th_chan = st, th_callers = [ph]\<rparr> s out []"
  obtain ch w where st: "st = (ch, w)" by (rule prod.exhaust)
  define q where "q = (pr_pending pr)\<lparr>p_async_callback := pr_callback pr\<rparr>"
  define task where "task = \<lparr>t_request_id = 2, t_header_varint = pr_varint pr, t_header = pr_header pr, t_body = pr_body pr\<rparr>"
  let ?ch1 = "ch\<lparr>m_pending_calls := [(2, pr_pending pr)]\<rparr>" and ?ch2 = "ch\<lparr>m_pending_calls := [(2, q)]\<rparr>"
  let ?ch3 = "?ch2\<lparr>m_send_queue := [task]\<rparr>"
  let ?w4 = "emit [Bytes_sent (m_clientfd ch) ?frame] w"
  have ops: "insert_call pr st = (?ch1, w)" "set_callback pr (?ch1, w) = (?ch2, w)" "enqueue_call pr (?ch2, w) = (?ch3, w)"
    using assms by (simp_all add: st prepared_login_def insert_call_def set_callback_def enqueue_call_def EnqueueSend_def
        q_def task_def)
  have send: "SendLoop_turn good_net [Wrote (length ?frame)] (?ch3, w) = Some (?ch2\<lparr>m_send_queue := []\<rparr>, ?w4)"
    using SendLoop_turn_whole[of ?ch3 task "[]" "[Wrote (length ?frame)]" good_net w] assms
    by (simp add: st prepared_login_def task_def positive_writes_def writes_count_def)
  note own = chan_own_step.insert[of pr "[Prepared pr]" wire_rt good_net login_server st]
    chan_own_step.callback[of pr "[Inserted pr]" wire_rt good_net login_server "(?ch1, w)"]
    chan_own_step.enqueue[of pr "[Called_back pr]" wire_rt good_net login_server "(?ch2, w)"]
    chan_own_step.send[OF send, of wire_rt login_server "[Waiting_for (pr_pending pr)]"]
  let ?t4 = "\<lparr>th_chan = (?ch2\<lparr>m_send_queue := []\<rparr>, ?w4), th_callers = [Waiting_for (pr_pending pr)]\<rparr>"
  have "?step (?Z st (Prepared pr) []) (?Z (?ch1, w) (Inserted pr) ([] @ sent_bytes []))"
    by (rule login_run_own) (use own(1) ops(1) in \<open>simp_all add: same_connection_def st\<close>)
  moreover have "?step (?Z (?ch1, w) (Inserted pr) []) (?Z (?ch2, w) (Called_back pr) ([] @ sent_bytes []))"
    by (rule login_run_own) (use own(2) in \<open>simp_all add: ops same_connection_def\<close>)
  moreover have "?step (?Z (?ch2, w) (Called_back pr) []) (?Z (?ch3, w) (Waiting_for (pr_pending pr)) ([] @ sent_bytes []))"
    by (rule login_run_own) (use own(3) in \<open>simp_all add: ops same_connection_def\<close>)
  moreover have "?step (?Z (?ch3, w) (Waiting_for (pr_pending pr)) [])
      (login_run ?t4 s ([] @ sent_bytes [Bytes_sent (m_clientfd ch) ?frame]) [])"
    by (rule login_run_own) (use own(4) in \<open>simp_all add: same_connection_def emit_def\<close>)
  moreover have "awaited ?t4" using assms by (simp add: awaited_def prepared_login_def st q_def)
  ultimately show ?thesis by (intro exI[of _ ?t4] conjI) (auto intro: converse_rtranclp_into_rtranclp)
qed

text \<open>The server receives the frame, runs the request and replies; the client receives the reply.\<close>

lemma login_run_serve:
  assumes "server_step wire_rt S s s'" "length (srv_buffers s' 4) \<le> length (srv_buffers s 4)"
    "pv_effects (srv_provider s') = pv_effects (srv_provider s) @ es"
  shows "rpc_step wire_rt E D parse S (login_run t s out answer) (login_run t s' out (answer @ sent_to 4 es))"
  using rpc_step.serve[of wire_rt S "login_run t s out answer" s' E D parse] assms by (simp add: login_run_def)

lemma call_answered:
  assumes p: "p = server0\<lparr>idle_close_threshold_ms := 5000 * 4\<rparr>"
    and w: "frame_bytes wire_rt (request_header 2 ''User'' ''Login'' ''ab'') ''ab'' = Some w"
    and bytes: "frame_bytes wire_rt (response_header 2 ''ok'') ''ok'' = Some bytes"
  shows "\<exists>s. (rpc_step wire_rt E D parse user_service)\<^sup>*\<^sup>* (login_run t (new_server p) w []) (login_run t s [] bytes)"
proof -
  let ?step = "rpc_step wire_rt E D parse user_service"
  have "user_login (request_header 2 ''User'' ''Login'' ''ab'')"
    using login_fits by (simp add: user_login_def request_header_def Clear_def)
  from request_served[OF p this w] bytes obtain s1 s2 s3 where
    s: "server_step wire_rt user_service (received p w) s1" "server_step wire_rt user_service s1 s2"
      "server_step wire_rt user_service s2 s3" "srv_buffers s1 4 = []" "srv_buffers s2 = srv_buffers s1"
      "srv_buffers s3 = srv_buffers s1" "pv_effects (srv_provider s1) = []" "pv_effects (srv_provider s2) = []"
      "pv_effects (srv_provider s3) = [Sent_to 4 bytes, Freed_response 0, Freed_done 0, Freed_request 0]"
    by (auto simp: request_header_def)
  have "pv_effects p = []" by (simp add: p)
  have "?step (login_run t (new_server p) w []) (login_run t (received p w) [] [])"
    using rpc_step.deliver[where Z = "login_run t (new_server p) w []" and bytes = w and rest = "[]" and buffers = "\<lambda>_. []"
        and rt = wire_rt and E = E and D = D and parse = parse and S = user_service]
    unfolding new_server_def login_run_def received_def by simp
  moreover have "?step (login_run t (received p w) [] []) (login_run t s1 [] ([] @ sent_to 4 []))"
    by (rule login_run_serve[OF s(1)]) (simp_all add: s(4,7) received_def new_server_def p)
  moreover have "?step (login_run t s1 [] []) (login_run t s2 [] ([] @ sent_to 4 []))"
    by (rule login_run_serve[OF s(2)]) (simp_all add: s(5,7,8))
  moreover have "?step (login_run t s2 [] []) (login_run t s3 []
      ([] @ sent_to 4 [Sent_to 4 bytes, Freed_response 0, Freed_done 0, Freed_request 0]))"
    by (rule login_run_serve[OF s(3)]) (simp_all add: s(5,6,8,9))
  ultimately show ?thesis
    by (intro exI[of _ s3]) (auto simp: sent_to_def List.map_filter_def intro: converse_rtranclp_into_rtranclp)
qed

lemma login_received:
  assumes "awaited t" and bytes: "frame_bytes wire_rt (response_header 2 ''ok'') ''ok'' = Some bytes"
  shows "\<exists>t'. rpc_step wire_rt E D parse S (login_run t s [] bytes) (login_run t' s [] []) \<and>
     Response_parsed 0 ''ok'' \<in> set (w_effects (snd (th_chan t')))"
proof -
  let ?st = "RecvLoop_turn wire_rt E parse (Recv_data bytes) (th_chan t)"
  obtain ch w where t: "th_chan t = (ch, w)" by (rule prod.exhaust)
  obtain ch' w' where fin: "RecvLoop_turn wire_rt E parse (Recv_data bytes) (ch, w) = (ch', w')" by (rule prod.exhaust)
  obtain q where q: "map_of (m_pending_calls ch) 2 = Some q" "p_response q = Some 0" "m_clientfd ch \<noteq> -1" "m_recv_buffer ch = []"
    using assms(1) by (auto simp: awaited_def t)
  have h: "magic (response_header 2 ''ok'') = kDefaultMagic" "msg_type (response_header 2 ''ok'') = MSG_TYPE_RESPONSE"
    "request_id (response_header 2 ''ok'') = 2" by (simp_all add: response_header_def Clear_def)
  have "Response_parsed 0 ''ok'' \<in> set (w_effects (snd ?st))"
    using recv_response[OF wire_rt_ok' ok_response_fits bytes h(1,2) q(3,4) _ q(2) fin] q(1) by (simp add: h(3) t fin)
  moreover have "rpc_step wire_rt E D parse S (login_run t s [] bytes) (login_run (t\<lparr>th_chan := ?st\<rparr>) s [] [])"
    using rpc_step.receive[of t "login_run t s [] bytes" bytes "[]" wire_rt E D parse S] q(3) by (simp add: login_run_def t)
  ultimately show ?thesis by (intro exI[of _ "t\<lparr>th_chan := ?st\<rparr>"]) simp
qed

lemma user_service_small: "frames_small wire_rt user_service"
proof -
  have "header_fits wire_rt (ping_header i) []" "header_fits wire_rt (heartbeat_header MSG_TYPE_PONG i) []" for i
    by (rule plain_header_fits; simp add: ping_header_def heartbeat_header_def Clear_def)+
  then show ?thesis using ok_response_fits by (simp add: frames_small_def user_service_def)
qed


end
