(* ===== verification/Msgpack_Wire.thy ===== *)
theory Msgpack_Wire
  imports Wire_Instance
begin

section \<open>The msgpack protocol: frames, header, dispatcher\<close>

text \<open>
  The model of \<open>Krpcmsgpack_protocol.h\<close>, of \<open>Krpcmsgpack_dispatcher.h\<close> and of the framing functions
  \<open>ReadFrame\<close>, \<open>AppendFrame\<close>, \<open>ParseFrame\<close> and \<open>BuildHeader\<close>. A frame is four bytes of length,
  most significant first, and a msgpack document. The msgpack library is not part of the repository:
  \<open>msgpack_api\<close> holds the functions the code calls, over an opaque type of objects, and \<open>mp_ok\<close> the laws
  of them that the code relies on, for documents that fit into a frame; \<open>Msgpack_Instance\<close> is a concrete
  one, and \<open>Msgpack_Objects\<close> has the objects of the real library.
\<close>

subsection \<open>Framing\<close>

definition htonl_bytes :: "u32 \<Rightarrow> string" where
  "htonl_bytes len = map (\<lambda>k. char_of (unat len div 256 ^ k mod 256)) [3, 2, 1, 0]"

definition ntohl_bytes :: "string \<Rightarrow> nat" where
  "ntohl_bytes s = of_char (s ! 0) * 16777216 + of_char (s ! 1) * 65536 + of_char (s ! 2) * 256 + of_char (s ! 3)"

definition AppendFrame :: "string \<Rightarrow> string \<Rightarrow> string" where
  "AppendFrame buffer payload = (buffer @ htonl_bytes (of_nat (length payload))) @ payload"

definition BuildHeader :: "string \<Rightarrow> string" where
  "BuildHeader payload = htonl_bytes (of_nat (length payload))"

text \<open>\<open>ReadFrame\<close> of the provider and \<open>ParseFrame\<close> of the client: the payload and the rest.\<close>

definition ReadFrame :: "string \<Rightarrow> (string \<times> string) option" where
  "ReadFrame buffer =
     (if length buffer < 4 then None
      else (let len = ntohl_bytes (take 4 buffer)
            in if length buffer < 4 + len then None
               else Some (take len (drop 4 buffer), drop len (drop 4 buffer))))"

definition ParseFrame :: "string \<Rightarrow> (string \<times> string) option" where
  "ParseFrame buffer =
     (if length buffer < 4 then None
      else (let len = ntohl_bytes buffer
            in if length buffer < 4 + len then None
               else Some (take len (drop 4 buffer), drop (4 + len) buffer)))"

lemma ntohl_take: "4 \<le> length buffer \<Longrightarrow> ntohl_bytes (take 4 buffer) = ntohl_bytes buffer"
  by (simp add: ntohl_bytes_def)

lemma ReadFrame_ParseFrame: "ReadFrame = ParseFrame"
  by (rule ext) (auto simp: ReadFrame_def ParseFrame_def Let_def ntohl_take add.commute)

lemma length_htonl [simp]: "length (htonl_bytes n) = 4"
  by (simp add: htonl_bytes_def)

lemma length_BuildHeader [simp]: "length (BuildHeader payload) = 4" "BuildHeader payload \<noteq> []"
  by (simp_all add: BuildHeader_def htonl_bytes_def)

lemma of_char_byte: "b < 256 \<Longrightarrow> (of_char (char_of b :: char) :: nat) = b"
  by (simp add: of_char_of)

lemma ntohl_htonl: "ntohl_bytes (htonl_bytes n @ r) = unat n"
proof -
  define u where "u = unat n"
  have u: "u < 4294967296" using unat_bounds(2)[of n] by (simp add: u_def)
  define v where "v = u div 256"
  define w where "w = v div 256"
  define x where "x = w div 256"
  have d: "u div 65536 = w" "u div 16777216 = x"
    using div_mult2_eq[of u 256 256] div_mult2_eq[of u 256 65536] div_mult2_eq[of v 256 256]
    by (simp_all add: v_def w_def x_def)
  have "x < 256" using u by (simp add: d(2)[symmetric] div_less_iff_less_mult)
  then have "x mod 256 = x" by simp
  moreover have "u = v * 256 + u mod 256" "v = w * 256 + v mod 256" "w = x * 256 + w mod 256"
    by (simp_all add: v_def w_def x_def)
  ultimately have "x mod 256 * 16777216 + w mod 256 * 65536 + v mod 256 * 256 + u mod 256 = u" by linarith
  moreover have "ntohl_bytes (htonl_bytes n @ r) =
      x mod 256 * 16777216 + w mod 256 * 65536 + v mod 256 * 256 + u mod 256"
    by (simp add: ntohl_bytes_def htonl_bytes_def of_char_byte u_def[symmetric] d v_def)
  ultimately show ?thesis by (simp add: u_def)
qed

lemma ParseFrame_AppendFrame:
  assumes "length payload < 4294967296"
  shows "ParseFrame (AppendFrame [] payload @ later) = Some (payload, later)"
proof -
  have "unat (of_nat (length payload) :: u32) = length payload"
    using assms by (simp add: unat_of_nat take_bit_nat_eq_self)
  then show ?thesis
    using ntohl_htonl[of "of_nat (length payload)" "payload @ later"]
    by (simp add: ParseFrame_def AppendFrame_def Let_def)
qed

definition mp_next_frame :: "unit \<Rightarrow> string \<Rightarrow> string fstep" where
  "mp_next_frame u buf =
     (case ParseFrame buf of
        None \<Rightarrow> NeedMore
      | Some (payload, rest) \<Rightarrow> Got payload (length buf - length rest))"

interpretation mp_frames: frame_stream mp_next_frame "\<lambda>_. True"
proof
  fix p buf f k later why
  show "0 < k \<and> k \<le> length buf" if "mp_next_frame p buf = Got f k"
    using that by (auto simp: mp_next_frame_def ParseFrame_def Let_def split: option.splits if_splits)
  show "mp_next_frame p (buf @ later) = Got f k" if g: "mp_next_frame p buf = Got f k"
  proof -
    from g have l: "4 \<le> length buf" "4 + ntohl_bytes buf \<le> length buf"
      by (auto simp: mp_next_frame_def ParseFrame_def Let_def split: option.splits if_splits)
    from l(1) have "ntohl_bytes (buf @ later) = ntohl_bytes buf"
      by (simp add: ntohl_bytes_def nth_append del: append_is_Nil_conv) auto
    with g l show ?thesis by (simp add: mp_next_frame_def ParseFrame_def Let_def)
  qed
  show "mp_next_frame p (buf @ later) = Bad why" if "mp_next_frame p buf = Bad why"
    using that by (auto simp: mp_next_frame_def split: option.splits)
qed

subsection \<open>Header and library\<close>

type_synonym u8 = "8 word"

definition Mp_Unknown :: u8 where "Mp_Unknown = 0"
definition Mp_Request :: u8 where "Mp_Request = 1"
definition Mp_Response :: u8 where "Mp_Response = 2"
definition Mp_Ping :: u8 where "Mp_Ping = 3"
definition Mp_Pong :: u8 where "Mp_Pong = 4"
definition Mp_Oneway :: u8 where "Mp_Oneway = 5"

lemmas mp_type_defs = Mp_Unknown_def Mp_Request_def Mp_Response_def Mp_Ping_def Mp_Pong_def Mp_Oneway_def

record MsgpackHeader =
  mh_magic :: u32
  mh_version :: u32
  mh_msg_type :: u8
  mh_request_id :: u64
  mh_timeout_ms :: u32
  mh_service_name :: string
  mh_method_name :: string

definition new_MsgpackHeader :: MsgpackHeader where
  "new_MsgpackHeader = \<lparr>mh_magic = kDefaultMagic, mh_version = kDefaultVersion,
     mh_msg_type = Mp_Unknown, mh_request_id = 0, mh_timeout_ms = 0,
     mh_service_name = [], mh_method_name = []\<rparr>"

datatype 'o unpacked = Unpack_throws | Convert_throws | Unpacked MsgpackHeader 'o

record 'o msgpack_api =
  mp_unpack :: "string \<Rightarrow> 'o unpacked"
  mp_pack :: "MsgpackHeader \<Rightarrow> 'o \<Rightarrow> string"
  mp_nil :: 'o
  mp_str :: "string \<Rightarrow> 'o"
  mp_pair :: "'o \<Rightarrow> 'o \<Rightarrow> 'o"
  mp_as_pair :: "'o \<Rightarrow> ('o \<times> 'o) option"
  mp_is_nil :: "'o \<Rightarrow> bool"
  mp_as_str :: "'o \<Rightarrow> string option"

definition mp_ok :: "'o msgpack_api \<Rightarrow> bool" where
  "mp_ok A \<longleftrightarrow> (\<forall>h x. length (mp_pack A h x) < 4294967296 \<longrightarrow> mp_unpack A (mp_pack A h x) = Unpacked h x) \<and>
     (\<forall>x y. mp_as_pair A (mp_pair A x y) = Some (x, y)) \<and> mp_is_nil A (mp_nil A) \<and>
     (\<forall>s. \<not> mp_is_nil A (mp_str A s) \<and> mp_as_str A (mp_str A s) = Some s)"

subsection \<open>The dispatcher\<close>

text \<open>A handler returns an object or throws, \<open>Some\<close> with the text of a \<open>std::exception\<close>. The first
  binding of a key stays. The flag of \<open>Dispatch\<close>'s result says whether the handler was called.\<close>

type_synonym 'o handlers = "(string \<times> ('o \<Rightarrow> string option + 'o)) list"

definition handler_key :: "string \<Rightarrow> string \<Rightarrow> string" where
  "handler_key service meth = service @ ''.'' @ meth"

definition bind_handler ::
    "string \<Rightarrow> string \<Rightarrow> ('o \<Rightarrow> string option + 'o) \<Rightarrow> 'o handlers \<Rightarrow> 'o handlers" where
  "bind_handler service meth func hs = emplace (handler_key service meth) func hs"

record 'o dispatched =
  di_handled :: bool
  di_result :: "'o option"
  di_error :: string
  di_called :: bool

definition Dispatch :: "'o handlers \<Rightarrow> string \<Rightarrow> string \<Rightarrow> 'o \<Rightarrow> bool \<Rightarrow> 'o dispatched" where
  "Dispatch hs service meth args want_result =
     (let key = handler_key service meth
      in case map_of hs key of
           None \<Rightarrow> \<lparr>di_handled = False, di_result = None, di_error = ''no such method: '' @ key, di_called = False\<rparr>
         | Some f \<Rightarrow>
             if \<not> want_result
             then \<lparr>di_handled = True, di_result = None, di_error = [], di_called = False\<rparr>
             else (case f args of
                     Inr r \<Rightarrow> \<lparr>di_handled = True, di_result = Some r, di_error = [], di_called = True\<rparr>
                   | Inl (Some what) \<Rightarrow>
                       \<lparr>di_handled = True, di_result = None, di_error = ''call_error: '' @ what, di_called = True\<rparr>
                   | Inl None \<Rightarrow>
                       \<lparr>di_handled = True, di_result = None, di_error = ''call_error: unknown'', di_called = True\<rparr>))"

lemma Dispatch_oneway: "\<not> di_called (Dispatch hs s m args False)"
  by (auto simp: Dispatch_def Let_def split: option.splits)

lemma Dispatch_bound:
  "map_of hs (handler_key s m) = None \<Longrightarrow>
     Dispatch (bind_handler s m f hs) s m args True =
       (case f args of
          Inr r \<Rightarrow> \<lparr>di_handled = True, di_result = Some r, di_error = [], di_called = True\<rparr>
        | Inl (Some what) \<Rightarrow>
            \<lparr>di_handled = True, di_result = None, di_error = ''call_error: '' @ what, di_called = True\<rparr>
        | Inl None \<Rightarrow>
            \<lparr>di_handled = True, di_result = None, di_error = ''call_error: unknown'', di_called = True\<rparr>)"
  by (simp add: Dispatch_def bind_handler_def Let_def)

lemma Dispatch_first_wins:
  "map_of hs (handler_key s m) = Some f \<Longrightarrow> Dispatch (bind_handler s m g hs) s m args b = Dispatch hs s m args b"
  by (simp add: Dispatch_def bind_handler_def Let_def)

text \<open>The error text tells success from failure: a handled call has an empty one exactly when the
  handler returned.\<close>

lemma Dispatch_error:
  "di_error (Dispatch hs s m args True) = [] \<longleftrightarrow>
     (\<exists>f r. map_of hs (handler_key s m) = Some f \<and> f args = Inr r \<and> di_result (Dispatch hs s m args True) = Some r)"
  by (auto simp: Dispatch_def Let_def split: option.splits sum.splits)

end
