(* ===== verification/Msgpack_Channel.thy ===== *)
theory Msgpack_Channel
  imports Msgpack_Wire Channel_Connect Channel_Recv
begin

section \<open>The msgpack client\<close>

text \<open>
  The model of \<open>Krpcmsgpack_channel.h\<close> and \<open>Krpcmsgpack_channel.cc\<close>. The globals of that
  file (request counter, endpoint cache, cooldown, pool) have the types of the protobuf client's, so the
  record \<open>world\<close> serves again, as an instance of its own; discovery is the function \<open>discover\<close>.
  Effects are kept in the channel. The receive thread is modelled by three flags: \<open>mc_running\<close> is the
  atomic flag, \<open>mc_alive\<close> says that the thread has not left its loop, \<open>mc_joinable\<close> that the
  \<open>std::thread\<close> object was neither joined nor detached. Assigning to a joinable
  \<open>std::thread\<close>, or an exception that leaves the thread, ends the process (\<open>mc_terminated\<close>).
\<close>

record MpPendingCall =
  mq_has_promise :: bool
  mq_callback :: "nat option"
  mq_start_time :: nanos
  mq_timeout_ms :: int

datatype 'o mc_effect =
    Mc_promise u64 "string + 'o"
  | Mc_callback u64 nat string 'o
  | Mc_dropped u64
  | Mc_rejected "nat option" string
  | Mc_sent fd string
  | Mc_shutdown fd

record 'o mp_channel =
  mc_fd :: fd
  mc_ip :: string
  mc_port :: u16
  mc_endpoint_key :: string
  mc_use_pool :: bool
  mc_pool_max_idle :: int
  mc_request_timeout_ms :: int
  mc_heartbeat_interval_ms :: int
  mc_heartbeat_miss_limit :: int
  mc_missed_heartbeat_count :: int
  mc_last_pong_time :: nanos
  mc_lb_nodes :: "Endpoint list"
  mc_fail_states :: fail_states
  mc_running :: bool
  mc_alive :: bool
  mc_joinable :: bool
  mc_terminated :: bool
  mc_pending :: "(u64 \<times> MpPendingCall) list"
  mc_send_queue :: "(string \<times> string) list"
  mc_waiting_heartbeat :: bool
  mc_waiting_heartbeat_id :: u64
  mc_waiting_heartbeat_result :: bool
  mc_recv_buffer :: string
  mc_effects :: "'o mc_effect list"

type_synonym 'o mp_state = "'o mp_channel \<times> world"

definition mc_emit :: "'o mc_effect list \<Rightarrow> 'o mp_channel \<Rightarrow> 'o mp_channel" where
  "mc_emit es ch = ch\<lparr>mc_effects := mc_effects ch @ es\<rparr>"

subsection \<open>Completing calls\<close>

definition mp_CompletePending ::
    "'o msgpack_api \<Rightarrow> u64 \<Rightarrow> MpPendingCall \<Rightarrow> string \<Rightarrow> 'o \<Rightarrow> 'o mp_channel \<Rightarrow> 'o mp_channel" where
  "mp_CompletePending A rid p err result ch =
     mc_emit (case mq_callback p of
                Some cb \<Rightarrow> [Mc_callback rid cb err (if err \<noteq> [] then mp_nil A else result)]
              | None \<Rightarrow>
                  (if \<not> mq_has_promise p then [Mc_dropped rid]
                   else [Mc_promise rid (if err \<noteq> [] then Inl err else Inr result)])) ch"

definition mp_complete_all ::
    "'o msgpack_api \<Rightarrow> (u64 \<times> MpPendingCall) list \<Rightarrow> string \<Rightarrow> 'o mp_channel \<Rightarrow> 'o mp_channel" where
  "mp_complete_all A ps reason ch =
     foldl (\<lambda>c e. mp_CompletePending A (fst e) (snd e) reason (mp_nil A) c) ch ps"

definition FailAllPending :: "'o msgpack_api \<Rightarrow> string \<Rightarrow> 'o mp_channel \<Rightarrow> 'o mp_channel" where
  "FailAllPending A reason ch = mp_complete_all A (mc_pending ch) reason (ch\<lparr>mc_pending := []\<rparr>)"

definition mp_take_and_complete ::
    "'o msgpack_api \<Rightarrow> u64 \<Rightarrow> string \<Rightarrow> 'o \<Rightarrow> 'o mp_channel \<Rightarrow> 'o mp_channel" where
  "mp_take_and_complete A rid err result ch =
     (case map_of (mc_pending ch) rid of
        None \<Rightarrow> ch
      | Some p \<Rightarrow> mp_CompletePending A rid p err result (ch\<lparr>mc_pending := AList.delete rid (mc_pending ch)\<rparr>))"

definition mp_expired :: "nanos \<Rightarrow> MpPendingCall \<Rightarrow> bool" where
  "mp_expired now p \<longleftrightarrow> mq_timeout_ms p > 0 \<and> now - mq_start_time p \<ge> milliseconds (mq_timeout_ms p)"

definition mp_TimeoutLoop_turn :: "'o msgpack_api \<Rightarrow> net_env \<Rightarrow> 'o mp_state \<Rightarrow> 'o mp_state" where
  "mp_TimeoutLoop_turn A E st =
     (case st of (ch, w) \<Rightarrow>
        (case clock_now E w of
           (now, w1) \<Rightarrow>
             (mp_complete_all A (filter (\<lambda>e. mp_expired now (snd e)) (mc_pending ch)) ''timeout''
                (ch\<lparr>mc_pending := filter (\<lambda>e. \<not> mp_expired now (snd e)) (mc_pending ch)\<rparr>), w1)))"

subsection \<open>Sending\<close>

definition mp_EnqueueSend :: "string \<Rightarrow> string \<Rightarrow> 'o mp_channel \<Rightarrow> 'o mp_channel" where
  "mp_EnqueueSend header body ch = ch\<lparr>mc_send_queue := mc_send_queue ch @ [(header, body)]\<rparr>"

definition SendFrame :: "string \<Rightarrow> 'o mp_channel \<Rightarrow> bool \<times> 'o mp_channel" where
  "SendFrame payload ch =
     (if mc_fd ch = -1 then (False, ch)
      else (True, mp_EnqueueSend (BuildHeader payload) payload ch))"

definition mp_insert_request :: "u64 \<Rightarrow> MpPendingCall \<Rightarrow> 'o mp_channel \<Rightarrow> 'o mp_channel" where
  "mp_insert_request rid p ch = ch\<lparr>mc_pending := emplace rid p (mc_pending ch)\<rparr>"

definition mp_send_request :: "'o msgpack_api \<Rightarrow> u64 \<Rightarrow> string \<Rightarrow> 'o mp_channel \<Rightarrow> 'o mp_channel" where
  "mp_send_request A rid payload ch =
     (case SendFrame payload ch of
        (True, ch1) \<Rightarrow> ch1
      | (False, ch1) \<Rightarrow> mp_take_and_complete A rid ''send failed'' (mp_nil A) ch1)"

text \<open>Both overloads of \<open>EnqueueRequest\<close>: with a callback there is no promise. The first half puts the
  call into the table, the second sends the frame; other threads may run in between.\<close>

definition mp_start_request :: "net_env \<Rightarrow> u64 \<Rightarrow> int \<Rightarrow> nat option option \<Rightarrow> 'o mp_state \<Rightarrow> 'o mp_state" where
  "mp_start_request E rid timeout_ms callback st =
     (case st of (ch, w) \<Rightarrow>
        (case clock_now E w of
           (now, w1) \<Rightarrow>
             (mp_insert_request rid
                \<lparr>mq_has_promise = (callback = None),
                 mq_callback = (case callback of None \<Rightarrow> None | Some cb \<Rightarrow> cb),
                 mq_start_time = now, mq_timeout_ms = timeout_ms\<rparr> ch, w1)))"

definition EnqueueRequest ::
    "'o msgpack_api \<Rightarrow> net_env \<Rightarrow> u64 \<Rightarrow> string \<Rightarrow> int \<Rightarrow> nat option option \<Rightarrow> 'o mp_state \<Rightarrow> 'o mp_state" where
  "EnqueueRequest A E rid payload timeout_ms callback st =
     (case mp_start_request E rid timeout_ms callback st of
        (ch, w) \<Rightarrow> (mp_send_request A rid payload ch, w))"

subsection \<open>The receive thread\<close>

text \<open>The code behind the loop of \<open>RecvLoop\<close>.\<close>

definition mp_CloseConnectionLocked :: "'o mp_state \<Rightarrow> 'o mp_state" where
  "mp_CloseConnectionLocked st =
     (case st of (ch, w) \<Rightarrow>
        (ch\<lparr>mc_fd := -1, mc_recv_buffer := [], mc_send_queue := []\<rparr>,
         if mc_fd ch \<noteq> -1 then w\<lparr>w_os := os_close (mc_fd ch) (w_os w)\<rparr> else w))"

definition mp_reset_heartbeat :: "'o mp_channel \<Rightarrow> 'o mp_channel" where
  "mp_reset_heartbeat ch =
     (if mc_waiting_heartbeat ch
      then ch\<lparr>mc_waiting_heartbeat := False, mc_waiting_heartbeat_result := False\<rparr> else ch)"

definition mp_recv_exit :: "'o msgpack_api \<Rightarrow> bool \<Rightarrow> 'o mp_state \<Rightarrow> 'o mp_state" where
  "mp_recv_exit A recv_error st =
     (case (if recv_error then mp_CloseConnectionLocked st else st) of
        (ch, w) \<Rightarrow>
          ((mp_reset_heartbeat (FailAllPending A ''connection closed'' (ch\<lparr>mc_running := False\<rparr>)))
             \<lparr>mc_alive := False\<rparr>, w))"

definition mp_StartRecvThread :: "'o mp_channel \<Rightarrow> 'o mp_channel" where
  "mp_StartRecvThread ch =
     (if mc_running ch then ch
      else if mc_joinable ch then ch\<lparr>mc_running := True, mc_terminated := True\<rparr>
      else ch\<lparr>mc_running := True, mc_alive := True, mc_joinable := True\<rparr>)"

text \<open>\<open>StopRecvThread\<close> called from another thread: the join waits for the thread to leave its loop.\<close>

definition mp_StopRecvThread :: "'o msgpack_api \<Rightarrow> 'o mp_state \<Rightarrow> 'o mp_state" where
  "mp_StopRecvThread A st =
     (case st of (ch, w) \<Rightarrow>
        (let ch1 = ch\<lparr>mc_running := False\<rparr>;
             ch2 = (if mc_fd ch1 \<noteq> -1 then mc_emit [Mc_shutdown (mc_fd ch1)] ch1 else ch1)
         in if \<not> mc_joinable ch2 then (ch2, w)
            else (case (if mc_alive ch2 then mp_recv_exit A False (ch2, w) else (ch2, w)) of
                    (ch3, w3) \<Rightarrow> (ch3\<lparr>mc_joinable := False\<rparr>, w3))))"

definition mp_ResolveHeartbeat :: "net_env \<Rightarrow> MsgpackHeader \<Rightarrow> 'o mp_state \<Rightarrow> 'o mp_state" where
  "mp_ResolveHeartbeat E h st =
     (case st of (ch, w) \<Rightarrow>
        if mc_waiting_heartbeat ch \<and> mh_request_id h = mc_waiting_heartbeat_id ch
        then (case clock_now E w of
                (now, w') \<Rightarrow>
                  (ch\<lparr>mc_waiting_heartbeat := False, mc_waiting_heartbeat_result := True,
                      mc_last_pong_time := now\<rparr>, w'))
        else (ch, w))"

definition mp_handle_response :: "'o msgpack_api \<Rightarrow> MsgpackHeader \<Rightarrow> 'o \<Rightarrow> 'o mp_channel \<Rightarrow> 'o mp_channel" where
  "mp_handle_response A h body ch =
     (case mp_as_pair A body of
        None \<Rightarrow> ch
      | Some (err_obj, result_obj) \<Rightarrow>
          if \<not> mp_is_nil A err_obj
          then (case mp_as_str A err_obj of
                  Some err_text \<Rightarrow> mp_take_and_complete A (mh_request_id h) err_text (mp_nil A) ch
                | None \<Rightarrow> mp_take_and_complete A (mh_request_id h) ''response decode error'' (mp_nil A) ch)
          else mp_take_and_complete A (mh_request_id h) [] result_obj ch)"

text \<open>The body of the inner loop; \<open>False\<close> when an exception leaves the thread.\<close>

definition mp_handle_frame ::
    "'o msgpack_api \<Rightarrow> net_env \<Rightarrow> string \<Rightarrow> 'o mp_state \<Rightarrow> 'o mp_state \<times> bool" where
  "mp_handle_frame A E payload st =
     (case st of (ch, w) \<Rightarrow>
        (case mp_unpack A payload of
           Unpack_throws \<Rightarrow> ((ch\<lparr>mc_terminated := True\<rparr>, w), False)
         | Convert_throws \<Rightarrow> ((ch, w), True)
         | Unpacked h body \<Rightarrow>
             if mh_magic h \<noteq> kDefaultMagic \<or> mh_version h \<noteq> kDefaultVersion then ((ch, w), True)
             else if mh_msg_type h = Mp_Pong then (mp_ResolveHeartbeat E h (ch, w), True)
             else if mh_msg_type h = Mp_Ping
             then ((snd (SendFrame (mp_pack A (new_MsgpackHeader\<lparr>mh_msg_type := Mp_Pong,
                          mh_request_id := mh_request_id h\<rparr>) (mp_nil A)) ch), w), True)
             else if mh_msg_type h \<noteq> Mp_Response then ((ch, w), True)
             else ((mp_handle_response A h body ch, w), True)))"

definition mp_recv_bytes ::
    "'o msgpack_api \<Rightarrow> net_env \<Rightarrow> string \<Rightarrow> 'o mp_state \<Rightarrow> 'o mp_state" where
  "mp_recv_bytes A E bytes st =
     (case consume (mp_next_frame ()) (mp_handle_frame A E) (mc_recv_buffer (fst st) @ bytes) st of
        (_, buf, (ch', w')) \<Rightarrow> (ch'\<lparr>mc_recv_buffer := buf\<rparr>, w'))"

datatype mp_recv_obs = Mr_data string | Mr_closed | Mr_eintr | Mr_error

definition mp_RecvLoop_turn ::
    "'o msgpack_api \<Rightarrow> net_env \<Rightarrow> mp_recv_obs \<Rightarrow> 'o mp_state \<Rightarrow> 'o mp_state" where
  "mp_RecvLoop_turn A E ob st =
     (let ch = fst st
      in if \<not> mc_alive ch then st
         else if \<not> mc_running ch then mp_recv_exit A False st
         else if mc_fd ch = -1 then st
         else (case ob of
                 Mr_closed \<Rightarrow> mp_recv_exit A True st
               | Mr_eintr \<Rightarrow> st
               | Mr_error \<Rightarrow> mp_recv_exit A True st
               | Mr_data bytes \<Rightarrow> mp_recv_bytes A E bytes st))"

subsection \<open>Connections\<close>

definition mp_AcquireConnection ::
    "net_env \<Rightarrow> string \<Rightarrow> u16 \<Rightarrow> 'o mp_state \<Rightarrow> (string + fd) \<times> bool \<times> world" where
  "mp_AcquireConnection E ip p st =
     (case st of (ch, w) \<Rightarrow>
        if \<not> mc_use_pool ch
        then (case CreateConnectionFd E ip p (w_os w) of (r, s) \<Rightarrow> (r, False, w\<lparr>w_os := s\<rparr>))
        else (case Pool_Acquire E (endpoint_key ip p) ip p (w_pools w) (w_os w) of
                (r, from_pool, ps, s) \<Rightarrow> (r, from_pool, w\<lparr>w_pools := ps, w_os := s\<rparr>)))"

definition mp_ReleaseConnection :: "net_env \<Rightarrow> bool \<Rightarrow> 'o mp_state \<Rightarrow> 'o mp_state" where
  "mp_ReleaseConnection E healthy st =
     (case st of (ch, w) \<Rightarrow>
        if mc_fd ch = -1 then (ch, w)
        else (let f = mc_fd ch; ch1 = ch\<lparr>mc_fd := -1, mc_recv_buffer := []\<rparr>
              in if \<not> healthy then (ch1, w\<lparr>w_os := os_close f (w_os w)\<rparr>)
                 else if \<not> mc_use_pool ch then (ch1, w\<lparr>w_os := os_close f (w_os w)\<rparr>)
                 else (case Pool_Release E (mc_endpoint_key ch) f (nat (mc_pool_max_idle ch))
                          (w_pools w) (w_os w) of
                         (ps, s) \<Rightarrow> (ch1, w\<lparr>w_pools := ps, w_os := s\<rparr>))))"

definition mp_healthy :: "net_env \<Rightarrow> 'o mp_state \<Rightarrow> bool \<times> 'o mp_state" where
  "mp_healthy E st =
     (case IsConnectionHealthy E (mc_fd (fst st)) (w_os (snd st)) of
        (b, s) \<Rightarrow> (b, (fst st, (snd st)\<lparr>w_os := s\<rparr>)))"

definition mp_HandleHeartbeatFailure ::
    "'o msgpack_api \<Rightarrow> net_env \<Rightarrow> string \<Rightarrow> 'o mp_state \<Rightarrow> 'o mp_state" where
  "mp_HandleHeartbeatFailure A E reason st =
     (case mp_ReleaseConnection E False (mp_StopRecvThread A st) of
        (ch, w) \<Rightarrow> (mp_reset_heartbeat (FailAllPending A reason (ch\<lparr>mc_send_queue := []\<rparr>)), w))"

text \<open>One candidate: keep the connection if it is the right one and healthy, else give the old one back and
  connect. \<open>Inl\<close> is \<open>last_error\<close>.\<close>

definition mp_drop_connection :: "'o msgpack_api \<Rightarrow> net_env \<Rightarrow> 'o mp_state \<Rightarrow> 'o mp_state" where
  "mp_drop_connection A E st =
     (if mc_fd (fst st) \<noteq> -1
      then (case mp_healthy E st of (h, st2) \<Rightarrow> mp_ReleaseConnection E h (mp_StopRecvThread A st2))
      else st)"

definition mp_open :: "net_env \<Rightarrow> Endpoint \<Rightarrow> 'o mp_state \<Rightarrow> (string + unit) \<times> 'o mp_state" where
  "mp_open E cand st =
     (let ch4 = (fst st)\<lparr>mc_ip := host cand, mc_port := port cand, mc_endpoint_key := ep_key cand\<rparr>
      in case mp_AcquireConnection E (host cand) (port cand) (ch4, snd st) of
           (Inr f, _, w5) \<Rightarrow>
             (Inr (), (mp_StartRecvThread (ch4\<lparr>mc_fd := f,
                mc_fail_states := ClearEndpointFailure cand (mc_fail_states ch4)\<rparr>), w5))
         | (Inl connect_error, _, w5) \<Rightarrow>
             (case clock_now E w5 of
                (now, w6) \<Rightarrow>
                  (Inl (if connect_error = [] then ''connect server error'' else connect_error),
                   (ch4\<lparr>mc_fail_states := MarkEndpointFailure (g_endpoint_fail_cooldown_ms w6)
                                            now cand (mc_fail_states ch4)\<rparr>, w6))))"

definition mp_connect_to ::
    "'o msgpack_api \<Rightarrow> net_env \<Rightarrow> Endpoint \<Rightarrow> 'o mp_state \<Rightarrow> (string + unit) \<times> 'o mp_state" where
  "mp_connect_to A E cand st =
     (case (if mc_fd (fst st) \<noteq> -1 \<and> host cand = mc_ip (fst st) \<and> port cand = mc_port (fst st)
            then mp_healthy E st else (False, st)) of
        (True, st1) \<Rightarrow> (Inr (), st1)
      | (False, st1) \<Rightarrow> mp_open E cand (mp_drop_connection A E st1))"

fun mp_failover ::
    "'o msgpack_api \<Rightarrow> net_env \<Rightarrow> nanos \<Rightarrow> Endpoint list \<Rightarrow> nat list \<Rightarrow> nanos option \<Rightarrow> nat \<Rightarrow> 'o mp_state \<Rightarrow>
     (nat + unit) \<times> 'o mp_state" where
  "mp_failover A E now eps [] best best_index st = (Inl best_index, st)"
| "mp_failover A E now eps (idx # more_idx) best best_index st =
     (case EndpointAvailable (eps ! idx) now (mc_fail_states (fst st)) of
        (False, Some retry_at) \<Rightarrow>
          (if (case best of None \<Rightarrow> True | Some b \<Rightarrow> retry_at < b)
           then mp_failover A E now eps more_idx (Some retry_at) idx st
           else mp_failover A E now eps more_idx best best_index st)
      | _ \<Rightarrow>
          (case mp_connect_to A E (eps ! idx) st of
             (Inr u, st') \<Rightarrow> (Inr u, st')
           | (Inl _, st') \<Rightarrow> mp_failover A E now eps more_idx best best_index st'))"

definition mp_EnsureConnection ::
    "'o msgpack_api \<Rightarrow> net_env \<Rightarrow> discovery \<Rightarrow> string \<Rightarrow> string \<Rightarrow> 'o mp_state \<Rightarrow> (string + unit) \<times> 'o mp_state" where
  "mp_EnsureConnection A E D service meth st =
     (case st of (ch, w) \<Rightarrow>
        (case discover E D service meth w of
           (eps, w1) \<Rightarrow>
             if eps = [] then (Inl (''service node not found: '' @ service @ ''/'' @ meth), (ch, w1))
             else (case Select meth (UpdateNodes eps \<lparr>rr_nodes = mc_lb_nodes ch, s_global_index = w_lb_index w1\<rparr>) of
                     (sel, lb) \<Rightarrow>
                       (let start_index = find_start_index eps (case sel of None \<Rightarrow> hd eps | Some e \<Rightarrow> e)
                        in case clock_now E (w1\<lparr>w_lb_index := s_global_index lb\<rparr>) of
                             (now, w2) \<Rightarrow>
                               (case mp_failover A E now eps (rotation start_index (length eps)) None start_index
                                       (ch\<lparr>mc_lb_nodes := rr_nodes lb\<rparr>, w2) of
                                  (Inr u, st3) \<Rightarrow> (Inr u, st3)
                                | (Inl idx, st3) \<Rightarrow> mp_connect_to A E (eps ! idx) st3)))))"

end
