(* ===== verification/Msgpack_Calls.thy ===== *)
theory Msgpack_Calls
  imports Msgpack_Channel Channel_Calls
begin

section \<open>The msgpack client: threads and calls\<close>

text \<open>
  The rest of \<open>Krpcmsgpack_channel\<close>: constructor and destructor, the send loop, heartbeats, and the call
  entry points of the header file. The step relation \<open>mp_step\<close> interleaves callers and threads; it is the
  second instance of \<open>call_protocol\<close>. What \<open>writev\<close> answers is given as for the protobuf client.
\<close>

subsection \<open>Constructor and destructor\<close>

definition config_mp_channel :: "config_map \<Rightarrow> nanos \<Rightarrow> 'o mp_channel" where
  "config_mp_channel cfg now =
     (let timeout = ParseConfigInt (Load cfg ''rpc_timeout_ms'') kDefaultRequestTimeoutMs;
          interval = ParseConfigInt (Load cfg ''heartbeat_interval_ms'') kDefaultHeartbeatIntervalMs;
          limit = ParseConfigInt (Load cfg ''heartbeat_miss_limit'') kDefaultHeartbeatMissLimit;
          idle = ParseConfigInt (Load cfg ''connection_pool_max_idle'') 4
      in \<lparr>mc_fd = -1, mc_ip = Load cfg ''rpcserverip'',
          mc_port = word_of_int (atoi (Load cfg ''rpcserverport'')), mc_endpoint_key = [],
          mc_use_pool = (ParseConfigInt (Load cfg ''enable_connection_pool'') 1 \<noteq> 0),
          mc_pool_max_idle = (if idle < 1 then 1 else idle),
          mc_request_timeout_ms = (if timeout < 0 then 0 else timeout),
          mc_heartbeat_interval_ms = (if interval \<le> 0 then kDefaultHeartbeatIntervalMs else interval),
          mc_heartbeat_miss_limit = (if limit \<le> 0 then kDefaultHeartbeatMissLimit else limit),
          mc_missed_heartbeat_count = 0, mc_last_pong_time = now, mc_lb_nodes = [], mc_fail_states = [],
          mc_running = False, mc_alive = False, mc_joinable = False, mc_terminated = False, mc_pending = [],
          mc_send_queue = [], mc_waiting_heartbeat = False, mc_waiting_heartbeat_id = 0,
          mc_waiting_heartbeat_result = False, mc_recv_buffer = [], mc_effects = []\<rparr>)"

definition new_KrpcMsgpackChannel ::
    "net_env \<Rightarrow> config_map \<Rightarrow> (string \<times> u16) option \<Rightarrow> world \<Rightarrow> 'o mp_state" where
  "new_KrpcMsgpackChannel E cfg addr w =
     (case clock_now E w of
        (now, w1) \<Rightarrow>
          (let ch = config_mp_channel cfg now;
               cool = ParseConfigInt (Load cfg ''lb_fail_cooldown_ms'') 3000
           in (case addr of None \<Rightarrow> ch | Some (ip, p) \<Rightarrow> ch\<lparr>mc_ip := ip, mc_port := p\<rparr>,
               w1\<lparr>g_endpoint_fail_cooldown_ms := (if cool < 0 then 0 else cool)\<rparr>)))"

text \<open>\<open>StopSendThread\<close> empties the queue; the other threads of the channel are joined first.\<close>

definition delete_KrpcMsgpackChannel :: "'o msgpack_api \<Rightarrow> net_env \<Rightarrow> 'o mp_state \<Rightarrow> 'o mp_state" where
  "delete_KrpcMsgpackChannel A E st =
     (case mp_StopRecvThread A ((fst st)\<lparr>mc_send_queue := []\<rparr>, snd st) of
        st1 \<Rightarrow>
          (case (if mc_fd (fst st1) \<noteq> -1
                 then (case mp_healthy E st1 of (h, st2) \<Rightarrow> mp_ReleaseConnection E h st2)
                 else st1) of
             (ch3, w3) \<Rightarrow> (FailAllPending A ''channel closed'' ch3, w3)))"

subsection \<open>The send loop\<close>

text \<open>The code behind a successful \<open>writev\<close> of \<open>n\<close> bytes: where to go on, \<open>None\<close> for the final \<open>break\<close>.\<close>

definition mp_send_advance :: "string \<Rightarrow> string \<Rightarrow> bool \<Rightarrow> nat \<Rightarrow> nat \<Rightarrow> (bool \<times> nat) option" where
  "mp_send_advance h b in_body offset n =
     (if \<not> in_body then
        (let remaining_h = length h - offset
         in if n < remaining_h then Some (False, offset + n)
            else if b = [] \<or> n - remaining_h \<ge> length b then None
            else Some (True, n - remaining_h))
      else if offset + n \<ge> length b then None
      else Some (True, offset + n))"

text \<open>What is left to write at a position, which is what \<open>writev\<close> is offered.\<close>

definition mp_left :: "string \<Rightarrow> string \<Rightarrow> bool \<Rightarrow> nat \<Rightarrow> string" where
  "mp_left h b in_body offset = (if in_body then drop offset b else drop offset h @ b)"

fun mp_send_segments ::
    "writev_result list \<Rightarrow> string \<Rightarrow> string \<Rightarrow> bool \<Rightarrow> nat \<Rightarrow> string \<Rightarrow> send_result \<times> string" where
  "mp_send_segments [] h b in_body offset out =
     (if in_body \<and> offset \<ge> length b then (Sent, out) else (Send_blocked, out))"
| "mp_send_segments (x # ws) h b in_body offset out =
     (if in_body \<and> offset \<ge> length b then (Sent, out)
      else (case x of
              Eintr \<Rightarrow> mp_send_segments ws h b in_body offset out
            | Werror e \<Rightarrow> (Send_failed ''send failed'', out)
            | Wrote k \<Rightarrow>
                (let bytes = take k (mp_left h b in_body offset)
                 in if length bytes = 0 then (Send_failed ''connection closed'', out)
                    else (case mp_send_advance h b in_body offset (length bytes) of
                            None \<Rightarrow> (Sent, out @ bytes)
                          | Some (in_body', offset') \<Rightarrow> mp_send_segments ws h b in_body' offset' (out @ bytes)))))"

definition mp_SendLoop_turn ::
    "'o msgpack_api \<Rightarrow> net_env \<Rightarrow> writev_result list \<Rightarrow> 'o mp_state \<Rightarrow> 'o mp_state option" where
  "mp_SendLoop_turn A E ws st =
     (case st of (ch, w) \<Rightarrow>
        (case mc_send_queue ch of
           [] \<Rightarrow> None
         | (h, b) # queue \<Rightarrow>
             (let ch1 = ch\<lparr>mc_send_queue := queue\<rparr>
              in if mc_fd ch1 = -1 then Some (mp_HandleHeartbeatFailure A E ''connection closed'' (ch1, w))
                 else (case mp_send_segments ws h b False 0 [] of
                         (Sent, out) \<Rightarrow> Some (mc_emit [Mc_sent (mc_fd ch1) out] ch1, w)
                       | (Send_blocked, out) \<Rightarrow> None
                       | (Send_failed reason, out) \<Rightarrow>
                           Some (mp_HandleHeartbeatFailure A E reason
                                   (mc_emit [Mc_sent (mc_fd ch1) out] ch1, w))))))"

lemma mp_send_advance_left:
  assumes "\<not> in_body \<longrightarrow> offset \<le> length h" "n \<le> length (mp_left h b in_body offset)"
  shows "mp_send_advance h b in_body offset n = None \<Longrightarrow> n = length (mp_left h b in_body offset)"
    "mp_send_advance h b in_body offset n = Some (c, off) \<Longrightarrow>
       mp_left h b c off = drop n (mp_left h b in_body offset) \<and> (\<not> c \<longrightarrow> off \<le> length h) \<and>
       mp_left h b c off \<noteq> []"
  using assms by (auto simp: mp_send_advance_def mp_left_def Let_def add.commute split: if_splits)

lemma mp_send_segments_prefix:
  "(\<not> in_body \<longrightarrow> offset \<le> length h) \<Longrightarrow> mp_send_segments ws h b in_body offset out = (r, out') \<Longrightarrow>
     \<exists>sent. out' = out @ sent \<and> prefix sent (mp_left h b in_body offset) \<and>
       (r = Sent \<longrightarrow> sent = mp_left h b in_body offset)"
proof (induction ws arbitrary: in_body offset out)
  case Nil
  then show ?case by (auto simp: mp_left_def split: if_splits)
next
  case (Cons x ws)
  let ?left = "mp_left h b in_body offset"
  show ?case
  proof (cases "in_body \<and> offset \<ge> length b")
    case True
    with Cons.prems show ?thesis by (auto simp: mp_left_def)
  next
    case not_end: False
    show ?thesis
    proof (cases x)
      case (Wrote k)
      let ?bytes = "take k ?left"
      have n: "length ?bytes \<le> length ?left" by simp
      note adv = mp_send_advance_left[OF Cons.prems(1) n]
      show ?thesis
      proof (cases "length ?bytes = 0")
        case True
        with Cons.prems(2) Wrote not_end show ?thesis
          by (intro exI[of _ "[]"]) (auto simp: Let_def simp del: length_take take_eq_Nil)
      next
        case False
        show ?thesis
        proof (cases "mp_send_advance h b in_body offset (length ?bytes)")
          case None
          with adv(1) have "?bytes = ?left" by simp
          with None False Cons.prems(2) Wrote not_end show ?thesis
            by (intro exI[of _ ?bytes]) (simp add: Let_def del: length_take take_eq_Nil)
        next
          case (Some co)
          then obtain c off where co: "mp_send_advance h b in_body offset (length ?bytes) = Some (c, off)"
            by (cases co) auto
          with False Cons.prems(2) Wrote not_end
          have "mp_send_segments ws h b c off (out @ ?bytes) = (r, out')"
            by (simp add: Let_def del: length_take take_eq_Nil)
          from Cons.IH[OF _ this] adv(2)[OF co] obtain sent where
            s: "out' = out @ ?bytes @ sent" "prefix sent (drop (length ?bytes) ?left)"
            "r = Sent \<longrightarrow> sent = drop (length ?bytes) ?left" by auto
          have b: "?bytes @ drop (length ?bytes) ?left = ?left" by (simp add: min_def)
          with s(2) have "prefix (?bytes @ sent) ?left" by (metis same_prefix_prefix)
          with s b show ?thesis by (intro exI[of _ "?bytes @ sent"]) simp
        qed
      qed
    next
      case Eintr
      with Cons not_end show ?thesis by auto
    next
      case (Werror e)
      with Cons.prems(2) not_end show ?thesis by auto
    qed
  qed
qed

text \<open>Unlike the loop of the protobuf client, this one also ends when the body is empty.\<close>

lemma mp_send_segments_complete:
  "(\<not> in_body \<longrightarrow> offset \<le> length h) \<Longrightarrow> mp_left h b in_body offset \<noteq> [] \<Longrightarrow> positive_writes ws \<Longrightarrow>
     length (mp_left h b in_body offset) \<le> writes_count ws \<Longrightarrow>
     fst (mp_send_segments ws h b in_body offset out) = Sent"
proof (induction ws arbitrary: in_body offset out)
  case Nil
  then show ?case by (simp add: writes_count_def)
next
  case (Cons x ws)
  let ?left = "mp_left h b in_body offset"
  show ?case
  proof (cases x)
    case (Wrote k)
    let ?bytes = "take k ?left"
    have k: "0 < k" "positive_writes ws" using Cons.prems(3) Wrote by (simp_all add: positive_writes_def)
    have n: "length ?bytes \<le> length ?left" "length ?bytes \<noteq> 0" using k Cons.prems(2) by simp_all
    show ?thesis
    proof (cases "mp_send_advance h b in_body offset (length ?bytes)")
      case None
      with Wrote n show ?thesis by (simp add: Let_def del: length_take take_eq_Nil)
    next
      case (Some co)
      then obtain c off where co: "mp_send_advance h b in_body offset (length ?bytes) = Some (c, off)"
        by (cases co) auto
      note adv = mp_send_advance_left(2)[OF Cons.prems(1) n(1) co]
      have c: "\<not> c \<longrightarrow> off \<le> length h" and l: "mp_left h b c off \<noteq> []" using adv by blast+
      have "length (mp_left h b c off) \<le> writes_count ws"
        using adv Cons.prems(4) Wrote by (auto simp: writes_count_def)
      from Cons.IH[OF c l k(2) this, of "out @ ?bytes"] co Wrote n(2) show ?thesis
        by (simp add: Let_def del: length_take take_eq_Nil)
    qed
  next
    case Eintr
    with Cons show ?thesis by (simp add: positive_writes_def writes_count_def)
  next
    case (Werror e)
    with Cons.prems(3) show ?thesis by (simp add: positive_writes_def)
  qed
qed

subsection \<open>Heartbeats\<close>

text \<open>\<open>SendHeartbeatOnce\<close> up to \<open>SendFrame\<close> (\<open>None\<close>: no connection, an early \<open>kSuccess\<close>), \<open>SendFrame\<close>
  itself, and the end of the wait. Another thread may close the connection between the first two.\<close>

definition mp_SendHeartbeat_prepare ::
    "'o msgpack_api \<Rightarrow> 'o mp_state \<Rightarrow> string option \<times> 'o mp_state" where
  "mp_SendHeartbeat_prepare A st =
     (case st of (ch, w) \<Rightarrow>
        if mc_fd ch = -1 then (None, (ch, w))
        else (case NextRequestId w of
                (rid, w1) \<Rightarrow>
                  (Some (mp_pack A (new_MsgpackHeader\<lparr>mh_msg_type := Mp_Ping, mh_request_id := rid\<rparr>) (mp_nil A)),
                   (ch\<lparr>mc_waiting_heartbeat := True, mc_waiting_heartbeat_id := rid,
                       mc_waiting_heartbeat_result := False\<rparr>, w1))))"

definition mp_SendHeartbeat_send :: "string \<Rightarrow> 'o mp_state \<Rightarrow> HeartbeatResult option \<times> 'o mp_state" where
  "mp_SendHeartbeat_send frame st =
     (case st of (ch, w) \<Rightarrow>
        (case SendFrame frame ch of
           (True, ch1) \<Rightarrow> (None, (ch1, w))
         | (False, ch1) \<Rightarrow>
             (Some kFatal, (ch1\<lparr>mc_waiting_heartbeat := False, mc_waiting_heartbeat_result := False\<rparr>, w))))"

definition mp_SendHeartbeat_finish :: "'o mp_state \<Rightarrow> HeartbeatResult \<times> 'o mp_state" where
  "mp_SendHeartbeat_finish st =
     (case st of (ch, w) \<Rightarrow>
        if mc_waiting_heartbeat ch then (kTimeout, (ch\<lparr>mc_waiting_heartbeat := False\<rparr>, w))
        else (if mc_waiting_heartbeat_result ch then kSuccess else kFatal, (ch, w)))"

definition mp_HeartbeatLoop_check :: "'o mp_state \<Rightarrow> bool \<times> 'o mp_state" where
  "mp_HeartbeatLoop_check st =
     (case st of (ch, w) \<Rightarrow>
        if mc_fd ch = -1 then (False, (ch\<lparr>mc_missed_heartbeat_count := 0\<rparr>, w)) else (True, (ch, w)))"

definition mp_HeartbeatLoop_result ::
    "'o msgpack_api \<Rightarrow> net_env \<Rightarrow> HeartbeatResult \<Rightarrow> 'o mp_state \<Rightarrow> 'o mp_state" where
  "mp_HeartbeatLoop_result A E r st =
     (case st of (ch, w) \<Rightarrow>
        (case r of
           kSuccess \<Rightarrow>
             (case clock_now E w of
                (now, w1) \<Rightarrow> (ch\<lparr>mc_missed_heartbeat_count := 0, mc_last_pong_time := now\<rparr>, w1))
         | kTimeout \<Rightarrow>
             (let missed = mc_missed_heartbeat_count ch + 1; ch1 = ch\<lparr>mc_missed_heartbeat_count := missed\<rparr>
              in if missed \<ge> mc_heartbeat_miss_limit ch
                 then (case mp_HandleHeartbeatFailure A E ''heartbeat timeout'' (ch1, w) of
                         (ch2, w2) \<Rightarrow> (ch2\<lparr>mc_missed_heartbeat_count := 0\<rparr>, w2))
                 else (ch1, w))
         | kFatal \<Rightarrow>
             (case mp_HandleHeartbeatFailure A E ''heartbeat fatal error'' (ch, w) of
                (ch2, w2) \<Rightarrow> (ch2\<lparr>mc_missed_heartbeat_count := 0\<rparr>, w2))))"

subsection \<open>The entry points\<close>

text \<open>\<open>callback\<close> is \<open>None\<close> for the variants that return a future, \<open>Some None\<close> for an empty
  \<open>std::function\<close>. What the caller sees when no connection is found:\<close>

definition mp_reject :: "nat option option \<Rightarrow> string \<Rightarrow> 'o mp_channel \<Rightarrow> 'o mp_channel" where
  "mp_reject callback err ch =
     mc_emit (case callback of
                None \<Rightarrow> [Mc_rejected None (if err = [] then ''connect failed'' else err)]
              | Some None \<Rightarrow> []
              | Some (Some cb) \<Rightarrow> [Mc_rejected (Some cb) (if err = [] then ''connect failed'' else err)]) ch"

record 'o mp_call_args =
  mp_service :: string
  mp_method :: string
  mp_timeout_ms :: int
  mp_args :: 'o
  mp_callback :: "nat option option"

record mp_prepared =
  mr_request_id :: u64
  mr_payload :: string
  mr_timeout_ms :: int
  mr_callback :: "nat option option"

definition mp_request_header :: "u64 \<Rightarrow> int \<Rightarrow> string \<Rightarrow> string \<Rightarrow> MsgpackHeader" where
  "mp_request_header rid timeout service meth =
     new_MsgpackHeader\<lparr>mh_msg_type := Mp_Request, mh_request_id := rid, mh_timeout_ms := word_of_int timeout,
       mh_service_name := service, mh_method_name := meth\<rparr>"

text \<open>\<open>CallAsyncRawWithTimeout\<close> and \<open>CallAsyncWithTimeout\<close> up to \<open>EnqueueRequest\<close>.\<close>

definition mp_prepare_call ::
    "'o msgpack_api \<Rightarrow> net_env \<Rightarrow> discovery \<Rightarrow> 'o mp_call_args \<Rightarrow> 'o mp_state \<Rightarrow> mp_prepared option \<times> 'o mp_state" where
  "mp_prepare_call A E D a st =
     (case mp_EnsureConnection A E D (mp_service a) (mp_method a) st of
        (Inl err, (ch, w)) \<Rightarrow> (None, (mp_reject (mp_callback a) err ch, w))
      | (Inr _, (ch, w)) \<Rightarrow>
          (case NextRequestId w of
             (rid, w1) \<Rightarrow>
               (let clamped = (if mp_timeout_ms a < 0 then 0 else mp_timeout_ms a)
                in (Some \<lparr>mr_request_id = rid,
                          mr_payload = mp_pack A (mp_request_header rid clamped (mp_service a) (mp_method a)) (mp_args a),
                          mr_timeout_ms = clamped, mr_callback = mp_callback a\<rparr>, (ch, w1)))))"

definition CallAsyncWithTimeout ::
    "'o msgpack_api \<Rightarrow> net_env \<Rightarrow> discovery \<Rightarrow> 'o mp_call_args \<Rightarrow> 'o mp_state \<Rightarrow> 'o mp_state" where
  "CallAsyncWithTimeout A E D a st =
     (case mp_prepare_call A E D a st of
        (None, st1) \<Rightarrow> st1
      | (Some r, st1) \<Rightarrow> EnqueueRequest A E (mr_request_id r) (mr_payload r) (mr_timeout_ms r) (mr_callback r) st1)"

definition Notify ::
    "'o msgpack_api \<Rightarrow> net_env \<Rightarrow> discovery \<Rightarrow> string \<Rightarrow> string \<Rightarrow> 'o \<Rightarrow> 'o mp_state \<Rightarrow> 'o mp_state" where
  "Notify A E D service meth args st =
     (case mp_EnsureConnection A E D service meth st of
        (Inl _, st1) \<Rightarrow> st1
      | (Inr _, (ch, w)) \<Rightarrow>
          (snd (SendFrame (mp_pack A (new_MsgpackHeader\<lparr>mh_msg_type := Mp_Oneway, mh_timeout_ms := 0,
                  mh_service_name := service, mh_method_name := meth\<rparr>) args) ch), w))"

end
