(* ===== verification/Msgpack_Threads.thy ===== *)
theory Msgpack_Threads
  imports Msgpack_Calls
begin

section \<open>The msgpack client: interleavings\<close>

text \<open>
  The threads of a \<open>KrpcMsgpackChannel\<close>. The step relation \<open>mp_step\<close> interleaves any number of callers,
  cut where other threads may run in between, with the send, receive, timeout and heartbeat threads, until
  the process is terminated. It is the second instance of \<open>call_protocol\<close>.
\<close>

subsection \<open>What an operation does to the calls\<close>

definition mp_completed_ids :: "'o mc_effect list \<Rightarrow> u64 list" where
  "mp_completed_ids es = List.map_filter
     (\<lambda>e. case e of Mc_promise i r \<Rightarrow> Some i | Mc_callback i cb err r \<Rightarrow> Some i | Mc_dropped i \<Rightarrow> Some i | _ \<Rightarrow> None) es"

definition mp_view :: "u64 list \<Rightarrow> 'o mp_state \<Rightarrow> call_view" where
  "mp_view alloc st = \<lparr>cv_allocated = alloc, cv_pending = map fst (mc_pending (fst st)),
     cv_completed = mp_completed_ids (mc_effects (fst st)), cv_next = g_request_id (snd st)\<rparr>"

definition mp_wf :: "'o mp_state \<Rightarrow> bool" where
  "mp_wf st \<longleftrightarrow> wf_map (mc_pending (fst st))"

definition mp_drained :: "'o mp_state \<Rightarrow> 'o mp_state \<Rightarrow> bool" where
  "mp_drained st st' \<longleftrightarrow> mp_wf st' \<and> (\<exists>ids. distinct ids \<and> set ids \<subseteq> fst ` set (mc_pending (fst st)) \<and>
     map fst (mc_pending (fst st')) = filter (\<lambda>i. i \<notin> set ids) (map fst (mc_pending (fst st))) \<and>
     mp_completed_ids (mc_effects (fst st')) = mp_completed_ids (mc_effects (fst st)) @ ids \<and>
     g_request_id (snd st') = g_request_id (snd st))"

lemma mp_completed_ids_append [simp]: "mp_completed_ids (a @ b) = mp_completed_ids a @ mp_completed_ids b"
  by (simp add: mp_completed_ids_def List.map_filter_def)

lemma mp_completed_ids_simps [simp]:
  "mp_completed_ids [] = []" "mp_completed_ids (Mc_promise i r # es) = i # mp_completed_ids es"
  "mp_completed_ids (Mc_callback i cb e x # es) = i # mp_completed_ids es"
  "mp_completed_ids (Mc_dropped i # es) = i # mp_completed_ids es"
  "mp_completed_ids (Mc_rejected c e # es) = mp_completed_ids es"
  "mp_completed_ids (Mc_sent f s # es) = mp_completed_ids es"
  "mp_completed_ids (Mc_shutdown f # es) = mp_completed_ids es"
  by (simp_all add: mp_completed_ids_def List.map_filter_def)

lemma mp_drained_refl: "mp_wf st \<Longrightarrow> mp_drained st st"
  by (auto simp: mp_drained_def intro!: exI[of _ "[]"])

lemma mp_drained_wf: "mp_drained st st' \<Longrightarrow> mp_wf st'"
  by (simp add: mp_drained_def)

lemma mp_drained_trans:
  assumes "mp_drained a b" "mp_drained b c"
  shows "mp_drained a c"
proof -
  from assms obtain xs ys where x: "distinct xs" "set xs \<subseteq> fst ` set (mc_pending (fst a))"
      "map fst (mc_pending (fst b)) = filter (\<lambda>i. i \<notin> set xs) (map fst (mc_pending (fst a)))"
      "mp_completed_ids (mc_effects (fst b)) = mp_completed_ids (mc_effects (fst a)) @ xs"
      "g_request_id (snd b) = g_request_id (snd a)"
    and y: "mp_wf c" "distinct ys" "set ys \<subseteq> fst ` set (mc_pending (fst b))"
      "map fst (mc_pending (fst c)) = filter (\<lambda>i. i \<notin> set ys) (map fst (mc_pending (fst b)))"
      "mp_completed_ids (mc_effects (fst c)) = mp_completed_ids (mc_effects (fst b)) @ ys"
      "g_request_id (snd c) = g_request_id (snd b)"
    unfolding mp_drained_def by auto
  have "fst ` set (mc_pending (fst b)) = fst ` set (mc_pending (fst a)) - set xs"
    using arg_cong[OF x(3), of set] by auto
  with x y show ?thesis
    unfolding mp_drained_def by (intro conjI exI[of _ "xs @ ys"]) (auto simp: conj_commute)
qed

text \<open>Steps that touch neither the table nor the completions.\<close>

lemma mp_drained_same:
  assumes "mp_wf st" "mc_pending (fst st') = mc_pending (fst st)" "g_request_id (snd st') = g_request_id (snd st)"
    "mp_completed_ids (mc_effects (fst st')) = mp_completed_ids (mc_effects (fst st))"
  shows "mp_drained st st'"
  using assms by (auto simp: mp_drained_def mp_wf_def intro!: exI[of _ "[]"])

lemma mp_CompletePending_frame:
  "mp_completed_ids (mc_effects (mp_CompletePending A i p err r ch)) = mp_completed_ids (mc_effects ch) @ [i]"
  "mc_pending (mp_CompletePending A i p err r ch) = mc_pending ch"
  by (auto simp: mp_CompletePending_def mc_emit_def split: option.splits)

lemma mp_complete_all_frame:
  "mp_completed_ids (mc_effects (mp_complete_all A ps reason ch)) = mp_completed_ids (mc_effects ch) @ map fst ps \<and>
   mc_pending (mp_complete_all A ps reason ch) = mc_pending ch"
proof (induction ps arbitrary: ch)
  case (Cons e ps)
  show ?case
    using Cons.IH[of "mp_CompletePending A (fst e) (snd e) reason (mp_nil A) ch"]
    by (simp add: mp_complete_all_def mp_CompletePending_frame)
qed (simp add: mp_complete_all_def)

lemma keys_filter_not:
  assumes "wf_map m"
  shows "map fst (filter (\<lambda>e. \<not> P e) m) = filter (\<lambda>i. i \<notin> fst ` set (filter P m)) (map fst m)"
proof -
  have "filter (\<lambda>e. \<not> P e) m = filter (\<lambda>e. fst e \<notin> fst ` set (filter P m)) m"
  proof (rule filter_cong[OF refl])
    fix e assume e: "e \<in> set m"
    have "e = d" if "d \<in> set m" "fst d = fst e" for d
      using eq_key_imp_eq_value[OF assms, of "fst e" "snd e" "snd d"] that e by (cases e; cases d) auto
    with e show "(\<not> P e) = (fst e \<notin> fst ` set (filter P m))" by force
  qed
  then show ?thesis by (simp add: filter_map comp_def)
qed

lemma mp_drained_filter:
  assumes "mp_wf (ch, w)" "g_request_id w' = g_request_id w"
  shows "mp_drained (ch, w)
    (mp_complete_all A (filter (\<lambda>e. P e) (mc_pending ch)) reason (ch\<lparr>mc_pending := filter (\<lambda>e. \<not> P e) (mc_pending ch)\<rparr>), w')"
proof -
  have wf: "wf_map (mc_pending ch)" using assms(1) by (simp add: mp_wf_def)
  from keys_filter_not[OF wf, of P] wf assms(2) show ?thesis
    unfolding mp_drained_def mp_wf_def
    by (intro conjI exI[of _ "map fst (filter P (mc_pending ch))"]) (auto simp: mp_complete_all_frame distinct_map_filter)
qed

lemma mp_drained_FailAllPending:
  "mp_wf (ch, w) \<Longrightarrow> mp_drained (ch, w) (FailAllPending A reason ch, w)"
  using mp_drained_filter[of ch w w A "\<lambda>e. True" reason] by (simp add: FailAllPending_def)

lemma mp_drained_TimeoutLoop_turn:
  "mp_wf st \<Longrightarrow> mp_drained st (mp_TimeoutLoop_turn A E st)"
  by (cases st) (auto simp: mp_TimeoutLoop_turn_def dest!: clock_now_frame intro!: mp_drained_filter split: prod.splits)

lemma mp_drained_take_and_complete:
  assumes "mp_wf (ch, w)"
  shows "mp_drained (ch, w) (mp_take_and_complete A rid err r ch, w)"
proof (cases "map_of (mc_pending ch) rid")
  case None
  with assms show ?thesis by (simp add: mp_take_and_complete_def mp_drained_refl)
next
  case (Some p)
  with assms map_of_SomeD_key[OF Some] show ?thesis
    unfolding mp_drained_def mp_wf_def
    by (intro conjI exI[of _ "[rid]"])
      (auto simp: mp_take_and_complete_def mp_CompletePending_frame keys_AList_delete)
qed

lemma mp_drained_recv_exit:
  assumes "mp_wf st"
  shows "mp_drained st (mp_recv_exit A b st)"
proof -
  obtain ch w where st: "st = (ch, w)" by (cases st)
  let ?st1 = "if b then mp_CloseConnectionLocked st else st"
  obtain ch1 w1 where c: "?st1 = (ch1, w1)" by (cases ?st1)
  then have f: "mc_pending ch1 = mc_pending ch" "mc_effects ch1 = mc_effects ch" "g_request_id w1 = g_request_id w"
    by (auto simp: st mp_CloseConnectionLocked_def split: if_splits)
  have d1: "mp_drained st (ch1\<lparr>mc_running := False\<rparr>, w1)"
    using assms f by (intro mp_drained_same) (simp_all add: st)
  let ?ch2 = "FailAllPending A ''connection closed'' (ch1\<lparr>mc_running := False\<rparr>)"
  have d2: "mp_drained st (?ch2, w1)"
    by (rule mp_drained_trans[OF d1 mp_drained_FailAllPending[OF mp_drained_wf[OF d1]]])
  have "mp_drained (?ch2, w1) ((mp_reset_heartbeat ?ch2)\<lparr>mc_alive := False\<rparr>, w1)"
    by (rule mp_drained_same[OF mp_drained_wf[OF d2]]) (simp_all add: mp_reset_heartbeat_def)
  from mp_drained_trans[OF d2 this] c show ?thesis by (simp add: mp_recv_exit_def)
qed

lemma mp_drained_StopRecvThread:
  assumes "mp_wf st"
  shows "mp_drained st (mp_StopRecvThread A st)"
proof -
  obtain ch w where st: "st = (ch, w)" by (cases st)
  define ch2 where "ch2 = (if mc_fd ch \<noteq> -1 then mc_emit [Mc_shutdown (mc_fd ch)] (ch\<lparr>mc_running := False\<rparr>)
    else ch\<lparr>mc_running := False\<rparr>)"
  have d: "mp_drained st (ch2, w)"
    using assms by (intro mp_drained_same) (simp_all add: st ch2_def mc_emit_def)
  obtain ch3 w3 where e: "(if mc_alive ch2 then mp_recv_exit A False (ch2, w) else (ch2, w)) = (ch3, w3)"
    by (rule prod.exhaust)
  have d3: "mp_drained st (ch3, w3)"
    using mp_drained_trans[OF d mp_drained_recv_exit[OF mp_drained_wf[OF d], of A False]] d e by (auto split: if_splits)
  have "mp_drained (ch3, w3) (ch3\<lparr>mc_joinable := False\<rparr>, w3)"
    by (rule mp_drained_same[OF mp_drained_wf[OF d3]]) simp_all
  note d4 = mp_drained_trans[OF d3 this]
  have "mp_StopRecvThread A st = (if \<not> mc_joinable ch2 then (ch2, w) else (ch3\<lparr>mc_joinable := False\<rparr>, w3))"
    using e unfolding mp_StopRecvThread_def st ch2_def by (auto simp: Let_def mc_emit_def split: if_splits)
  with d d4 show ?thesis by simp
qed

lemma mp_ReleaseConnection_frame:
  "mp_ReleaseConnection E h st = (ch', w') \<Longrightarrow> mc_pending ch' = mc_pending (fst st) \<and>
     mc_effects ch' = mc_effects (fst st) \<and> g_request_id w' = g_request_id (snd st)"
  by (cases st) (auto simp: mp_ReleaseConnection_def Let_def split: if_splits prod.splits)

lemma mp_drained_ReleaseConnection:
  assumes "mp_wf st"
  shows "mp_drained st (mp_ReleaseConnection E h st)"
proof -
  obtain ch' w' where "mp_ReleaseConnection E h st = (ch', w')" by (rule prod.exhaust)
  with mp_ReleaseConnection_frame[OF this] assms show ?thesis by (simp add: mp_drained_same)
qed

lemma mp_drained_healthy: "mp_wf st \<Longrightarrow> mp_healthy E st = (h, st') \<Longrightarrow> mp_drained st st'"
  by (auto simp: mp_healthy_def intro!: mp_drained_same split: prod.splits)

lemma mp_drained_HandleHeartbeatFailure:
  assumes "mp_wf st"
  shows "mp_drained st (mp_HandleHeartbeatFailure A E reason st)"
proof -
  note d1 = mp_drained_StopRecvThread[OF assms, of A]
  note d2 = mp_drained_trans[OF d1 mp_drained_ReleaseConnection[OF mp_drained_wf[OF d1], of E False]]
  obtain ch w where r: "mp_ReleaseConnection E False (mp_StopRecvThread A st) = (ch, w)" by (rule prod.exhaust)
  have d3: "mp_drained st (ch\<lparr>mc_send_queue := []\<rparr>, w)"
    by (rule mp_drained_trans[OF d2[unfolded r] mp_drained_same[OF mp_drained_wf[OF d2[unfolded r]]]]) simp_all
  note d4 = mp_drained_trans[OF d3 mp_drained_FailAllPending[OF mp_drained_wf[OF d3], of A reason]]
  show ?thesis
    unfolding mp_HandleHeartbeatFailure_def r
    by (simp, rule mp_drained_trans[OF d4 mp_drained_same[OF mp_drained_wf[OF d4]]])
      (simp_all add: mp_reset_heartbeat_def)
qed

subsection \<open>The receive and send threads\<close>

lemma mp_drained_send:
  "mp_wf (ch, w) \<Longrightarrow> mp_drained (ch, w) (snd (SendFrame payload ch), w)"
  by (rule mp_drained_same) (simp_all add: SendFrame_def mp_EnqueueSend_def)

lemma mp_drained_handle_frame:
  assumes "mp_wf st" "mp_handle_frame A E payload st = (st', b)"
  shows "mp_drained st st'"
proof -
  obtain ch w where st: "st = (ch, w)" by (cases st)
  have r: "mp_drained (ch, w) (mp_handle_response A h body ch, w)" for h body
    using assms(1) mp_drained_take_and_complete[of ch w] mp_drained_refl[OF assms(1)]
    by (auto simp: mp_handle_response_def st split: option.splits)
  have t: "mp_drained (ch, w) (ch\<lparr>mc_terminated := True\<rparr>, w)"
    using assms(1) by (intro mp_drained_same) (simp_all add: st)
  have p: "mp_drained (ch, w) (mp_ResolveHeartbeat E h (ch, w))" for h
    using assms(1) by (intro mp_drained_same)
      (auto simp: st mp_ResolveHeartbeat_def dest!: clock_now_frame split: prod.splits)
  show ?thesis
    using assms r t p mp_drained_send[of ch w] mp_drained_refl[OF assms(1)]
    by (auto simp: mp_handle_frame_def st split: unpacked.splits if_splits)
qed

lemma mp_drained_recv_bytes:
  assumes "mp_wf st"
  shows "mp_drained st (mp_recv_bytes A E bytes st)"
proof -
  obtain status buf ch w where c:
    "consume (mp_next_frame ()) (mp_handle_frame A E) (mc_recv_buffer (fst st) @ bytes) st = (status, buf, (ch, w))"
    by (metis prod_cases4)
  have d: "mp_drained st (ch, w)"
    by (rule consume_rel[where P = mp_wf, OF _ _ _ _ assms c[unfolded consume_def]])
      (auto intro: mp_drained_refl mp_drained_trans mp_drained_wf mp_drained_handle_frame)
  have "mp_drained (ch, w) (ch\<lparr>mc_recv_buffer := buf\<rparr>, w)"
    by (rule mp_drained_same[OF mp_drained_wf[OF d]]) simp_all
  from mp_drained_trans[OF d this] c show ?thesis by (simp add: mp_recv_bytes_def)
qed

lemma mp_drained_RecvLoop_turn:
  assumes "mp_wf st"
  shows "mp_drained st (mp_RecvLoop_turn A E ob st)"
  using mp_drained_refl[OF assms] mp_drained_recv_exit[OF assms] mp_drained_recv_bytes[OF assms]
  by (cases ob) (auto simp: mp_RecvLoop_turn_def Let_def)

lemma mp_drained_SendLoop_turn:
  assumes "mp_wf st" "mp_SendLoop_turn A E ws st = Some st'"
  shows "mp_drained st st'"
proof -
  obtain ch w where st: "st = (ch, w)" by (cases st)
  have q: "mp_drained (ch, w) (mc_emit es (ch\<lparr>mc_send_queue := q\<rparr>), w)" if "mp_completed_ids es = []" for es q
    using assms(1) that by (intro mp_drained_same) (simp_all add: st mc_emit_def)
  have f: "mp_drained (ch, w) (mp_HandleHeartbeatFailure A E reason (mc_emit es (ch\<lparr>mc_send_queue := q\<rparr>), w))"
    if "mp_completed_ids es = []" for es q reason
    using mp_drained_trans[OF q[OF that] mp_drained_HandleHeartbeatFailure[OF mp_drained_wf[OF q[OF that]]]] .
  have "mc_emit [] c = c" for c :: "'a mp_channel" by (simp add: mc_emit_def)
  with f[of "[]"] assms(2) q f show ?thesis
    by (auto simp: mp_SendLoop_turn_def st Let_def split: list.splits if_splits prod.splits send_result.splits)
qed

subsection \<open>Connecting\<close>

lemma mp_AcquireConnection_next:
  "mp_AcquireConnection E ip p st = (r, b, w') \<Longrightarrow> g_request_id w' = g_request_id (snd st)"
  by (cases st) (auto simp: mp_AcquireConnection_def split: if_splits prod.splits)

lemma mp_StartRecvThread_frame [simp]:
  "mc_pending (mp_StartRecvThread ch) = mc_pending ch" "mc_effects (mp_StartRecvThread ch) = mc_effects ch"
  by (simp_all add: mp_StartRecvThread_def)

lemma mp_drained_open:
  assumes "mp_wf st" "mp_open E cand st = (r, st')"
  shows "mp_drained st st'"
  using assms(2)
  by (intro mp_drained_same[OF assms(1)])
    (auto simp: mp_open_def Let_def split: prod.splits sum.splits dest!: mp_AcquireConnection_next clock_now_frame)

lemma mp_drained_drop:
  assumes "mp_wf st"
  shows "mp_drained st (mp_drop_connection A E st)"
proof -
  obtain h st2 where h: "mp_healthy E st = (h, st2)" by (rule prod.exhaust)
  note d1 = mp_drained_healthy[OF assms h]
  note d2 = mp_drained_trans[OF d1 mp_drained_StopRecvThread[OF mp_drained_wf[OF d1], of A]]
  note d3 = mp_drained_trans[OF d2 mp_drained_ReleaseConnection[OF mp_drained_wf[OF d2], of E h]]
  with h mp_drained_refl[OF assms] show ?thesis by (simp add: mp_drop_connection_def)
qed

lemma mp_drained_connect_to:
  assumes "mp_wf st" "mp_connect_to A E cand st = (r, st')"
  shows "mp_drained st st'"
proof -
  let ?first = "if mc_fd (fst st) \<noteq> -1 \<and> host cand = mc_ip (fst st) \<and> port cand = mc_port (fst st)
    then mp_healthy E st else (False, st)"
  obtain b st1 where f: "?first = (b, st1)" by (cases ?first)
  have d: "mp_drained st st1"
    using f mp_drained_healthy[OF assms(1)] mp_drained_refl[OF assms(1)] by (auto split: if_splits)
  note d2 = mp_drained_trans[OF d mp_drained_drop[OF mp_drained_wf[OF d], of A E]]
  show ?thesis
  proof (cases b)
    case True
    with assms(2) f d show ?thesis by (simp add: mp_connect_to_def)
  next
    case False
    with assms(2) f have "mp_open E cand (mp_drop_connection A E st1) = (r, st')" by (simp add: mp_connect_to_def)
    from mp_drained_trans[OF d2 mp_drained_open[OF mp_drained_wf[OF d2] this]] show ?thesis .
  qed
qed

lemma mp_drained_failover:
  "mp_wf st \<Longrightarrow> mp_failover A E now eps idxs best bi st = (r, st') \<Longrightarrow> mp_drained st st'"
proof (induction idxs arbitrary: best bi st)
  case Nil
  then show ?case by (simp add: mp_drained_refl)
next
  case (Cons i idxs)
  obtain r1 st1 where c: "mp_connect_to A E (eps ! i) st = (r1, st1)" by (rule prod.exhaust)
  note d = mp_drained_connect_to[OF Cons.prems(1) c]
  have "mp_drained st st'" if "mp_failover A E now eps idxs best bi st1 = (r, st')"
    using mp_drained_trans[OF d Cons.IH[OF mp_drained_wf[OF d] that]] .
  with Cons.prems c d Cons.IH[OF Cons.prems(1)] show ?case
    by (auto split: prod.splits bool.splits option.splits sum.splits if_splits)
qed

lemma discover_next: "discover E D svc m w = (eps, w') \<Longrightarrow> g_request_id w' = g_request_id w"
  using world_quiet_discover by (auto simp: world_quiet_def)

lemma mp_drained_EnsureConnection:
  assumes "mp_wf st" "mp_EnsureConnection A E D svc m st = (r, st')"
  shows "mp_drained st st'"
proof -
  obtain ch w where st: "st = (ch, w)" by (cases st)
  obtain eps w1 where e: "discover E D svc m w = (eps, w1)" by (rule prod.exhaust)
  have d1: "mp_drained st (ch\<lparr>mc_lb_nodes := ns\<rparr>, w')" if "g_request_id w' = g_request_id w1" for ns w'
    using assms(1) discover_next[OF e] that by (intro mp_drained_same) (simp_all add: st)
  show ?thesis
  proof (cases "eps = []")
    case True
    with assms(2) e d1[of w1 "mc_lb_nodes ch"] show ?thesis by (simp add: mp_EnsureConnection_def st)
  next
    case False
    let ?sel = "Select m (UpdateNodes eps \<lparr>rr_nodes = mc_lb_nodes ch, s_global_index = w_lb_index w1\<rparr>)"
    obtain sel lb where s: "?sel = (sel, lb)" by (rule prod.exhaust)
    let ?i = "find_start_index eps (case sel of None \<Rightarrow> hd eps | Some e \<Rightarrow> e)"
    obtain now w2 where k: "clock_now E (w1\<lparr>w_lb_index := s_global_index lb\<rparr>) = (now, w2)" by (rule prod.exhaust)
    obtain r3 st3 where f: "mp_failover A E now eps (rotation ?i (length eps)) None ?i
        (ch\<lparr>mc_lb_nodes := rr_nodes lb\<rparr>, w2) = (r3, st3)" by (rule prod.exhaust)
    have d2: "mp_drained st (ch\<lparr>mc_lb_nodes := rr_nodes lb\<rparr>, w2)"
      using clock_now_frame[OF k] by (intro d1) simp
    note d3 = mp_drained_trans[OF d2 mp_drained_failover[OF mp_drained_wf[OF d2] f]]
    have "mp_drained st st'" if "mp_connect_to A E (eps ! idx) st3 = (r, st')" for idx
      by (rule mp_drained_trans[OF d3 mp_drained_connect_to[OF mp_drained_wf[OF d3] that]])
    with assms(2) e False s k f d3 show ?thesis
      by (auto simp: mp_EnsureConnection_def st Let_def split: sum.splits)
  qed
qed

subsection \<open>Callers and threads\<close>

datatype mp_phase = Mp_Prepared mp_prepared | Mp_Inserted mp_prepared | Mp_Beating string

record 'o mp_threads =
  mt_chan :: "'o mp_state"
  mt_callers :: "mp_phase list"

definition mp_allocated :: "mp_phase list \<Rightarrow> u64 list" where
  "mp_allocated cs = List.map_filter (\<lambda>p. case p of Mp_Prepared r \<Rightarrow> Some (mr_request_id r) | _ \<Rightarrow> None) cs"

definition mt_view :: "'o mp_threads \<Rightarrow> call_view" where
  "mt_view t = mp_view (mp_allocated (mt_callers t)) (mt_chan t)"

definition mp_ids_left :: "'o mp_state \<Rightarrow> bool" where
  "mp_ids_left st \<longleftrightarrow> unat (g_request_id (snd st)) + 1 < 18446744073709551616"

text \<open>No step is possible once the process is terminated. The steps that the client takes without the peer;
  \<open>beat\<close>, \<open>beat_send\<close> and \<open>beat_end\<close> are the heartbeat thread, whose ping waits between the first two as a
  phase of its own.\<close>

inductive mp_own_step :: "'o msgpack_api \<Rightarrow> net_env \<Rightarrow> discovery \<Rightarrow> 'o mp_threads \<Rightarrow> 'o mp_threads \<Rightarrow> bool"
  for A E D where
  call_failed: "\<not> mc_terminated (fst st) \<Longrightarrow> mp_prepare_call A E D a st = (None, st') \<Longrightarrow>
    mp_own_step A E D \<lparr>mt_chan = st, mt_callers = cs\<rparr> \<lparr>mt_chan = st', mt_callers = cs\<rparr>"
| insert: "\<not> mc_terminated (fst st) \<Longrightarrow> Mp_Prepared r \<in> set cs \<Longrightarrow>
    mp_own_step A E D \<lparr>mt_chan = st, mt_callers = cs\<rparr>
      \<lparr>mt_chan = mp_start_request E (mr_request_id r) (mr_timeout_ms r) (mr_callback r) st,
       mt_callers = Mp_Inserted r # remove1 (Mp_Prepared r) cs\<rparr>"
| send_request: "\<not> mc_terminated (fst st) \<Longrightarrow> Mp_Inserted r \<in> set cs \<Longrightarrow>
    mp_own_step A E D \<lparr>mt_chan = st, mt_callers = cs\<rparr>
      \<lparr>mt_chan = (mp_send_request A (mr_request_id r) (mr_payload r) (fst st), snd st),
       mt_callers = remove1 (Mp_Inserted r) cs\<rparr>"
| notify: "\<not> mc_terminated (fst st) \<Longrightarrow>
    mp_own_step A E D \<lparr>mt_chan = st, mt_callers = cs\<rparr> \<lparr>mt_chan = Notify A E D s m x st, mt_callers = cs\<rparr>"
| send: "\<not> mc_terminated (fst st) \<Longrightarrow> mp_SendLoop_turn A E ws st = Some st' \<Longrightarrow>
    mp_own_step A E D \<lparr>mt_chan = st, mt_callers = cs\<rparr> \<lparr>mt_chan = st', mt_callers = cs\<rparr>"
| timeout: "\<not> mc_terminated (fst st) \<Longrightarrow>
    mp_own_step A E D \<lparr>mt_chan = st, mt_callers = cs\<rparr> \<lparr>mt_chan = mp_TimeoutLoop_turn A E st, mt_callers = cs\<rparr>"
| beat: "\<not> mc_terminated (fst st) \<Longrightarrow> mp_ids_left st \<Longrightarrow> mp_SendHeartbeat_prepare A st = (Some ping, st') \<Longrightarrow>
    mp_own_step A E D \<lparr>mt_chan = st, mt_callers = cs\<rparr> \<lparr>mt_chan = st', mt_callers = Mp_Beating ping # cs\<rparr>"
| beat_send: "\<not> mc_terminated (fst st) \<Longrightarrow> Mp_Beating ping \<in> set cs \<Longrightarrow>
    mp_SendHeartbeat_send ping st = (r, st') \<Longrightarrow>
    mp_own_step A E D \<lparr>mt_chan = st, mt_callers = cs\<rparr>
      \<lparr>mt_chan = (case r of None \<Rightarrow> st' | Some h \<Rightarrow> mp_HeartbeatLoop_result A E h st'),
       mt_callers = remove1 (Mp_Beating ping) cs\<rparr>"
| beat_end: "\<not> mc_terminated (fst st) \<Longrightarrow> mp_SendHeartbeat_finish st = (r, st') \<Longrightarrow>
    mp_own_step A E D \<lparr>mt_chan = st, mt_callers = cs\<rparr>
      \<lparr>mt_chan = mp_HeartbeatLoop_result A E r st', mt_callers = cs\<rparr>"

text \<open>A step of the client: a call that finds a connection takes a request id, and the receive thread makes one turn
  with whatever \<open>recv\<close> answers.\<close>

inductive mp_step :: "'o msgpack_api \<Rightarrow> net_env \<Rightarrow> discovery \<Rightarrow> 'o mp_threads \<Rightarrow> 'o mp_threads \<Rightarrow> bool"
  for A E D where
  own: "mp_own_step A E D t t' \<Longrightarrow> mp_step A E D t t'"
| call: "\<not> mc_terminated (fst st) \<Longrightarrow> mp_ids_left st \<Longrightarrow> mp_prepare_call A E D a st = (Some r, st') \<Longrightarrow>
    mp_step A E D \<lparr>mt_chan = st, mt_callers = cs\<rparr> \<lparr>mt_chan = st', mt_callers = Mp_Prepared r # cs\<rparr>"
| recv: "\<not> mc_terminated (fst st) \<Longrightarrow>
    mp_step A E D \<lparr>mt_chan = st, mt_callers = cs\<rparr> \<lparr>mt_chan = mp_RecvLoop_turn A E ob st, mt_callers = cs\<rparr>"

definition mt_ok :: "'o mp_threads \<Rightarrow> bool" where
  "mt_ok t \<longleftrightarrow> mp_wf (mt_chan t) \<and> cv_ok (mt_view t)"

lemma mp_allocated_simps [simp]:
  "mp_allocated (Mp_Prepared r # cs) = mr_request_id r # mp_allocated cs"
  "mp_allocated (Mp_Inserted r # cs) = mp_allocated cs" "mp_allocated (Mp_Beating p # cs) = mp_allocated cs"
  by (simp_all add: mp_allocated_def List.map_filter_def)

lemma mp_allocated_remove_other:
  "(\<forall>r. p \<noteq> Mp_Prepared r) \<Longrightarrow> mp_allocated (remove1 p cs) = mp_allocated cs"
  by (induction cs) (auto simp: mp_allocated_def List.map_filter_def split: mp_phase.splits)

lemma mp_allocated_mem: "Mp_Prepared r \<in> set cs \<Longrightarrow> mr_request_id r \<in> set (mp_allocated cs)"
  by (force simp: mp_allocated_def List.map_filter_def)

lemma mp_allocated_remove:
  "Mp_Prepared r \<in> set cs \<Longrightarrow> distinct (mp_allocated cs) \<Longrightarrow>
     mp_allocated (remove1 (Mp_Prepared r) cs) = remove1 (mr_request_id r) (mp_allocated cs)"
proof (induction cs)
  case (Cons c cs)
  then show ?case using mp_allocated_mem[of r cs] by (cases c) auto
qed simp

text \<open>How the abstract view moves: by completions, by an allocation, by spending an id.\<close>

lemma mp_view_drained:
  assumes "mp_drained st st'"
  shows "call_step (mp_view al st) (mp_view al st')"
proof -
  from assms obtain ids where d: "distinct ids" "set ids \<subseteq> fst ` set (mc_pending (fst st))"
    "map fst (mc_pending (fst st')) = filter (\<lambda>i. i \<notin> set ids) (map fst (mc_pending (fst st)))"
    "mp_completed_ids (mc_effects (fst st')) = mp_completed_ids (mc_effects (fst st)) @ ids"
    "g_request_id (snd st') = g_request_id (snd st)" by (auto simp: mp_drained_def)
  have "mp_view al st' = (mp_view al st)\<lparr>cv_pending := filter (\<lambda>i. i \<notin> set ids) (cv_pending (mp_view al st)),
      cv_completed := cv_completed (mp_view al st) @ ids\<rparr>"
    using d by (simp add: mp_view_def)
  with call_step.complete[of ids "mp_view al st"] d show ?thesis by (simp add: mp_view_def)
qed

lemma mp_view_allocate:
  assumes "mp_ids_left st" "mc_pending ch' = mc_pending (fst st)" "mc_effects ch' = mc_effects (fst st)"
  shows "call_step (mp_view al st) (mp_view (g_request_id (snd st) # al) (ch', snd (NextRequestId (snd st))))"
  using call_step.allocate[of "mp_view al st"] assms
  by (simp add: mp_view_def mp_ids_left_def NextRequestId_def)

lemma mp_view_spend:
  assumes "mp_ids_left st" "mc_pending ch' = mc_pending (fst st)" "mc_effects ch' = mc_effects (fst st)"
  shows "call_step\<^sup>*\<^sup>* (mp_view al st) (mp_view al (ch', snd (NextRequestId (snd st))))"
proof -
  let ?v = "mp_view (g_request_id (snd st) # al) (ch', snd (NextRequestId (snd st)))"
  have "call_step ?v (?v\<lparr>cv_allocated := remove1 (g_request_id (snd st)) (cv_allocated ?v)\<rparr>)"
    by (rule call_step.abandon) (simp add: mp_view_def)
  with mp_view_allocate[OF assms, of al] show ?thesis
    by (metis (no_types, lifting) converse_rtranclp_into_rtranclp r_into_rtranclp mp_view_def
        call_view.update_convs(1) call_view.select_convs(1) remove1.simps(2))
qed

lemma mp_view_insert:
  assumes ok: "mt_ok \<lparr>mt_chan = st, mt_callers = cs\<rparr>" and r: "Mp_Prepared r \<in> set cs"
  shows "call_step (mp_view (mp_allocated cs) st)
      (mp_view (mp_allocated (remove1 (Mp_Prepared r) cs)) (mp_start_request E (mr_request_id r) timeout cb st))"
    "mp_wf (mp_start_request E (mr_request_id r) timeout cb st)"
proof -
  obtain ch w where st: "st = (ch, w)" by (cases st)
  obtain now w1 where k: "clock_now E w = (now, w1)" by (rule prod.exhaust)
  let ?i = "mr_request_id r" and ?v = "mp_view (mp_allocated cs) st"
  have d: "distinct (mp_allocated cs)" "set (mp_allocated cs) \<inter> fst ` set (mc_pending ch) = {}" "wf_map (mc_pending ch)"
    using ok by (auto simp: mt_ok_def mt_view_def mp_view_def cv_ok_def st mp_wf_def)
  have i: "?i \<in> set (mp_allocated cs)" by (rule mp_allocated_mem[OF r])
  with d have new: "?i \<notin> fst ` set (mc_pending ch)" by blast
  then have ins: "map fst (emplace ?i p (mc_pending ch)) = map fst (mc_pending ch) @ [?i]" for p
    by (simp add: emplace_def map_of_eq_None_iff)
  have "mp_view (mp_allocated (remove1 (Mp_Prepared r) cs)) (mp_start_request E ?i timeout cb st) =
      ?v\<lparr>cv_allocated := remove1 ?i (cv_allocated ?v), cv_pending := cv_pending ?v @ [?i]\<rparr>"
    using k clock_now_frame[OF k] ins mp_allocated_remove[OF r d(1)]
    by (simp add: mp_view_def mp_start_request_def mp_insert_request_def st)
  with call_step.insert[of ?i ?v] i show "call_step ?v
      (mp_view (mp_allocated (remove1 (Mp_Prepared r) cs)) (mp_start_request E ?i timeout cb st))"
    by (simp add: mp_view_def)
  show "mp_wf (mp_start_request E ?i timeout cb st)"
    using d(3) k by (simp add: mp_wf_def mp_start_request_def mp_insert_request_def st)
qed

lemma mp_drained_send_request:
  assumes "mp_wf (ch, w)"
  shows "mp_drained (ch, w) (mp_send_request A i payload ch, w)"
  using assms mp_drained_send[OF assms, of payload] mp_drained_take_and_complete[OF assms]
  by (auto simp: mp_send_request_def SendFrame_def)

lemma mp_drained_Notify:
  assumes "mp_wf st"
  shows "mp_drained st (Notify A E D s m x st)"
proof -
  obtain r ch w where e: "mp_EnsureConnection A E D s m st = (r, (ch, w))" by (metis prod.exhaust)
  note d = mp_drained_EnsureConnection[OF assms e]
  note d2 = mp_drained_trans[OF d mp_drained_send[OF mp_drained_wf[OF d]]]
  with d e show ?thesis by (cases r) (simp_all add: Notify_def)
qed

lemma mp_drained_heartbeat_result:
  assumes "mp_wf (ch, w)"
  shows "mp_drained (ch, w) (mp_HeartbeatLoop_result A E r (ch, w))"
proof -
  have same: "mp_drained (c, v) (c\<lparr>mc_missed_heartbeat_count := k\<rparr>, v)" if "mp_wf (c, v)" for c :: "'a mp_channel" and v k
    using that by (intro mp_drained_same) simp_all
  have fail: "mp_drained s (c\<lparr>mc_missed_heartbeat_count := 0\<rparr>, v)"
    if "mp_wf s" "mp_HandleHeartbeatFailure A E reason s = (c, v)" for s reason c v
    using mp_drained_trans[OF mp_drained_HandleHeartbeatFailure[OF that(1)]] same mp_drained_wf
      mp_drained_HandleHeartbeatFailure[OF that(1), of A E reason] that(2) by metis
  have succ: "mp_drained (ch, w) (ch\<lparr>mc_missed_heartbeat_count := 0, mc_last_pong_time := now\<rparr>, w1)"
    if "clock_now E w = (now, w1)" for now w1
    using assms clock_now_frame[OF that] by (intro mp_drained_same) simp_all
  let ?missed = "mc_missed_heartbeat_count ch + 1"
  note m = same[OF assms, of ?missed]
  show ?thesis
    using succ m fail[OF assms] mp_drained_trans[OF m] fail[OF mp_drained_wf[OF m]]
    by (cases r) (auto simp: mp_HeartbeatLoop_result_def Let_def split: prod.splits)
qed

lemma mp_drained_beat_send:
  assumes "mp_wf st" "mp_SendHeartbeat_send ping st = (r, st')"
  shows "mp_drained st (case r of None \<Rightarrow> st' | Some h \<Rightarrow> mp_HeartbeatLoop_result A E h st')"
proof -
  have d: "mp_drained st st'"
    using assms(2) by (intro mp_drained_same[OF assms(1)])
      (auto simp: mp_SendHeartbeat_send_def SendFrame_def mp_EnqueueSend_def split: prod.splits if_splits)
  obtain ch w where s: "st' = (ch, w)" by (rule prod.exhaust)
  from mp_drained_trans[OF d[unfolded s] mp_drained_heartbeat_result[OF mp_drained_wf[OF d[unfolded s]]]] d
  show ?thesis by (cases r) (simp_all add: s)
qed

lemma mp_drained_beat_end:
  assumes "mp_wf st" "mp_SendHeartbeat_finish st = (r, st')"
  shows "mp_drained st (mp_HeartbeatLoop_result A E r st')"
proof -
  obtain ch w where s: "st' = (ch, w)" by (rule prod.exhaust)
  have d: "mp_drained st (ch, w)"
    using assms(2) s by (intro mp_drained_same[OF assms(1)])
      (auto simp: mp_SendHeartbeat_finish_def split: prod.splits if_splits)
  from mp_drained_trans[OF d mp_drained_heartbeat_result[OF mp_drained_wf[OF d]]] show ?thesis by (simp add: s)
qed

lemma mp_prepare_cases:
  assumes "mp_wf st" "mp_prepare_call A E D a st = (p, st')"
  obtains ch w where "mp_drained st (ch, w)" "p = None" "mp_drained st st'"
  | ch w r where "mp_drained st (ch, w)" "p = Some r" "mr_request_id r = g_request_id w"
      "st' = (ch, snd (NextRequestId w))"
proof -
  obtain e ch w where en: "mp_EnsureConnection A E D (mp_service a) (mp_method a) st = (e, (ch, w))"
    by (metis prod.exhaust)
  note d = mp_drained_EnsureConnection[OF assms(1) en]
  have rej: "mp_drained (ch, w) (mp_reject cb err ch, w)" for cb err
    by (rule mp_drained_same[OF mp_drained_wf[OF d]]) (auto simp: mp_reject_def mc_emit_def split: option.splits)
  show ?thesis
  proof (cases e)
    case (Inl err)
    with assms(2) en have "p = None" "st' = (mp_reject (mp_callback a) err ch, w)"
      by (simp_all add: mp_prepare_call_def)
    with d mp_drained_trans[OF d rej] show ?thesis by (intro that(1)) simp_all
  next
    case (Inr u)
    with assms(2) en d show ?thesis
      by (intro that(2)[of ch w]) (auto simp: mp_prepare_call_def NextRequestId_def Let_def)
  qed
qed

lemma mp_step_drained:
  assumes "mt_ok \<lparr>mt_chan = st, mt_callers = cs\<rparr>" "mp_drained st st'" "mp_allocated cs' = mp_allocated cs"
  shows "call_step\<^sup>*\<^sup>* (mt_view \<lparr>mt_chan = st, mt_callers = cs\<rparr>) (mt_view \<lparr>mt_chan = st', mt_callers = cs'\<rparr>) \<and>
    mp_wf st'"
  using mp_view_drained[OF assms(2), of "mp_allocated cs"] mp_drained_wf[OF assms(2)] assms(3)
  by (simp add: mt_view_def r_into_rtranclp)

lemma mp_own_step_refines:
  assumes "mt_ok t" "mp_own_step A E D t t'"
  shows "call_step\<^sup>*\<^sup>* (mt_view t) (mt_view t') \<and> mp_wf (mt_chan t')"
  using assms(2)
proof cases
  case (call_failed st a st' cs)
  have wf: "mp_wf st" using assms(1) call_failed by (simp add: mt_ok_def)
  from mp_prepare_cases[OF wf call_failed(4)] have "mp_drained st st'" by blast
  from mp_step_drained[OF assms(1)[unfolded call_failed(1)] this] show ?thesis unfolding call_failed(1,2) by simp
next
  case (insert st r cs)
  from mp_view_insert[OF assms(1)[unfolded insert(1)] insert(4)] show ?thesis
    unfolding insert(1,2) by (simp add: mt_view_def r_into_rtranclp)
next
  case (send_request st r cs)
  have "mp_wf (fst st, snd st)" using assms(1) send_request by (simp add: mt_ok_def)
  from mp_drained_send_request[OF this] have "mp_drained st
    (mp_send_request A (mr_request_id r) (mr_payload r) (fst st), snd st)" by simp
  from mp_step_drained[OF assms(1)[unfolded send_request(1)] this] show ?thesis
    unfolding send_request(1,2) by (simp add: mp_allocated_remove_other)
next
  case (notify st cs s m x)
  have "mp_wf st" using assms(1) notify by (simp add: mt_ok_def)
  from mp_step_drained[OF assms(1)[unfolded notify(1)] mp_drained_Notify[OF this]] show ?thesis
    unfolding notify(1,2) by simp
next
  case (send st ws st' cs)
  have "mp_wf st" using assms(1) send by (simp add: mt_ok_def)
  from mp_step_drained[OF assms(1)[unfolded send(1)] mp_drained_SendLoop_turn[OF this send(4)]] show ?thesis
    unfolding send(1,2) by simp
next
  case (timeout st cs)
  have "mp_wf st" using assms(1) timeout by (simp add: mt_ok_def)
  from mp_step_drained[OF assms(1)[unfolded timeout(1)] mp_drained_TimeoutLoop_turn[OF this]] show ?thesis
    unfolding timeout(1,2) by simp
next
  case (beat st ping st' cs)
  obtain ch where s: "st' = (ch, snd (NextRequestId (snd st)))" "mc_pending ch = mc_pending (fst st)"
    "mc_effects ch = mc_effects (fst st)"
    using beat(5) by (cases st) (auto simp: mp_SendHeartbeat_prepare_def split: if_splits prod.splits)
  from mp_view_spend[OF beat(4) s(2,3), of "mp_allocated cs"] s assms(1) show ?thesis
    unfolding beat(1,2) by (simp add: mt_view_def mt_ok_def mp_wf_def)
next
  case (beat_send st ping cs r st')
  have "mp_wf st" using assms(1) beat_send by (simp add: mt_ok_def)
  from mp_step_drained[OF assms(1)[unfolded beat_send(1)] mp_drained_beat_send[OF this beat_send(5)]] show ?thesis
    unfolding beat_send(1,2) by (simp add: mp_allocated_remove_other)
next
  case (beat_end st r st' cs)
  have "mp_wf st" using assms(1) beat_end by (simp add: mt_ok_def)
  from mp_step_drained[OF assms(1)[unfolded beat_end(1)] mp_drained_beat_end[OF this beat_end(4)]] show ?thesis
    unfolding beat_end(1,2) by simp
qed

lemma mp_step_refines:
  assumes "mt_ok t" "mp_step A E D t t'"
  shows "call_step\<^sup>*\<^sup>* (mt_view t) (mt_view t') \<and> mp_wf (mt_chan t')"
  using assms(2)
proof cases
  case own
  with mp_own_step_refines[OF assms(1)] show ?thesis by blast
next
  case (call st a r st' cs)
  have wf: "mp_wf st" using assms(1) call by (simp add: mt_ok_def)
  from mp_prepare_cases[OF wf call(5)] obtain ch w where p: "mp_drained st (ch, w)" "mr_request_id r = g_request_id w"
    "st' = (ch, snd (NextRequestId w))" by blast
  have left: "mp_ids_left (ch, w)" using call(4) p(1) by (auto simp: mp_ids_left_def mp_drained_def)
  note v = mp_view_allocate[OF left, of ch "mp_allocated cs"]
  from mp_view_drained[OF p(1), of "mp_allocated cs"] v p mp_drained_wf[OF p(1)] show ?thesis
    unfolding call(1,2) by (simp add: mt_view_def mp_wf_def)
next
  case (recv st cs ob)
  have "mp_wf st" using assms(1) recv by (simp add: mt_ok_def)
  from mp_step_drained[OF assms(1)[unfolded recv(1)] mp_drained_RecvLoop_turn[OF this]] show ?thesis
    unfolding recv(1,2) by simp
qed

interpretation msgpack_calls: call_protocol "mp_step A E D" mt_view mt_ok
  for A :: "'o msgpack_api" and E D
proof
  fix s s' :: "'o mp_threads"
  assume "mt_ok s" "mp_step A E D s s'"
  note r = mp_step_refines[OF this]
  then show "call_step\<^sup>*\<^sup>* (mt_view s) (mt_view s')" by blast
  from \<open>mt_ok s\<close> r cv_ok_steps[of "mt_view s" "mt_view s'"] show "mt_ok s'" by (simp add: mt_ok_def)
qed

end
