(* ===== verification/Msgpack_Effects.thy ===== *)
theory Msgpack_Effects
  imports Msgpack_Threads
begin

section \<open>The msgpack client: what its operations do to the connection\<close>

text \<open>
  What an operation of the client does to its connection and its frames, as one relation (\<open>mp_local\<close>) with a
  lemma per operation: no operation but the receive thread completes a call with a result, only the send
  thread writes, what is queued was built from known payloads, and the receive buffer is either untouched,
  with the descriptor, or emptied together with a shutdown of the connection.
\<close>

subsection \<open>Local operations\<close>

text \<open>The effect that gives a caller a result.\<close>

fun mp_success :: "'o mc_effect \<Rightarrow> (u64 \<times> 'o) option" where
  "mp_success (Mc_promise i (Inr r)) = Some (i, r)"
| "mp_success (Mc_callback i cb [] r) = Some (i, r)"
| "mp_success e = None"

fun mp_bytes_sent :: "'o mc_effect \<Rightarrow> string option" where
  "mp_bytes_sent (Mc_sent f s) = Some s"
| "mp_bytes_sent e = None"

fun is_shutdown :: "'o mc_effect \<Rightarrow> bool" where
  "is_shutdown (Mc_shutdown f) \<longleftrightarrow> True"
| "is_shutdown e \<longleftrightarrow> False"

definition mp_silent :: "'o mc_effect \<Rightarrow> bool" where
  "mp_silent e \<longleftrightarrow> mp_success e = None \<and> mp_bytes_sent e = None"

text \<open>What a call that ends without a result leaves behind.\<close>

definition mp_failing :: "'o mc_effect \<Rightarrow> bool" where
  "mp_failing e \<longleftrightarrow> mp_silent e \<and> \<not> is_shutdown e"

definition mp_queueable :: "(string \<Rightarrow> bool) \<Rightarrow> (string \<times> string) set" where
  "mp_queueable V = {(BuildHeader b, b) |b. V b}"

definition mp_local :: "(string \<Rightarrow> bool) \<Rightarrow> 'o mp_state \<Rightarrow> 'o mp_state \<Rightarrow> bool" where
  "mp_local V st st' \<longleftrightarrow> (\<exists>es. mc_effects (fst st') = mc_effects (fst st) @ es \<and> (\<forall>e\<in>set es. mp_silent e) \<and>
     set (mc_send_queue (fst st')) \<subseteq> set (mc_send_queue (fst st)) \<union> mp_queueable V \<and>
     (if \<exists>e\<in>set es. is_shutdown e then mc_recv_buffer (fst st') = []
      else mc_recv_buffer (fst st') = mc_recv_buffer (fst st) \<and>
        (mc_fd (fst st') = mc_fd (fst st) \<or> mc_fd (fst st) = -1)))"

lemma mp_local_trans:
  assumes "mp_local V a b" "mp_local V b c"
  shows "mp_local V a c"
proof -
  obtain xs where x: "mc_effects (fst b) = mc_effects (fst a) @ xs" "\<forall>e\<in>set xs. mp_silent e"
    "set (mc_send_queue (fst b)) \<subseteq> set (mc_send_queue (fst a)) \<union> mp_queueable V"
    "if \<exists>e\<in>set xs. is_shutdown e then mc_recv_buffer (fst b) = []
     else mc_recv_buffer (fst b) = mc_recv_buffer (fst a) \<and> (mc_fd (fst b) = mc_fd (fst a) \<or> mc_fd (fst a) = -1)"
    using assms(1) unfolding mp_local_def by blast
  obtain ys where y: "mc_effects (fst c) = mc_effects (fst b) @ ys" "\<forall>e\<in>set ys. mp_silent e"
    "set (mc_send_queue (fst c)) \<subseteq> set (mc_send_queue (fst b)) \<union> mp_queueable V"
    "if \<exists>e\<in>set ys. is_shutdown e then mc_recv_buffer (fst c) = []
     else mc_recv_buffer (fst c) = mc_recv_buffer (fst b) \<and> (mc_fd (fst c) = mc_fd (fst b) \<or> mc_fd (fst b) = -1)"
    using assms(2) unfolding mp_local_def by blast
  show ?thesis
    unfolding mp_local_def
    by (intro exI[of _ "xs @ ys"] conjI) (use x y in \<open>auto split: if_splits\<close>)
qed

text \<open>Operations that emit nothing, and operations that emit something silent.\<close>

lemma mp_local_emits:
  assumes "mc_effects (fst st') = mc_effects (fst st) @ es" "\<forall>e\<in>set es. mp_failing e"
    "set (mc_send_queue (fst st')) \<subseteq> set (mc_send_queue (fst st)) \<union> mp_queueable V"
    "mc_recv_buffer (fst st') = mc_recv_buffer (fst st)" "mc_fd (fst st') = mc_fd (fst st) \<or> mc_fd (fst st) = -1"
  shows "mp_local V st st'"
  unfolding mp_local_def by (intro exI[of _ es]) (use assms in \<open>auto simp: mp_failing_def\<close>)

lemma mp_local_quiet:
  assumes "mc_effects (fst st') = mc_effects (fst st)" "set (mc_send_queue (fst st')) \<subseteq> set (mc_send_queue (fst st)) \<union> mp_queueable V"
    "mc_recv_buffer (fst st') = mc_recv_buffer (fst st)" "mc_fd (fst st') = mc_fd (fst st) \<or> mc_fd (fst st) = -1"
  shows "mp_local V st st'"
  using mp_local_emits[of st' st "[]"] assms by simp

lemma mp_local_refl: "mp_local V st st"
  by (rule mp_local_quiet) simp_all

lemma mp_local_drops:
  assumes "mc_effects (fst st') = mc_effects (fst st) @ es" "\<forall>e\<in>set es. mp_silent e" "\<exists>e\<in>set es. is_shutdown e"
    "set (mc_send_queue (fst st')) \<subseteq> set (mc_send_queue (fst st))" "mc_recv_buffer (fst st') = []"
  shows "mp_local V st st'"
  unfolding mp_local_def by (intro exI[of _ es]) (use assms in auto)

lemma mp_silent_simps [simp]:
  "mp_silent (Mc_dropped i)" "mp_silent (Mc_rejected c e)" "mp_silent (Mc_shutdown f)" "\<not> mp_silent (Mc_sent f s)"
  "mp_silent (Mc_promise i (Inl e))" "e \<noteq> [] \<Longrightarrow> mp_silent (Mc_callback i cb e r)"
  by (simp_all add: mp_silent_def) (cases e; simp)

lemma mp_failing_rejected [simp]: "mp_failing (Mc_rejected c e)"
  by (simp add: mp_failing_def)

subsection \<open>Completing calls with an error\<close>

lemma mp_complete_fields [simp]:
  "mc_send_queue (mp_CompletePending A i p err r ch) = mc_send_queue ch"
  "mc_recv_buffer (mp_CompletePending A i p err r ch) = mc_recv_buffer ch"
  "mc_fd (mp_CompletePending A i p err r ch) = mc_fd ch"
  by (simp_all add: mp_CompletePending_def mc_emit_def)

lemma mp_CompletePending_emits:
  "\<exists>e. mc_effects (mp_CompletePending A i p err r ch) = mc_effects ch @ [e] \<and> \<not> is_shutdown e \<and> mp_bytes_sent e = None \<and>
     (err \<noteq> [] \<longrightarrow> mp_failing e) \<and> (\<forall>j x. mp_success e = Some (j, x) \<longrightarrow> err = [] \<and> j = i \<and> x = r)"
  by (cases err) (auto simp: mp_CompletePending_def mc_emit_def mp_failing_def split: option.splits)

lemma mp_complete_all_fields [simp]:
  "mc_send_queue (mp_complete_all A ps reason ch) = mc_send_queue ch"
  "mc_recv_buffer (mp_complete_all A ps reason ch) = mc_recv_buffer ch" "mc_fd (mp_complete_all A ps reason ch) = mc_fd ch"
  by (induction ps arbitrary: ch) (simp_all add: mp_complete_all_def)

lemma mp_complete_all_effects:
  assumes "reason \<noteq> []"
  shows "\<exists>es. mc_effects (mp_complete_all A ps reason ch) = mc_effects ch @ es \<and> (\<forall>e\<in>set es. mp_failing e)"
proof (induction ps arbitrary: ch)
  case Nil
  show ?case by (simp add: mp_complete_all_def)
next
  case (Cons e ps)
  let ?ch = "mp_CompletePending A (fst e) (snd e) reason (mp_nil A) ch"
  obtain x where "mc_effects ?ch = mc_effects ch @ [x]" "mp_failing x"
    using mp_CompletePending_emits[of A "fst e" "snd e" reason "mp_nil A" ch] assms by blast
  with Cons.IH[of ?ch] show ?case by (auto simp: mp_complete_all_def)
qed

lemma mp_complete_all_local:
  "reason \<noteq> [] \<Longrightarrow> mp_local V (ch, w) (mp_complete_all A ps reason ch, w')"
  using mp_complete_all_effects[of reason A ps ch] by (auto intro: mp_local_emits)

lemma mp_local_FailAllPending:
  "reason \<noteq> [] \<Longrightarrow> mp_local V (ch, w) (FailAllPending A reason ch, w)"
  unfolding FailAllPending_def
  by (rule mp_local_trans[OF _ mp_complete_all_local]) (simp_all add: mp_local_quiet)

lemma mp_local_TimeoutLoop_turn: "mp_local V st (mp_TimeoutLoop_turn A E st)"
proof -
  obtain ch w where st: "st = (ch, w)" by (cases st)
  obtain now w1 where k: "clock_now E w = (now, w1)" by (rule prod.exhaust)
  have "mp_local V st (ch\<lparr>mc_pending := filter (\<lambda>e. \<not> mp_expired now (snd e)) (mc_pending ch)\<rparr>, w1)"
    by (rule mp_local_quiet) (simp_all add: st)
  from mp_local_trans[OF this mp_complete_all_local] k show ?thesis by (simp add: mp_TimeoutLoop_turn_def st)
qed

lemma mp_local_take_and_complete:
  assumes "err \<noteq> []"
  shows "mp_local V (ch, w) (mp_take_and_complete A rid err r ch, w)"
proof (cases "map_of (mc_pending ch) rid")
  case None
  then show ?thesis by (simp add: mp_take_and_complete_def mp_local_refl)
next
  case (Some p)
  let ?ch = "ch\<lparr>mc_pending := AList.delete rid (mc_pending ch)\<rparr>"
  obtain x where "mc_effects (mp_CompletePending A rid p err r ?ch) = mc_effects ch @ [x]" "mp_failing x"
    using mp_CompletePending_emits[of A rid p err r ?ch] assms by auto
  with Some show ?thesis
    by (intro mp_local_emits[of _ _ "[x]"]) (simp_all add: mp_take_and_complete_def)
qed

subsection \<open>Leaving a connection\<close>

lemma mp_FailAll_fields [simp]:
  "mc_send_queue (FailAllPending A reason ch) = mc_send_queue ch"
  "mc_recv_buffer (FailAllPending A reason ch) = mc_recv_buffer ch" "mc_fd (FailAllPending A reason ch) = mc_fd ch"
  by (simp_all add: FailAllPending_def)

lemma mp_reset_heartbeat_fields [simp]:
  "mc_send_queue (mp_reset_heartbeat ch) = mc_send_queue ch" "mc_recv_buffer (mp_reset_heartbeat ch) = mc_recv_buffer ch"
  "mc_fd (mp_reset_heartbeat ch) = mc_fd ch" "mc_effects (mp_reset_heartbeat ch) = mc_effects ch"
  by (simp_all add: mp_reset_heartbeat_def)

lemma mp_FailAll_effects:
  assumes "reason \<noteq> []"
  shows "\<exists>es. mc_effects (FailAllPending A reason ch) = mc_effects ch @ es \<and> (\<forall>e\<in>set es. mp_failing e)"
  using mp_complete_all_effects[OF assms, of A "mc_pending ch" "ch\<lparr>mc_pending := []\<rparr>"] by (simp add: FailAllPending_def)

text \<open>The two ways out of the receive loop.\<close>

lemma mp_recv_exit_effects:
  assumes "mp_recv_exit A b (ch, w) = (ch', w')"
  shows "\<exists>es. mc_effects ch' = mc_effects ch @ es \<and> (\<forall>e\<in>set es. mp_failing e)"
    "mc_fd ch' = (if b then -1 else mc_fd ch)" "mc_recv_buffer ch' = (if b then [] else mc_recv_buffer ch)"
    "mc_send_queue ch' = (if b then [] else mc_send_queue ch)"
proof -
  let ?ch1 = "(if b then ch\<lparr>mc_fd := -1, mc_recv_buffer := [], mc_send_queue := []\<rparr> else ch)\<lparr>mc_running := False\<rparr>"
  have ch': "ch' = (mp_reset_heartbeat (FailAllPending A ''connection closed'' ?ch1))\<lparr>mc_alive := False\<rparr>"
    using assms by (auto simp: mp_recv_exit_def mp_CloseConnectionLocked_def)
  with mp_FailAll_effects[of "''connection closed''" A ?ch1] show
    "\<exists>es. mc_effects ch' = mc_effects ch @ es \<and> (\<forall>e\<in>set es. mp_failing e)"
    by (cases b) simp_all
  show "mc_fd ch' = (if b then -1 else mc_fd ch)" "mc_recv_buffer ch' = (if b then [] else mc_recv_buffer ch)"
    "mc_send_queue ch' = (if b then [] else mc_send_queue ch)"
    by (simp_all add: ch')
qed

lemma mp_StopRecvThread_effects:
  assumes "mp_StopRecvThread A (ch, w) = (ch', w')"
  shows "\<exists>es. mc_effects ch' = mc_effects ch @ (if mc_fd ch \<noteq> -1 then [Mc_shutdown (mc_fd ch)] else []) @ es \<and>
      (\<forall>e\<in>set es. mp_failing e)"
    "mc_fd ch' = mc_fd ch" "mc_send_queue ch' = mc_send_queue ch" "mc_recv_buffer ch' = mc_recv_buffer ch"
proof -
  define ch2 where "ch2 = (if mc_fd ch \<noteq> -1 then mc_emit [Mc_shutdown (mc_fd ch)] (ch\<lparr>mc_running := False\<rparr>)
    else ch\<lparr>mc_running := False\<rparr>)"
  have f: "mc_fd ch2 = mc_fd ch" "mc_send_queue ch2 = mc_send_queue ch" "mc_recv_buffer ch2 = mc_recv_buffer ch"
    "mc_effects ch2 = mc_effects ch @ (if mc_fd ch \<noteq> -1 then [Mc_shutdown (mc_fd ch)] else [])"
    by (simp_all add: ch2_def mc_emit_def)
  obtain ch3 w3 where e: "mp_recv_exit A False (ch2, w) = (ch3, w3)" by (rule prod.exhaust)
  have eq: "mp_StopRecvThread A (ch, w) = (if \<not> mc_joinable ch2 then (ch2, w)
      else (case (if mc_alive ch2 then mp_recv_exit A False (ch2, w) else (ch2, w)) of
              (c, v) \<Rightarrow> (c\<lparr>mc_joinable := False\<rparr>, v)))"
    by (simp add: mp_StopRecvThread_def Let_def ch2_def)
  have "ch' = (if \<not> mc_joinable ch2 then ch2 else if mc_alive ch2 then ch3\<lparr>mc_joinable := False\<rparr>
      else ch2\<lparr>mc_joinable := False\<rparr>)"
    using eq[unfolded assms e] by (cases "mc_joinable ch2"; cases "mc_alive ch2"; simp)
  then consider "ch' = ch2" | "ch' = ch2\<lparr>mc_joinable := False\<rparr>" | "ch' = ch3\<lparr>mc_joinable := False\<rparr>"
    by metis
  note r = this
  obtain es where es: "mc_effects ch3 = mc_effects ch2 @ es" "\<forall>e\<in>set es. mp_failing e"
    using mp_recv_exit_effects(1)[OF e] by blast
  show "\<exists>es. mc_effects ch' = mc_effects ch @ (if mc_fd ch \<noteq> -1 then [Mc_shutdown (mc_fd ch)] else []) @ es \<and>
      (\<forall>e\<in>set es. mp_failing e)"
    by (rule r) (use f(4) es in \<open>auto intro: exI[of _ "[]"]\<close>)
  show "mc_fd ch' = mc_fd ch" "mc_send_queue ch' = mc_send_queue ch" "mc_recv_buffer ch' = mc_recv_buffer ch"
    by (rule r; use mp_recv_exit_effects(2-4)[OF e] f in simp)+
qed

lemma mp_ReleaseConnection_fields:
  assumes "mp_ReleaseConnection E h (ch, w) = (ch', w')"
  shows "mc_effects ch' = mc_effects ch" "mc_send_queue ch' = mc_send_queue ch"
    "mc_fd ch \<noteq> -1 \<Longrightarrow> mc_recv_buffer ch' = []" "mc_fd ch = -1 \<Longrightarrow> ch' = ch"
  using assms by (auto simp: mp_ReleaseConnection_def Let_def split: if_splits prod.splits)

text \<open>Stopping the receive thread and giving the connection back.\<close>

lemma mp_local_leave: "mp_local V st (mp_ReleaseConnection E h (mp_StopRecvThread A st))"
proof -
  obtain ch w where st: "st = (ch, w)" by (cases st)
  obtain ch1 w1 where s: "mp_StopRecvThread A (ch, w) = (ch1, w1)" by (rule prod.exhaust)
  obtain ch2 w2 where r: "mp_ReleaseConnection E h (ch1, w1) = (ch2, w2)" by (rule prod.exhaust)
  note s' = mp_StopRecvThread_effects[OF s] and r' = mp_ReleaseConnection_fields[OF r]
  from s'(1) obtain es where es: "mc_effects ch1 = mc_effects ch @ (if mc_fd ch \<noteq> -1 then [Mc_shutdown (mc_fd ch)] else []) @ es"
    "\<forall>e\<in>set es. mp_failing e" by blast
  show ?thesis
  proof (cases "mc_fd ch = -1")
    case True
    with s'(2) r'(4) have ch2: "ch2 = ch1" by simp
    with True s' es show ?thesis
      unfolding st s r by (intro mp_local_emits[of _ _ es]) simp_all
  next
    case False
    with s' r' es show ?thesis
      unfolding st s r by (intro mp_local_drops[of _ _ "Mc_shutdown (mc_fd ch) # es"]) (simp_all add: mp_failing_def)
  qed
qed

lemma mp_local_HandleHeartbeatFailure:
  assumes "reason \<noteq> []"
  shows "mp_local V st (mp_HandleHeartbeatFailure A E reason st)"
proof -
  obtain ch w where r: "mp_ReleaseConnection E False (mp_StopRecvThread A st) = (ch, w)" by (rule prod.exhaust)
  have l: "mp_local V st (ch, w)" using mp_local_leave[of V st E False A] r by simp
  have "mp_local V (ch, w) (ch\<lparr>mc_send_queue := []\<rparr>, w)" by (rule mp_local_quiet) simp_all
  note l2 = mp_local_trans[OF mp_local_trans[OF l this] mp_local_FailAllPending[OF assms]]
  let ?ch = "FailAllPending A reason (ch\<lparr>mc_send_queue := []\<rparr>)"
  have "mp_local V (?ch, w) (mp_reset_heartbeat ?ch, w)" by (rule mp_local_quiet) simp_all
  from mp_local_trans[OF l2 this] r show ?thesis by (simp add: mp_HandleHeartbeatFailure_def)
qed

text \<open>A failure on an open connection shuts it down.\<close>

lemma mp_HandleHeartbeatFailure_shuts:
  assumes "mc_fd ch \<noteq> -1" "reason \<noteq> []"
  shows "\<exists>es. mc_effects (fst (mp_HandleHeartbeatFailure A E reason (ch, w))) = mc_effects ch @ Mc_shutdown (mc_fd ch) # es"
proof -
  obtain ch1 w1 where s: "mp_StopRecvThread A (ch, w) = (ch1, w1)" by (rule prod.exhaust)
  obtain ch2 w2 where r: "mp_ReleaseConnection E False (ch1, w1) = (ch2, w2)" by (rule prod.exhaust)
  from mp_StopRecvThread_effects(1)[OF s] mp_ReleaseConnection_fields(1)[OF r]
    mp_FailAll_effects[OF assms(2), of A "ch2\<lparr>mc_send_queue := []\<rparr>"] assms(1) s r
  show ?thesis by (auto simp: mp_HandleHeartbeatFailure_def)
qed

subsection \<open>Connecting\<close>

lemma mp_local_healthy: "mp_healthy E st = (h, st') \<Longrightarrow> mp_local V st st' \<and> fst st' = fst st"
  by (auto simp: mp_healthy_def mp_local_refl intro!: mp_local_quiet split: prod.splits)

lemma mp_local_drop: "mp_local V st (mp_drop_connection A E st)"
proof -
  obtain h st2 where h: "mp_healthy E st = (h, st2)" by (rule prod.exhaust)
  from mp_local_trans[OF conjunct1[OF mp_local_healthy[OF h]] mp_local_leave] h show ?thesis
    by (simp add: mp_drop_connection_def mp_local_refl)
qed

lemma mp_drop_disconnects: "mc_fd (fst (mp_drop_connection (A :: 'a msgpack_api) E st)) = -1"
proof -
  obtain h st2 where h: "mp_healthy E st = (h, st2)" by (rule prod.exhaust)
  have "mc_fd (fst (mp_ReleaseConnection E h st')) = -1" for st' :: "'a mp_state"
    by (cases st') (auto simp: mp_ReleaseConnection_def Let_def split: prod.splits)
  with h show ?thesis by (simp add: mp_drop_connection_def)
qed

lemma mp_local_open:
  assumes "mp_open E cand st = (r, st')" "mc_fd (fst st) = -1"
  shows "mp_local V st st'"
proof -
  have start: "mc_effects (mp_StartRecvThread c) = mc_effects c" "mc_send_queue (mp_StartRecvThread c) = mc_send_queue c"
    "mc_recv_buffer (mp_StartRecvThread c) = mc_recv_buffer c" for c :: "'a mp_channel"
    by (simp_all add: mp_StartRecvThread_def)
  show ?thesis
    using assms by (intro mp_local_quiet) (auto simp: mp_open_def Let_def start split: prod.splits sum.splits)
qed

lemma mp_local_connect_to:
  assumes "mp_connect_to A E cand st = (r, st')"
  shows "mp_local V st st'"
proof -
  let ?first = "if mc_fd (fst st) \<noteq> -1 \<and> host cand = mc_ip (fst st) \<and> port cand = mc_port (fst st)
    then mp_healthy E st else (False, st)"
  obtain b st1 where f: "?first = (b, st1)" by (cases ?first)
  have l: "mp_local V st st1" using f mp_local_healthy[of E st b st1 V] by (auto simp: mp_local_refl split: if_splits)
  show ?thesis
  proof (cases b)
    case True
    with assms f l show ?thesis by (simp add: mp_connect_to_def)
  next
    case False
    with assms f have "mp_open E cand (mp_drop_connection A E st1) = (r, st')" by (simp add: mp_connect_to_def)
    from mp_local_trans[OF mp_local_trans[OF l mp_local_drop] mp_local_open[OF this mp_drop_disconnects]]
    show ?thesis .
  qed
qed

lemma mp_local_failover:
  "mp_failover A E now eps idxs best bi st = (r, st') \<Longrightarrow> mp_local V st st'"
proof (induction idxs arbitrary: best bi st)
  case Nil
  then show ?case by (simp add: mp_local_refl)
next
  case (Cons i idxs)
  obtain r1 st1 where c: "mp_connect_to A E (eps ! i) st = (r1, st1)" by (rule prod.exhaust)
  note l = mp_local_connect_to[OF c, of V]
  have "mp_local V st st'" if "mp_failover A E now eps idxs best bi st1 = (r, st')"
    using mp_local_trans[OF l Cons.IH[OF that]] .
  with Cons.prems c l Cons.IH show ?case
    by (auto split: prod.splits bool.splits option.splits sum.splits if_splits)
qed

lemma mp_local_EnsureConnection:
  assumes "mp_EnsureConnection A E D svc m st = (r, st')"
  shows "mp_local V st st'"
proof -
  obtain ch w where st: "st = (ch, w)" by (cases st)
  obtain eps w1 where e: "discover E D svc m w = (eps, w1)" by (rule prod.exhaust)
  show ?thesis
  proof (cases "eps = []")
    case True
    with assms e show ?thesis by (auto simp: mp_EnsureConnection_def st intro!: mp_local_quiet)
  next
    case False
    let ?sel = "Select m (UpdateNodes eps \<lparr>rr_nodes = mc_lb_nodes ch, s_global_index = w_lb_index w1\<rparr>)"
    obtain sel lb where s: "?sel = (sel, lb)" by (rule prod.exhaust)
    let ?i = "find_start_index eps (case sel of None \<Rightarrow> hd eps | Some e \<Rightarrow> e)"
    obtain now w2 where k: "clock_now E (w1\<lparr>w_lb_index := s_global_index lb\<rparr>) = (now, w2)" by (rule prod.exhaust)
    obtain r3 st3 where f: "mp_failover A E now eps (rotation ?i (length eps)) None ?i
        (ch\<lparr>mc_lb_nodes := rr_nodes lb\<rparr>, w2) = (r3, st3)" by (rule prod.exhaust)
    have "mp_local V st (ch\<lparr>mc_lb_nodes := rr_nodes lb\<rparr>, w2)" by (rule mp_local_quiet) (simp_all add: st)
    note l = mp_local_trans[OF this mp_local_failover[OF f]]
    have "mp_local V st st'" if "mp_connect_to A E (eps ! idx) st3 = (r, st')" for idx
      by (rule mp_local_trans[OF l mp_local_connect_to[OF that]])
    with assms e False s k f l show ?thesis
      by (auto simp: mp_EnsureConnection_def st Let_def split: sum.splits)
  qed
qed

subsection \<open>Sending\<close>

lemma mp_local_SendFrame:
  "V payload \<Longrightarrow> mp_local V (ch, w) (snd (SendFrame payload ch), w)"
  by (rule mp_local_quiet) (auto simp: SendFrame_def mp_EnqueueSend_def mp_queueable_def)

lemma mp_local_send_request:
  "V payload \<Longrightarrow> mp_local V (ch, w) (mp_send_request A rid payload ch, w)"
  using mp_local_SendFrame[of V payload ch w] mp_local_take_and_complete[of "''send failed''" V ch w A rid "mp_nil A"]
  by (simp add: mp_send_request_def SendFrame_def split: if_splits)

lemma mp_local_start_request: "mp_local V st (mp_start_request E rid timeout cb st)"
  by (cases st; rule mp_local_quiet)
    (auto simp: mp_start_request_def mp_insert_request_def split: prod.splits)

definition mp_oneway_payload :: "'o msgpack_api \<Rightarrow> string \<Rightarrow> string \<Rightarrow> 'o \<Rightarrow> string" where
  "mp_oneway_payload A s m x = mp_pack A (new_MsgpackHeader\<lparr>mh_msg_type := Mp_Oneway, mh_timeout_ms := 0,
     mh_service_name := s, mh_method_name := m\<rparr>) x"

definition mp_ping_payload :: "'o msgpack_api \<Rightarrow> u64 \<Rightarrow> string" where
  "mp_ping_payload A rid = mp_pack A (new_MsgpackHeader\<lparr>mh_msg_type := Mp_Ping, mh_request_id := rid\<rparr>) (mp_nil A)"

lemma mp_local_Notify:
  assumes "V (mp_oneway_payload A s m x)"
  shows "mp_local V st (Notify A E D s m x st)"
proof -
  obtain r ch w where e: "mp_EnsureConnection A E D s m st = (r, (ch, w))" by (metis prod.exhaust)
  note l = mp_local_EnsureConnection[OF e, of V]
  from l mp_local_trans[OF l mp_local_SendFrame[of V, OF assms]] e show ?thesis
    by (cases r) (simp_all add: Notify_def mp_oneway_payload_def)
qed

lemma mp_send_failed_reason:
  "mp_send_segments ws h b in_body offset out = (Send_failed reason, out') \<Longrightarrow> reason \<noteq> []"
  by (induction ws h b in_body offset out rule: mp_send_segments.induct)
    (auto simp: Let_def split: if_splits writev_result.splits option.splits prod.splits)

text \<open>What a turn of the send thread can do: write a whole frame, or lose the connection. When there is none
  the turn is local.\<close>

definition mp_broken :: "'o mp_state \<Rightarrow> 'o mp_state \<Rightarrow> bool" where
  "mp_broken st st' \<longleftrightarrow> (\<exists>es. mc_effects (fst st') = mc_effects (fst st) @ es \<and> (\<forall>e\<in>set es. mp_success e = None) \<and>
     (\<exists>e\<in>set es. is_shutdown e) \<and> set (mc_send_queue (fst st')) \<subseteq> set (mc_send_queue (fst st)) \<and>
     mc_recv_buffer (fst st') = [])"

lemma mp_failure_breaks:
  assumes "mc_fd ch \<noteq> -1" "reason \<noteq> []" "set (mc_send_queue ch) \<subseteq> set (mc_send_queue (fst st))"
    "mc_effects ch = mc_effects (fst st) @ xs" "\<forall>e\<in>set xs. mp_success e = None"
  shows "mp_broken st (mp_HandleHeartbeatFailure A E reason (ch, w))"
proof -
  let ?st' = "mp_HandleHeartbeatFailure A E reason (ch, w)"
  obtain es where l: "mc_effects (fst ?st') = mc_effects ch @ es" "\<forall>e\<in>set es. mp_silent e"
    "set (mc_send_queue (fst ?st')) \<subseteq> set (mc_send_queue ch)"
    "(\<exists>e\<in>set es. is_shutdown e) \<longrightarrow> mc_recv_buffer (fst ?st') = []"
    using mp_local_HandleHeartbeatFailure[OF assms(2), of "\<lambda>_. False" "(ch, w)" A E]
    by (auto simp: mp_local_def mp_queueable_def)
  from mp_HandleHeartbeatFailure_shuts[OF assms(1,2), of A E w] l(1) have "Mc_shutdown (mc_fd ch) \<in> set es"
    by auto
  then have s: "\<exists>e\<in>set es. is_shutdown e" by force
  with l assms(3-5) show ?thesis
    unfolding mp_broken_def by (intro exI[of _ "xs @ es"]) (auto simp: mp_silent_def)
qed

lemma mp_SendLoop_turn_cases:
  assumes "mp_SendLoop_turn A E ws (ch, w) = Some st'"
  obtains (sent) h b q where "mc_send_queue ch = (h, b) # q" "mc_fd ch \<noteq> -1"
      "st' = (mc_emit [Mc_sent (mc_fd ch) (h @ b)] (ch\<lparr>mc_send_queue := q\<rparr>), w)"
  | (broken) "mp_broken (ch, w) st'"
  | (unconnected) "mp_local V (ch, w) st'"
proof -
  obtain h b q where q: "mc_send_queue ch = (h, b) # q"
    using assms by (auto simp: mp_SendLoop_turn_def split: list.splits)
  let ?ch1 = "ch\<lparr>mc_send_queue := q\<rparr>"
  show ?thesis
  proof (cases "mc_fd ch = -1")
    case True
    have "mp_local V (ch, w) (?ch1, w)" by (rule mp_local_quiet) (auto simp: q)
    from mp_local_trans[OF this mp_local_HandleHeartbeatFailure] True assms q show ?thesis
      by (intro unconnected) (auto simp: mp_SendLoop_turn_def Let_def)
  next
    case False
    obtain r out where o: "mp_send_segments ws h b False 0 [] = (r, out)" by (rule prod.exhaust)
    show ?thesis
    proof (cases r)
      case Sent
      have "out = h @ b" using mp_send_segments_prefix[OF _ o] Sent by (simp add: mp_left_def)
      with Sent False assms q o show ?thesis by (intro sent[OF q]) (simp_all add: mp_SendLoop_turn_def Let_def)
    next
      case Send_blocked
      with False assms q o show ?thesis by (simp add: mp_SendLoop_turn_def Let_def)
    next
      case (Send_failed reason)
      let ?ch2 = "mc_emit [Mc_sent (mc_fd ch) out] ?ch1"
      have "reason \<noteq> []" using mp_send_failed_reason[OF o[unfolded Send_failed]] .
      then have "mp_broken (ch, w) (mp_HandleHeartbeatFailure A E reason (?ch2, w))"
        using False q by (intro mp_failure_breaks[where xs = "[Mc_sent (mc_fd ch) out]"]) (auto simp: mc_emit_def)
      with False assms q o Send_failed show ?thesis
        by (intro broken) (simp add: mp_SendLoop_turn_def Let_def)
    qed
  qed
qed

subsection \<open>One step\<close>

fun phase_payload :: "mp_phase \<Rightarrow> string" where
  "phase_payload (Mp_Prepared r) = mr_payload r"
| "phase_payload (Mp_Inserted r) = mr_payload r"
| "phase_payload (Mp_Beating ping) = ping"

definition mp_phases_ok :: "(string \<Rightarrow> bool) \<Rightarrow> mp_phase list \<Rightarrow> bool" where
  "mp_phases_ok V cs \<longleftrightarrow> (\<forall>p\<in>set cs. V (phase_payload p))"

lemma mp_phases_ok_simps [simp]:
  "mp_phases_ok V []" "mp_phases_ok V (p # cs) \<longleftrightarrow> V (phase_payload p) \<and> mp_phases_ok V cs"
  by (auto simp: mp_phases_ok_def)

lemma mp_phases_ok_remove1 [simp]: "mp_phases_ok V cs \<Longrightarrow> mp_phases_ok V (remove1 p cs)"
  using set_remove1_subset[of p cs] by (auto simp: mp_phases_ok_def)

lemma mp_phases_ok_mem: "mp_phases_ok V cs \<Longrightarrow> p \<in> set cs \<Longrightarrow> V (phase_payload p)"
  by (simp add: mp_phases_ok_def)

lemma mp_local_reject: "mp_local V (ch, w) (mp_reject cb err ch, w)"
proof (cases cb)
  case None
  then show ?thesis
    by (intro mp_local_emits) (auto simp: mp_reject_def mc_emit_def)
next
  case (Some c)
  then show ?thesis
    by (cases c) (auto simp: mp_reject_def mc_emit_def intro: mp_local_emits mp_local_quiet)
qed

lemma mp_local_heartbeat_result: "mp_local V st (mp_HeartbeatLoop_result A E r st)"
proof -
  obtain ch w where st: "st = (ch, w)" by (cases st)
  let ?missed = "mc_missed_heartbeat_count ch + 1"
  have q: "mp_local V (c, v) (c\<lparr>mc_missed_heartbeat_count := k\<rparr>, v)" for c :: "'a mp_channel" and v k
    by (rule mp_local_quiet) simp_all
  have fail: "mp_local V s (c\<lparr>mc_missed_heartbeat_count := 0\<rparr>, v)"
    if "mp_HandleHeartbeatFailure A E reason s = (c, v)" "reason \<noteq> []" for s c v and reason
    using mp_local_trans[OF mp_local_HandleHeartbeatFailure[OF that(2), of V s A E]] q that(1) by metis
  show ?thesis
  proof (cases r)
    case kSuccess
    then show ?thesis
      by (intro mp_local_quiet) (auto simp: st mp_HeartbeatLoop_result_def split: prod.splits)
  next
    case kTimeout
    with mp_local_trans[OF q[of ch w ?missed] fail] q[of ch w ?missed] show ?thesis
      by (auto simp: st mp_HeartbeatLoop_result_def Let_def split: prod.splits)
  next
    case kFatal
    with fail show ?thesis by (auto simp: st mp_HeartbeatLoop_result_def split: prod.splits)
  qed
qed

text \<open>A call that gets a connection is prepared: its request id is new and its payload is built from it.\<close>

definition mp_call_payload :: "'o msgpack_api \<Rightarrow> u64 \<Rightarrow> 'o mp_call_args \<Rightarrow> string" where
  "mp_call_payload A i a = mp_pack A (mp_request_header i (if mp_timeout_ms a < 0 then 0 else mp_timeout_ms a)
     (mp_service a) (mp_method a)) (mp_args a)"

lemma mp_prepare_call_local:
  assumes "mp_prepare_call A E D a st = (p, st')"
  shows "mp_local V st st'" "p = Some r \<Longrightarrow> mr_payload r = mp_call_payload A (mr_request_id r) a"
proof -
  obtain e ch w where en: "mp_EnsureConnection A E D (mp_service a) (mp_method a) st = (e, (ch, w))"
    by (metis prod.exhaust)
  note l = mp_local_EnsureConnection[OF en, of V]
  have next_id: "mp_local V (ch, w) (ch, w')" for w' by (rule mp_local_quiet) simp_all
  from assms en l mp_local_trans[OF l mp_local_reject] mp_local_trans[OF l next_id] show "mp_local V st st'"
    by (cases e) (auto simp: mp_prepare_call_def Let_def split: prod.splits)
  from assms en show "p = Some r \<Longrightarrow> mr_payload r = mp_call_payload A (mr_request_id r) a"
    by (cases e) (auto simp: mp_prepare_call_def mp_call_payload_def Let_def split: prod.splits)
qed

lemma mp_own_step_local:
  assumes "mp_own_step A E D t t'" "mp_phases_ok V (mt_callers t)" "\<And>i. V (mp_ping_payload A i)"
    "\<And>s m x. V (mp_oneway_payload A s m x)"
  shows "mp_phases_ok V (mt_callers t') \<and>
    (mp_local V (mt_chan t) (mt_chan t') \<or> (\<exists>ws. mp_SendLoop_turn A E ws (mt_chan t) = Some (mt_chan t')))"
  using assms(1)
proof cases
  case (call_failed st a st' cs)
  with mp_prepare_call_local(1)[OF call_failed(4)] assms(2) show ?thesis by simp
next
  case (insert st r cs)
  with mp_phases_ok_mem[OF assms(2), of "Mp_Prepared r"] assms(2) show ?thesis by (simp add: mp_local_start_request)
next
  case (send_request st r cs)
  with mp_phases_ok_mem[OF assms(2), of "Mp_Inserted r"] assms(2)
    mp_local_send_request[of V "mr_payload r" "fst st" "snd st" A "mr_request_id r"] show ?thesis by simp
next
  case (notify st cs s m x)
  with mp_local_Notify[of V, OF assms(4)] assms(2) show ?thesis by simp
next
  case (send st ws st' cs)
  with assms(2) show ?thesis by auto
next
  case (timeout st cs)
  with assms(2) show ?thesis by (simp add: mp_local_TimeoutLoop_turn)
next
  case (beat st ping st' cs)
  then have "V ping" "mp_local V st st'"
    using assms(3) by (cases st; auto simp: mp_SendHeartbeat_prepare_def mp_ping_payload_def mp_local_quiet
        split: if_splits prod.splits)+
  with beat assms(2) show ?thesis by simp
next
  case (beat_send st ping cs r st')
  obtain ch w where s: "st = (ch, w)" by (cases st)
  have "V ping" using mp_phases_ok_mem[OF assms(2), of "Mp_Beating ping"] beat_send by simp
  then have "mp_local V st st'"
    using beat_send(5) mp_local_SendFrame[of V ping ch w]
    by (auto simp: s mp_SendHeartbeat_send_def SendFrame_def intro!: mp_local_quiet split: if_splits)
  from mp_local_trans[OF this mp_local_heartbeat_result] this beat_send assms(2) show ?thesis
    by (auto split: option.splits)
next
  case (beat_end st r st' cs)
  have "mp_local V st st'"
    using beat_end(4) by (intro mp_local_quiet) (cases st; auto simp: mp_SendHeartbeat_finish_def split: if_splits)+
  from mp_local_trans[OF this mp_local_heartbeat_result] beat_end assms(2) show ?thesis by simp
qed

end
