(* ===== verification/Msgpack_Provider.thy ===== *)
theory Msgpack_Provider
  imports Msgpack_Wire Provider
begin

section \<open>The msgpack server\<close>

text \<open>
  The model of \<open>Krpcmsgpack_provider.h\<close> and \<open>Krpcmsgpack_provider.cc\<close>. It has the shape of
  \<open>KrpcProvider\<close>; connections and times are as there. \<open>msgpack::unpack\<close> is called outside of the
  \<open>try\<close> block in \<open>OnMessage\<close>: a payload that is no msgpack document throws out of the
  callback, which ends the process (\<open>mp_crashed\<close>). \<open>result.get()\<close> of a handle without a value is nil.
\<close>

record 'o MsgpackTask =
  mt_conn :: nat
  mt_header :: MsgpackHeader
  mt_body :: 'o

datatype 'o mp_effect =
    Mp_sent_to nat string
  | Mp_force_closed nat
  | Mp_shut_down nat
  | Mp_called string string 'o

record MpConnectionState =
  mp_last_activity :: int
  mp_conn_alive :: bool

record 'o mp_provider =
  mp_dispatcher :: "'o handlers"
  mp_service_methods :: "(string \<times> string list) list"
  mp_connection_states :: "(nat \<times> MpConnectionState) list"
  mp_idle_close_threshold_ms :: int
  mp_task_queue :: "'o MsgpackTask list"
  mp_task_queue_capacity :: nat
  mp_worker_thread_count :: int
  mp_workers_started :: bool
  mp_stop_workers :: bool
  mp_waiting_task :: "'o MsgpackTask option"
  mp_crashed :: bool
  mp_metrics :: metrics_state
  mp_effects :: "'o mp_effect list"

definition mp_emit :: "'o mp_effect list \<Rightarrow> 'o mp_provider \<Rightarrow> 'o mp_provider" where
  "mp_emit es p = p\<lparr>mp_effects := mp_effects p @ es\<rparr>"

definition new_KrpcMsgpackProvider :: "metrics_state \<Rightarrow> 'o mp_provider" where
  "new_KrpcMsgpackProvider g = \<lparr>mp_dispatcher = [], mp_service_methods = [], mp_connection_states = [],
     mp_idle_close_threshold_ms = 0, mp_task_queue = [], mp_task_queue_capacity = 1024, mp_worker_thread_count = 0,
     mp_workers_started = False, mp_stop_workers = False, mp_waiting_task = None, mp_crashed = False,
     mp_metrics = g, mp_effects = []\<rparr>"

subsection \<open>Binding and registration\<close>

definition Bind ::
    "string \<Rightarrow> string \<Rightarrow> ('o \<Rightarrow> string option + 'o) \<Rightarrow> 'o mp_provider \<Rightarrow> 'o mp_provider" where
  "Bind service meth func p =
     (let methods = (case map_of (mp_service_methods p) service of None \<Rightarrow> [] | Some ms \<Rightarrow> ms)
      in p\<lparr>mp_dispatcher := bind_handler service meth func (mp_dispatcher p),
           mp_service_methods := AList.update service (methods @ [meth]) (mp_service_methods p)\<rparr>)"

text \<open>The registration loops of \<open>Run\<close>; \<open>snprintf\<close> cuts the address at 127 characters.\<close>

fun mp_register_methods ::
    "'z zk_api \<Rightarrow> string \<Rightarrow> int \<Rightarrow> string \<Rightarrow> string list \<Rightarrow> 'z \<Rightarrow> exit_code + 'z" where
  "mp_register_methods api ip p service_path [] z = Inr z"
| "mp_register_methods api ip p service_path (m # ms) z =
     (let mpath = service_path @ ''/'' @ m; addr = take 127 (instance_data ip p)
      in case Create api mpath None 0 False z of
           Inl e \<Rightarrow> Inl e
         | Inr z1 \<Rightarrow>
             (case Create api (mpath @ ''/'' @ addr) (Some addr) (length addr) True z1 of
                Inl e \<Rightarrow> Inl e
              | Inr z2 \<Rightarrow> mp_register_methods api ip p service_path ms z2))"

fun mp_register_services ::
    "'z zk_api \<Rightarrow> string \<Rightarrow> int \<Rightarrow> (string \<times> string list) list \<Rightarrow> 'z \<Rightarrow> exit_code + 'z" where
  "mp_register_services api ip p [] z = Inr z"
| "mp_register_services api ip p ((s, ms) # ss) z =
     (case Create api (''/'' @ s) None 0 False z of
        Inl e \<Rightarrow> Inl e
      | Inr z1 \<Rightarrow>
          (case mp_register_methods api ip p (''/'' @ s) ms z1 of
             Inl e \<Rightarrow> Inl e
           | Inr z2 \<Rightarrow> mp_register_services api ip p ss z2))"

definition mp_Run_register :: "'z zk_api \<Rightarrow> config_map \<Rightarrow> 'o mp_provider \<Rightarrow> 'z \<Rightarrow> exit_code + 'z" where
  "mp_Run_register api cfg p z =
     mp_register_services api (Load cfg ''rpcserverip'') (atoi (Load cfg ''rpcserverport''))
       (mp_service_methods p) z"

subsection \<open>Connections\<close>

definition mp_TouchConnection :: "int \<Rightarrow> nat \<Rightarrow> 'o mp_provider \<Rightarrow> 'o mp_provider" where
  "mp_TouchConnection now conn p =
     (case map_of (mp_connection_states p) conn of
        None \<Rightarrow> p
      | Some c \<Rightarrow> p\<lparr>mp_connection_states :=
          AList.update conn (c\<lparr>mp_last_activity := now\<rparr>) (mp_connection_states p)\<rparr>)"

definition mp_RegisterConnection :: "int \<Rightarrow> nat \<Rightarrow> 'o mp_provider \<Rightarrow> 'o mp_provider" where
  "mp_RegisterConnection now conn p = p\<lparr>mp_connection_states := AList.update conn
     \<lparr>mp_last_activity = now, mp_conn_alive = True\<rparr> (mp_connection_states p)\<rparr>"

definition mp_RemoveConnection :: "nat \<Rightarrow> 'o mp_provider \<Rightarrow> 'o mp_provider" where
  "mp_RemoveConnection conn p = p\<lparr>mp_connection_states := AList.delete conn (mp_connection_states p)\<rparr>"

definition mp_OnConnection :: "int \<Rightarrow> nat \<Rightarrow> bool \<Rightarrow> 'o mp_provider \<Rightarrow> 'o mp_provider" where
  "mp_OnConnection now conn established p =
     (if established then mp_RegisterConnection now conn p
      else mp_emit [Mp_shut_down conn] (mp_RemoveConnection conn p))"

definition mp_ScheduleIdleScan :: "config_map \<Rightarrow> 'o mp_provider \<Rightarrow> 'o mp_provider" where
  "mp_ScheduleIdleScan cfg p =
     (let interval = ParseConfigInt (Load cfg ''heartbeat_interval_ms'') kDefaultHeartbeatIntervalMs;
          limit = ParseConfigInt (Load cfg ''heartbeat_miss_limit'') kDefaultHeartbeatMissLimit
      in p\<lparr>mp_idle_close_threshold_ms := interval * (limit + 1)\<rparr>)"

definition mp_OnIdleScan :: "int \<Rightarrow> 'o mp_provider \<Rightarrow> 'o mp_provider" where
  "mp_OnIdleScan now p =
     mp_emit (map (Mp_force_closed \<circ> fst)
       (filter (\<lambda>e. now - mp_last_activity (snd e) \<ge> mp_idle_close_threshold_ms p * 1000 \<and>
                    mp_conn_alive (snd e)) (mp_connection_states p))) p"

definition mp_SendHeartbeatFrame ::
    "'o msgpack_api \<Rightarrow> nat \<Rightarrow> u8 \<Rightarrow> u64 \<Rightarrow> 'o mp_provider \<Rightarrow> 'o mp_provider" where
  "mp_SendHeartbeatFrame A conn t rid p =
     mp_emit [Mp_sent_to conn (AppendFrame []
       (mp_pack A (new_MsgpackHeader\<lparr>mh_msg_type := t, mh_request_id := rid\<rparr>) (mp_nil A)))] p"

subsection \<open>Running a call\<close>

definition mp_response_header :: "MsgpackHeader \<Rightarrow> MsgpackHeader" where
  "mp_response_header h = new_MsgpackHeader\<lparr>mh_msg_type := Mp_Response, mh_request_id := mh_request_id h,
     mh_service_name := mh_service_name h, mh_method_name := mh_method_name h\<rparr>"

definition mp_response_frame ::
    "'o msgpack_api \<Rightarrow> MsgpackHeader \<Rightarrow> 'o dispatched \<Rightarrow> string" where
  "mp_response_frame A h d =
     (let result = (case di_result d of None \<Rightarrow> mp_nil A | Some r \<Rightarrow> r)
      in AppendFrame [] (mp_pack A (mp_response_header h)
           (mp_pair A (if di_error d = [] then mp_nil A else mp_str A (di_error d)) result)))"

definition mp_record ::
    "nanos \<Rightarrow> int \<Rightarrow> 'o MsgpackTask \<Rightarrow> bool \<Rightarrow> 'o mp_provider \<Rightarrow> 'o mp_provider" where
  "mp_record now cost_ms t ok p = p\<lparr>mp_metrics := RecordMetricsSampleWithLabel now
     (mh_service_name (mt_header t) @ ''.'' @ mh_method_name (mt_header t)) ok cost_ms (mp_metrics p)\<rparr>"

text \<open>The part of \<open>WorkerLoop\<close> behind the lock; \<open>OnMessage\<close> repeats it for the inline case.\<close>

definition mp_run_task ::
    "'o msgpack_api \<Rightarrow> nanos \<Rightarrow> int \<Rightarrow> 'o MsgpackTask \<Rightarrow> 'o mp_provider \<Rightarrow> 'o mp_provider" where
  "mp_run_task A now cost_ms t p =
     (let h = mt_header t;
          call = (\<lambda>d q. if di_called d
                    then mp_emit [Mp_called (mh_service_name h) (mh_method_name h) (mt_body t)] q else q)
      in if mh_msg_type h = Mp_Oneway
         then (let d = Dispatch (mp_dispatcher p) (mh_service_name h) (mh_method_name h) (mt_body t) False
               in mp_record now cost_ms t (di_handled d) (call d p))
         else (let d = Dispatch (mp_dispatcher p) (mh_service_name h) (mh_method_name h) (mt_body t) True
               in if \<not> di_handled d \<and> di_error d = [] then mp_record now cost_ms t False (call d p)
                  else mp_record now cost_ms t (di_handled d \<and> di_error d = [])
                         (mp_emit [Mp_sent_to (mt_conn t) (mp_response_frame A h d)] (call d p))))"

subsection \<open>The worker pool\<close>

definition mp_StartWorkerPool :: "config_map \<Rightarrow> nat \<Rightarrow> 'o mp_provider \<Rightarrow> 'o mp_provider" where
  "mp_StartWorkerPool cfg hardware_concurrency p =
     (if mp_workers_started p then p
      else (let default_threads = max 4 (max 1 (int hardware_concurrency));
                t0 = ParseConfigInt (Load cfg ''provider_worker_threads'') default_threads;
                c0 = ParseConfigInt (Load cfg ''provider_queue_capacity'') 1024
            in p\<lparr>mp_task_queue_capacity := nat (if c0 \<le> 0 then 1024 else c0),
                 mp_worker_thread_count := (if t0 \<le> 0 then default_threads else t0),
                 mp_stop_workers := False, mp_workers_started := True\<rparr>))"

definition mp_EnqueueTask :: "'o MsgpackTask \<Rightarrow> 'o mp_provider \<Rightarrow> (bool \<times> 'o mp_provider) option" where
  "mp_EnqueueTask t p =
     (if mp_stop_workers p then Some (False, p)
      else if length (mp_task_queue p) < mp_task_queue_capacity p
      then Some (True, p\<lparr>mp_task_queue := mp_task_queue p @ [t]\<rparr>)
      else None)"

definition mp_worker_take :: "'o mp_provider \<Rightarrow> ('o MsgpackTask \<times> 'o mp_provider) option" where
  "mp_worker_take p =
     (case mp_task_queue p of [] \<Rightarrow> None | t # queue \<Rightarrow> Some (t, p\<lparr>mp_task_queue := queue\<rparr>))"

definition mp_WorkerLoop_turn :: "'o msgpack_api \<Rightarrow> nanos \<Rightarrow> int \<Rightarrow> 'o mp_provider \<Rightarrow> 'o mp_provider option" where
  "mp_WorkerLoop_turn A now cost_ms p =
     map_option (\<lambda>(t, p1). mp_run_task A now cost_ms t p1) (mp_worker_take p)"

fun mp_workers_finish :: "'o msgpack_api \<Rightarrow> nanos \<Rightarrow> int \<Rightarrow> nat \<Rightarrow> 'o mp_provider \<Rightarrow> 'o mp_provider" where
  "mp_workers_finish A now cost_ms 0 p = p"
| "mp_workers_finish A now cost_ms (Suc n) p =
     (case mp_WorkerLoop_turn A now cost_ms p of None \<Rightarrow> p | Some p' \<Rightarrow> mp_workers_finish A now cost_ms n p')"

definition mp_StopWorkerPool :: "'o msgpack_api \<Rightarrow> nanos \<Rightarrow> int \<Rightarrow> 'o mp_provider \<Rightarrow> 'o mp_provider" where
  "mp_StopWorkerPool A now cost_ms p =
     (if \<not> mp_workers_started p then p
      else (mp_workers_finish A now cost_ms (length (mp_task_queue p)) (p\<lparr>mp_stop_workers := True\<rparr>))
             \<lparr>mp_workers_started := False, mp_task_queue := []\<rparr>)"

subsection \<open>Incoming messages\<close>

definition mp_submit :: "'o msgpack_api \<Rightarrow> nanos \<Rightarrow> int \<Rightarrow> 'o MsgpackTask \<Rightarrow> 'o mp_provider \<Rightarrow> 'o mp_provider \<times> bool" where
  "mp_submit A now cost_ms t p =
     (case mp_EnqueueTask t p of
        None \<Rightarrow> (p\<lparr>mp_waiting_task := Some t\<rparr>, False)
      | Some (True, p1) \<Rightarrow> (p1, True)
      | Some (False, p1) \<Rightarrow> (mp_run_task A now cost_ms t p1, True))"

definition mp_OnMessage_frame ::
    "'o msgpack_api \<Rightarrow> nanos \<Rightarrow> int \<Rightarrow> int \<Rightarrow> nat \<Rightarrow> string \<Rightarrow> 'o mp_provider \<Rightarrow> 'o mp_provider \<times> bool" where
  "mp_OnMessage_frame A now ts cost_ms conn payload p =
     (case mp_unpack A payload of
        Unpack_throws \<Rightarrow> (p\<lparr>mp_crashed := True\<rparr>, False)
      | Convert_throws \<Rightarrow> (p, True)
      | Unpacked h body \<Rightarrow>
          if mh_magic h \<noteq> kDefaultMagic \<or> mh_version h \<noteq> kDefaultVersion then (p, True)
          else (let p1 = mp_TouchConnection ts conn p
                in if mh_msg_type h = Mp_Ping
                   then (mp_SendHeartbeatFrame A conn Mp_Pong (mh_request_id h) p1, True)
                   else if mh_msg_type h = Mp_Pong then (p1, True)
                   else if mh_msg_type h \<noteq> Mp_Request \<and> mh_msg_type h \<noteq> Mp_Oneway then (p1, True)
                   else mp_submit A now cost_ms \<lparr>mt_conn = conn, mt_header = h, mt_body = body\<rparr> p1))"

definition mp_OnMessage ::
    "'o msgpack_api \<Rightarrow> nanos \<Rightarrow> int \<Rightarrow> int \<Rightarrow> nat \<Rightarrow> string \<Rightarrow> 'o mp_provider \<Rightarrow> string \<times> 'o mp_provider" where
  "mp_OnMessage A now ts cost_ms conn buf p =
     (case consume (mp_next_frame ()) (mp_OnMessage_frame A now ts cost_ms conn) buf p of
        (_, buf', p') \<Rightarrow> (buf', p'))"

subsection \<open>Lemmas\<close>

definition mp_provider_enq :: "'o MsgpackTask \<Rightarrow> 'o mp_provider \<Rightarrow> 'o mp_provider option" where
  "mp_provider_enq t p = (case mp_EnqueueTask t p of Some (True, p') \<Rightarrow> Some p' | _ \<Rightarrow> None)"

interpretation mp_provider_queue: bounded_queue mp_provider_enq mp_worker_take mp_task_queue
  mp_task_queue_capacity "\<lambda>p. \<not> mp_stop_workers p"
  by unfold_locales
    (auto simp: mp_provider_enq_def mp_EnqueueTask_def mp_worker_take_def split: if_splits list.splits)

lemma mp_emit_simps [simp]:
  "mp_effects (mp_emit es p) = mp_effects p @ es" "mp_task_queue (mp_emit es p) = mp_task_queue p"
  "mp_dispatcher (mp_emit es p) = mp_dispatcher p" "mp_stop_workers (mp_emit es p) = mp_stop_workers p"
  by (simp_all add: mp_emit_def)

lemma mp_record_simps [simp]:
  "mp_effects (mp_record now c t b p) = mp_effects p" "mp_task_queue (mp_record now c t b p) = mp_task_queue p"
  "mp_dispatcher (mp_record now c t b p) = mp_dispatcher p"
  by (simp_all add: mp_record_def)

text \<open>A one-way call never reaches its handler.\<close>

lemma mp_run_oneway:
  "mh_msg_type (mt_header t) = Mp_Oneway \<Longrightarrow> mp_effects (mp_run_task A now c t p) = mp_effects p"
  by (simp add: mp_run_task_def Let_def Dispatch_oneway)

text \<open>A request is always answered, with the handler's result or with an error text.\<close>

lemma mp_run_request:
  assumes "mh_msg_type (mt_header t) = Mp_Request"
  shows "\<exists>called. mp_effects (mp_run_task A now c t p) = mp_effects p @ called @
      [Mp_sent_to (mt_conn t) (mp_response_frame A (mt_header t)
         (Dispatch (mp_dispatcher p) (mh_service_name (mt_header t)) (mh_method_name (mt_header t)) (mt_body t) True))] \<and>
      called = (if map_of (mp_dispatcher p) (handler_key (mh_service_name (mt_header t)) (mh_method_name (mt_header t))) = None
                then [] else [Mp_called (mh_service_name (mt_header t)) (mh_method_name (mt_header t)) (mt_body t)])"
  using assms
  by (auto simp: mp_run_task_def Let_def mp_type_defs Dispatch_def split: option.splits sum.splits)

end
