(* ===== verification/Msgpack_Exchange.thy ===== *)
theory Msgpack_Exchange
  imports Msgpack_Calls Msgpack_Provider
begin

section \<open>A request and its reply\<close>

text \<open>
  What the frame of a request does at the server and what the frame of the reply does at the client: the
  steps that the theorems about whole msgpack calls share.
\<close>

subsection \<open>One frame at both ends\<close>

lemma mp_next_frame_one:
  "length payload < 4294967296 \<Longrightarrow>
     mp_next_frame () (BuildHeader payload @ payload @ later) = Got payload (4 + length payload)"
  using ParseFrame_AppendFrame[of payload later] by (simp add: mp_next_frame_def AppendFrame_def BuildHeader_def)

lemma consume_one:
  assumes "length payload < 4294967296" "handle payload s = (s', True)"
  shows "consume (mp_next_frame ()) handle (BuildHeader payload @ payload) s = (Waiting, [], s')"
  using mp_next_frame_one[OF assms(1), of "[]"] assms(2) by (simp add: mp_frames.consume_unfold)

lemma mp_OnMessage_task:
  assumes A: "mp_ok A" and payload: "payload = mp_pack A h args" "length payload < 4294967296"
    and h: "mh_magic h = kDefaultMagic" "mh_version h = kDefaultVersion"
      "mh_msg_type h = Mp_Request \<or> mh_msg_type h = Mp_Oneway"
    and room: "\<not> mp_stop_workers p" "length (mp_task_queue p) < mp_task_queue_capacity p"
  shows "\<exists>p1. mp_OnMessage A now ts c conn (BuildHeader payload @ payload) p = ([], p1) \<and>
    mp_task_queue p1 = mp_task_queue p @ [\<lparr>mt_conn = conn, mt_header = h, mt_body = args\<rparr>] \<and>
    mp_effects p1 = mp_effects p \<and> mp_dispatcher p1 = mp_dispatcher p"
proof -
  let ?t = "\<lparr>mt_conn = conn, mt_header = h, mt_body = args\<rparr>" and ?q = "mp_TouchConnection ts conn p"
  have q: "mp_task_queue ?q = mp_task_queue p" "mp_stop_workers ?q = mp_stop_workers p"
    "mp_task_queue_capacity ?q = mp_task_queue_capacity p" "mp_effects ?q = mp_effects p"
    "mp_dispatcher ?q = mp_dispatcher p"
    by (simp_all add: mp_TouchConnection_def split: option.splits)
  have "mp_unpack A payload = Unpacked h args" using A payload by (simp add: mp_ok_def)
  with h room q have "mp_OnMessage_frame A now ts c conn payload p =
      (?q\<lparr>mp_task_queue := mp_task_queue p @ [?t]\<rparr>, True)"
    by (auto simp: mp_OnMessage_frame_def mp_submit_def mp_EnqueueTask_def Let_def mp_type_defs)
  note one = consume_one[OF payload(2), where handle = "mp_OnMessage_frame A now ts c conn", OF this]
  show ?thesis
    by (intro exI[of _ "?q\<lparr>mp_task_queue := mp_task_queue p @ [?t]\<rparr>"]) (simp add: mp_OnMessage_def one q)
qed

lemma mp_WorkerLoop_one:
  "mp_task_queue p = [t] \<Longrightarrow> mp_WorkerLoop_turn A now c p = Some (mp_run_task A now c t (p\<lparr>mp_task_queue := []\<rparr>))"
  by (simp add: mp_WorkerLoop_turn_def mp_worker_take_def)

text \<open>The error text that \<open>Dispatch\<close> makes of an exception, and the body of the reply.\<close>

definition call_error :: "string option \<Rightarrow> string" where
  "call_error e = (case e of None \<Rightarrow> ''call_error: unknown'' | Some what \<Rightarrow> ''call_error: '' @ what)"

definition reply_body :: "'o msgpack_api \<Rightarrow> string option + 'o \<Rightarrow> 'o" where
  "reply_body A outcome =
     (case outcome of
        Inr r \<Rightarrow> mp_pair A (mp_nil A) r
      | Inl e \<Rightarrow> mp_pair A (mp_str A (call_error e)) (mp_nil A))"

definition reply_payload :: "'o msgpack_api \<Rightarrow> MsgpackHeader \<Rightarrow> string option + 'o \<Rightarrow> string" where
  "reply_payload A h outcome = mp_pack A (mp_response_header h) (reply_body A outcome)"

lemma call_error_nonempty [simp]: "call_error e \<noteq> []"
  by (simp add: call_error_def split: option.splits)

lemma mp_run_bound_request:
  assumes "mh_msg_type h = Mp_Request" "map_of (mp_dispatcher p) (handler_key (mh_service_name h) (mh_method_name h)) = Some f"
  shows "mp_effects (mp_run_task A now c \<lparr>mt_conn = conn, mt_header = h, mt_body = x\<rparr> p) = mp_effects p @
    [Mp_called (mh_service_name h) (mh_method_name h) x,
     Mp_sent_to conn (BuildHeader (reply_payload A h (f x)) @ reply_payload A h (f x))]"
  using assms
  by (auto simp: mp_run_task_def Let_def mp_type_defs Dispatch_def mp_response_frame_def AppendFrame_def
      BuildHeader_def reply_payload_def reply_body_def call_error_def split: sum.splits option.splits)

lemma mp_recv_reply:
  assumes A: "mp_ok A" and fits: "length (reply_payload A h outcome) < 4294967296"
    and ch: "mc_alive ch" "mc_running ch" "mc_fd ch \<noteq> -1" "mc_recv_buffer ch = []"
      "map_of (mc_pending ch) (mh_request_id h) = Some q"
  shows "mp_RecvLoop_turn A E (Mr_data (BuildHeader (reply_payload A h outcome) @ reply_payload A h outcome)) (ch, w) =
    (mp_CompletePending A (mh_request_id h) q (case outcome of Inl e \<Rightarrow> call_error e | Inr r \<Rightarrow> [])
       (case outcome of Inl e \<Rightarrow> mp_nil A | Inr r \<Rightarrow> r)
       (ch\<lparr>mc_pending := AList.delete (mh_request_id h) (mc_pending ch)\<rparr>), w)"
proof -
  let ?ch = "mp_CompletePending A (mh_request_id h) q (case outcome of Inl e \<Rightarrow> call_error e | Inr r \<Rightarrow> [])
       (case outcome of Inl e \<Rightarrow> mp_nil A | Inr r \<Rightarrow> r)
       (ch\<lparr>mc_pending := AList.delete (mh_request_id h) (mc_pending ch)\<rparr>)"
  have "mp_unpack A (reply_payload A h outcome) = Unpacked (mp_response_header h) (reply_body A outcome)"
    using A fits by (simp add: mp_ok_def reply_payload_def)
  with A ch(5) have "mp_handle_frame A E (reply_payload A h outcome) (ch, w) = ((?ch, w), True)"
    by (cases outcome) (simp_all add: mp_handle_frame_def mp_handle_response_def mp_take_and_complete_def
        mp_type_defs mp_ok_def mp_response_header_def new_MsgpackHeader_def reply_body_def)
  note one = consume_one[OF fits, where handle = "mp_handle_frame A E", OF this]
  have "?ch\<lparr>mc_recv_buffer := []\<rparr> = ?ch" using ch(4) by (simp add: mp_CompletePending_def mc_emit_def)
  with one ch show ?thesis by (simp add: mp_RecvLoop_turn_def mp_recv_bytes_def Let_def)
qed

text \<open>The whole exchange, whatever the bound handler does.\<close>

lemma mp_exchange:
  assumes A: "mp_ok A" and prep: "mp_prepare_call A E D a st0 = (Some r, st1)"
    and request_fits: "length (mr_payload r) < 4294967296"
    and server: "map_of (mp_dispatcher p) (handler_key (mp_service a) (mp_method a)) = Some f"
      "\<not> mp_stop_workers p" "mp_task_queue p = []" "0 < mp_task_queue_capacity p"
    and reply_fits: "length (reply_payload A (mp_request_header (mr_request_id r) (mr_timeout_ms r)
        (mp_service a) (mp_method a)) (f (mp_args a))) < 4294967296"
    and client: "mc_alive ch" "mc_running ch" "mc_fd ch \<noteq> -1" "mc_recv_buffer ch = []"
      "map_of (mc_pending ch) (mr_request_id r) = Some q"
  shows "\<exists>p1 p2 bytes.
    mp_OnMessage A now ts c conn (BuildHeader (mr_payload r) @ mr_payload r) p = ([], p1) \<and>
    mp_WorkerLoop_turn A now c p1 = Some p2 \<and>
    mp_effects p2 = mp_effects p @ [Mp_called (mp_service a) (mp_method a) (mp_args a), Mp_sent_to conn bytes] \<and>
    mp_RecvLoop_turn A E (Mr_data bytes) (ch, w) =
      (mp_CompletePending A (mr_request_id r) q (case f (mp_args a) of Inl e \<Rightarrow> call_error e | Inr x \<Rightarrow> [])
         (case f (mp_args a) of Inl e \<Rightarrow> mp_nil A | Inr x \<Rightarrow> x)
         (ch\<lparr>mc_pending := AList.delete (mr_request_id r) (mc_pending ch)\<rparr>), w)"
proof -
  let ?h = "mp_request_header (mr_request_id r) (mr_timeout_ms r) (mp_service a) (mp_method a)"
  let ?reply = "reply_payload A ?h (f (mp_args a))"
  have h: "mh_magic ?h = kDefaultMagic" "mh_version ?h = kDefaultVersion" "mh_msg_type ?h = Mp_Request"
    "mh_service_name ?h = mp_service a" "mh_method_name ?h = mp_method a" "mh_request_id ?h = mr_request_id r"
    by (simp_all add: mp_request_header_def new_MsgpackHeader_def)
  have payload: "mr_payload r = mp_pack A ?h (mp_args a)"
    using prep by (auto simp: mp_prepare_call_def NextRequestId_def Let_def split: prod.splits sum.splits)
  obtain p1 where p1: "mp_OnMessage A now ts c conn (BuildHeader (mr_payload r) @ mr_payload r) p = ([], p1)"
    "mp_task_queue p1 = [\<lparr>mt_conn = conn, mt_header = ?h, mt_body = mp_args a\<rparr>]"
    "mp_effects p1 = mp_effects p" "mp_dispatcher p1 = mp_dispatcher p"
    using mp_OnMessage_task[OF A payload request_fits h(1,2) _ server(2), of now ts c conn] h(3) server by auto
  let ?p2 = "mp_run_task A now c \<lparr>mt_conn = conn, mt_header = ?h, mt_body = mp_args a\<rparr> (p1\<lparr>mp_task_queue := []\<rparr>)"
  have "mp_effects ?p2 = mp_effects p @ [Mp_called (mp_service a) (mp_method a) (mp_args a),
      Mp_sent_to conn (BuildHeader ?reply @ ?reply)]"
    using mp_run_bound_request[OF h(3), of "p1\<lparr>mp_task_queue := []\<rparr>" f A now c conn "mp_args a"] server(1) p1(3,4)
    by (simp add: h)
  moreover note mp_recv_reply[OF A reply_fits client(1-4), unfolded h(6), OF client(5), of E w]
  ultimately show ?thesis
    by (intro exI[of _ p1] exI[of _ ?p2] exI[of _ "BuildHeader ?reply @ ?reply"] conjI p1(1)
        mp_WorkerLoop_one p1(2))
qed

end
