(* ===== verification/Msgpack_Server.thy ===== *)
theory Msgpack_Server
  imports Msgpack_Provider Provider_Server
begin

section \<open>The msgpack server as a whole\<close>

text \<open>
  The model of \<open>KrpcMsgpackProvider::Run\<close> and of what happens while it is in its event loop
  (\<open>mp_server_step\<close>), as \<open>Provider_Server\<close> does for the protobuf server; the lemmas show that every frame
  is answered exactly as if it had been handled alone. The worker pool and the metrics endpoint
  start before the session with ZooKeeper, so a process that exits because it cannot register has them
  running. The loop is not left; the destructor stops the pool.
\<close>

definition mp_Run_start ::
    "'z zk_api \<Rightarrow> config_map \<Rightarrow> run_env \<Rightarrow> 'o mp_provider \<times> 'z \<times> http_server \<times> os \<Rightarrow>
     (exit_code + 'o mp_provider \<times> 'z \<times> http_server \<times> os) option" where
  "mp_Run_start api cfg env st =
     (case st of (p, z, hs) \<Rightarrow>
        (let p1 = mp_StartWorkerPool cfg (re_cores env) p;
             hs1 = start_metrics_http cfg (re_listen env) hs
         in map_option (\<lambda>started. case started of
                Inl e \<Rightarrow> Inl e
              | Inr c \<Rightarrow>
                  (case mp_Run_register api cfg p1 z of
                     Inl e \<Rightarrow> Inl e
                   | Inr z' \<Rightarrow> Inr (mp_ScheduleIdleScan cfg p1, z', hs1)))
              (Start (re_zk_init env) (re_zk_events env) new_ZkClient)))"

lemma mp_StartWorkerPool_ok:
  "\<not> mp_workers_started p \<Longrightarrow> 0 < mp_task_queue_capacity (mp_StartWorkerPool cfg hw p) \<and>
     0 < mp_worker_thread_count (mp_StartWorkerPool cfg hw p) \<and> mp_workers_started (mp_StartWorkerPool cfg hw p) \<and>
     \<not> mp_stop_workers (mp_StartWorkerPool cfg hw p) \<and>
     mp_service_methods (mp_StartWorkerPool cfg hw p) = mp_service_methods p \<and>
     mp_dispatcher (mp_StartWorkerPool cfg hw p) = mp_dispatcher p"
  by (auto simp: mp_StartWorkerPool_def Let_def)

text \<open>When \<open>Run\<close> reaches its loop, the pool works, every bound method has been registered, and the methods
  that are bound are the ones the dispatcher knows.\<close>

lemma mp_Run_start_ready:
  assumes "mp_Run_start api cfg env (p, z, hs) = Some (Inr (p', z', hs'))" "\<not> mp_workers_started p"
  shows "0 < mp_task_queue_capacity p' \<and> 0 < mp_worker_thread_count p' \<and> mp_workers_started p' \<and>
    \<not> mp_stop_workers p' \<and> mp_dispatcher p' = mp_dispatcher p \<and> mp_Run_register api cfg p z = Inr z' \<and>
    (hs' = hs \<or> ParseConfigInt (Load cfg ''metrics_http_port'') 0 > 0)"
proof -
  let ?p1 = "mp_StartWorkerPool cfg (re_cores env) p"
  obtain d where "Start (re_zk_init env) (re_zk_events env) new_ZkClient = Some d"
    using assms(1) by (auto simp: mp_Run_start_def Let_def)
  with assms(1) have r: "p' = mp_ScheduleIdleScan cfg ?p1" "mp_Run_register api cfg ?p1 z = Inr z'"
    "hs' = start_metrics_http cfg (re_listen env) hs"
    by (cases d; cases "mp_Run_register api cfg ?p1 z"; auto simp: mp_Run_start_def Let_def)+
  have "mp_Run_register api cfg ?p1 z = mp_Run_register api cfg p z"
    using mp_StartWorkerPool_ok[OF assms(2)] by (simp add: mp_Run_register_def)
  with r mp_StartWorkerPool_ok[OF assms(2), of cfg "re_cores env"] show ?thesis
    by (auto simp: mp_ScheduleIdleScan_def Let_def start_metrics_http_def)
qed

lemma mp_Run_start_fresh:
  assumes "mp_Run_start api cfg env (p, z, hs) = Some (Inr (p', z', hs'))"
  shows "mp_dispatcher p' = mp_dispatcher p \<and> mp_task_queue p' = mp_task_queue p \<and>
    mp_waiting_task p' = mp_waiting_task p \<and> mp_effects p' = mp_effects p"
proof -
  let ?p1 = "mp_StartWorkerPool cfg (re_cores env) p"
  obtain d where "Start (re_zk_init env) (re_zk_events env) new_ZkClient = Some d"
    using assms by (auto simp: mp_Run_start_def Let_def)
  with assms have "p' = mp_ScheduleIdleScan cfg ?p1"
    by (cases d; cases "mp_Run_register api cfg ?p1 z"; auto simp: mp_Run_start_def Let_def)+
  then show ?thesis by (simp add: mp_ScheduleIdleScan_def mp_StartWorkerPool_def Let_def)
qed

subsection \<open>The event loop and the workers\<close>

text \<open>\<open>ms_frames\<close> is the record of the frames that the I/O threads have taken from their buffers.\<close>

record 'o mp_server =
  ms_provider :: "'o mp_provider"
  ms_buffers :: "nat \<Rightarrow> string"
  ms_waiting :: "(nat \<times> 'o MsgpackTask) list"
  ms_running :: "'o MsgpackTask list"
  ms_frames :: "(nat \<times> string) list"

definition new_mp_server :: "'o mp_provider \<Rightarrow> 'o mp_server" where
  "new_mp_server p = \<lparr>ms_provider = p, ms_buffers = (\<lambda>_. []), ms_waiting = [], ms_running = [], ms_frames = []\<rparr>"

definition mp_settle :: "nat \<Rightarrow> string \<Rightarrow> string \<Rightarrow> 'o mp_provider \<Rightarrow> 'o mp_server \<Rightarrow> 'o mp_server" where
  "mp_settle conn payload buf p s =
     s\<lparr>ms_provider := p\<lparr>mp_waiting_task := None\<rparr>, ms_buffers := (ms_buffers s)(conn := buf),
       ms_waiting := ms_waiting s @ (case mp_waiting_task p of None \<Rightarrow> [] | Some t \<Rightarrow> [(conn, t)]),
       ms_frames := ms_frames s @ [(conn, payload)]\<rparr>"

inductive mp_server_step :: "'o msgpack_api \<Rightarrow> 'o mp_server \<Rightarrow> 'o mp_server \<Rightarrow> bool" for A where
  receive: "conn \<notin> fst ` set (ms_waiting s) \<Longrightarrow> \<not> mp_crashed (ms_provider s) \<Longrightarrow>
    mp_server_step A s (s\<lparr>ms_buffers := (ms_buffers s)(conn := ms_buffers s conn @ bytes)\<rparr>)"
| frame: "conn \<notin> fst ` set (ms_waiting s) \<Longrightarrow> \<not> mp_crashed (ms_provider s) \<Longrightarrow>
    mp_next_frame () (ms_buffers s conn) = Got payload n \<Longrightarrow>
    mp_OnMessage_frame A now ts c conn payload (ms_provider s) = (p', go_on) \<Longrightarrow>
    mp_server_step A s (mp_settle conn payload (drop n (ms_buffers s conn)) p' s)"
| resume: "(conn, t) \<in> set (ms_waiting s) \<Longrightarrow> \<not> mp_crashed (ms_provider s) \<Longrightarrow>
    mp_submit A now c t (ms_provider s) = (p', True) \<Longrightarrow>
    mp_server_step A s (s\<lparr>ms_provider := p', ms_waiting := remove1 (conn, t) (ms_waiting s)\<rparr>)"
| take: "mp_worker_take (ms_provider s) = Some (t, p') \<Longrightarrow> \<not> mp_crashed (ms_provider s) \<Longrightarrow>
    int (length (ms_running s)) < mp_worker_thread_count (ms_provider s) \<Longrightarrow>
    mp_server_step A s (s\<lparr>ms_provider := p', ms_running := ms_running s @ [t]\<rparr>)"
| run: "t \<in> set (ms_running s) \<Longrightarrow> \<not> mp_crashed (ms_provider s) \<Longrightarrow>
    mp_server_step A s (s\<lparr>ms_provider := mp_run_task A now c t (ms_provider s), ms_running := remove1 t (ms_running s)\<rparr>)"
| connection: "\<not> mp_crashed (ms_provider s) \<Longrightarrow>
    mp_server_step A s (s\<lparr>ms_provider := mp_OnConnection ts conn established (ms_provider s)\<rparr>)"
| idle_scan: "\<not> mp_crashed (ms_provider s) \<Longrightarrow>
    mp_server_step A s (s\<lparr>ms_provider := mp_OnIdleScan ts (ms_provider s)\<rparr>)"
| stop: "mp_workers_started (ms_provider s) \<Longrightarrow> \<not> mp_crashed (ms_provider s) \<Longrightarrow>
    mp_server_step A s (s\<lparr>ms_provider := (ms_provider s)\<lparr>mp_stop_workers := True\<rparr>\<rparr>)"
| joined: "mp_stop_workers (ms_provider s) \<Longrightarrow> mp_task_queue (ms_provider s) = [] \<Longrightarrow> ms_running s = [] \<Longrightarrow>
    \<not> mp_crashed (ms_provider s) \<Longrightarrow>
    mp_server_step A s (s\<lparr>ms_provider := mp_StopWorkerPool A now c (ms_provider s)\<rparr>)"

subsection \<open>What one frame does\<close>

text \<open>The answer to a task, which depends on nothing but the bound handlers.\<close>

definition task_effects :: "'o msgpack_api \<Rightarrow> 'o handlers \<Rightarrow> 'o MsgpackTask \<Rightarrow> 'o mp_effect list" where
  "task_effects A D t =
     (let h = mt_header t; key = handler_key (mh_service_name h) (mh_method_name h)
      in if mh_msg_type h = Mp_Oneway then []
         else (if map_of D key = None then [] else [Mp_called (mh_service_name h) (mh_method_name h) (mt_body t)]) @
           [Mp_sent_to (mt_conn t) (mp_response_frame A h
              (Dispatch D (mh_service_name h) (mh_method_name h) (mt_body t) True))])"

definition frame_accepted :: "MsgpackHeader \<Rightarrow> bool" where
  "frame_accepted h \<longleftrightarrow> mh_magic h = kDefaultMagic \<and> mh_version h = kDefaultVersion"

definition frame_task :: "'o msgpack_api \<Rightarrow> nat \<Rightarrow> string \<Rightarrow> 'o MsgpackTask option" where
  "frame_task A conn payload =
     (case mp_unpack A payload of
        Unpacked h body \<Rightarrow>
          (if frame_accepted h \<and> (mh_msg_type h = Mp_Request \<or> mh_msg_type h = Mp_Oneway)
           then Some \<lparr>mt_conn = conn, mt_header = h, mt_body = body\<rparr> else None)
      | _ \<Rightarrow> None)"

definition frame_pong :: "'o msgpack_api \<Rightarrow> nat \<Rightarrow> string \<Rightarrow> 'o mp_effect list" where
  "frame_pong A conn payload =
     (case mp_unpack A payload of
        Unpacked h body \<Rightarrow>
          (if frame_accepted h \<and> mh_msg_type h = Mp_Ping
           then [Mp_sent_to conn (AppendFrame []
                  (mp_pack A (new_MsgpackHeader\<lparr>mh_msg_type := Mp_Pong, mh_request_id := mh_request_id h\<rparr>) (mp_nil A)))]
           else [])
      | _ \<Rightarrow> [])"

definition frame_effects :: "'o msgpack_api \<Rightarrow> 'o handlers \<Rightarrow> nat \<times> string \<Rightarrow> 'o mp_effect list" where
  "frame_effects A D f =
     (case frame_task A (fst f) (snd f) of None \<Rightarrow> frame_pong A (fst f) (snd f) | Some t \<Rightarrow> task_effects A D t)"

definition is_answer :: "'o mp_effect \<Rightarrow> bool" where
  "is_answer e = (case e of Mp_sent_to c s \<Rightarrow> True | Mp_called s m x \<Rightarrow> True | _ \<Rightarrow> False)"

lemma is_answer_simps [simp]:
  "is_answer (Mp_sent_to c s)" "is_answer (Mp_called sv m x)" "\<not> is_answer (Mp_force_closed c)" "\<not> is_answer (Mp_shut_down c)"
  by (simp_all add: is_answer_def)

lemma task_effects_answers: "filter is_answer (task_effects A D t) = task_effects A D t"
  by (simp add: task_effects_def Let_def)

lemma frame_pong_answers: "filter is_answer (frame_pong A conn payload) = frame_pong A conn payload"
  by (simp add: frame_pong_def split: unpacked.splits)

lemma mp_run_task_effects:
  "mp_effects (mp_run_task A now c t p) = mp_effects p @ task_effects A (mp_dispatcher p) t"
  by (auto simp: mp_run_task_def task_effects_def Let_def Dispatch_def split: option.splits sum.splits)

text \<open>What an operation leaves alone.\<close>

lemma mp_run_task_frame [simp]:
  "mp_task_queue (mp_run_task A now c t p) = mp_task_queue p" "mp_dispatcher (mp_run_task A now c t p) = mp_dispatcher p"
  "mp_waiting_task (mp_run_task A now c t p) = mp_waiting_task p"
  by (auto simp: mp_run_task_def mp_record_def mp_emit_def Let_def)

lemma mp_Touch_frame [simp]:
  "mp_task_queue (mp_TouchConnection ts conn p) = mp_task_queue p"
  "mp_dispatcher (mp_TouchConnection ts conn p) = mp_dispatcher p"
  "mp_waiting_task (mp_TouchConnection ts conn p) = mp_waiting_task p"
  "mp_effects (mp_TouchConnection ts conn p) = mp_effects p"
  by (auto simp: mp_TouchConnection_def split: option.splits)

lemma mp_emit_waiting [simp]: "mp_waiting_task (mp_emit es p) = mp_waiting_task p"
  by (simp add: mp_emit_def)

text \<open>Submitting a task keeps the handlers, and the task is queued, waits, or is answered at once.\<close>

lemma mp_submit_cases:
  assumes "mp_submit A now c t p = (p', b)"
  obtains (queued) "b" "mp_task_queue p' = mp_task_queue p @ [t]" "mp_effects p' = mp_effects p"
      "mp_waiting_task p' = mp_waiting_task p" "mp_dispatcher p' = mp_dispatcher p"
    | (waits) "\<not> b" "p' = p\<lparr>mp_waiting_task := Some t\<rparr>"
    | (inline) "b" "p' = mp_run_task A now c t p"
  using assms that by (auto simp: mp_submit_def mp_EnqueueTask_def split: if_splits)

lemma mp_OnMessage_frame_cases:
  assumes "mp_OnMessage_frame A now ts c conn payload p = (p', b)"
  obtains (no_task) "frame_task A conn payload = None" "mp_effects p' = mp_effects p @ frame_pong A conn payload"
      "mp_task_queue p' = mp_task_queue p" "mp_waiting_task p' = mp_waiting_task p" "mp_dispatcher p' = mp_dispatcher p"
    | (task) t where "frame_task A conn payload = Some t" "mp_submit A now c t (mp_TouchConnection ts conn p) = (p', b)"
  using assms that
  by (auto simp: mp_OnMessage_frame_def frame_task_def frame_pong_def frame_accepted_def mp_SendHeartbeatFrame_def
      Let_def mp_type_defs split: unpacked.splits if_splits)

subsection \<open>Every frame is answered once\<close>

definition tasks_held :: "'o mp_server \<Rightarrow> 'o MsgpackTask list" where
  "tasks_held s = mp_task_queue (ms_provider s) @ map snd (ms_waiting s) @ ms_running s"

text \<open>The answers to a collection of tasks or frames, in any order.\<close>

definition answers_of :: "('a \<Rightarrow> 'o mp_effect list) \<Rightarrow> 'a list \<Rightarrow> 'o mp_effect multiset" where
  "answers_of F xs = (\<Sum>x\<in>#mset xs. mset (F x))"

definition answered_ok :: "'o msgpack_api \<Rightarrow> 'o handlers \<Rightarrow> 'o mp_server \<Rightarrow> bool" where
  "answered_ok A D s \<longleftrightarrow> mp_dispatcher (ms_provider s) = D \<and> mp_waiting_task (ms_provider s) = None \<and>
     mset (filter is_answer (mp_effects (ms_provider s))) + answers_of (task_effects A D) (tasks_held s) =
       answers_of (frame_effects A D) (ms_frames s)"

lemma answers_of_simps [simp]:
  "answers_of F [] = {#}" "answers_of F (x # xs) = mset (F x) + answers_of F xs"
  "answers_of F (xs @ ys) = answers_of F xs + answers_of F ys"
  by (simp_all add: answers_of_def)

lemma answers_of_remove1: "x \<in> set xs \<Longrightarrow> answers_of F xs = mset (F x) + answers_of F (remove1 x xs)"
proof -
  assume "x \<in> set xs"
  then have "mset xs = add_mset x (mset (remove1 x xs))" by simp
  then show ?thesis unfolding answers_of_def by (metis image_mset_add_mset sum_mset.add_mset)
qed

lemma multiset_shift:
  fixes a :: "'a multiset"
  assumes "a + b + c = d + e + t"
  shows "d + (e + x + r) = f \<Longrightarrow> a + (b + (x + c) + r) = f + t"
    "c = {#} \<Longrightarrow> d + (e + (t + x) + r) = f \<Longrightarrow> a + (b + x + r) = f"
proof -
  have eq: "count a z + count b z + count c z = count d z + count e z + count t z" for z
    using arg_cong[OF assms, of "\<lambda>m. count m z"] by simp
  show "a + (b + (x + c) + r) = f + t" if f: "d + (e + x + r) = f"
  proof (rule multiset_eqI)
    fix z show "count (a + (b + (x + c) + r)) z = count (f + t) z" using eq[of z] by (simp add: f[symmetric])
  qed
  show "a + (b + x + r) = f" if "c = {#}" and f: "d + (e + (t + x) + r) = f"
  proof (rule multiset_eqI)
    fix z show "count (a + (b + x + r)) z = count f z" using eq[of z] that(1) by (simp add: f[symmetric])
  qed
qed

text \<open>A step that answers nothing and moves tasks around.\<close>

lemma answered_ok_same:
  assumes "answered_ok A D s" "mp_dispatcher (ms_provider s') = D" "mp_waiting_task (ms_provider s') = None"
    "filter is_answer (mp_effects (ms_provider s')) = filter is_answer (mp_effects (ms_provider s))"
    "mset (tasks_held s') = mset (tasks_held s)" "ms_frames s' = ms_frames s"
  shows "answered_ok A D s'"
  using assms by (simp add: answered_ok_def answers_of_def)

text \<open>A submitted task is held or answered.\<close>

lemma submit_answers:
  assumes "mp_submit A now c t p = (p', b)" "mp_waiting_task p = None" "mp_dispatcher p = D"
  shows "mp_dispatcher p' = D \<and>
    mset (filter is_answer (mp_effects p')) + answers_of (task_effects A D) (mp_task_queue p') +
      answers_of (task_effects A D) (case mp_waiting_task p' of None \<Rightarrow> [] | Some t \<Rightarrow> [t]) =
    mset (filter is_answer (mp_effects p)) + answers_of (task_effects A D) (mp_task_queue p) + mset (task_effects A D t)"
    (is "?concl p'")
proof -
  from assms(1) show ?thesis
  proof (cases rule: mp_submit_cases)
    case queued
    with assms(2,3) show ?thesis by simp
  next
    case waits
    with assms(3) show ?thesis by simp
  next
    case inline
    with assms(2,3) show ?thesis by (simp add: mp_run_task_effects task_effects_answers)
  qed
qed

lemma answered_ok_frame:
  assumes ok: "answered_ok A D s"
    and f: "mp_OnMessage_frame A now ts c conn payload (ms_provider s) = (p', b)"
  shows "answered_ok A D (mp_settle conn payload buf p' s)"
  using f
proof (cases rule: mp_OnMessage_frame_cases)
  case no_task
  with ok show ?thesis
    by (simp add: answered_ok_def mp_settle_def tasks_held_def frame_effects_def frame_pong_answers add.assoc add.commute)
next
  case (task t)
  from ok have p: "mp_waiting_task (ms_provider s) = None" "mp_dispatcher (ms_provider s) = D"
    by (simp_all add: answered_ok_def)
  let ?W = "case mp_waiting_task p' of None \<Rightarrow> [] | Some t \<Rightarrow> [t]"
  have w: "map snd (case mp_waiting_task p' of None \<Rightarrow> [] | Some t \<Rightarrow> [(conn, t)]) = ?W"
    by (simp split: option.splits)
  let ?T = "answers_of (task_effects A D)" and ?p = "ms_provider s"
  from submit_answers[OF task(2), of D] p have sub: "mp_dispatcher p' = D"
    "mset (filter is_answer (mp_effects p')) + ?T (mp_task_queue p') + ?T ?W =
       mset (filter is_answer (mp_effects ?p)) + ?T (mp_task_queue ?p) + mset (task_effects A D t)"
    by simp_all
  have "mset (filter is_answer (mp_effects ?p)) + (?T (mp_task_queue ?p) + ?T (map snd (ms_waiting s)) + ?T (ms_running s)) =
      answers_of (frame_effects A D) (ms_frames s)"
    using ok by (simp add: answered_ok_def tasks_held_def add.assoc)
  from multiset_shift(1)[OF sub(2) this] sub(1) task(1) show ?thesis
    by (simp add: answered_ok_def mp_settle_def tasks_held_def frame_effects_def w add.assoc)
qed

lemma answered_ok_step:
  assumes "mp_server_step A s s'" "answered_ok A D s"
  shows "answered_ok A D s'"
  using assms(1)
proof cases
  case frame
  with answered_ok_frame[OF assms(2)] show ?thesis by blast
next
  case (resume conn t now c p')
  let ?T = "answers_of (task_effects A D)" and ?p = "ms_provider s"
  have w: "?T (map snd (ms_waiting s)) = mset (task_effects A D t) + ?T (map snd (remove1 (conn, t) (ms_waiting s)))"
    using answers_of_remove1[OF resume(2), of "task_effects A D \<circ> snd"]
    by (simp add: answers_of_def image_mset.compositionality comp_def)
  from resume(4) have p': "mp_waiting_task p' = mp_waiting_task ?p" by (cases rule: mp_submit_cases) simp_all
  have sub: "mset (filter is_answer (mp_effects p')) + ?T (mp_task_queue p') + {#} =
      mset (filter is_answer (mp_effects ?p)) + ?T (mp_task_queue ?p) + mset (task_effects A D t)" "mp_dispatcher p' = D"
    using submit_answers[OF resume(4), of D] assms(2) p' by (simp_all add: answered_ok_def)
  have "mset (filter is_answer (mp_effects ?p)) + (?T (mp_task_queue ?p) + (mset (task_effects A D t) +
      ?T (map snd (remove1 (conn, t) (ms_waiting s)))) + ?T (ms_running s)) = answers_of (frame_effects A D) (ms_frames s)"
    using assms(2) by (simp add: answered_ok_def tasks_held_def w[symmetric] add.assoc)
  from multiset_shift(2)[OF sub(1) refl this] sub(2) p' assms(2) resume(1) show ?thesis
    by (simp add: answered_ok_def tasks_held_def add.assoc)
next
  case (take t p')
  then have "mp_task_queue (ms_provider s) = t # mp_task_queue p'" "mp_effects p' = mp_effects (ms_provider s)"
    "mp_dispatcher p' = mp_dispatcher (ms_provider s)" "mp_waiting_task p' = mp_waiting_task (ms_provider s)"
    by (auto simp: mp_worker_take_def split: list.splits)
  with take assms(2) show ?thesis
    by (intro answered_ok_same[OF assms(2)]) (simp_all add: answered_ok_def tasks_held_def)
next
  case (run t now c)
  with answers_of_remove1[OF run(2), of "task_effects A D"] assms(2) show ?thesis
    by (simp add: answered_ok_def tasks_held_def mp_run_task_effects task_effects_answers add.assoc add.left_commute)
next
  case (joined now c)
  with assms(2) show ?thesis
    by (intro answered_ok_same[OF assms(2)]) (simp_all add: answered_ok_def tasks_held_def mp_StopWorkerPool_def)
qed (use assms(2) in \<open>auto simp: answered_ok_def tasks_held_def mp_OnConnection_def mp_RegisterConnection_def
    mp_RemoveConnection_def mp_OnIdleScan_def mp_emit_def filter_empty_conv\<close>)

lemma answered_ok_steps: "(mp_server_step A)\<^sup>*\<^sup>* s s' \<Longrightarrow> answered_ok A D s \<Longrightarrow> answered_ok A D s'"
  by (induction rule: rtranclp_induct) (auto intro: answered_ok_step)

lemma answered_ok_new:
  "mp_task_queue p = [] \<Longrightarrow> mp_waiting_task p = None \<Longrightarrow> mp_effects p = [] \<Longrightarrow>
     answered_ok A (mp_dispatcher p) (new_mp_server p)"
  by (simp add: answered_ok_def new_mp_server_def tasks_held_def)

end
