(* ===== verification/Msgpack_Streams.thy ===== *)
theory Msgpack_Streams
  imports Msgpack_Effects Msgpack_Exchange Msgpack_Server
begin

section \<open>Streams of known frames\<close>

text \<open>
  Byte streams that consist of frames with a given property (\<open>framed\<close>): what a side has sent and the other has
  not cut up yet. The loop that cuts frames off keeps the stream framed and its handler sees only such frames.
  \<open>mp_request\<close> and \<open>mp_reply\<close> are the properties of what the client and the server of a session send.
\<close>

definition mp_framing :: "(string \<Rightarrow> bool) \<Rightarrow> string \<Rightarrow> bool" where
  "mp_framing V c \<longleftrightarrow> (\<exists>b. V b \<and> length b < 4294967296 \<and> c = BuildHeader b @ b)"

abbreviation framed :: "(string \<Rightarrow> bool) \<Rightarrow> string \<Rightarrow> bool" where
  "framed V \<equiv> stream_of (mp_framing V)"

lemmas framed_Nil = stream_Nil[where W = "mp_framing V" for V]
lemmas framed_append = stream_append[where W = "mp_framing V" for V]
lemmas framed_concat = stream_concat[where W = "mp_framing V" for V]

lemma framed_one: "V b \<Longrightarrow> length b < 4294967296 \<Longrightarrow> framed V (BuildHeader b @ b)"
  by (rule stream_one) (auto simp: mp_framing_def)

lemma framed_mono: "framed V s \<Longrightarrow> (\<And>b. V b \<Longrightarrow> W b) \<Longrightarrow> framed W s"
  by (erule stream_mono) (auto simp: mp_framing_def)

lemma mp_framing_decodes: "reads_back (mp_next_frame ()) (mp_framing V) (\<lambda>p. V p \<and> length p < 4294967296)"
  by (rule reads_backI) (auto simp: mp_framing_def mp_next_frame_one)

lemmas framed_got = mp_frames.stream_got[OF TrueI mp_framing_decodes]
lemmas framed_consume = mp_frames.stream_consume[OF TrueI mp_framing_decodes]

subsection \<open>What the two sides send\<close>

text \<open>\<open>calls\<close> lists the request ids that the client has given out, with the arguments of the calls. The frames of
  the client are requests of these calls, pings and notifications; those of the server are pongs and responses,
  with the result of the bound handler on the arguments of the call of that id, or with an error text.\<close>

type_synonym 'o issued = "(u64 \<times> 'o mp_call_args) list"

definition mp_request :: "'o msgpack_api \<Rightarrow> 'o issued \<Rightarrow> string \<Rightarrow> bool" where
  "mp_request A calls b \<longleftrightarrow> (\<exists>(i, a)\<in>set calls. b = mp_call_payload A i a) \<or> (\<exists>i. b = mp_ping_payload A i) \<or>
     (\<exists>s m x. b = mp_oneway_payload A s m x)"

definition own_result :: "'o handlers \<Rightarrow> 'o issued \<Rightarrow> u64 \<Rightarrow> 'o \<Rightarrow> bool" where
  "own_result H calls i r \<longleftrightarrow> (\<exists>a f. (i, a) \<in> set calls \<and>
     map_of H (handler_key (mp_service a) (mp_method a)) = Some f \<and> f (mp_args a) = Inr r)"

definition mp_reply :: "'o msgpack_api \<Rightarrow> 'o handlers \<Rightarrow> 'o issued \<Rightarrow> string \<Rightarrow> bool" where
  "mp_reply A H calls b \<longleftrightarrow> (\<exists>h x. b = mp_pack A h x \<and> (mh_msg_type h = Mp_Pong \<or> mh_msg_type h = Mp_Response \<and>
     ((\<exists>r. x = mp_pair A (mp_nil A) r \<and> own_result H calls (mh_request_id h) r) \<or>
      (\<exists>e y. e \<noteq> [] \<and> x = mp_pair A (mp_str A e) y))))"

lemma mp_reply_result:
  "mh_msg_type h = Mp_Response \<Longrightarrow> own_result H calls (mh_request_id h) r \<Longrightarrow>
     mp_reply A H calls (mp_pack A h (mp_pair A (mp_nil A) r))"
  unfolding mp_reply_def by blast

lemma mp_reply_error:
  "mh_msg_type h = Mp_Response \<Longrightarrow> e \<noteq> [] \<Longrightarrow> mp_reply A H calls (mp_pack A h (mp_pair A (mp_str A e) y))"
  unfolding mp_reply_def by blast

lemma own_resultI:
  "(i, a) \<in> set calls \<Longrightarrow> map_of H (handler_key (mp_service a) (mp_method a)) = Some f \<Longrightarrow> f (mp_args a) = Inr r \<Longrightarrow>
     own_result H calls i r"
  unfolding own_result_def by blast

lemma mp_request_mono: "mp_request A calls b \<Longrightarrow> set calls \<subseteq> set calls' \<Longrightarrow> mp_request A calls' b"
  unfolding mp_request_def by blast

lemma own_result_mono: "own_result H calls i r \<Longrightarrow> set calls \<subseteq> set calls' \<Longrightarrow> own_result H calls' i r"
  unfolding own_result_def by blast

lemma mp_reply_mono: "mp_reply A H calls b \<Longrightarrow> set calls \<subseteq> set calls' \<Longrightarrow> mp_reply A H calls' b"
  unfolding mp_reply_def by (elim exE) (metis own_result_mono)

lemma framed_requests: "framed (mp_request A calls) s \<Longrightarrow> set calls \<subseteq> set calls' \<Longrightarrow> framed (mp_request A calls') s"
  by (erule framed_mono) (rule mp_request_mono)

lemma framed_replies: "framed (mp_reply A H calls) s \<Longrightarrow> set calls \<subseteq> set calls' \<Longrightarrow> framed (mp_reply A H calls') s"
  by (erule framed_mono) (rule mp_reply_mono)

subsection \<open>A request at the server\<close>

text \<open>Whatever the server sends for a frame of the client is a reply.\<close>

lemma Dispatch_reply:
  "\<exists>x. mp_response_frame A h (Dispatch H s m args True) =
      BuildHeader (mp_pack A (mp_response_header h) x) @ mp_pack A (mp_response_header h) x \<and>
    ((\<exists>f r. x = mp_pair A (mp_nil A) r \<and> map_of H (handler_key s m) = Some f \<and> f args = Inr r) \<or>
     (\<exists>e y. e \<noteq> [] \<and> x = mp_pair A (mp_str A e) y))"
proof -
  let ?d = "Dispatch H s m args True"
  let ?x = "mp_pair A (if di_error ?d = [] then mp_nil A else mp_str A (di_error ?d))
    (case di_result ?d of None \<Rightarrow> mp_nil A | Some r \<Rightarrow> r)"
  have "mp_response_frame A h ?d =
      BuildHeader (mp_pack A (mp_response_header h) ?x) @ mp_pack A (mp_response_header h) ?x"
    by (simp add: mp_response_frame_def Let_def AppendFrame_def BuildHeader_def)
  moreover have "(\<exists>f r. ?x = mp_pair A (mp_nil A) r \<and> map_of H (handler_key s m) = Some f \<and> f args = Inr r) \<or>
      (\<exists>e y. e \<noteq> [] \<and> ?x = mp_pair A (mp_str A e) y)"
    using Dispatch_error[of H s m args] by (cases "di_error ?d = []") auto
  ultimately show ?thesis by blast
qed

lemma mp_request_answer:
  assumes A: "mp_ok A" and p: "mp_request A calls p" "length p < 4294967296"
    and e: "Mp_sent_to c bytes \<in> set (frame_effects A H (conn, p))"
  shows "c = conn \<and> (\<exists>b. bytes = BuildHeader b @ b \<and> mp_reply A H calls b)"
proof -
  have u: "p = mp_pack A h x \<Longrightarrow> mp_unpack A p = Unpacked h x" for h x using A p(2) by (simp add: mp_ok_def)
  from p(1) consider (call) i a where "(i, a) \<in> set calls" "p = mp_call_payload A i a"
    | (ping) i where "p = mp_ping_payload A i" | (oneway) s m x where "p = mp_oneway_payload A s m x"
    unfolding mp_request_def by blast
  then show ?thesis
  proof cases
    case call
    let ?h = "mp_request_header i (if mp_timeout_ms a < 0 then 0 else mp_timeout_ms a) (mp_service a) (mp_method a)"
    have t: "frame_task A conn p = Some \<lparr>mt_conn = conn, mt_header = ?h, mt_body = mp_args a\<rparr>"
      using u[OF call(2)[unfolded mp_call_payload_def]]
      by (simp add: frame_task_def frame_accepted_def mp_request_header_def new_MsgpackHeader_def)
    with e have s: "c = conn" "bytes = mp_response_frame A ?h (Dispatch H (mp_service a) (mp_method a) (mp_args a) True)"
      by (auto simp: frame_effects_def task_effects_def Let_def mp_request_header_def new_MsgpackHeader_def
          split: if_splits)
    obtain x where x: "bytes = BuildHeader (mp_pack A (mp_response_header ?h) x) @ mp_pack A (mp_response_header ?h) x"
      "(\<exists>f r. x = mp_pair A (mp_nil A) r \<and> map_of H (handler_key (mp_service a) (mp_method a)) = Some f \<and> f (mp_args a) = Inr r) \<or>
       (\<exists>e y. e \<noteq> [] \<and> x = mp_pair A (mp_str A e) y)"
      using Dispatch_reply[of A ?h H "mp_service a" "mp_method a" "mp_args a"] s(2) by blast
    have h: "mh_request_id (mp_response_header ?h) = i" "mh_msg_type (mp_response_header ?h) = Mp_Response"
      by (simp_all add: mp_response_header_def mp_request_header_def)
    from x(2) have "mp_reply A H calls (mp_pack A (mp_response_header ?h) x)"
      using mp_reply_result[OF h(2), of H calls _ A] mp_reply_error[OF h(2), of _ A H calls]
        own_resultI[OF call(1), of H] unfolding h(1) by metis
    with s(1) x(1) show ?thesis by blast
  next
    case ping
    let ?h = "new_MsgpackHeader\<lparr>mh_msg_type := Mp_Pong, mh_request_id := i\<rparr>"
    have "frame_effects A H (conn, p) = [Mp_sent_to conn (AppendFrame [] (mp_pack A ?h (mp_nil A)))]"
      using u[OF ping[unfolded mp_ping_payload_def]]
      by (simp add: frame_effects_def frame_task_def frame_pong_def frame_accepted_def new_MsgpackHeader_def mp_type_defs)
    with e have "c = conn" "bytes = BuildHeader (mp_pack A ?h (mp_nil A)) @ mp_pack A ?h (mp_nil A)"
      by (simp_all add: AppendFrame_def BuildHeader_def)
    moreover have "mp_reply A H calls (mp_pack A ?h (mp_nil A))"
      unfolding mp_reply_def by (intro exI[of _ ?h] exI[of _ "mp_nil A"]) simp
    ultimately show ?thesis by blast
  next
    case oneway
    with e u[OF oneway[unfolded mp_oneway_payload_def]] show ?thesis
      by (simp add: frame_effects_def frame_task_def task_effects_def Let_def frame_accepted_def new_MsgpackHeader_def)
  qed
qed

subsection \<open>A reply at the client\<close>

definition mp_answered :: "(u64 \<Rightarrow> 'o \<Rightarrow> bool) \<Rightarrow> 'o mp_state \<Rightarrow> 'o mp_state \<Rightarrow> bool" where
  "mp_answered G st st' \<longleftrightarrow> (\<exists>es. mc_effects (fst st') = mc_effects (fst st) @ es \<and>
     (\<forall>e\<in>set es. \<not> is_shutdown e \<and> mp_bytes_sent e = None \<and> (\<forall>i r. mp_success e = Some (i, r) \<longrightarrow> G i r)) \<and>
     mc_send_queue (fst st') = mc_send_queue (fst st) \<and> mc_fd (fst st') = mc_fd (fst st) \<and>
     mc_recv_buffer (fst st') = mc_recv_buffer (fst st))"

lemma mp_answered_refl: "mp_answered G st st"
  by (simp add: mp_answered_def)

lemma mp_answered_trans:
  assumes "mp_answered G a b" "mp_answered G b c"
  shows "mp_answered G a c"
proof -
  from assms obtain xs ys where
    "mc_effects (fst b) = mc_effects (fst a) @ xs" "mc_effects (fst c) = mc_effects (fst b) @ ys"
    "\<forall>e\<in>set xs. \<not> is_shutdown e \<and> mp_bytes_sent e = None \<and> (\<forall>i r. mp_success e = Some (i, r) \<longrightarrow> G i r)"
    "\<forall>e\<in>set ys. \<not> is_shutdown e \<and> mp_bytes_sent e = None \<and> (\<forall>i r. mp_success e = Some (i, r) \<longrightarrow> G i r)"
    unfolding mp_answered_def by blast
  with assms show ?thesis unfolding mp_answered_def by (intro exI[of _ "xs @ ys"]) auto
qed

lemma mp_answered_quiet:
  "mc_effects (fst st') = mc_effects (fst st) \<Longrightarrow> mc_send_queue (fst st') = mc_send_queue (fst st) \<Longrightarrow>
     mc_fd (fst st') = mc_fd (fst st) \<Longrightarrow> mc_recv_buffer (fst st') = mc_recv_buffer (fst st) \<Longrightarrow> mp_answered G st st'"
  by (simp add: mp_answered_def)

lemma mp_answered_complete:
  assumes "err = [] \<Longrightarrow> G i r"
  shows "mp_answered G (ch, w) (mp_take_and_complete A i err r ch, w)"
proof (cases "map_of (mc_pending ch) i")
  case None
  then show ?thesis by (simp add: mp_take_and_complete_def mp_answered_refl)
next
  case (Some p)
  let ?ch = "ch\<lparr>mc_pending := AList.delete i (mc_pending ch)\<rparr>"
  obtain e where "mc_effects (mp_CompletePending A i p err r ?ch) = mc_effects ch @ [e]" "\<not> is_shutdown e"
    "mp_bytes_sent e = None" "\<forall>j x. mp_success e = Some (j, x) \<longrightarrow> err = [] \<and> j = i \<and> x = r"
    using mp_CompletePending_emits[of A i p err r ?ch] by auto
  with Some assms show ?thesis
    unfolding mp_answered_def by (intro exI[of _ "[e]"]) (auto simp: mp_take_and_complete_def)
qed

lemma mp_answered_frame:
  assumes A: "mp_ok A" and b: "mp_reply A H calls b" "length b < 4294967296"
    and f: "mp_handle_frame A E b st = (st', go_on)"
  shows "mp_answered (own_result H calls) st st'"
proof -
  obtain ch w where st: "st = (ch, w)" by (cases st)
  from b(1) obtain h x where hx: "b = mp_pack A h x" "mh_msg_type h = Mp_Pong \<or> mh_msg_type h = Mp_Response \<and>
     ((\<exists>r. x = mp_pair A (mp_nil A) r \<and> own_result H calls (mh_request_id h) r) \<or>
      (\<exists>e y. e \<noteq> [] \<and> x = mp_pair A (mp_str A e) y))"
    unfolding mp_reply_def by blast
  have u: "mp_unpack A b = Unpacked h x" using A hx(1) b(2) by (simp add: mp_ok_def)
  have pong: "mp_answered G (ch, w) (mp_ResolveHeartbeat E h (ch, w))" for G
    by (rule mp_answered_quiet) (auto simp: mp_ResolveHeartbeat_def split: prod.splits)
  have resp: "mp_answered (own_result H calls) (ch, w) (mp_handle_response A h x ch, w)"
    if "mh_msg_type h = Mp_Response"
    using hx(2) that A mp_answered_complete[of _ "own_result H calls" "mh_request_id h"]
    by (auto simp: mp_handle_response_def mp_ok_def mp_type_defs)
  from f u hx(2) pong resp show ?thesis
    by (auto simp: st mp_handle_frame_def mp_answered_refl mp_type_defs split: if_splits)
qed

text \<open>A turn of the receive thread on bytes of a stream of replies.\<close>

lemma mp_recv_replies:
  assumes A: "mp_ok A" and stream: "framed (mp_reply A H calls) (mc_recv_buffer (fst st) @ bytes @ later)"
  shows "\<exists>buf st1. mp_recv_bytes A E bytes st = ((fst st1)\<lparr>mc_recv_buffer := buf\<rparr>, snd st1) \<and>
    mp_answered (own_result H calls) st st1 \<and> framed (mp_reply A H calls) (buf @ later)"
proof -
  obtain status buf ch w where c:
    "consume (mp_next_frame ()) (mp_handle_frame A E) (mc_recv_buffer (fst st) @ bytes) st = (status, buf, (ch, w))"
    by (metis prod_cases4)
  have "framed (mp_reply A H calls) (buf @ later) \<and> mp_answered (own_result H calls) st (ch, w) \<and>
      (\<forall>why. status \<noteq> Broken why)"
    by (rule framed_consume[where R = "mp_answered (own_result H calls)", OF mp_answered_refl mp_answered_trans
        mp_answered_frame[OF A] _ c[unfolded consume_def]]) (use stream in simp_all)
  with c show ?thesis by (intro exI[of _ buf] exI[of _ "(ch, w)"]) (simp add: mp_recv_bytes_def)
qed

end
