(* ===== verification/Msgpack_Session.thy ===== *)
theory Msgpack_Session
  imports Msgpack_Streams
begin

section \<open>A msgpack session: client, network and server\<close>

text \<open>
  The composition of a \<open>KrpcMsgpackChannel\<close> with all its threads, the network, and a \<open>KrpcMsgpackProvider\<close> with its
  I/O threads and workers. A state holds the client (\<open>mp_threads\<close>), the server (\<open>mp_server\<close>) and the bytes that are
  under way in either direction of the current connection; TCP delivers them in order and in pieces. A client that
  shuts its connection down or gets another descriptor loses what is under way and goes on with a connection that
  the server has not seen: a pooled descriptor was shut down before it was pooled, so that nothing arrives on it any
  more. Everything else the server receives, from other clients or from connections that were left, is arbitrary.
  \<open>ss_calls\<close> is a history of the calls that were given a request id.
\<close>

record 'o rpc_session =
  ss_client :: "'o mp_threads"
  ss_server :: "'o mp_server"
  ss_conn :: nat
  ss_to_server :: string
  ss_to_client :: string
  ss_calls :: "'o issued"

definition new_session :: "'o mp_state \<Rightarrow> 'o mp_provider \<Rightarrow> nat \<Rightarrow> 'o rpc_session" where
  "new_session st p conn = \<lparr>ss_client = \<lparr>mt_chan = st, mt_callers = []\<rparr>, ss_server = new_mp_server p, ss_conn = conn,
     ss_to_server = [], ss_to_client = [], ss_calls = []\<rparr>"

subsection \<open>Steps\<close>

definition client_news :: "'o mp_threads \<Rightarrow> 'o mp_threads \<Rightarrow> 'o mc_effect list" where
  "client_news t t' = drop (length (mc_effects (fst (mt_chan t)))) (mc_effects (fst (mt_chan t')))"

definition sent_by_client :: "'o mc_effect list \<Rightarrow> string" where
  "sent_by_client es = concat (List.map_filter mp_bytes_sent es)"

definition sent_by_server :: "nat \<Rightarrow> 'o mp_effect list \<Rightarrow> string" where
  "sent_by_server conn es = concat (List.map_filter
     (\<lambda>e. case e of Mp_sent_to c bytes \<Rightarrow> (if c = conn then Some bytes else None) | _ \<Rightarrow> None) es)"

definition keeps_connection :: "'o mp_threads \<Rightarrow> 'o mp_threads \<Rightarrow> bool" where
  "keeps_connection t t' \<longleftrightarrow> mc_fd (fst (mt_chan t')) = mc_fd (fst (mt_chan t)) \<and>
     (\<forall>e\<in>set (client_news t t'). \<not> is_shutdown e)"

text \<open>The client has moved: what it wrote is under way, or the connection is gone. Within a step nothing is written
  after a shutdown, since only the send thread writes, at the start of its turn.\<close>

definition ss_move :: "nat \<Rightarrow> 'o mp_threads \<Rightarrow> 'o rpc_session \<Rightarrow> 'o rpc_session" where
  "ss_move c t' S =
     (if keeps_connection (ss_client S) t'
      then S\<lparr>ss_client := t', ss_to_server := ss_to_server S @ sent_by_client (client_news (ss_client S) t')\<rparr>
      else S\<lparr>ss_client := t', ss_conn := c, ss_to_server := [], ss_to_client := []\<rparr>)"

definition ss_serve :: "'o mp_server \<Rightarrow> 'o rpc_session \<Rightarrow> 'o rpc_session" where
  "ss_serve s' S = S\<lparr>ss_server := s', ss_to_client := ss_to_client S @
     sent_by_server (ss_conn S) (drop (length (mp_effects (ms_provider (ss_server S)))) (mp_effects (ms_provider s')))\<rparr>"

text \<open>The length of a payload has to fit into the four bytes in front of it; the code does not check it.\<close>

definition frames_fit :: "'o mp_threads \<Rightarrow> bool" where
  "frames_fit t \<longleftrightarrow> (\<forall>(h, b)\<in>set (mc_send_queue (fst (mt_chan t))). length b < 4294967296)"

definition replies_fit :: "'o mp_server \<Rightarrow> bool" where
  "replies_fit s \<longleftrightarrow> (\<forall>e\<in>set (mp_effects (ms_provider s)).
     case e of Mp_sent_to c bytes \<Rightarrow> length bytes < 4294967300 | _ \<Rightarrow> True)"

definition unused_conn :: "nat \<Rightarrow> 'o rpc_session \<Rightarrow> bool" where
  "unused_conn c S \<longleftrightarrow> c \<noteq> ss_conn S \<and> c \<notin> fst ` set (ms_frames (ss_server S)) \<and> ms_buffers (ss_server S) c = []"

definition receiving :: "'o mp_threads \<Rightarrow> bool" where
  "receiving t \<longleftrightarrow> (case fst (mt_chan t) of ch \<Rightarrow> \<not> mc_terminated ch \<and> mc_alive ch \<and> mc_running ch \<and> mc_fd ch \<noteq> -1)"

text \<open>\<open>server\<close> is every step of the server but one that puts new bytes into the buffer of the current connection:
  that is \<open>deliver\<close>.\<close>

inductive session_step ::
    "'o msgpack_api \<Rightarrow> net_env \<Rightarrow> discovery \<Rightarrow> 'o rpc_session \<Rightarrow> 'o rpc_session \<Rightarrow> bool" for A E D where
  call: "\<not> mc_terminated (fst (mt_chan t)) \<Longrightarrow> mp_ids_left (mt_chan t) \<Longrightarrow> t = ss_client S \<Longrightarrow>
    mp_prepare_call A E D a (mt_chan t) = (Some r, st') \<Longrightarrow>
    t' = \<lparr>mt_chan = st', mt_callers = Mp_Prepared r # mt_callers t\<rparr> \<Longrightarrow> frames_fit t' \<Longrightarrow> unused_conn c S \<Longrightarrow>
    session_step A E D S ((ss_move c t' S)\<lparr>ss_calls := ss_calls S @ [(mr_request_id r, a)]\<rparr>)"
| own: "mp_own_step A E D (ss_client S) t' \<Longrightarrow> frames_fit t' \<Longrightarrow> unused_conn c S \<Longrightarrow>
    session_step A E D S (ss_move c t' S)"
| receive: "receiving t \<Longrightarrow> t = ss_client S \<Longrightarrow> ss_to_client S = bytes @ rest \<Longrightarrow>
    session_step A E D S (S\<lparr>ss_client := t\<lparr>mt_chan := mp_RecvLoop_turn A E (Mr_data bytes) (mt_chan t)\<rparr>,
      ss_to_client := rest\<rparr>)"
| recv_end: "\<not> mc_terminated (fst (mt_chan t)) \<Longrightarrow> t = ss_client S \<Longrightarrow> ob \<in> {Mr_closed, Mr_eintr, Mr_error} \<Longrightarrow>
    unused_conn c S \<Longrightarrow>
    session_step A E D S (ss_move c (t\<lparr>mt_chan := mp_RecvLoop_turn A E ob (mt_chan t)\<rparr>) S)"
| deliver: "ss_conn S \<notin> fst ` set (ms_waiting (ss_server S)) \<Longrightarrow> \<not> mp_crashed (ms_provider (ss_server S)) \<Longrightarrow>
    ss_to_server S = bytes @ rest \<Longrightarrow> buffers = ms_buffers (ss_server S) \<Longrightarrow>
    session_step A E D S (S\<lparr>ss_server := (ss_server S)\<lparr>ms_buffers := buffers(ss_conn S := buffers (ss_conn S) @ bytes)\<rparr>,
      ss_to_server := rest\<rparr>)"
| server: "mp_server_step A (ss_server S) s' \<Longrightarrow>
    length (ms_buffers s' (ss_conn S)) \<le> length (ms_buffers (ss_server S) (ss_conn S)) \<Longrightarrow> replies_fit s' \<Longrightarrow>
    session_step A E D S (ss_serve s' S)"

text \<open>A session is made of steps of the client and steps of the server, so what is proved of each holds here.\<close>

lemma ss_move_fields [simp]:
  "ss_client (ss_move c t' S) = t'" "ss_server (ss_move c t' S) = ss_server S" "ss_calls (ss_move c t' S) = ss_calls S"
  by (simp_all add: ss_move_def)

lemma ss_move_calls [simp]: "(ss_move c t' S)\<lparr>ss_calls := ss_calls S\<rparr> = ss_move c t' S"
  by (cases S) (simp add: ss_move_def)

lemma ss_serve_fields [simp]:
  "ss_client (ss_serve s' S) = ss_client S" "ss_server (ss_serve s' S) = s'" "ss_calls (ss_serve s' S) = ss_calls S"
  "ss_conn (ss_serve s' S) = ss_conn S" "ss_to_server (ss_serve s' S) = ss_to_server S"
  by (simp_all add: ss_serve_def)

lemma mt_eta:
  "\<lparr>mt_chan = mt_chan t, mt_callers = mt_callers t\<rparr> = t" "t\<lparr>mt_chan := st\<rparr> = \<lparr>mt_chan = st, mt_callers = mt_callers t\<rparr>"
  by (cases t; simp)+

lemma session_step_client:
  assumes "session_step A E D S S'"
  shows "ss_client S' = ss_client S \<or> mp_step A E D (ss_client S) (ss_client S')"
  using assms
proof cases
  case (call t a r st' t' c)
  with mp_step.call[of "mt_chan t" A E D a r st' "mt_callers t"] show ?thesis by (simp add: mt_eta)
next
  case (receive t bytes rest)
  with mp_step.recv[of "mt_chan t" A E D "mt_callers t" "Mr_data bytes"] show ?thesis
    by (simp add: receiving_def mt_eta)
next
  case (recv_end t ob c)
  with mp_step.recv[of "mt_chan t" A E D "mt_callers t" ob] show ?thesis by (simp add: mt_eta)
qed (simp_all add: mp_step.own)

lemma session_step_server:
  "session_step A E D S S' \<Longrightarrow> ss_server S' = ss_server S \<or> mp_server_step A (ss_server S) (ss_server S')"
  by (induction rule: session_step.cases) (simp_all add: mp_server_step.receive)

interpretation session_calls: call_protocol "session_step A E D" "\<lambda>S. mt_view (ss_client S)" "\<lambda>S. mt_ok (ss_client S)"
  for A :: "'o msgpack_api" and E D
proof
  fix S S' :: "'o rpc_session"
  assume "mt_ok (ss_client S)" "session_step A E D S S'"
  with session_step_client[of A E D S S'] show "mt_ok (ss_client S')" "call_step\<^sup>*\<^sup>* (mt_view (ss_client S)) (mt_view (ss_client S'))"
    using msgpack_calls.ok_step msgpack_calls.refines by fastforce+
qed

subsection \<open>What holds at the client\<close>

text \<open>The frames that wait were built from known requests, the results that were given are those of the calls, and a
  client without a connection has an empty buffer.\<close>

definition client_holds :: "'o msgpack_api \<Rightarrow> 'o handlers \<Rightarrow> 'o issued \<Rightarrow> 'o mp_threads \<Rightarrow> bool" where
  "client_holds A H calls t \<longleftrightarrow> mp_phases_ok (mp_request A calls) (mt_callers t) \<and> frames_fit t \<and>
     (case fst (mt_chan t) of ch \<Rightarrow> set (mc_send_queue ch) \<subseteq> mp_queueable (mp_request A calls) \<and>
        (mc_fd ch = -1 \<longrightarrow> mc_recv_buffer ch = []) \<and>
        (\<forall>e\<in>set (mc_effects ch). \<forall>i r. mp_success e = Some (i, r) \<longrightarrow> own_result H calls i r))"

text \<open>What a step of the client means for the connection: it is kept, and only whole requests were written, or it is
  given up with an empty buffer.\<close>

definition client_moves :: "'o msgpack_api \<Rightarrow> 'o issued \<Rightarrow> 'o mp_threads \<Rightarrow> 'o mp_threads \<Rightarrow> bool" where
  "client_moves A calls t t' \<longleftrightarrow>
     (if keeps_connection t t'
      then mc_recv_buffer (fst (mt_chan t')) = mc_recv_buffer (fst (mt_chan t)) \<and>
        framed (mp_request A calls) (sent_by_client (client_news t t'))
      else mc_recv_buffer (fst (mt_chan t')) = [])"

lemma sent_by_client_simps [simp]:
  "sent_by_client [] = []" "sent_by_client (Mc_sent f s # es) = s @ sent_by_client es"
  by (simp_all add: sent_by_client_def List.map_filter_def)

lemma sent_by_client_silent: "\<forall>e\<in>set es. mp_bytes_sent e = None \<Longrightarrow> sent_by_client es = []"
  by (induction es) (simp_all add: sent_by_client_def List.map_filter_def)

lemma client_news_append:
  "mc_effects (fst (mt_chan t')) = mc_effects (fst (mt_chan t)) @ es \<Longrightarrow> client_news t t' = es"
  by (simp add: client_news_def)

lemma mp_queueable_mono: "(\<And>b. V b \<Longrightarrow> W b) \<Longrightarrow> mp_queueable V \<subseteq> mp_queueable W"
  by (auto simp: mp_queueable_def)

lemma client_holds_more:
  assumes "client_holds A H calls t" "set calls \<subseteq> set calls'"
  shows "client_holds A H calls' t"
proof -
  note m = mp_request_mono[OF _ assms(2)]
  have "mp_phases_ok (mp_request A calls') (mt_callers t)"
    using assms(1) m unfolding client_holds_def mp_phases_ok_def by blast
  moreover have "mp_queueable (mp_request A calls) \<subseteq> mp_queueable (mp_request A calls')"
    by (rule mp_queueable_mono) (rule m)
  moreover note own_result_mono[OF _ assms(2), of H]
  ultimately show ?thesis using assms(1) unfolding client_holds_def by (simp only:) blast
qed

lemma client_local:
  assumes c: "client_holds A H calls t" and l: "mp_local (mp_request A calls) (mt_chan t) (mt_chan t')"
    and p: "mp_phases_ok (mp_request A calls) (mt_callers t')" "frames_fit t'"
  shows "client_holds A H calls t' \<and> client_moves A calls t t'"
proof -
  let ?ch = "fst (mt_chan t)" and ?ch' = "fst (mt_chan t')"
  obtain es where es: "mc_effects ?ch' = mc_effects ?ch @ es" "\<forall>e\<in>set es. mp_silent e"
    "set (mc_send_queue ?ch') \<subseteq> set (mc_send_queue ?ch) \<union> mp_queueable (mp_request A calls)"
    "if \<exists>e\<in>set es. is_shutdown e then mc_recv_buffer ?ch' = []
     else mc_recv_buffer ?ch' = mc_recv_buffer ?ch \<and> (mc_fd ?ch' = mc_fd ?ch \<or> mc_fd ?ch = -1)"
    using l unfolding mp_local_def by blast
  have holds: "set (mc_send_queue ?ch) \<subseteq> mp_queueable (mp_request A calls)" "mc_fd ?ch = -1 \<Longrightarrow> mc_recv_buffer ?ch = []"
    "\<forall>e\<in>set (mc_effects ?ch). \<forall>i r. mp_success e = Some (i, r) \<longrightarrow> own_result H calls i r"
    using c by (simp_all add: client_holds_def)
  have "client_holds A H calls t'"
    using holds es p by (auto simp: client_holds_def mp_silent_def split: if_splits)
  moreover have "client_moves A calls t t'"
    using es holds(2) sent_by_client_silent[of es]
    by (auto simp: client_moves_def keeps_connection_def client_news_append[OF es(1)] mp_silent_def framed_Nil split: if_splits)
  ultimately show ?thesis ..
qed

lemma client_breaks:
  assumes c: "client_holds A H calls t" and b: "mp_broken (mt_chan t) (mt_chan t')"
    and p: "mp_phases_ok (mp_request A calls) (mt_callers t')" "frames_fit t'"
  shows "client_holds A H calls t' \<and> client_moves A calls t t'"
proof -
  let ?ch = "fst (mt_chan t)" and ?ch' = "fst (mt_chan t')"
  obtain es where es: "mc_effects ?ch' = mc_effects ?ch @ es" "\<forall>e\<in>set es. mp_success e = None"
    "\<exists>e\<in>set es. is_shutdown e" "set (mc_send_queue ?ch') \<subseteq> set (mc_send_queue ?ch)" "mc_recv_buffer ?ch' = []"
    using b unfolding mp_broken_def by blast
  then have "\<not> keeps_connection t t'" by (simp add: keeps_connection_def client_news_append)
  with es c p show ?thesis by (auto simp: client_moves_def client_holds_def)
qed

lemma client_sends:
  assumes c: "client_holds A H calls t" and q: "mc_send_queue (fst (mt_chan t)) = (h, b) # q"
    and t': "mt_chan t' = (mc_emit [Mc_sent f (h @ b)] ((fst (mt_chan t))\<lparr>mc_send_queue := q\<rparr>), w)"
    and p: "mp_phases_ok (mp_request A calls) (mt_callers t')"
  shows "client_holds A H calls t' \<and> client_moves A calls t t'"
proof -
  have "client_news t t' = [Mc_sent f (h @ b)]" by (rule client_news_append) (simp add: t' mc_emit_def)
  moreover have "framed (mp_request A calls) (h @ b)"
    using c q by (auto simp: client_holds_def frames_fit_def mp_queueable_def intro: framed_one)
  ultimately have "client_moves A calls t t'"
    by (simp add: client_moves_def keeps_connection_def t' mc_emit_def)
  moreover have "client_holds A H calls t'"
    using c q p by (auto simp: client_holds_def frames_fit_def t' mc_emit_def)
  ultimately show ?thesis by simp
qed

lemma client_own_step:
  assumes c: "client_holds A H calls t" and st: "mp_own_step A E D t t'" and fit: "frames_fit t'"
  shows "client_holds A H calls t' \<and> client_moves A calls t t'"
proof -
  have "mp_request A calls (mp_ping_payload A i)" "mp_request A calls (mp_oneway_payload A s m x)" for i s m x
    unfolding mp_request_def by blast+
  with mp_own_step_local[OF st, of "mp_request A calls"] c
  have o: "mp_phases_ok (mp_request A calls) (mt_callers t')" "mp_local (mp_request A calls) (mt_chan t) (mt_chan t') \<or>
      (\<exists>ws. mp_SendLoop_turn A E ws (mt_chan t) = Some (mt_chan t'))"
    by (simp_all add: client_holds_def)
  show ?thesis
  proof (cases "mp_local (mp_request A calls) (mt_chan t) (mt_chan t')")
    case True
    from client_local[OF c this o(1) fit] show ?thesis .
  next
    case False
    with o(2) obtain ws where w: "mp_SendLoop_turn A E ws (fst (mt_chan t), snd (mt_chan t)) = Some (mt_chan t')" by auto
    from w show ?thesis
    proof (cases rule: mp_SendLoop_turn_cases[where V = "mp_request A calls"])
      case (sent h b q)
      from client_sends[OF c sent(1) sent(3) o(1)] show ?thesis .
    next
      case broken
      with client_breaks[OF c _ o(1) fit] show ?thesis by simp
    next
      case unconnected
      with False show ?thesis by simp
    qed
  qed
qed

lemma client_call:
  assumes c: "client_holds A H calls t" and p: "mp_prepare_call A E D a (mt_chan t) = (Some r, st')"
    and t': "t' = \<lparr>mt_chan = st', mt_callers = Mp_Prepared r # mt_callers t\<rparr>" and fit: "frames_fit t'"
    and calls': "calls' = calls @ [(mr_request_id r, a)]"
  shows "client_holds A H calls' t' \<and> client_moves A calls' t t'"
proof -
  have more: "client_holds A H calls' t" by (rule client_holds_more[OF c]) (auto simp: calls')
  have "mp_request A calls' (mr_payload r)"
    using mp_prepare_call_local(2)[OF p refl] unfolding mp_request_def calls' by auto
  with more have "mp_phases_ok (mp_request A calls') (mt_callers t')" by (simp add: client_holds_def t')
  with client_local[OF more _ _ fit] mp_prepare_call_local(1)[OF p] show ?thesis by (simp add: t')
qed

text \<open>The receive thread: bytes of the stream of replies, or the end of the connection.\<close>

lemma client_receive:
  assumes A: "mp_ok A" and c: "client_holds A H calls t" and r: "receiving t"
    and stream: "framed (mp_reply A H calls) (mc_recv_buffer (fst (mt_chan t)) @ bytes @ later)"
    and t': "t' = t\<lparr>mt_chan := mp_RecvLoop_turn A E (Mr_data bytes) (mt_chan t)\<rparr>"
  shows "client_holds A H calls t' \<and> framed (mp_reply A H calls) (mc_recv_buffer (fst (mt_chan t')) @ later)"
proof -
  obtain buf st1 where b: "mp_recv_bytes A E bytes (mt_chan t) = ((fst st1)\<lparr>mc_recv_buffer := buf\<rparr>, snd st1)"
    "mp_answered (own_result H calls) (mt_chan t) st1" "framed (mp_reply A H calls) (buf @ later)"
    using mp_recv_replies[OF A stream] by blast
  have chan: "mt_chan t' = ((fst st1)\<lparr>mc_recv_buffer := buf\<rparr>, snd st1)"
    using r b(1) by (simp add: t' mp_RecvLoop_turn_def receiving_def Let_def)
  with c b(2,3) r t' show ?thesis
    by (auto simp: client_holds_def mp_answered_def frames_fit_def receiving_def)
qed

lemma client_recv_end:
  assumes c: "client_holds A H calls t" and ob: "ob \<in> {Mr_closed, Mr_eintr, Mr_error}"
    and t': "t' = t\<lparr>mt_chan := mp_RecvLoop_turn A E ob (mt_chan t)\<rparr>"
  shows "client_holds A H calls t' \<and> client_moves A calls t t'"
proof -
  obtain ch w where st: "mt_chan t = (ch, w)" by (rule prod.exhaust)
  have same: "client_holds A H calls t \<and> client_moves A calls t t"
    using c by (simp add: client_moves_def client_news_def keeps_connection_def framed_Nil)
  have left: "client_holds A H calls t' \<and> client_moves A calls t t'"
    if e: "mp_RecvLoop_turn A E ob (mt_chan t) = mp_recv_exit A b (ch, w)" "b \<longrightarrow> mc_fd ch \<noteq> -1" for b
  proof -
    obtain ch' w' where x: "mp_recv_exit A b (ch, w) = (ch', w')" by (rule prod.exhaust)
    note f = mp_recv_exit_effects[OF x]
    obtain es where es: "mc_effects ch' = mc_effects ch @ es" "\<forall>e\<in>set es. mp_failing e" using f(1) by blast
    have chan': "mt_chan t' = (ch', w')" "mt_callers t' = mt_callers t" using e(1) x by (simp_all add: t')
    have news: "client_news t t' = es" by (rule client_news_append) (simp add: chan' st es)
    have "client_moves A calls t t'"
      using e(2) es f(2,3) sent_by_client_silent[of es]
      by (auto simp: client_moves_def keeps_connection_def news chan' st mp_failing_def mp_silent_def framed_Nil)
    moreover have "client_holds A H calls t'"
      using c es f(2-4)
      by (auto simp: client_holds_def frames_fit_def chan' st mp_failing_def mp_silent_def split: if_splits)
    ultimately show ?thesis by simp
  qed
  have "t' = t" if "mp_RecvLoop_turn A E ob (mt_chan t) = mt_chan t"
    unfolding t' that by (cases t) simp
  moreover have "mp_RecvLoop_turn A E ob (mt_chan t) = mt_chan t \<or>
      mp_RecvLoop_turn A E ob (mt_chan t) = mp_recv_exit A False (ch, w) \<or>
      mc_fd ch \<noteq> -1 \<and> mp_RecvLoop_turn A E ob (mt_chan t) = mp_recv_exit A True (ch, w)"
    using ob by (auto simp: st mp_RecvLoop_turn_def Let_def)
  ultimately show ?thesis using left[of False] left[of True] same by metis
qed

lemma ss_move_kept:
  "mc_effects (fst (mt_chan t')) = mc_effects (fst (mt_chan (ss_client S))) @ es \<Longrightarrow>
     mc_fd (fst (mt_chan t')) = mc_fd (fst (mt_chan (ss_client S))) \<Longrightarrow> \<forall>e\<in>set es. \<not> is_shutdown e \<Longrightarrow>
     ss_move c t' S = S\<lparr>ss_client := t', ss_to_server := ss_to_server S @ sent_by_client es\<rparr>"
  by (simp add: ss_move_def keeps_connection_def client_news_append)

lemma sent_by_server_simps [simp]:
  "sent_by_server c [] = []" "sent_by_server c (Mp_called sv m x # es) = sent_by_server c es"
  "sent_by_server c (Mp_sent_to k bytes # es) = (if k = c then bytes else []) @ sent_by_server c es"
  by (simp_all add: sent_by_server_def List.map_filter_def)

subsection \<open>What holds at the server\<close>

definition server_holds :: "'o msgpack_api \<Rightarrow> 'o handlers \<Rightarrow> 'o issued \<Rightarrow> nat \<Rightarrow> string \<Rightarrow> 'o mp_server \<Rightarrow> bool" where
  "server_holds A H calls conn under_way s \<longleftrightarrow> answered_ok A H s \<and>
     (\<forall>p. (conn, p) \<in> set (ms_frames s) \<longrightarrow> mp_request A calls p \<and> length p < 4294967296) \<and>
     framed (mp_request A calls) (ms_buffers s conn @ under_way)"

lemma server_holds_more:
  assumes "server_holds A H calls conn u s" "set calls \<subseteq> set calls'"
  shows "server_holds A H calls' conn u s"
  using assms(1) mp_request_mono[OF _ assms(2)] framed_requests[OF _ assms(2)]
  unfolding server_holds_def by simp

text \<open>Whatever was sent on the connection is a reply: by \<open>answered_ok\<close> it answers a frame of the connection.\<close>

lemma answered_set: "e \<in> set (mp_effects (ms_provider s)) \<Longrightarrow> is_answer e \<Longrightarrow> answered_ok A H s \<Longrightarrow>
    \<exists>f\<in>set (ms_frames s). e \<in> set (frame_effects A H f)"
proof -
  assume e: "e \<in> set (mp_effects (ms_provider s))" "is_answer e" and ok: "answered_ok A H s"
  from e have "e \<in># mset (filter is_answer (mp_effects (ms_provider s))) + answers_of (task_effects A H) (tasks_held s)"
    by simp
  with ok have "e \<in># answers_of (frame_effects A H) (ms_frames s)" by (simp add: answered_ok_def)
  then show ?thesis by (simp add: answers_of_def)
qed

lemma frame_effects_conn: "Mp_sent_to c bytes \<in> set (frame_effects A H (conn, p)) \<Longrightarrow> c = conn"
  by (auto simp: frame_effects_def task_effects_def frame_task_def frame_pong_def Let_def
      split: option.splits unpacked.splits if_splits)

lemma server_sent_replies:
  assumes A: "mp_ok A" and s: "server_holds A H calls conn u s" "replies_fit s"
    and e: "Mp_sent_to conn bytes \<in> set (mp_effects (ms_provider s))"
  shows "framed (mp_reply A H calls) bytes"
proof -
  obtain c p where f: "(c, p) \<in> set (ms_frames s)" "Mp_sent_to conn bytes \<in> set (frame_effects A H (c, p))"
    using answered_set[OF e, of A H] s(1) by (auto simp: server_holds_def)
  note c = frame_effects_conn[OF f(2)]
  then have p: "mp_request A calls p" "length p < 4294967296" using f(1) s(1) by (auto simp: server_holds_def)
  from mp_request_answer[OF A p f(2)] obtain b where b: "bytes = BuildHeader b @ b" "mp_reply A H calls b" by blast
  have "length bytes < 4294967300" using e s(2) by (auto simp: replies_fit_def)
  then have "length b < 4294967296" by (simp add: b(1) BuildHeader_def)
  with framed_one[of "mp_reply A H calls" b] b show ?thesis by simp
qed

lemma server_sent_framed:
  assumes "mp_ok A" "server_holds A H calls conn u s" "replies_fit s" "set es \<subseteq> set (mp_effects (ms_provider s))"
  shows "framed (mp_reply A H calls) (sent_by_server conn es)"
  unfolding sent_by_server_def
proof (rule framed_concat)
  fix bytes
  assume "bytes \<in> set (List.map_filter
     (\<lambda>e. case e of Mp_sent_to c bytes \<Rightarrow> (if c = conn then Some bytes else None) | _ \<Rightarrow> None) es)"
  then have "Mp_sent_to conn bytes \<in> set (mp_effects (ms_provider s))"
    using assms(4) by (auto simp: List.map_filter_def split: mp_effect.splits if_splits)
  from server_sent_replies[OF assms(1-3) this] show "framed (mp_reply A H calls) bytes" .
qed

text \<open>A step of the server on its own.\<close>

lemma server_keeps:
  assumes s: "server_holds A H calls conn u s" and st: "mp_server_step A s s'"
    and quiet: "length (ms_buffers s' conn) \<le> length (ms_buffers s conn)"
  shows "server_holds A H calls conn u s'"
proof -
  have ok: "answered_ok A H s'" using answered_ok_step[OF st] s by (simp add: server_holds_def)
  from st show ?thesis
  proof cases
    case (receive c bytes)
    with quiet have "ms_buffers s' conn = ms_buffers s conn" by (auto split: if_splits)
    with ok s receive(1) show ?thesis by (simp add: server_holds_def)
  next
    case (frame c payload n now ts k p' go_on)
    have fr: "ms_frames s' = ms_frames s @ [(c, payload)]"
      "ms_buffers s' = (ms_buffers s)(c := drop n (ms_buffers s c))"
      by (simp_all add: frame(1) mp_settle_def)
    show ?thesis
    proof (cases "c = conn")
      case True
      with s framed_got[OF _ frame(4)[unfolded True], of "mp_request A calls" u] ok fr show ?thesis
        by (auto simp: server_holds_def)
    next
      case False
      with s ok fr show ?thesis by (auto simp: server_holds_def)
    qed
  qed (use ok s in \<open>auto simp: server_holds_def\<close>)
qed

subsection \<open>The invariant\<close>

definition session_ok :: "'o msgpack_api \<Rightarrow> 'o handlers \<Rightarrow> 'o rpc_session \<Rightarrow> bool" where
  "session_ok A H S \<longleftrightarrow> mt_ok (ss_client S) \<and> client_holds A H (ss_calls S) (ss_client S) \<and>
     server_holds A H (ss_calls S) (ss_conn S) (ss_to_server S) (ss_server S) \<and>
     framed (mp_reply A H (ss_calls S)) (mc_recv_buffer (fst (mt_chan (ss_client S))) @ ss_to_client S)"

text \<open>The client has moved.\<close>

lemma session_move:
  assumes ok: "session_ok A H S" and t': "mt_ok t'" "client_holds A H calls t'" "client_moves A calls (ss_client S) t'"
    and more: "set (ss_calls S) \<subseteq> set calls" and c: "unused_conn c S"
  shows "session_ok A H ((ss_move c t' S)\<lparr>ss_calls := calls\<rparr>)"
proof -
  let ?t = "ss_client S"
  have s: "server_holds A H calls (ss_conn S) (ss_to_server S) (ss_server S)"
    using ok server_holds_more[OF _ more] by (simp add: session_ok_def)
  have r: "framed (mp_reply A H calls) (mc_recv_buffer (fst (mt_chan ?t)) @ ss_to_client S)"
    using ok framed_replies[OF _ more] by (simp add: session_ok_def)
  show ?thesis
  proof (cases "keeps_connection ?t t'")
    case True
    with s r t' framed_append[of "mp_request A calls" _ "sent_by_client (client_news ?t t')"] show ?thesis
      by (simp add: session_ok_def ss_move_def client_moves_def server_holds_def) (metis append.assoc)
  next
    case False
    with s t' c show ?thesis
      by (auto simp: session_ok_def ss_move_def client_moves_def server_holds_def unused_conn_def framed_Nil
          image_iff)
  qed
qed

lemma session_step_ok:
  assumes A: "mp_ok A" and st: "session_step A E D S S'" and ok: "session_ok A H S"
  shows "session_ok A H S'"
proof -
  have t': "mt_ok (ss_client S')" using session_calls.ok_step[OF _ st] ok by (simp add: session_ok_def)
  have c: "client_holds A H (ss_calls S) (ss_client S)" using ok by (simp add: session_ok_def)
  from st show ?thesis
  proof cases
    case (call t a r st' t1 k)
    note m = client_call[OF c call(5)[unfolded call(4)] call(6)[unfolded call(4)] call(7) refl]
    from session_move[OF ok _ conjunct1[OF m] conjunct2[OF m] _ call(8)] t' show ?thesis by (auto simp: call(1))
  next
    case (own t1 k)
    note m = client_own_step[OF c own(2,3)]
    from session_move[OF ok _ conjunct1[OF m] conjunct2[OF m] subset_refl own(4)] t' show ?thesis by (simp add: own(1))
  next
    case (receive t bytes rest)
    from ok receive(4) have "framed (mp_reply A H (ss_calls S)) (mc_recv_buffer (fst (mt_chan t)) @ bytes @ rest)"
      by (simp add: session_ok_def receive(3))
    from client_receive[OF A c[folded receive(3)] receive(2) this refl, where E = E] ok t' show ?thesis
      by (simp add: session_ok_def receive(1))
  next
    case (recv_end t ob k)
    note m = client_recv_end[OF c recv_end(4) refl, where E = E]
    from session_move[OF ok _ conjunct1[OF m] conjunct2[OF m] subset_refl recv_end(5)] t' recv_end(3) show ?thesis
      by (simp add: recv_end(1))
  next
    case (deliver bytes rest buffers)
    have "answered_ok A H (ss_server S')"
      using ok answered_ok_step[OF mp_server_step.receive[OF deliver(2,3)]]
      by (simp add: session_ok_def server_holds_def deliver)
    with ok t' show ?thesis by (simp add: session_ok_def server_holds_def deliver)
  next
    case (server s')
    have s: "server_holds A H (ss_calls S) (ss_conn S) (ss_to_server S) s'"
      using server_keeps[OF _ server(2,3)] ok by (simp add: session_ok_def)
    let ?es = "drop (length (mp_effects (ms_provider (ss_server S)))) (mp_effects (ms_provider s'))"
    have "framed (mp_reply A H (ss_calls S)) (sent_by_server (ss_conn S) ?es)"
      by (rule server_sent_framed[OF A s server(4)]) (rule set_drop_subset)
    with ok s t' framed_append[of "mp_reply A H (ss_calls S)" "_ @ _" "sent_by_server (ss_conn S) ?es"] show ?thesis
      by (simp add: session_ok_def ss_serve_def server(1))
  qed
qed

lemma session_steps_ok:
  "(session_step A E D)\<^sup>*\<^sup>* S S' \<Longrightarrow> mp_ok A \<Longrightarrow> session_ok A H S \<Longrightarrow> session_ok A H S'"
  by (induction rule: rtranclp_induct) (auto intro: session_step_ok)

subsection \<open>Request ids are not given out twice\<close>

definition calls_fresh :: "'o rpc_session \<Rightarrow> bool" where
  "calls_fresh S \<longleftrightarrow> distinct (map fst (ss_calls S)) \<and>
     (\<forall>i\<in>set (map fst (ss_calls S)). i < g_request_id (snd (mt_chan (ss_client S))))"

lemma calls_fresh_step:
  assumes st: "session_step A E D S S'" and ok: "mt_ok (ss_client S)" and f: "calls_fresh S"
  shows "calls_fresh S'"
proof -
  have mono: "g_request_id (snd (mt_chan (ss_client S))) \<le> g_request_id (snd (mt_chan (ss_client S')))"
    using call_step_next[OF session_calls.refines[OF ok st]] by (simp add: mt_view_def mp_view_def)
  from st show ?thesis
  proof cases
    case (call t a r st' t1 k)
    have "mp_wf (mt_chan t)" using ok call(4) by (simp add: mt_ok_def)
    from mp_prepare_cases[OF this call(5)] obtain ch w where p: "mp_drained (mt_chan t) (ch, w)"
      "mr_request_id r = g_request_id w" "st' = (ch, snd (NextRequestId w))" by blast
    have w: "g_request_id w = g_request_id (snd (mt_chan t))" using p(1) by (auto simp: mp_drained_def)
    note succ = word_less_succ[OF call(3)[unfolded mp_ids_left_def]]
    have "ss_calls S' = ss_calls S @ [(g_request_id (snd (mt_chan t)), a)]"
      "g_request_id (snd (mt_chan (ss_client S'))) = g_request_id (snd (mt_chan t)) + 1"
      by (simp_all add: call(1) p(2,3) w NextRequestId_def call(6))
    with f succ call(4) show ?thesis by (auto simp: calls_fresh_def)
  qed (use f mono in \<open>auto simp: calls_fresh_def intro: less_le_trans\<close>)
qed

lemma calls_fresh_steps:
  "(session_step A E D)\<^sup>*\<^sup>* S S' \<Longrightarrow> mt_ok (ss_client S) \<Longrightarrow> calls_fresh S \<Longrightarrow> calls_fresh S'"
proof (induction rule: rtranclp_induct)
  case (step y z)
  then have "mt_ok (ss_client y)" using session_calls.run by blast
  with step calls_fresh_step show ?case by blast
qed simp

subsection \<open>The start\<close>

lemma session_start:
  assumes "mp_task_queue p = []" "mp_waiting_task p = None" "mp_effects p = []"
  shows "session_ok A (mp_dispatcher p) (new_session (new_KrpcMsgpackChannel E cfg addr w) p conn) \<and>
    calls_fresh (new_session (new_KrpcMsgpackChannel E cfg addr w) p conn) \<and>
    cv_ok (mt_view (ss_client (new_session (new_KrpcMsgpackChannel E cfg addr w :: 'o mp_state) p conn)))"
proof -
  obtain ch w1 where c: "new_KrpcMsgpackChannel E cfg addr w = (ch :: 'o mp_channel, w1)" by (rule prod.exhaust)
  then have f: "mc_pending ch = []" "mc_send_queue ch = []" "mc_recv_buffer ch = []" "mc_effects ch = []"
    by (auto simp: new_KrpcMsgpackChannel_def config_mp_channel_def Let_def split: prod.splits option.splits)
  have "mt_ok \<lparr>mt_chan = (ch, w1), mt_callers = []\<rparr>"
    using f by (simp add: mt_ok_def mp_wf_def mt_view_def mp_view_def cv_ok_def mp_allocated_def List.map_filter_def)
  with f answered_ok_new[OF assms, of A] show ?thesis
    by (simp add: session_ok_def new_session_def c client_holds_def server_holds_def frames_fit_def framed_Nil
        new_mp_server_def calls_fresh_def mt_ok_def)
qed

end
