(* ===== verification/Msgpack_Lifecycle.thy ===== *)
theory Msgpack_Lifecycle
  imports Msgpack_Threads
begin

section \<open>The msgpack client: starting and stopping its threads\<close>

text \<open>
  The model of the \<open>Start...Thread\<close> and \<open>Stop...Thread\<close> operations of \<open>KrpcMsgpackChannel\<close> for the
  heartbeat, the timeout and the send thread, and of the whole destructor. Of a thread only the flag
  \<open>..._thread_started\<close> is kept. Unlike the protobuf client the send loop ends as soon as it is told to:
  the queue is thrown away, but for at most one frame that the thread took when it was woken up, for which
  \<open>final\<close> has the answers of \<open>writev\<close>. The result is \<open>None\<close> when it never comes back from \<open>writev\<close>.
\<close>

record mp_thread_flags =
  heartbeat_thread_started :: bool
  timeout_thread_started :: bool
  send_thread_started :: bool

definition mp_StartHeartbeatThread :: "mp_thread_flags \<Rightarrow> mp_thread_flags" where
  "mp_StartHeartbeatThread t = (if heartbeat_thread_started t then t else t\<lparr>heartbeat_thread_started := True\<rparr>)"

definition mp_StartTimeoutThread :: "mp_thread_flags \<Rightarrow> mp_thread_flags" where
  "mp_StartTimeoutThread t = (if timeout_thread_started t then t else t\<lparr>timeout_thread_started := True\<rparr>)"

definition mp_StartSendThread :: "mp_thread_flags \<Rightarrow> mp_thread_flags" where
  "mp_StartSendThread t = (if send_thread_started t then t else t\<lparr>send_thread_started := True\<rparr>)"

text \<open>The constructor starts these three; the receive thread is started by \<open>EnsureConnection\<close>.\<close>

definition mp_start_threads :: mp_thread_flags where
  "mp_start_threads = mp_StartSendThread (mp_StartTimeoutThread (mp_StartHeartbeatThread
     \<lparr>heartbeat_thread_started = False, timeout_thread_started = False, send_thread_started = False\<rparr>))"

definition mp_StopTimeoutThread :: "mp_thread_flags \<times> 'o mp_state \<Rightarrow> mp_thread_flags \<times> 'o mp_state" where
  "mp_StopTimeoutThread s =
     (case s of (t, st) \<Rightarrow> if \<not> timeout_thread_started t then (t, st) else (t\<lparr>timeout_thread_started := False\<rparr>, st))"

text \<open>A heartbeat in progress ends its wait; its result is not looked at any more.\<close>

definition mp_StopHeartbeatThread :: "mp_thread_flags \<times> 'o mp_state \<Rightarrow> mp_thread_flags \<times> 'o mp_state" where
  "mp_StopHeartbeatThread s =
     (case s of (t, st) \<Rightarrow>
        if \<not> heartbeat_thread_started t then (t, st)
        else (t\<lparr>heartbeat_thread_started := False\<rparr>, snd (mp_SendHeartbeat_finish st)))"

definition mp_StopSendThread ::
    "'o msgpack_api \<Rightarrow> net_env \<Rightarrow> writev_result list option \<Rightarrow> mp_thread_flags \<times> 'o mp_state \<Rightarrow>
     (mp_thread_flags \<times> 'o mp_state) option" where
  "mp_StopSendThread A E final s =
     (case s of (t, st) \<Rightarrow>
        if \<not> send_thread_started t then Some (t, st)
        else map_option (\<lambda>(ch, w). (t\<lparr>send_thread_started := False\<rparr>, (ch\<lparr>mc_send_queue := []\<rparr>, w)))
               (case final of
                  None \<Rightarrow> Some st
                | Some ws \<Rightarrow> if mc_send_queue (fst st) = [] then Some st else mp_SendLoop_turn A E ws st))"

definition destroy_KrpcMsgpackChannel ::
    "'o msgpack_api \<Rightarrow> net_env \<Rightarrow> writev_result list option \<Rightarrow> mp_thread_flags \<times> 'o mp_state \<Rightarrow>
     (mp_thread_flags \<times> 'o mp_state) option" where
  "destroy_KrpcMsgpackChannel A E final s =
     map_option (\<lambda>(t, st). (t, delete_KrpcMsgpackChannel A E st))
       (mp_StopSendThread A E final (mp_StopHeartbeatThread (mp_StopTimeoutThread s)))"

subsection \<open>What the destructor does\<close>

lemma mp_start_threads_all:
  "mp_start_threads = \<lparr>heartbeat_thread_started = True, timeout_thread_started = True, send_thread_started = True\<rparr>"
  by (simp add: mp_start_threads_def mp_StartSendThread_def mp_StartTimeoutThread_def mp_StartHeartbeatThread_def)

lemma mp_drained_finish: "mp_wf st \<Longrightarrow> mp_drained st (snd (mp_SendHeartbeat_finish st))"
  by (cases st) (auto simp: mp_SendHeartbeat_finish_def intro: mp_drained_refl mp_drained_same)

lemma mp_drained_StopSendThread:
  assumes "mp_StopSendThread A E final (t, st) = Some (t', st')" "mp_wf st"
  shows "mp_drained st st'"
proof -
  have clear: "mp_drained st (ch\<lparr>mc_send_queue := []\<rparr>, w)" if "mp_drained st (ch, w)" for ch w
    using mp_drained_trans[OF that mp_drained_same[OF mp_drained_wf[OF that], of "(ch\<lparr>mc_send_queue := []\<rparr>, w)"]]
    by simp
  from assms(1) have "st' = st \<or> (\<exists>ch w. st' = (ch\<lparr>mc_send_queue := []\<rparr>, w) \<and>
      ((ch, w) = st \<or> (\<exists>ws. mp_SendLoop_turn A E ws st = Some (ch, w))))"
    by (cases st) (auto simp: mp_StopSendThread_def split: if_splits option.splits)
  then show ?thesis
    using mp_drained_refl[OF assms(2)] mp_drained_SendLoop_turn[OF assms(2)] clear by metis
qed

lemma delete_drains:
  assumes "mp_wf st"
  shows "mp_drained st (delete_KrpcMsgpackChannel A E st) \<and> mc_pending (fst (delete_KrpcMsgpackChannel A E st)) = []"
proof -
  let ?st0 = "((fst st)\<lparr>mc_send_queue := []\<rparr>, snd st)"
  have d0: "mp_drained st ?st0" by (rule mp_drained_same[OF assms]) simp_all
  note d1 = mp_drained_trans[OF d0 mp_drained_StopRecvThread[OF mp_drained_wf[OF d0], of A]]
  let ?st1 = "mp_StopRecvThread A ?st0"
  obtain h st2 where h: "mp_healthy E ?st1 = (h, st2)" by (rule prod.exhaust)
  note d2 = mp_drained_trans[OF d1 mp_drained_healthy[OF mp_drained_wf[OF d1] h]]
  note d3 = mp_drained_trans[OF d2 mp_drained_ReleaseConnection[OF mp_drained_wf[OF d2], of E h]]
  obtain ch3 w3 where r: "(if mc_fd (fst ?st1) \<noteq> -1 then mp_ReleaseConnection E h st2 else ?st1) = (ch3, w3)"
    by (rule prod.exhaust)
  have d: "mp_drained st (ch3, w3)" using r d1 d3 by (metis (full_types))
  from mp_drained_trans[OF d mp_drained_FailAllPending[OF mp_drained_wf[OF d], of A "''channel closed''"]] r h
  show ?thesis
    by (auto simp: delete_KrpcMsgpackChannel_def FailAllPending_def mp_complete_all_frame split: if_splits)
qed

lemma destroy_completes_all:
  assumes "destroy_KrpcMsgpackChannel A E final (mp_start_threads, st) = Some (t', st')" "mp_wf st"
  shows "mc_pending (fst st') = []"
    "\<exists>ids. mp_completed_ids (mc_effects (fst st')) = mp_completed_ids (mc_effects (fst st)) @ ids \<and>
       distinct ids \<and> set ids = fst ` set (mc_pending (fst st))"
proof -
  let ?st1 = "snd (mp_SendHeartbeat_finish st)"
  note d1 = mp_drained_finish[OF assms(2)]
  obtain t2 st2 where s2: "mp_StopSendThread A E final (mp_start_threads\<lparr>timeout_thread_started := False,
      heartbeat_thread_started := False\<rparr>, ?st1) = Some (t2, st2)" "st' = delete_KrpcMsgpackChannel A E st2"
    using assms(1)
    by (auto simp: destroy_KrpcMsgpackChannel_def mp_StopTimeoutThread_def mp_StopHeartbeatThread_def mp_start_threads_all)
  note d2 = mp_drained_trans[OF d1 mp_drained_StopSendThread[OF s2(1) mp_drained_wf[OF d1]]]
  note del = delete_drains[OF mp_drained_wf[OF d2], of A E]
  with s2(2) show e: "mc_pending (fst st') = []" by simp
  from mp_drained_trans[OF d2 conjunct1[OF del]] s2(2) e show
    "\<exists>ids. mp_completed_ids (mc_effects (fst st')) = mp_completed_ids (mc_effects (fst st)) @ ids \<and>
       distinct ids \<and> set ids = fst ` set (mc_pending (fst st))"
    by (auto simp: mp_drained_def empty_filter_conv)
qed

end
