(* ===== verification/Msgpack_Endpoints.thy ===== *)
theory Msgpack_Endpoints
  imports Endpoint_Discovery Connection_Pool "HOL-Library.While_Combinator"
begin

section \<open>The msgpack client's own copy of discovery and pool\<close>

text \<open>
  \<open>Krpcmsgpack_channel.cc\<close> has its own endpoint cache, address parser, static list, connection pool and
  cooldown table, in an anonymous namespace. This theory models them closer to the data structures than
  the theories \<open>Endpoint_Discovery\<close> and \<open>Connection_Pool\<close>: hash maps are functions, the idle
  connections of an address are a deque whose back is the last element, \<open>ParseEndpoint\<close> writes into its
  argument, and the loop over the static list is a \<open>while\<close>. The lemmas show that they compute the same, so
  the model of the msgpack client uses the other theories. A process that uses both clients has two of
  each of these tables.
\<close>

subsection \<open>The endpoint cache\<close>

type_synonym cache_map = "string \<rightharpoonup> EndpointCacheEntry"

definition mp_TryGetCachedEndpoints :: "string \<Rightarrow> nanos \<Rightarrow> cache_map \<Rightarrow> Endpoint list option \<times> cache_map" where
  "mp_TryGetCachedEndpoints key now cache =
     (case cache key of
        None \<Rightarrow> (None, cache)
      | Some entry \<Rightarrow>
          if now \<ge> expire_at entry then (None, cache(key := None)) else (Some (ce_endpoints entry), cache))"

definition mp_StoreCachedEndpoints :: "string \<Rightarrow> Endpoint list \<Rightarrow> nanos \<Rightarrow> cache_map \<Rightarrow> cache_map" where
  "mp_StoreCachedEndpoints key endpoints now cache =
     (if endpoints = [] then cache
      else cache(key \<mapsto> \<lparr>ce_endpoints = endpoints, expire_at = now + kEndpointCacheTtl\<rparr>))"

lemma mp_TryGet_same:
  "TryGetCachedEndpoints key now c = (r, c') \<Longrightarrow> mp_TryGetCachedEndpoints key now (map_of c) = (r, map_of c')"
  by (auto simp: TryGetCachedEndpoints_def mp_TryGetCachedEndpoints_def AList.delete_conv'
      split: option.splits if_splits)

lemma mp_Store_same:
  "mp_StoreCachedEndpoints key eps now (map_of c) = map_of (StoreCachedEndpoints key eps now c)"
  by (simp add: StoreCachedEndpoints_def mp_StoreCachedEndpoints_def AList.update_conv')

subsection \<open>Addresses and the static list\<close>

text \<open>The argument keeps the host of an address that is refused later.\<close>

definition mp_ParseEndpoint :: "string \<Rightarrow> Endpoint \<Rightarrow> bool \<times> Endpoint" where
  "mp_ParseEndpoint addr out =
     (case str_find addr CHR '':'' 0 of
        None \<Rightarrow> (False, out)
      | Some pos \<Rightarrow>
          (let out1 = out\<lparr>host := substr addr 0 pos\<rparr>
           in case stoi (drop (pos + 1) addr) of
                Inl _ \<Rightarrow> (False, out1)
              | Inr n \<Rightarrow> (let out2 = out1\<lparr>port := word_of_int n\<rparr> in (port out2 \<noteq> 0, out2))))"

definition fresh_endpoint :: Endpoint where
  "fresh_endpoint = mk_endpoint [] 0"

lemma mp_ParseEndpoint_same:
  "mp_ParseEndpoint addr fresh_endpoint = (b, ep) \<Longrightarrow>
     ParseEndpoint addr = (if b then Some ep else None)"
  by (auto simp: mp_ParseEndpoint_def ParseEndpoint_def fresh_endpoint_def mk_endpoint_def Let_def
      split: option.splits sum.splits if_splits)

text \<open>One turn of the loop of \<open>InitStaticEndpoints\<close>; \<open>break\<close> moves to the end.\<close>

definition mp_static_turn :: "string \<Rightarrow> nat \<times> Endpoint list \<Rightarrow> nat \<times> Endpoint list" where
  "mp_static_turn lst st =
     (case st of (start, endpoints) \<Rightarrow>
        (let comma = str_find lst CHR '','' start;
             token = substr lst start (case comma of None \<Rightarrow> length lst | Some c \<Rightarrow> c - start)
         in case mp_ParseEndpoint token fresh_endpoint of
              (ok, ep) \<Rightarrow>
                (let endpoints' = (if ok then endpoints @ [ep] else endpoints)
                 in case comma of None \<Rightarrow> (length lst, endpoints') | Some c \<Rightarrow> (c + 1, endpoints'))))"

definition mp_InitStaticEndpoints :: "string option \<Rightarrow> Endpoint list" where
  "mp_InitStaticEndpoints env_list =
     (case env_list of
        None \<Rightarrow> []
      | Some lst \<Rightarrow> snd (while (\<lambda>st. fst st < length lst) (mp_static_turn lst) (0, [])))"

lemma mp_static_while:
  "snd (while (\<lambda>st. fst st < length lst) (mp_static_turn lst) (start, acc)) = static_loop lst start acc"
proof (induction lst start acc rule: static_loop.induct)
  case (1 lst start acc)
  show ?case
  proof (cases "start < length lst")
    case False
    then show ?thesis by (simp add: while_unfold static_loop.simps[of lst start])
  next
    case True
    define comma where "comma = str_find lst CHR '','' start"
    define token where "token = substr lst start (case comma of None \<Rightarrow> length lst | Some c \<Rightarrow> c - start)"
    obtain ok ep where p: "mp_ParseEndpoint token fresh_endpoint = (ok, ep)" by (rule prod.exhaust)
    define acc' where "acc' = (if ok then acc @ [ep] else acc)"
    have a: "(case ParseEndpoint token of Some ep \<Rightarrow> acc @ [ep] | None \<Rightarrow> acc) = acc'"
      using mp_ParseEndpoint_same[OF p] by (simp add: acc'_def)
    have acc': "(if ok then acc @ [ep] else acc) = acc'" by (simp add: acc'_def)
    have turn: "mp_static_turn lst (start, acc) = (case comma of None \<Rightarrow> (length lst, acc') | Some c \<Rightarrow> (c + 1, acc'))"
      using p by (simp only: mp_static_turn_def prod.case comma_def[symmetric] token_def[symmetric] Let_def acc')
    have loop: "static_loop lst start acc = (case comma of None \<Rightarrow> acc' | Some c \<Rightarrow> static_loop lst (c + 1) acc')"
      using True by (simp only: static_loop.simps[of lst start] if_True comma_def[symmetric] token_def[symmetric] Let_def a)
    have "snd (while (\<lambda>st. fst st < length lst) (mp_static_turn lst) (c + 1, acc')) = static_loop lst (c + 1) acc'"
      if "comma = Some c" for c
      using "1.IH"[OF True comma_def token_def a[symmetric] that] .
    with turn loop True show ?thesis
      by (cases comma) (simp_all add: while_unfold[of _ _ "(start, acc)"] while_unfold[of _ _ "(length lst, acc')"])
  qed
qed

lemma mp_InitStatic_same: "mp_InitStaticEndpoints = InitStaticEndpoints"
  by (rule ext) (simp add: mp_InitStaticEndpoints_def InitStaticEndpoints_def mp_static_while split: option.split)

subsection \<open>Asking ZooKeeper\<close>

definition mp_push_parsed :: "Endpoint list \<Rightarrow> string \<Rightarrow> Endpoint list" where
  "mp_push_parsed endpoints addr =
     (case mp_ParseEndpoint addr fresh_endpoint of (ok, ep) \<Rightarrow> if ok then endpoints @ [ep] else endpoints)"

definition mp_QueryServiceNodes ::
    "(string \<Rightarrow> string list) \<Rightarrow> (string \<Rightarrow> string) \<Rightarrow> string \<Rightarrow> string \<Rightarrow> Endpoint list" where
  "mp_QueryServiceNodes children data service_name method_name =
     (let path = ''/'' @ service_name @ ''/'' @ method_name;
          endpoints = foldl mp_push_parsed [] (children path)
      in if endpoints = [] then mp_push_parsed [] (data path) else endpoints)"

lemma mp_push_parsed_same:
  "mp_push_parsed eps addr = eps @ (case ParseEndpoint addr of None \<Rightarrow> [] | Some ep \<Rightarrow> [ep])"
proof -
  obtain b ep where "mp_ParseEndpoint addr fresh_endpoint = (b, ep)" by (rule prod.exhaust)
  from this mp_ParseEndpoint_same[OF this] show ?thesis by (simp add: mp_push_parsed_def)
qed

lemma mp_push_all_same: "foldl mp_push_parsed eps addrs = eps @ List.map_filter ParseEndpoint addrs"
  by (induction addrs arbitrary: eps) (auto simp: mp_push_parsed_same List.map_filter_def split: option.split)

lemma mp_QueryServiceNodes_same: "mp_QueryServiceNodes = QueryServiceNodes"
  by (intro ext) (simp add: mp_QueryServiceNodes_def QueryServiceNodes_def method_path_def mp_push_all_same
      mp_push_parsed_same Let_def split: option.split)

subsection \<open>The cooldown table\<close>

text \<open>The result and \<open>next_retry\<close>, which stays what it was for an unknown endpoint.\<close>

definition mp_EndpointAvailable :: "Endpoint \<Rightarrow> nanos \<Rightarrow> nanos \<Rightarrow> (string \<rightharpoonup> nanos) \<Rightarrow> bool \<times> nanos" where
  "mp_EndpointAvailable ep now next_retry fail_states =
     (case fail_states (host ep @ '':'' @ nat_to_string (unat (port ep))) of
        None \<Rightarrow> (True, next_retry)
      | Some retry_at \<Rightarrow> (now \<ge> retry_at, retry_at))"

definition mp_MarkEndpointFailure ::
    "int \<Rightarrow> nanos \<Rightarrow> Endpoint \<Rightarrow> (string \<rightharpoonup> nanos) \<Rightarrow> (string \<rightharpoonup> nanos)" where
  "mp_MarkEndpointFailure cooldown_ms now ep fail_states =
     fail_states(host ep @ '':'' @ nat_to_string (unat (port ep)) \<mapsto> now + milliseconds cooldown_ms)"

definition mp_ClearEndpointFailure :: "Endpoint \<Rightarrow> (string \<rightharpoonup> nanos) \<Rightarrow> (string \<rightharpoonup> nanos)" where
  "mp_ClearEndpointFailure ep fail_states =
     fail_states(host ep @ '':'' @ nat_to_string (unat (port ep)) := None)"

lemma mp_EndpointAvailable_same:
  "mp_EndpointAvailable ep now d (map_of fs) =
     (case EndpointAvailable ep now fs of (b, r) \<Rightarrow> (b, case r of None \<Rightarrow> d | Some t \<Rightarrow> t))"
  by (simp add: mp_EndpointAvailable_def EndpointAvailable_def endpoint_key_def split: option.split)

lemma mp_Mark_same:
  "mp_MarkEndpointFailure cd now ep (map_of fs) = map_of (MarkEndpointFailure cd now ep fs)"
  by (simp add: mp_MarkEndpointFailure_def MarkEndpointFailure_def endpoint_key_def AList.update_conv')

lemma mp_Clear_same: "mp_ClearEndpointFailure ep (map_of fs) = map_of (ClearEndpointFailure ep fs)"
  by (simp add: mp_ClearEndpointFailure_def ClearEndpointFailure_def endpoint_key_def AList.delete_conv')

subsection \<open>The pool\<close>

type_synonym pool_map = "string \<rightharpoonup> fd list"

function mp_pop_healthy :: "net_env \<Rightarrow> fd list \<Rightarrow> os \<Rightarrow> fd option \<times> fd list \<times> os" where
  "mp_pop_healthy E idle s =
     (if idle = [] then (None, [], s)
      else (let f = last idle; idle' = butlast idle
            in case IsConnectionHealthy E f s of
                 (True, s') \<Rightarrow> (Some f, idle', s')
               | (False, s') \<Rightarrow> mp_pop_healthy E idle' (os_close f s')))"
  by pat_completeness auto
termination by (relation "measure (\<lambda>(E, idle, s). length idle)") auto

declare mp_pop_healthy.simps [simp del]

definition mp_Pool_Acquire ::
    "net_env \<Rightarrow> string \<Rightarrow> string \<Rightarrow> u16 \<Rightarrow> pool_map \<Rightarrow> os \<Rightarrow> (string + fd) \<times> bool \<times> pool_map \<times> os" where
  "mp_Pool_Acquire E key ip p ps s =
     (case (case ps key of
              None \<Rightarrow> (None, ps, s)
            | Some idle \<Rightarrow> (case mp_pop_healthy E idle s of (f, rest, s') \<Rightarrow> (f, ps(key \<mapsto> rest), s'))) of
        (Some f, ps', s') \<Rightarrow> (Inr f, True, ps', s')
      | (None, ps', s') \<Rightarrow> (case CreateConnectionFd E ip p s' of (r, s'') \<Rightarrow> (r, False, ps', s'')))"

definition mp_Pool_Release :: "net_env \<Rightarrow> string \<Rightarrow> fd \<Rightarrow> nat \<Rightarrow> pool_map \<Rightarrow> os \<Rightarrow> pool_map \<times> os" where
  "mp_Pool_Release E key f max_idle ps s =
     (if f = -1 then (ps, s)
      else (case IsConnectionHealthy E f s of
              (healthy, s') \<Rightarrow>
                if \<not> healthy then (ps, os_close f s')
                else (let idle = (case ps key of None \<Rightarrow> [] | Some i \<Rightarrow> i)
                      in if length idle \<ge> max_idle then (ps(key \<mapsto> idle), os_close f s')
                         else (ps(key \<mapsto> idle @ [f]), s'))))"

text \<open>A deque is the reversal of the stack of the other theory.\<close>

definition pool_view :: "pools \<Rightarrow> pool_map" where
  "pool_view ps = (\<lambda>key. map_option rev (map_of ps key))"

lemma pool_view_update: "(pool_view ps)(key \<mapsto> rev xs) = pool_view (AList.update key xs ps)"
  by (rule ext) (simp add: pool_view_def AList.update_conv')

lemma mp_pop_healthy_same:
  "pop_healthy E idle s = (r, rest, s') \<Longrightarrow> mp_pop_healthy E (rev idle) s = (r, rev rest, s')"
proof (induction E idle s rule: pop_healthy.induct)
  case (1 E s)
  then show ?case by (simp add: mp_pop_healthy.simps)
next
  case (2 E f idle s)
  obtain b s1 where h: "IsConnectionHealthy E f s = (b, s1)" by (rule prod.exhaust)
  with 2 show ?case by (cases b) (auto simp: mp_pop_healthy.simps[of E "_ @ [f]"] Let_def)
qed

lemma mp_Acquire_same:
  "Pool_Acquire E key ip p ps s = (r, b, ps', s') \<Longrightarrow>
     mp_Pool_Acquire E key ip p (pool_view ps) s = (r, b, pool_view ps', s')"
proof -
  assume a: "Pool_Acquire E key ip p ps s = (r, b, ps', s')"
  show ?thesis
  proof (cases "map_of ps key")
    case None
    with a show ?thesis
      by (auto simp: Pool_Acquire_def mp_Pool_Acquire_def pool_view_def split: prod.splits)
  next
    case (Some idle)
    obtain f rest s1 where p: "pop_healthy E idle s = (f, rest, s1)" by (metis prod_cases3)
    have v: "pool_view ps key = Some (rev idle)" using Some by (simp add: pool_view_def)
    from a Some p v mp_pop_healthy_same[OF p] show ?thesis
      by (cases f) (auto simp: Pool_Acquire_def mp_Pool_Acquire_def pool_view_update split: prod.splits)
  qed
qed

lemma mp_Release_same:
  "Pool_Release E key f n ps s = (ps', s') \<Longrightarrow>
     mp_Pool_Release E key f n (pool_view ps) s = (pool_view ps', s')"
proof -
  assume a: "Pool_Release E key f n ps s = (ps', s')"
  let ?idle = "case map_of ps key of None \<Rightarrow> [] | Some i \<Rightarrow> i"
  have v: "(case pool_view ps key of None \<Rightarrow> [] | Some i \<Rightarrow> i) = rev ?idle"
    by (simp add: pool_view_def split: option.split)
  obtain b s1 where h: "IsConnectionHealthy E f s = (b, s1)" by (rule prod.exhaust)
  from a h show ?thesis
    using pool_view_update[of ps key "f # ?idle"] pool_view_update[of ps key ?idle]
    by (cases b) (auto simp: Pool_Release_def mp_Pool_Release_def Let_def v split: if_splits)
qed

text \<open>Any sequence of uses of the pool.\<close>

datatype pool_use = Use_acquire string string u16 | Use_release string fd nat

fun use_pool :: "net_env \<Rightarrow> pool_use list \<Rightarrow> pools \<Rightarrow> os \<Rightarrow> (string + fd) list \<times> pools \<times> os" where
  "use_pool E [] ps s = ([], ps, s)"
| "use_pool E (Use_acquire key ip p # us) ps s =
     (case Pool_Acquire E key ip p ps s of
        (r, b, ps', s') \<Rightarrow> (case use_pool E us ps' s' of (rs, ps'', s'') \<Rightarrow> (r # rs, ps'', s'')))"
| "use_pool E (Use_release key f n # us) ps s = (case Pool_Release E key f n ps s of (ps', s') \<Rightarrow> use_pool E us ps' s')"

fun mp_use_pool :: "net_env \<Rightarrow> pool_use list \<Rightarrow> pool_map \<Rightarrow> os \<Rightarrow> (string + fd) list \<times> pool_map \<times> os" where
  "mp_use_pool E [] ps s = ([], ps, s)"
| "mp_use_pool E (Use_acquire key ip p # us) ps s =
     (case mp_Pool_Acquire E key ip p ps s of
        (r, b, ps', s') \<Rightarrow> (case mp_use_pool E us ps' s' of (rs, ps'', s'') \<Rightarrow> (r # rs, ps'', s'')))"
| "mp_use_pool E (Use_release key f n # us) ps s =
     (case mp_Pool_Release E key f n ps s of (ps', s') \<Rightarrow> mp_use_pool E us ps' s')"

lemma mp_use_pool_same:
  "use_pool E us ps s = (rs, ps', s') \<Longrightarrow> mp_use_pool E us (pool_view ps) s = (rs, pool_view ps', s')"
proof (induction E us ps s arbitrary: rs rule: use_pool.induct)
  case (2 E key ip p us ps s)
  obtain r b ps1 s1 where a: "Pool_Acquire E key ip p ps s = (r, b, ps1, s1)" by (metis prod_cases4)
  obtain rs1 ps2 s2 where u: "use_pool E us ps1 s1 = (rs1, ps2, s2)" by (metis prod_cases3)
  from 2 a u mp_Acquire_same[OF a] show ?case by auto
next
  case (3 E key f n us ps s)
  obtain ps1 s1 where a: "Pool_Release E key f n ps s = (ps1, s1)" by (rule prod.exhaust)
  from 3 a mp_Release_same[OF a] show ?case by auto
qed simp

subsection \<open>Sockets and configuration integers\<close>

text \<open>The copies of \<open>ParseConfigInt\<close>, \<open>CreateConnectionFd\<close> and \<open>IsConnectionHealthy\<close>, the last as one condition.\<close>

definition mp_ParseConfigInt :: "string \<Rightarrow> int \<Rightarrow> int" where
  "mp_ParseConfigInt value default_value =
     (case value of [] \<Rightarrow> default_value | _ \<Rightarrow> (case stoi value of Inr n \<Rightarrow> n | Inl _ \<Rightarrow> default_value))"

definition mp_CreateConnectionFd :: "net_env \<Rightarrow> string \<Rightarrow> u16 \<Rightarrow> os \<Rightarrow> (string + fd) \<times> os" where
  "mp_CreateConnectionFd E ip p s =
     (let t = os_tick s; clientfd = fresh_fd (os_open s); s1 = s\<lparr>os_tick := Suc t\<rparr>;
          s2 = s1\<lparr>os_open := clientfd # os_open s1\<rparr>
      in if env_socket_ok E t
         then (if env_connect_ok E t ip p then (Inr clientfd, s2) else (Inl (env_errtxt E t), os_close clientfd s2))
         else (Inl (env_errtxt E t), s1))"

definition mp_IsConnectionHealthy :: "net_env \<Rightarrow> fd \<Rightarrow> os \<Rightarrow> bool \<times> os" where
  "mp_IsConnectionHealthy E f s =
     (if f = -1 then (False, s)
      else (let o' = env_poll E (os_tick s) f
            in (po_rc o' \<ge> 0 \<and> \<not> po_err o' \<and>
                  \<not> (po_in o' \<and> (po_peek o' = 0 \<or> po_peek o' < 0 \<and> \<not> po_again o')),
                s\<lparr>os_tick := Suc (os_tick s)\<rparr>)))"

lemma mp_sockets_same:
  "mp_ParseConfigInt = ParseConfigInt" "mp_CreateConnectionFd = CreateConnectionFd"
  "mp_IsConnectionHealthy = IsConnectionHealthy"
  by (auto simp: fun_eq_iff mp_ParseConfigInt_def ParseConfigInt_def mp_CreateConnectionFd_def CreateConnectionFd_def
      mp_IsConnectionHealthy_def IsConnectionHealthy_def Let_def split: list.splits sum.splits)

end
