(* ===== verification/Msgpack_Objects.thy ===== *)
theory Msgpack_Objects
  imports Msgpack_Wire
begin

section \<open>Objects and typed values of the msgpack calls\<close>

text \<open>
  The msgpack objects that the program builds and reads, and the conversions between them and C++ values,
  as the copy of the msgpack library under \<open>src/third_party/rpc\<close> defines them (\<open>adaptor/int.hpp\<close>,
  \<open>bool.hpp\<close>, \<open>string.hpp\<close>, \<open>cpp11/tuple.hpp\<close> and \<open>detail/cpp11_define_array.hpp\<close>). \<open>PosInt\<close> and \<open>NegInt\<close>
  are the two integer kinds of the library, \<open>NegInt n\<close> for the number \<open>-1 - n\<close>, so that each object has one
  encoding. \<open>Opaque\<close> stands for the kinds that no type of the program accepts (floats, maps, extensions).
  The byte format stays a parameter (\<open>mp_codec\<close>); with the objects it gives a \<open>msgpack_api\<close> that has the
  laws \<open>mp_ok\<close>.
\<close>

datatype mp_object =
    NIL
  | Boolean bool
  | PosInt u64
  | NegInt "63 word"
  | Str string
  | Bin string
  | Array "mp_object list"
  | Opaque nat

text \<open>The types of arguments and results: integers with a sign and a width, structs with \<open>MSGPACK_DEFINE\<close> and
  tuples, which convert alike, and \<open>msgpack::object\<close> itself.\<close>

datatype cpp_type = CBool | CInt bool nat | CString | CObject | CTuple "cpp_type list"

datatype cpp_value = VBool bool | VInt int | VString string | VObject mp_object | VTuple "cpp_value list"

fun int_fits :: "bool \<Rightarrow> nat \<Rightarrow> int \<Rightarrow> bool" where
  "int_fits True w i \<longleftrightarrow> 1 \<le> w \<and> w \<le> 64 \<and> - (2 ^ (w - 1)) \<le> i \<and> i < 2 ^ (w - 1)"
| "int_fits False w i \<longleftrightarrow> 1 \<le> w \<and> w \<le> 64 \<and> 0 \<le> i \<and> i < 2 ^ w"

fun has_type :: "cpp_value \<Rightarrow> cpp_type \<Rightarrow> bool" and has_types :: "cpp_value list \<Rightarrow> cpp_type list \<Rightarrow> bool" where
  "has_type (VBool b) T \<longleftrightarrow> T = CBool"
| "has_type (VInt i) T \<longleftrightarrow> (case T of CInt s w \<Rightarrow> int_fits s w i | _ \<Rightarrow> False)"
| "has_type (VString s) T \<longleftrightarrow> T = CString"
| "has_type (VObject x) T \<longleftrightarrow> T = CObject"
| "has_type (VTuple vs) T \<longleftrightarrow> (case T of CTuple Ts \<Rightarrow> has_types vs Ts | _ \<Rightarrow> False)"
| "has_types [] Ts \<longleftrightarrow> Ts = []"
| "has_types (v # vs) Ts \<longleftrightarrow> (case Ts of [] \<Rightarrow> False | T # Ts' \<Rightarrow> has_type v T \<and> has_types vs Ts')"

text \<open>Value initialisation, which is what the declaration of the arguments tuple does.\<close>

fun default_value :: "cpp_type \<Rightarrow> cpp_value" where
  "default_value CBool = VBool False"
| "default_value (CInt s w) = VInt 0"
| "default_value CString = VString []"
| "default_value CObject = VObject NIL"
| "default_value (CTuple Ts) = VTuple (map default_value Ts)"

text \<open>Types whose integers have a width the language has.\<close>

fun type_ok :: "cpp_type \<Rightarrow> bool" where
  "type_ok (CInt s w) \<longleftrightarrow> 1 \<le> w \<and> w \<le> 64"
| "type_ok (CTuple Ts) \<longleftrightarrow> list_all type_ok Ts"
| "type_ok T \<longleftrightarrow> True"

subsection \<open>Conversions\<close>

definition int_object :: "int \<Rightarrow> mp_object" where
  "int_object i = (if i < 0 then NegInt (word_of_int (- 1 - i)) else PosInt (word_of_int i))"

fun object_of :: "cpp_value \<Rightarrow> mp_object" where
  "object_of (VBool b) = Boolean b"
| "object_of (VInt i) = int_object i"
| "object_of (VString s) = Str s"
| "object_of (VObject x) = x"
| "object_of (VTuple vs) = Array (map object_of vs)"

text \<open>\<open>convert_integer\<close>: \<open>None\<close> is a \<open>type_error\<close>.\<close>

fun convert_integer :: "bool \<Rightarrow> nat \<Rightarrow> mp_object \<Rightarrow> int option" where
  "convert_integer s w (PosInt u) = (if uint u > (if s then 2 ^ (w - 1) - 1 else 2 ^ w - 1) then None else Some (uint u))"
| "convert_integer True w (NegInt n) = (if - 1 - uint n < - (2 ^ (w - 1)) then None else Some (- 1 - uint n))"
| "convert_integer s w x = None"

text \<open>\<open>convert\<close> overwrites a value. The elements of an array that are missing leave the old ones, the elements
  that are too many are ignored.\<close>

fun convert :: "cpp_type \<Rightarrow> mp_object \<Rightarrow> cpp_value \<Rightarrow> cpp_value option"
  and convert_elements :: "cpp_type list \<Rightarrow> mp_object list \<Rightarrow> cpp_value list \<Rightarrow> cpp_value list option" where
  "convert CBool x v = (case x of Boolean b \<Rightarrow> Some (VBool b) | _ \<Rightarrow> None)"
| "convert (CInt s w) x v = map_option VInt (convert_integer s w x)"
| "convert CString x v = (case x of Str s \<Rightarrow> Some (VString s) | Bin s \<Rightarrow> Some (VString s) | _ \<Rightarrow> None)"
| "convert CObject x v = Some (VObject x)"
| "convert (CTuple Ts) x v =
     (case x of
        Array xs \<Rightarrow> (case v of VTuple vs \<Rightarrow> map_option VTuple (convert_elements Ts xs vs) | _ \<Rightarrow> None)
      | _ \<Rightarrow> None)"
| "convert_elements (T # Ts) (x # xs) (v # vs) =
     (case convert T x v of None \<Rightarrow> None | Some v' \<Rightarrow> map_option (\<lambda>vs'. v' # vs') (convert_elements Ts xs vs))"
| "convert_elements Ts xs vs = Some vs"

subsection \<open>Conversions and types\<close>

lemma has_types_list_all2: "has_types vs Ts = list_all2 has_type vs Ts"
  by (induction vs arbitrary: Ts) (auto split: list.splits)

lemma int_fits_range: "int_fits s w i \<Longrightarrow> - (2 ^ 63) \<le> i \<and> i < 2 ^ 64"
proof -
  assume f: "int_fits s w i"
  then have w: "1 \<le> w" "w \<le> 64" by (cases s; simp)+
  then have "(2::int) ^ (w - 1) \<le> 2 ^ 63" "(2::int) ^ w \<le> 2 ^ 64" by (intro power_increasing; simp)+
  moreover have "(0::int) < 2 ^ 63" "(2::int) ^ 63 < 2 ^ 64" by simp_all
  moreover have "if s then - (2 ^ (w - 1)) \<le> i \<and> i < 2 ^ (w - 1) else 0 \<le> i \<and> i < 2 ^ w"
    using f by (cases s) simp_all
  ultimately show ?thesis by (cases s) (simp_all only: if_True if_False, linarith+)
qed

lemma convert_integer_object: "int_fits s w i \<Longrightarrow> convert_integer s w (int_object i) = Some i"
proof (cases "i < 0")
  case neg: True
  assume f: "int_fits s w i"
  with neg have s: "s = True" by (cases s) auto
  from int_fits_range[OF f] neg have "uint (word_of_int (- 1 - i) :: 63 word) = - 1 - i"
    by (simp add: word_of_int_inverse[where 'a = 63])
  with f neg s show ?thesis by (auto simp: int_object_def)
next
  case nonneg: False
  assume f: "int_fits s w i"
  from int_fits_range[OF f] nonneg have "uint (word_of_int i :: u64) = i"
    by (simp add: word_of_int_inverse[where 'a = 64])
  with f nonneg show ?thesis by (cases s) (auto simp: int_object_def)
qed

lemma convert_integer_fits:
  "convert_integer s w x = Some i \<Longrightarrow> 1 \<le> w \<Longrightarrow> w \<le> 64 \<Longrightarrow> int_fits s w i"
proof (cases x)
  case (PosInt u)
  have "- (2 ^ (w - 1)) \<le> (0::int)" by simp
  then have "- (2 ^ (w - 1)) \<le> uint u" using uint_ge_0[of u] by linarith
  moreover assume "convert_integer s w x = Some i" "1 \<le> w" "w \<le> 64"
  ultimately show ?thesis using PosInt by (cases s) (auto split: if_splits)
next
  case (NegInt n)
  have "(0::int) < 2 ^ (w - 1)" by simp
  then have "- 1 - uint n < 2 ^ (w - 1)" using uint_ge_0[of n] by linarith
  moreover assume "convert_integer s w x = Some i" "1 \<le> w" "w \<le> 64"
  ultimately show ?thesis using NegInt by (cases s) (auto split: if_splits)
qed auto

text \<open>A value of a type survives the conversion to an object and back.\<close>

lemma convert_object_of:
  "has_type v T \<Longrightarrow> has_type v0 T \<Longrightarrow> convert T (object_of v) v0 = Some v"
  "has_types vs Ts \<Longrightarrow> has_types vs0 Ts \<Longrightarrow> convert_elements Ts (map object_of vs) vs0 = Some vs"
proof (induction v T and vs Ts arbitrary: v0 and vs0 rule: has_type_has_types.induct)
  case (5 vs T)
  then show ?case by (cases v0) (auto split: cpp_type.splits)
next
  case (6 Ts)
  then show ?case by (cases vs0) auto
next
  case (7 v vs Ts)
  then show ?case by (cases vs0) (auto split: list.splits)
qed (auto simp: convert_integer_object split: cpp_type.splits)

text \<open>What a conversion yields has the type that was asked for.\<close>

lemma convert_has_type:
  "convert T x v0 = Some v \<Longrightarrow> has_type v0 T \<Longrightarrow> type_ok T \<Longrightarrow> has_type v T"
  "convert_elements Ts xs vs0 = Some vs \<Longrightarrow> has_types vs0 Ts \<Longrightarrow> list_all type_ok Ts \<Longrightarrow> has_types vs Ts"
proof (induction T x v0 and Ts xs vs0 arbitrary: v and vs rule: convert_convert_elements.induct)
  case (5 Ts x v0)
  then show ?case by (cases v0; cases x) auto
next
  case (6 T Ts x xs v0 vs0)
  then show ?case by (auto split: option.splits)
qed (auto simp: convert_integer_fits split: mp_object.splits)

lemma default_has_type: "type_ok T \<Longrightarrow> has_type (default_value T) T"
proof (induction T)
  case (CInt s w)
  then show ?case by (cases s) simp_all
next
  case (CTuple Ts)
  then show ?case by (simp add: has_types_list_all2 list_all2_map1 list_all2_same list_all_iff)
qed simp_all

lemma default_has_types: "list_all type_ok Ts \<Longrightarrow> has_types (map default_value Ts) Ts"
  using default_has_type[of "CTuple Ts"] by simp

subsection \<open>The library with these objects\<close>

record mp_codec =
  co_pack :: "mp_object \<Rightarrow> string"
  co_unpack :: "string \<Rightarrow> mp_object option"

text \<open>The law of the byte format: a document of less than 4 GiB that was packed unpacks to the same object.
  \<open>None\<close> of \<open>co_unpack\<close> is an exception.\<close>

definition codec_ok :: "mp_codec \<Rightarrow> bool" where
  "codec_ok c \<longleftrightarrow> (\<forall>x. length (co_pack c x) < 4294967296 \<longrightarrow> co_unpack c (co_pack c x) = Some x)"

text \<open>\<open>MSGPACK_DEFINE\<close> of the header lists its fields in this order.\<close>

definition header_type :: cpp_type where
  "header_type = CTuple [CInt False 32, CInt False 32, CInt False 8, CInt False 64, CInt False 32, CString, CString]"

definition header_value :: "MsgpackHeader \<Rightarrow> cpp_value" where
  "header_value h = VTuple [VInt (uint (mh_magic h)), VInt (uint (mh_version h)), VInt (uint (mh_msg_type h)),
     VInt (uint (mh_request_id h)), VInt (uint (mh_timeout_ms h)), VString (mh_service_name h), VString (mh_method_name h)]"

fun the_int :: "cpp_value \<Rightarrow> int" where
  "the_int (VInt i) = i"
| "the_int v = 0"

fun the_string :: "cpp_value \<Rightarrow> string" where
  "the_string (VString s) = s"
| "the_string v = []"

definition value_header :: "cpp_value \<Rightarrow> MsgpackHeader option" where
  "value_header v =
     (case v of
        VTuple vs \<Rightarrow>
          (if length vs = 7
           then Some \<lparr>mh_magic = word_of_int (the_int (vs ! 0)), mh_version = word_of_int (the_int (vs ! 1)),
             mh_msg_type = word_of_int (the_int (vs ! 2)), mh_request_id = word_of_int (the_int (vs ! 3)),
             mh_timeout_ms = word_of_int (the_int (vs ! 4)), mh_service_name = the_string (vs ! 5),
             mh_method_name = the_string (vs ! 6)\<rparr>
           else None)
      | _ \<Rightarrow> None)"

text \<open>\<open>oh.get().convert(frame)\<close> for a frame of a header and an object; the header starts from its member
  initialisers.\<close>

definition frame_of_object :: "mp_object \<Rightarrow> mp_object unpacked" where
  "frame_of_object x =
     (case convert (CTuple [header_type, CObject]) x (VTuple [header_value new_MsgpackHeader, VObject NIL]) of
        Some (VTuple [h, VObject body]) \<Rightarrow>
          (case value_header h of None \<Rightarrow> Convert_throws | Some hdr \<Rightarrow> Unpacked hdr body)
      | _ \<Rightarrow> Convert_throws)"

definition object_api :: "mp_codec \<Rightarrow> mp_object msgpack_api" where
  "object_api c = \<lparr>mp_unpack = (\<lambda>s. case co_unpack c s of None \<Rightarrow> Unpack_throws | Some x \<Rightarrow> frame_of_object x),
     mp_pack = (\<lambda>h x. co_pack c (Array [object_of (header_value h), x])), mp_nil = NIL, mp_str = Str,
     mp_pair = (\<lambda>x y. Array [x, y]),
     mp_as_pair = (\<lambda>x. case convert (CTuple [CObject, CObject]) x (VTuple [VObject NIL, VObject NIL]) of
        Some (VTuple [VObject a, VObject b]) \<Rightarrow> Some (a, b) | _ \<Rightarrow> None),
     mp_is_nil = (\<lambda>x. x = NIL),
     mp_as_str = (\<lambda>x. case convert CString x (VString []) of Some (VString s) \<Rightarrow> Some s | _ \<Rightarrow> None)\<rparr>"

lemma header_has_type: "has_type (header_value h) header_type"
  using uint_bounded[of "mh_magic h"] uint_bounded[of "mh_version h"] uint_bounded[of "mh_msg_type h"]
    uint_bounded[of "mh_request_id h"] uint_bounded[of "mh_timeout_ms h"]
  by (simp add: header_value_def header_type_def)

lemma value_header_value: "value_header (header_value h) = Some h"
  by (simp add: header_value_def value_header_def)

lemma frame_of_object_pack: "frame_of_object (Array [object_of (header_value h), x]) = Unpacked h x"
  using convert_object_of(1)[OF header_has_type header_has_type, of h new_MsgpackHeader]
  by (simp add: frame_of_object_def value_header_value)

lemma object_api_ok: "codec_ok c \<Longrightarrow> mp_ok (object_api c)"
  by (simp add: mp_ok_def object_api_def codec_ok_def frame_of_object_pack)

end
