(* ===== verification/Msgpack_Instance.thy ===== *)
theory Msgpack_Instance
  imports Msgpack_Objects
begin

section \<open>A concrete msgpack library\<close>

text \<open>
  An instance of \<open>msgpack_api\<close> that satisfies \<open>mp_ok\<close>: objects are trees of nil, strings and pairs with a
  prefix code. It shows that the laws can hold and lets the witnesses run the model. The wire format of the
  real library is not the point: nothing in the model depends on it.
\<close>

datatype mobj = MNil | MStr string | MPair mobj mobj

fun enc_str :: "string \<Rightarrow> string" where
  "enc_str [] = ''e''"
| "enc_str (c # s) = CHR ''c'' # c # enc_str s"

fun dec_str :: "string \<Rightarrow> (string \<times> string) option" where
  "dec_str [] = None"
| "dec_str [c] = (if c = CHR ''e'' then Some ([], []) else None)"
| "dec_str (c # d # s) =
     (if c = CHR ''e'' then Some ([], d # s)
      else if c = CHR ''c'' then map_option (\<lambda>(t, r). (d # t, r)) (dec_str s)
      else None)"

lemma dec_enc_str: "dec_str (enc_str s @ r) = Some (s, r)"
  by (induction s) (cases r, auto)

fun enc :: "mobj \<Rightarrow> string" where
  "enc MNil = ''n''"
| "enc (MStr s) = CHR ''s'' # enc_str s"
| "enc (MPair a b) = CHR ''p'' # enc a @ enc b"

fun dec :: "nat \<Rightarrow> string \<Rightarrow> (mobj \<times> string) option" where
  "dec 0 s = None"
| "dec (Suc n) [] = None"
| "dec (Suc n) (c # s) =
     (if c = CHR ''n'' then Some (MNil, s)
      else if c = CHR ''s'' then map_option (\<lambda>(t, r). (MStr t, r)) (dec_str s)
      else if c = CHR ''p''
      then (case dec n s of
              None \<Rightarrow> None
            | Some (a, r) \<Rightarrow> map_option (\<lambda>(b, r'). (MPair a b, r')) (dec n r))
      else None)"

lemma dec_enc: "length (enc x) \<le> n \<Longrightarrow> dec n (enc x @ r) = Some (x, r)"
proof (induction x arbitrary: n r)
  case MNil
  then show ?case by (cases n) auto
next
  case (MStr s)
  then show ?case by (cases n) (auto simp: dec_enc_str)
next
  case (MPair a b)
  then show ?case by (cases n) auto
qed

text \<open>A number is the string of its decimal digits, a header the list of its fields.\<close>

definition mnum :: "nat \<Rightarrow> mobj" where "mnum n = MStr (nat_to_string n)"

definition header_obj :: "MsgpackHeader \<Rightarrow> mobj" where
  "header_obj h =
     MPair (MPair (mnum (unat (mh_magic h))) (mnum (unat (mh_version h))))
       (MPair (MPair (mnum (unat (mh_msg_type h))) (mnum (unat (mh_request_id h))))
         (MPair (mnum (unat (mh_timeout_ms h))) (MPair (MStr (mh_service_name h)) (MStr (mh_method_name h)))))"

fun obj_header :: "mobj \<Rightarrow> MsgpackHeader option" where
  "obj_header (MPair (MPair (MStr a) (MStr b)) (MPair (MPair (MStr c) (MStr d)) (MPair (MStr e) (MPair (MStr s) (MStr m))))) =
     Some \<lparr>mh_magic = of_nat (digits_value a), mh_version = of_nat (digits_value b),
           mh_msg_type = of_nat (digits_value c), mh_request_id = of_nat (digits_value d),
           mh_timeout_ms = of_nat (digits_value e), mh_service_name = s, mh_method_name = m\<rparr>"
| "obj_header x = None"

lemma obj_header_obj: "obj_header (header_obj h) = Some h"
  by (cases h) (simp add: header_obj_def mnum_def)

definition mem_unpack :: "string \<Rightarrow> mobj unpacked" where
  "mem_unpack s =
     (case dec (length s) s of
        Some (MPair h x, []) \<Rightarrow> (case obj_header h of None \<Rightarrow> Convert_throws | Some hdr \<Rightarrow> Unpacked hdr x)
      | Some (x, []) \<Rightarrow> Convert_throws
      | _ \<Rightarrow> Unpack_throws)"

definition mem_api :: "mobj msgpack_api" where
  "mem_api = \<lparr>mp_unpack = mem_unpack, mp_pack = (\<lambda>h x. enc (MPair (header_obj h) x)), mp_nil = MNil,
     mp_str = MStr, mp_pair = MPair, mp_as_pair = (\<lambda>x. case x of MPair a b \<Rightarrow> Some (a, b) | _ \<Rightarrow> None),
     mp_is_nil = (\<lambda>x. x = MNil), mp_as_str = (\<lambda>x. case x of MStr s \<Rightarrow> Some s | _ \<Rightarrow> None)\<rparr>"

lemma mem_ok: "mp_ok mem_api"
proof -
  have "mem_unpack (enc (MPair (header_obj h) x)) = Unpacked h x" for h x
    using dec_enc[of "MPair (header_obj h) x" "length (enc (MPair (header_obj h) x))" "[]"]
    by (simp add: mem_unpack_def obj_header_obj del: enc.simps)
  then show ?thesis by (simp add: mp_ok_def mem_api_def del: enc.simps)
qed

text \<open>The length of an encoding, without computing the encoding.\<close>

lemma length_enc_str [simp]: "length (enc_str s) = 2 * length s + 1"
  by (induction s) simp_all

lemma length_mnum:
  "length (enc (mnum n)) = 2 * length (nat_to_string n) + 2"
  by (simp add: mnum_def)

lemma length_nat_to_string:
  "length (nat_to_string n) = (if n < 10 then 1 else Suc (length (nat_to_string (n div 10))))"
  by (subst nat_to_string.simps) simp

lemma length_header_obj:
  "length (enc (header_obj h)) =
     2 * (length (nat_to_string (unat (mh_magic h))) + length (nat_to_string (unat (mh_version h))) +
       length (nat_to_string (unat (mh_msg_type h))) + length (nat_to_string (unat (mh_request_id h))) +
       length (nat_to_string (unat (mh_timeout_ms h))) + length (mh_service_name h) + length (mh_method_name h)) + 20"
  by (simp add: header_obj_def length_mnum)

lemma length_mem_pack:
  "length (mp_pack mem_api h x) = Suc (length (enc (header_obj h)) + length (enc x))"
  by (simp add: mem_api_def)

subsection \<open>A byte format for the objects of the library\<close>

text \<open>An instance of \<open>mp_codec\<close> with the law \<open>codec_ok\<close>: objects as trees that name their kind.\<close>

fun object_tree :: "mp_object \<Rightarrow> mobj" and object_trees :: "mp_object list \<Rightarrow> mobj" where
  "object_tree NIL = MNil"
| "object_tree (Boolean b) = MPair (MStr (if b then ''t'' else ''f'')) MNil"
| "object_tree (PosInt u) = MPair (MStr ''p'') (mnum (unat u))"
| "object_tree (NegInt n) = MPair (MStr ''n'') (mnum (unat n))"
| "object_tree (Str s) = MStr s"
| "object_tree (Bin s) = MPair (MStr ''b'') (MStr s)"
| "object_tree (Opaque n) = MPair (MStr ''o'') (mnum n)"
| "object_tree (Array xs) = MPair (MStr ''a'') (object_trees xs)"
| "object_trees [] = MNil"
| "object_trees (x # xs) = MPair (object_tree x) (object_trees xs)"

fun tree_object :: "mobj \<Rightarrow> mp_object option" and tree_objects :: "mobj \<Rightarrow> mp_object list option" where
  "tree_object MNil = Some NIL"
| "tree_object (MStr s) = Some (Str s)"
| "tree_object (MPair k t) =
     (if k = MStr ''t'' then Some (Boolean True)
      else if k = MStr ''f'' then Some (Boolean False)
      else if k = MStr ''a'' then map_option Array (tree_objects t)
      else (case t of
              MStr s \<Rightarrow>
                (if k = MStr ''p'' then Some (PosInt (of_nat (digits_value s)))
                 else if k = MStr ''n'' then Some (NegInt (of_nat (digits_value s)))
                 else if k = MStr ''b'' then Some (Bin s)
                 else if k = MStr ''o'' then Some (Opaque (digits_value s))
                 else None)
            | _ \<Rightarrow> None))"
| "tree_objects MNil = Some []"
| "tree_objects (MStr s) = None"
| "tree_objects (MPair x t) =
     (case tree_object x of None \<Rightarrow> None | Some y \<Rightarrow> map_option (\<lambda>ys. y # ys) (tree_objects t))"

lemma tree_object_tree: "tree_object (object_tree x) = Some x" "tree_objects (object_trees xs) = Some xs"
  by (induction x and xs rule: object_tree_object_trees.induct) (simp_all add: mnum_def)

definition mem_codec :: mp_codec where
  "mem_codec = \<lparr>co_pack = (\<lambda>x. enc (object_tree x)),
     co_unpack = (\<lambda>s. case dec (length s) s of Some (t, []) \<Rightarrow> tree_object t | _ \<Rightarrow> None)\<rparr>"

lemma mem_codec_ok: "codec_ok mem_codec"
proof -
  have "dec (length (enc (object_tree x))) (enc (object_tree x)) = Some (object_tree x, [])" for x
    using dec_enc[of "object_tree x" "length (enc (object_tree x))" "[]"] by simp
  then show ?thesis by (simp add: codec_ok_def mem_codec_def tree_object_tree)
qed

end
