(* ===== verification/Msgpack_Properties.thy ===== *)
theory Msgpack_Properties
  imports Msgpack_Exchange Msgpack_Lifecycle Msgpack_Server Msgpack_Endpoints Msgpack_Instance Client_Properties Server_Properties
begin

section \<open>Properties of the msgpack stack\<close>

text \<open>
  The properties of \<open>KrpcMsgpackChannel\<close> and \<open>KrpcMsgpackProvider\<close>, each with a witness over the
  concrete library \<open>mem_api\<close>. Every protocol law used is one of \<open>mp_ok\<close>.
\<close>

subsection \<open>Connecting in the examples\<close>

lemma mp_Ensure_connected:
  assumes "discover good_net D s m w = ([ep], w1)" "mc_fd ch \<noteq> -1" "mc_ip ch = host ep" "mc_port ch = port ep"
    "mc_fail_states ch = []"
  shows "\<exists>ch' w'. mp_EnsureConnection A good_net D s m (ch, w) = (Inr (), (ch', w')) \<and> mc_fd ch' = mc_fd ch"
proof -
  obtain sel lb where s: "Select m (UpdateNodes [ep] \<lparr>rr_nodes = mc_lb_nodes ch, s_global_index = w_lb_index w1\<rparr>) = (sel, lb)"
    by (rule prod.exhaust)
  obtain now w2 where k: "clock_now good_net (w1\<lparr>w_lb_index := s_global_index lb\<rparr>) = (now, w2)" by (rule prod.exhaust)
  have rot: "rotation i (length [ep]) = [0]" for i by (simp add: rotation_def)
  show ?thesis
    using assms s k rot
    by (simp add: mp_EnsureConnection_def Let_def EndpointAvailable_def mp_connect_to_def mp_healthy_def
        IsConnectionHealthy_def)
qed

lemma mp_Acquire_accepts:
  "accepts E ep \<Longrightarrow> mp_AcquireConnection E (host ep) (port ep) st \<noteq> (Inl e, b, w')"
  by (auto simp: mp_AcquireConnection_def Pool_Acquire_def CreateConnectionFd_def accepts_def Let_def
      split: prod.splits option.splits if_splits)

lemma mp_Ensure_one:
  assumes "discover E D s m w = ([ep], w1)" "accepts E ep" "mc_fd ch = -1" "mc_fail_states ch = []"
  shows "\<exists>st3. mp_EnsureConnection A E D s m (ch, w) = (Inr (), st3)"
proof -
  have conn: "\<exists>st3. mp_connect_to A E ep (ch', w') = (Inr (), st3)" if "mc_fd ch' = -1" for ch' :: "'a mp_channel" and w'
  proof -
    let ?ch4 = "ch'\<lparr>mc_ip := host ep, mc_port := port ep, mc_endpoint_key := ep_key ep\<rparr>"
    obtain r b w5 where a: "mp_AcquireConnection E (host ep) (port ep) (?ch4, w') = (r, b, w5)"
      by (metis prod_cases3)
    then obtain f where "r = Inr f" using mp_Acquire_accepts[OF assms(2), of "(?ch4, w')"] by (cases r) auto
    with a that show ?thesis by (simp add: mp_connect_to_def mp_drop_connection_def mp_open_def)
  qed
  have rot: "rotation i (length [ep]) = [0]" for i by (simp add: rotation_def)
  obtain sel lb where s: "Select m (UpdateNodes [ep] \<lparr>rr_nodes = mc_lb_nodes ch, s_global_index = w_lb_index w1\<rparr>) = (sel, lb)"
    by (rule prod.exhaust)
  obtain now w2 where k: "clock_now E (w1\<lparr>w_lb_index := s_global_index lb\<rparr>) = (now, w2)" by (rule prod.exhaust)
  obtain st3 where "mp_connect_to A E ep (ch\<lparr>mc_lb_nodes := rr_nodes lb\<rparr>, w2) = (Inr (), st3)"
    using conn[of "ch\<lparr>mc_lb_nodes := rr_nodes lb\<rparr>" w2] assms(3) by auto
  with assms(1,4) s k rot show ?thesis by (simp add: mp_EnsureConnection_def Let_def EndpointAvailable_def)
qed

definition mclient0 :: "mobj mp_channel" where
  "mclient0 = config_mp_channel [] 0"

definition mcall1 :: MpPendingCall where
  "mcall1 = \<lparr>mq_has_promise = True, mq_callback = None, mq_start_time = 0, mq_timeout_ms = 1000\<rparr>"

text \<open>The channel with a connection, its receive thread and one pending call.\<close>

definition mclient1 :: "mobj mp_channel" where
  "mclient1 = mclient0\<lparr>mc_fd := 3, mc_running := True, mc_alive := True, mc_joinable := True,
     mc_pending := [(1, mcall1)]\<rparr>"

lemma mclient0_simps: "mc_fd mclient0 = -1" "mc_fail_states mclient0 = []" "mc_fail_states mclient1 = []"
  "mc_fd mclient1 = 3"
  by (simp_all add: mclient1_def mclient0_def config_mp_channel_def Let_def)

lemmas mexample_defs = mclient1_def mclient0_def config_mp_channel_def Let_def mcall1_def

lemma static_one: "discover E (static_discovery (join_endpoints [mk_endpoint ''h'' 1])) s m world0 =
    ([mk_endpoint ''h'' 1], world0\<lparr>w_static := Some [mk_endpoint ''h'' 1]\<rparr>)"
  by (rule static_discover) (simp_all add: endpoint_ok_def world0_def)

lemma good_net_accepts: "accepts good_net ep"
  by (simp add: accepts_def)

subsection \<open>The life of a call\<close>

text \<open>C10: However the callers and the threads of the msgpack client interleave, until the process ends no
  request id is completed twice, a pending call has not been completed, and a call that entered the table
  is still pending or has been completed.\<close>

theorem msgpack_calls_complete_once:
  assumes "(mp_step A E D)\<^sup>*\<^sup>* t t'" "mt_ok t"
  shows "distinct (mp_completed_ids (mc_effects (fst (mt_chan t')))) \<and>
    fst ` set (mc_pending (fst (mt_chan t'))) \<inter> set (mp_completed_ids (mc_effects (fst (mt_chan t')))) = {} \<and>
    fst ` set (mc_pending (fst (mt_chan t))) \<subseteq>
      fst ` set (mc_pending (fst (mt_chan t'))) \<union> set (mp_completed_ids (mc_effects (fst (mt_chan t'))))"
proof -
  have "cv_ok (mt_view t)" using assms(2) by (simp add: mt_ok_def)
  from msgpack_calls.at_most_once[OF assms this] msgpack_calls.never_lost[OF assms] show ?thesis
    by (simp add: mt_view_def mp_view_def) blast
qed

theorem msgpack_calls_complete_once_witness:
  "distinct (mp_completed_ids (mc_effects (fst (mp_TimeoutLoop_turn mem_api slow_net (mclient1, world0)))))"
proof -
  have ok: "mt_ok \<lparr>mt_chan = (mclient1, world0), mt_callers = []\<rparr>"
    by (simp add: mt_ok_def mp_wf_def mt_view_def mp_view_def cv_ok_def mexample_defs mp_allocated_def
        List.map_filter_def world0_def)
  have "(mp_step mem_api slow_net (static_discovery []))\<^sup>*\<^sup>* \<lparr>mt_chan = (mclient1, world0), mt_callers = []\<rparr>
      \<lparr>mt_chan = mp_TimeoutLoop_turn mem_api slow_net (mclient1, world0), mt_callers = []\<rparr>"
    by (rule r_into_rtranclp, rule mp_step.own, rule mp_own_step.timeout) (simp add: mexample_defs)
  from msgpack_calls_complete_once[OF this ok] show ?thesis by simp
qed

subsection \<open>The tables of the msgpack client\<close>


subsection \<open>The end of a channel\<close>

text \<open>C18: Destroying a msgpack channel leaves no caller waiting: whatever its send thread manages to write,
  every call that was pending is completed exactly once, and the table is empty. (The destructor of the
  protobuf channel does not do this.)\<close>

theorem msgpack_destructor_completes_calls:
  assumes "wf_map (mc_pending ch)"
    "destroy_KrpcMsgpackChannel A E answers (mp_start_threads, (ch, w)) = Some (t', (ch', w'))"
  shows "mc_pending ch' = [] \<and>
    (\<exists>ids. mp_completed_ids (mc_effects ch') = mp_completed_ids (mc_effects ch) @ ids \<and> distinct ids \<and>
       set ids = fst ` set (mc_pending ch))"
  using destroy_completes_all[OF assms(2)] assms(1) by (simp add: mp_wf_def)

theorem msgpack_destructor_completes_calls_witness:
  "\<exists>t' ch' w'. destroy_KrpcMsgpackChannel mem_api slow_net None (mp_start_threads, (mclient1, world0)) = Some (t', (ch', w')) \<and>
     set (mp_completed_ids (mc_effects ch')) = {1} \<and> mc_pending ch' = []"
proof -
  have "destroy_KrpcMsgpackChannel mem_api slow_net None (mp_start_threads, (mclient1, world0)) \<noteq> None"
    by (simp add: destroy_KrpcMsgpackChannel_def mp_StopSendThread_def mp_StopTimeoutThread_def
        mp_StopHeartbeatThread_def split: prod.split)
  then obtain t' ch' w' where d:
    "destroy_KrpcMsgpackChannel mem_api slow_net None (mp_start_threads, (mclient1, world0)) = Some (t', (ch', w'))"
    by auto
  from msgpack_destructor_completes_calls[OF _ d] have
    "set (mp_completed_ids (mc_effects ch')) = {1} \<and> mc_pending ch' = []"
    by (auto simp: mexample_defs)
  with d show ?thesis by blast
qed

subsection \<open>Reconnecting\<close>

text \<open>A channel whose receive thread ended by itself: not connected, not running, but still joinable.\<close>

definition mp_dead_thread :: "'o mp_channel \<Rightarrow> bool" where
  "mp_dead_thread ch \<longleftrightarrow> mc_fd ch = -1 \<and> mc_joinable ch \<and> \<not> mc_running ch"

lemma mp_CompletePending_thread [simp]:
  "mc_fd (mp_CompletePending A i p e r ch) = mc_fd ch" "mc_joinable (mp_CompletePending A i p e r ch) = mc_joinable ch"
  "mc_running (mp_CompletePending A i p e r ch) = mc_running ch"
  by (simp_all add: mp_CompletePending_def mc_emit_def)

lemma mp_complete_all_thread:
  "mc_fd (mp_complete_all A ps reason ch) = mc_fd ch \<and> mc_joinable (mp_complete_all A ps reason ch) = mc_joinable ch \<and>
   mc_running (mp_complete_all A ps reason ch) = mc_running ch"
proof (induction ps arbitrary: ch)
  case (Cons e ps)
  show ?case
    using Cons.IH[of "mp_CompletePending A (fst e) (snd e) reason (mp_nil A) ch"] by (simp add: mp_complete_all_def)
qed (simp add: mp_complete_all_def)

lemma mp_recv_exit_dead:
  "mc_joinable (fst st) \<Longrightarrow> mp_dead_thread (fst (mp_recv_exit A True st))"
  by (cases st) (simp add: mp_recv_exit_def mp_CloseConnectionLocked_def mp_dead_thread_def mp_reset_heartbeat_def
      FailAllPending_def mp_complete_all_thread)

lemma mp_open_dead:
  assumes "mp_dead_thread (fst st)" "mp_open E cand st = (r, st')"
  shows "if r = Inr () then mc_terminated (fst st') else mp_dead_thread (fst st')"
  using assms
  by (auto simp: mp_open_def mp_dead_thread_def mp_StartRecvThread_def Let_def split: sum.splits prod.splits)

lemma mp_connect_to_dead:
  assumes "mp_dead_thread (fst st)" "mp_connect_to A E cand st = (r, st')"
  shows "if r = Inr () then mc_terminated (fst st') else mp_dead_thread (fst st')"
proof -
  have "mp_connect_to A E cand st = mp_open E cand st"
    using assms(1) by (simp add: mp_connect_to_def mp_drop_connection_def mp_dead_thread_def)
  with mp_open_dead[OF assms(1)] assms(2) show ?thesis by simp
qed

lemma mp_failover_dead:
  "mp_dead_thread (fst st) \<Longrightarrow> mp_failover A E now eps idxs best bi st = (r, st') \<Longrightarrow>
     (case r of Inr u \<Rightarrow> mc_terminated (fst st') | Inl i \<Rightarrow> mp_dead_thread (fst st'))"
proof (induction idxs arbitrary: best bi st)
  case (Cons i idxs)
  obtain r1 st1 where c: "mp_connect_to A E (eps ! i) st = (r1, st1)" by (rule prod.exhaust)
  note d = mp_connect_to_dead[OF Cons.prems(1) c]
  obtain b ra where a: "EndpointAvailable (eps ! i) now (mc_fail_states (fst st)) = (b, ra)" by (rule prod.exhaust)
  show ?case
  proof (cases "\<not> b \<and> ra \<noteq> None")
    case True
    with Cons.prems a show ?thesis by (auto split: if_splits intro: Cons.IH[OF Cons.prems(1)])
  next
    case False
    then have f: "mp_failover A E now eps (i # idxs) best bi st =
        (case r1 of Inr u \<Rightarrow> (Inr u, st1) | Inl e \<Rightarrow> mp_failover A E now eps idxs best bi st1)"
      using a c by (cases b; cases ra) (auto split: sum.splits)
    show ?thesis
    proof (cases r1)
      case (Inl e)
      with d f Cons.prems(2) Cons.IH[of st1] show ?thesis by simp
    next
      case (Inr u)
      with d f Cons.prems(2) show ?thesis by auto
    qed
  qed
qed auto

text \<open>C39: Reconnecting after the server closed the connection ends the client's process: the receive
  thread leaves its loop but stays joinable, and when a later call finds an endpoint and connects, the
  assignment of a new thread to the joinable one terminates the process.\<close>

theorem msgpack_reconnect_terminates:
  assumes "mc_alive ch" "mc_running ch" "mc_joinable ch" "mc_fd ch \<noteq> -1"
    "mp_EnsureConnection A E D s m (mp_RecvLoop_turn A E Mr_closed (ch, w)) = (Inr (), st2)"
  shows "mc_terminated (fst st2)"
proof -
  obtain ch1 w1 where r: "mp_RecvLoop_turn A E Mr_closed (ch, w) = (ch1, w1)" by (rule prod.exhaust)
  have dead: "mp_dead_thread ch1"
    using mp_recv_exit_dead[of "(ch, w)" A] r assms(1-4) by (simp add: mp_RecvLoop_turn_def Let_def)
  obtain eps w2 where e: "discover E D s m w1 = (eps, w2)" by (rule prod.exhaust)
  have ne: "eps \<noteq> []" using assms(5) e by (auto simp: r mp_EnsureConnection_def)
  obtain sel lb where sel: "Select m (UpdateNodes eps \<lparr>rr_nodes = mc_lb_nodes ch1, s_global_index = w_lb_index w2\<rparr>) = (sel, lb)"
    by (rule prod.exhaust)
  obtain now w3 where k: "clock_now E (w2\<lparr>w_lb_index := s_global_index lb\<rparr>) = (now, w3)" by (rule prod.exhaust)
  let ?i = "find_start_index eps (case sel of None \<Rightarrow> hd eps | Some e \<Rightarrow> e)"
  obtain r4 st4 where f: "mp_failover A E now eps (rotation ?i (length eps)) None ?i (ch1\<lparr>mc_lb_nodes := rr_nodes lb\<rparr>, w3)
      = (r4, st4)" by (rule prod.exhaust)
  have "mp_dead_thread (fst (ch1\<lparr>mc_lb_nodes := rr_nodes lb\<rparr>, w3))" using dead by (simp add: mp_dead_thread_def)
  note d = mp_failover_dead[OF this f]
  show ?thesis
  proof (cases r4)
    case (Inl idx)
    with assms(5) r e ne sel k f have "mp_connect_to A E (eps ! idx) st4 = (Inr (), st2)"
      by (simp add: mp_EnsureConnection_def Let_def)
    with mp_connect_to_dead[OF _ this] d Inl show ?thesis by simp
  next
    case (Inr u)
    with assms(5) r e ne sel k f d show ?thesis by (simp add: mp_EnsureConnection_def Let_def)
  qed
qed

theorem msgpack_reconnect_terminates_witness:
  "\<exists>st2. mp_EnsureConnection mem_api good_net (static_discovery (join_endpoints [mk_endpoint ''h'' 1])) ''User'' ''Login''
      (mp_RecvLoop_turn mem_api good_net Mr_closed (mclient1, world0)) = (Inr (), st2) \<and> mc_terminated (fst st2)"
proof -
  let ?D = "static_discovery (join_endpoints [mk_endpoint ''h'' 1])"
  obtain ch1 w1 where r: "mp_RecvLoop_turn mem_api good_net Mr_closed (mclient1, world0) = (ch1, w1)"
    by (rule prod.exhaust)
  then have c: "mc_fd ch1 = -1" "mc_fail_states ch1 = []" "w_static w1 = None"
    by (auto simp: mp_RecvLoop_turn_def mp_recv_exit_def mp_CloseConnectionLocked_def mp_reset_heartbeat_def
        FailAllPending_def mp_complete_all_def mp_CompletePending_def mc_emit_def mexample_defs world0_def)
  have "discover good_net ?D ''User'' ''Login'' w1 = ([mk_endpoint ''h'' 1], w1\<lparr>w_static := Some [mk_endpoint ''h'' 1]\<rparr>)"
    by (rule static_discover) (simp_all add: endpoint_ok_def c)
  from mp_Ensure_one[OF this good_net_accepts c(1,2), of mem_api] obtain st2 where
    e: "mp_EnsureConnection mem_api good_net ?D ''User'' ''Login'' (ch1, w1) = (Inr (), st2)" by blast
  have "mc_terminated (fst st2)"
    by (rule msgpack_reconnect_terminates[of mclient1 mem_api good_net ?D "''User''" "''Login''" world0 st2])
      (simp_all only: r e, simp_all add: mexample_defs)
  with r e show ?thesis by simp
qed

subsection \<open>Sending\<close>

text \<open>A queued frame goes out whole when the kernel takes the bytes, also when its body is empty:
  if no \<open>writev\<close> fails and the accepted byte counts add up to the frame, the loop ends and exactly the
  length prefix and the payload were written, however the kernel splits them.\<close>

theorem msgpack_send_writes_frame:
  assumes "mc_send_queue ch = (h, b) # queue" "mc_fd ch \<noteq> -1" "h \<noteq> []" "positive_writes ws"
    "length (h @ b) \<le> writes_count ws"
  shows "mp_SendLoop_turn A E ws (ch, w) =
    Some (mc_emit [Mc_sent (mc_fd ch) (h @ b)] (ch\<lparr>mc_send_queue := queue\<rparr>), w)"
proof -
  have left: "mp_left h b False 0 = h @ b" by (simp add: mp_left_def)
  obtain r out where s: "mp_send_segments ws h b False 0 [] = (r, out)" by (rule prod.exhaust)
  have "r = Sent"
    using mp_send_segments_complete[of False 0 h b ws "[]"] assms(3-5) s left by simp
  moreover from this mp_send_segments_prefix[OF _ s] left have "out = h @ b" by auto
  ultimately show ?thesis using assms(1,2) s by (simp add: mp_SendLoop_turn_def Let_def)
qed

theorem msgpack_send_writes_frame_witness:
  "mp_SendLoop_turn mem_api good_net [Wrote 3, Eintr, Wrote 1] (mclient1\<lparr>mc_send_queue := [(BuildHeader [], [])]\<rparr>, world0)
    = Some (mc_emit [Mc_sent 3 (BuildHeader [])] (mclient1\<lparr>mc_send_queue := []\<rparr>), world0)"
  using msgpack_send_writes_frame[of "mclient1\<lparr>mc_send_queue := [(BuildHeader [], [])]\<rparr>" "BuildHeader []" "[]" "[]"
      "[Wrote 3, Eintr, Wrote 1]" mem_api good_net world0]
  by (simp add: positive_writes_def writes_count_def mexample_defs BuildHeader_def htonl_bytes_def mc_emit_def)

subsection \<open>A call from end to end\<close>

text \<open>C8: A msgpack call makes the whole round: the frame that the client queues for a call becomes one
  task of the server, the worker that runs it calls the bound handler once and sends one frame back, and
  that frame, received by the client while the call is pending, completes exactly this call with the
  handler's result.\<close>

theorem msgpack_call_round_trip:
  assumes A: "mp_ok A" and prep: "mp_prepare_call A E D a st0 = (Some r, st1)"
    and request_fits: "length (mr_payload r) < 4294967296"
    and server: "map_of (mp_dispatcher p) (handler_key (mp_service a) (mp_method a)) = Some f"
      "f (mp_args a) = Inr result" "\<not> mp_stop_workers p" "mp_task_queue p = []" "0 < mp_task_queue_capacity p"
    and reply_fits: "length (mp_pack A (mp_response_header (mp_request_header (mr_request_id r) (mr_timeout_ms r)
        (mp_service a) (mp_method a))) (mp_pair A (mp_nil A) result)) < 4294967296"
    and client: "mc_alive ch" "mc_running ch" "mc_fd ch \<noteq> -1" "mc_recv_buffer ch = []"
      "map_of (mc_pending ch) (mr_request_id r) = Some q"
  shows "\<exists>p1 p2 bytes.
    mp_OnMessage A now ts c conn (BuildHeader (mr_payload r) @ mr_payload r) p = ([], p1) \<and>
    mp_WorkerLoop_turn A now c p1 = Some p2 \<and>
    mp_effects p2 = mp_effects p @ [Mp_called (mp_service a) (mp_method a) (mp_args a), Mp_sent_to conn bytes] \<and>
    mp_RecvLoop_turn A E (Mr_data bytes) (ch, w) =
      (mp_CompletePending A (mr_request_id r) q [] result
         (ch\<lparr>mc_pending := AList.delete (mr_request_id r) (mc_pending ch)\<rparr>), w)"
proof -
  have "length (reply_payload A (mp_request_header (mr_request_id r) (mr_timeout_ms r) (mp_service a) (mp_method a))
      (f (mp_args a))) < 4294967296"
    using reply_fits server(2) by (simp add: reply_payload_def reply_body_def)
  from mp_exchange[OF A prep request_fits server(1,3-5) this client] server(2) show ?thesis by simp
qed

definition mserver0 :: "mobj mp_provider" where
  "mserver0 = mp_StartWorkerPool [] 2 (Bind ''User'' ''Login'' (\<lambda>x. Inr (MPair x (MStr ''ok'')))
     (new_KrpcMsgpackProvider metrics0))"

lemma mserver0_simps [simp]:
  "mp_dispatcher mserver0 = [(handler_key ''User'' ''Login'', \<lambda>x. Inr (MPair x (MStr ''ok'')))]"
  "mp_task_queue mserver0 = []" "\<not> mp_stop_workers mserver0" "mp_effects mserver0 = []"
  "mp_task_queue_capacity mserver0 = 1024"
  by (simp_all add: mserver0_def mp_StartWorkerPool_def Bind_def new_KrpcMsgpackProvider_def bind_handler_def
      emplace_def Let_def Load_def)

definition mlogin :: "mobj mp_call_args" where
  "mlogin = \<lparr>mp_service = ''User'', mp_method = ''Login'', mp_timeout_ms = 1000, mp_args = MStr ''ab'',
     mp_callback = None\<rparr>"

lemma mlogin_prepared:
  "\<exists>st1. mp_prepare_call mem_api good_net (static_discovery (join_endpoints [mk_endpoint ''h'' 1])) mlogin
     (mclient0, world0) =
     (Some \<lparr>mr_request_id = 2, mr_payload = mp_pack mem_api (mp_request_header 2 1000 ''User'' ''Login'') (MStr ''ab''),
            mr_timeout_ms = 1000, mr_callback = None\<rparr>, st1)"
proof -
  let ?D = "static_discovery (join_endpoints [mk_endpoint ''h'' 1])"
  obtain st3 where e: "mp_EnsureConnection mem_api good_net ?D ''User'' ''Login'' (mclient0, world0) = (Inr (), st3)"
    using mp_Ensure_one[OF static_one good_net_accepts mclient0_simps(1,2), of mem_api] by blast
  have "mp_drained (mclient0, world0) st3"
    by (rule mp_drained_EnsureConnection[OF _ e]) (simp add: mp_wf_def mexample_defs)
  then have "g_request_id (snd st3) = 2" by (auto simp: mp_drained_def world0_def)
  with e show ?thesis by (cases st3) (simp add: mp_prepare_call_def mlogin_def NextRequestId_def Let_def)
qed

lemmas mem_lengths = length_mem_pack length_header_obj length_nat_to_string mp_request_header_def
  mp_response_header_def new_MsgpackHeader_def kDefaultMagic_def kDefaultVersion_def mp_type_defs

lemma mlogin_fits:
  "length (mp_pack mem_api (mp_request_header 2 1000 ''User'' ''Login'') (MStr ''ab'')) < 4294967296"
  "length (mp_pack mem_api (mp_response_header (mp_request_header 2 1000 ''User'' ''Login''))
     (mp_pair mem_api (mp_nil mem_api) (MPair (MStr ''ab'') (MStr ''ok'')))) < 4294967296"
  by (simp_all add: mem_lengths) (simp add: mem_api_def)

theorem msgpack_call_round_trip_witness:
  "\<exists>r st1 p1 p2 bytes. mp_prepare_call mem_api good_net (static_discovery (join_endpoints [mk_endpoint ''h'' 1])) mlogin
      (mclient0, world0) = (Some r, st1) \<and>
    mp_OnMessage mem_api 0 5 1 4 (BuildHeader (mr_payload r) @ mr_payload r) mserver0 = ([], p1) \<and>
    mp_WorkerLoop_turn mem_api 0 1 p1 = Some p2 \<and>
    mp_effects p2 = [Mp_called ''User'' ''Login'' (MStr ''ab''), Mp_sent_to 4 bytes] \<and>
    mp_RecvLoop_turn mem_api good_net (Mr_data bytes) (mclient1\<lparr>mc_pending := [(2, mcall1)]\<rparr>, world0) =
      (mclient1\<lparr>mc_pending := [], mc_effects := [Mc_promise 2 (Inr (MPair (MStr ''ab'') (MStr ''ok'')))]\<rparr>, world0)"
proof -
  obtain st1 where p: "mp_prepare_call mem_api good_net (static_discovery (join_endpoints [mk_endpoint ''h'' 1])) mlogin
     (mclient0, world0) =
     (Some \<lparr>mr_request_id = 2, mr_payload = mp_pack mem_api (mp_request_header 2 1000 ''User'' ''Login'') (MStr ''ab''),
            mr_timeout_ms = 1000, mr_callback = None\<rparr>, st1)"
    using mlogin_prepared by blast
  have c: "mc_alive (mclient1\<lparr>mc_pending := [(2, mcall1)]\<rparr>)" "mc_running (mclient1\<lparr>mc_pending := [(2, mcall1)]\<rparr>)"
    "mc_fd (mclient1\<lparr>mc_pending := [(2, mcall1)]\<rparr>) \<noteq> -1" "mc_recv_buffer (mclient1\<lparr>mc_pending := [(2, mcall1)]\<rparr>) = []"
    by (simp_all add: mexample_defs)
  have fin: "mp_CompletePending mem_api 2 mcall1 [] x (mclient1\<lparr>mc_pending := []\<rparr>) =
      mclient1\<lparr>mc_pending := [], mc_effects := [Mc_promise 2 (Inr x)]\<rparr>" for x
    by (simp add: mp_CompletePending_def mc_emit_def mexample_defs)
  from msgpack_call_round_trip[OF mem_ok p, where p = mserver0 and ch = "mclient1\<lparr>mc_pending := [(2, mcall1)]\<rparr>"
      and q = mcall1 and f = "\<lambda>x. Inr (MPair x (MStr ''ok''))" and result = "MPair (MStr ''ab'') (MStr ''ok'')"
      and now = 0 and ts = 5 and c = 1 and conn = 4 and w = world0] mlogin_fits p c
  show ?thesis by (simp add: mlogin_def fin)
qed

subsection \<open>The running server\<close>

definition mp_serve :: "(string \<times> string \<times> ('o \<Rightarrow> string option + 'o)) list \<Rightarrow> metrics_state \<Rightarrow> 'o mp_provider" where
  "mp_serve bs g = fold (\<lambda>(sv, m, f). Bind sv m f) bs (new_KrpcMsgpackProvider g)"

lemma Bind_frame:
  "mp_task_queue (Bind sv m f p) = mp_task_queue p" "mp_waiting_task (Bind sv m f p) = mp_waiting_task p"
  "mp_effects (Bind sv m f p) = mp_effects p"
  by (simp_all add: Bind_def Let_def)

lemma mp_serve_fresh:
  "mp_task_queue (mp_serve bs g) = [] \<and> mp_waiting_task (mp_serve bs g) = None \<and> mp_effects (mp_serve bs g) = []"
proof -
  have "mp_task_queue (fold (\<lambda>(sv, m, f). Bind sv m f) bs p) = mp_task_queue p \<and>
      mp_waiting_task (fold (\<lambda>(sv, m, f). Bind sv m f) bs p) = mp_waiting_task p \<and>
      mp_effects (fold (\<lambda>(sv, m, f). Bind sv m f) bs p) = mp_effects p" for p
    by (induction bs arbitrary: p) (simp_all add: Bind_frame case_prod_beta)
  then show ?thesis by (simp add: mp_serve_def new_KrpcMsgpackProvider_def)
qed

text \<open>C23: Every frame is answered exactly once: after \<open>Run\<close> and any interleaving of received bytes, frames,
  workers, connections, idle scans and the shutdown, the handler calls and replies that have happened,
  together with those of the tasks that the server still holds, are as a multiset those of the frames it
  has taken from its buffers, each handled alone; with no task held, nothing is missing and nothing is sent
  twice.\<close>

theorem msgpack_server_answers_once:
  assumes "mp_Run_start api cfg env (mp_serve bs g, z, hs) = Some (Inr (p, z', hs'))"
    "(mp_server_step A)\<^sup>*\<^sup>* (new_mp_server p) s"
  shows "mset (filter is_answer (mp_effects (ms_provider s))) +
      (\<Sum>t\<in>#mset (tasks_held s). mset (task_effects A (mp_dispatcher (mp_serve bs g)) t)) =
    (\<Sum>f\<in>#mset (ms_frames s). mset (frame_effects A (mp_dispatcher (mp_serve bs g)) f))"
proof -
  have "mp_dispatcher p = mp_dispatcher (mp_serve bs g)" "mp_task_queue p = []" "mp_waiting_task p = None" "mp_effects p = []"
    using mp_Run_start_fresh[OF assms(1)] mp_serve_fresh[of bs g] by simp_all
  with answered_ok_steps[OF assms(2) answered_ok_new] show ?thesis
    by (simp add: answered_ok_def answers_of_def)
qed

text \<open>The example server receives one request, queues it, and a worker takes it and runs it.\<close>

definition login_frame :: string where
  "login_frame = mp_pack mem_api (mp_request_header 2 1000 ''User'' ''Login'') (MStr ''ab'')"

lemma mp_example_served:
  "\<exists>p z'. mp_Run_start tree_api [] run_env0
      (mp_serve [(''User'', ''Login'', \<lambda>x. Inr (MPair x (MStr ''ok'')))] metrics0, [], hs) = Some (Inr (p, z', hs)) \<and>
     p = mserver0\<lparr>mp_idle_close_threshold_ms := 5000 * 4\<rparr>"
  by (simp add: mp_Run_start_def run_env0_def Start_def new_ZkClient_def GlobalWatcher_def NotifyConnected_def
      start_metrics_http_def Let_def Load_def mp_Run_register_def mp_serve_def Bind_def new_KrpcMsgpackProvider_def
      bind_handler_def emplace_def mp_ScheduleIdleScan_def mp_StartWorkerPool_def mserver0_def
      kDefaultHeartbeatIntervalMs_def kDefaultHeartbeatMissLimit_def Create_def tree_api_def)

lemma login_frame_fits: "length login_frame < 4294967296"
  using mlogin_fits(1) by (simp add: login_frame_def)

abbreviation wire :: "string \<Rightarrow> string" where
  "wire payload \<equiv> BuildHeader payload @ payload"

text \<open>What the server does with the frame.\<close>

lemma login_served:
  assumes "p = mserver0\<lparr>mp_idle_close_threshold_ms := 5000 * 4\<rparr>" "ms_provider s = p" "ms_running s = []" "ms_waiting s = []"
    "ms_buffers s 4 = wire login_frame"
  shows "\<exists>s1 s2 s3. mp_server_step mem_api s s1 \<and> mp_server_step mem_api s1 s2 \<and> mp_server_step mem_api s2 s3 \<and>
    ms_buffers s1 4 = [] \<and> ms_buffers s2 = ms_buffers s1 \<and> ms_buffers s3 = ms_buffers s1 \<and>
    tasks_held s3 = [] \<and> ms_frames s3 = ms_frames s @ [(4, login_frame)] \<and> mp_effects (ms_provider s1) = [] \<and> mp_effects (ms_provider s2) = [] \<and>
    mp_effects (ms_provider s3) = [Mp_called ''User'' ''Login'' (MStr ''ab''),
      Mp_sent_to 4 (wire (reply_payload mem_api (mp_request_header 2 1000 ''User'' ''Login'')
        (Inr (MPair (MStr ''ab'') (MStr ''ok'')))))]"
proof -
  let ?h = "mp_request_header 2 1000 ''User'' ''Login''"
  let ?t = "\<lparr>mt_conn = 4, mt_header = ?h, mt_body = MStr ''ab''\<rparr>"
  have "mp_unpack mem_api login_frame = Unpacked ?h (MStr ''ab'')"
    using mem_ok login_frame_fits by (simp add: mp_ok_def login_frame_def)
  then obtain p1 where p1: "mp_OnMessage_frame mem_api 0 5 1 4 login_frame p = (p1, True)" "mp_task_queue p1 = [?t]"
    "mp_waiting_task p1 = None" "\<not> mp_crashed p1" "mp_worker_thread_count p1 = 4" "mp_effects p1 = []"
    "mp_dispatcher p1 = mp_dispatcher mserver0"
    using assms(1)
    by (auto simp: mp_OnMessage_frame_def mp_submit_def mp_EnqueueTask_def mp_request_header_def new_MsgpackHeader_def
        mp_type_defs Let_def mp_TouchConnection_def mserver0_def mp_StartWorkerPool_def Bind_def
        new_KrpcMsgpackProvider_def Load_def)
  let ?s1 = "mp_settle 4 login_frame [] p1 s"
  let ?s2 = "?s1\<lparr>ms_provider := (ms_provider ?s1)\<lparr>mp_task_queue := []\<rparr>, ms_running := ms_running ?s1 @ [?t]\<rparr>"
  let ?s3 = "?s2\<lparr>ms_provider := mp_run_task mem_api 0 1 ?t (ms_provider ?s2), ms_running := remove1 ?t (ms_running ?s2)\<rparr>"
  have up: "\<not> mp_crashed (ms_provider s)"
    using assms(1,2) by (simp add: mserver0_def mp_StartWorkerPool_def Bind_def new_KrpcMsgpackProvider_def Let_def)
  have "mp_server_step mem_api s (mp_settle 4 login_frame (drop (4 + length login_frame) (ms_buffers s 4)) p1 s)"
    by (rule mp_server_step.frame[where now = 0 and ts = 5 and c = 1 and go_on = True])
      (use p1(1) mp_next_frame_one[OF login_frame_fits, of "[]"] up assms in simp_all)
  then have s1: "mp_server_step mem_api s ?s1" by (simp add: assms(5))
  have s2: "mp_server_step mem_api ?s1 ?s2"
    by (rule mp_server_step.take) (use p1 assms in \<open>simp_all add: mp_settle_def mp_worker_take_def\<close>)
  have s3: "mp_server_step mem_api ?s2 ?s3"
    by (rule mp_server_step.run) (use p1 in \<open>simp_all add: mp_settle_def\<close>)
  have h: "mh_msg_type ?h = Mp_Request" "mh_service_name ?h = ''User''" "mh_method_name ?h = ''Login''"
    by (simp_all add: mp_request_header_def)
  have "mp_effects (ms_provider ?s3) = [Mp_called ''User'' ''Login'' (MStr ''ab''),
      Mp_sent_to 4 (wire (reply_payload mem_api ?h (Inr (MPair (MStr ''ab'') (MStr ''ok'')))))]"
    using mp_run_bound_request[OF h(1), of "ms_provider ?s2" "\<lambda>x. Inr (MPair x (MStr ''ok''))" mem_api 0 1 4 "MStr ''ab''"] p1(6,7)
    by (simp add: h mp_settle_def)
  with s1 s2 s3 p1(3,6) show ?thesis
    by (intro exI[of _ ?s1] exI[of _ ?s2] exI[of _ ?s3]) (simp add: mp_settle_def tasks_held_def assms(3,4))
qed

lemma mp_example_run:
  assumes "p = mserver0\<lparr>mp_idle_close_threshold_ms := 5000 * 4\<rparr>"
  shows "\<exists>s. (mp_server_step mem_api)\<^sup>*\<^sup>* (new_mp_server p) s \<and> tasks_held s = [] \<and> ms_frames s = [(4, login_frame)]"
proof -
  let ?step = "mp_server_step mem_api" and ?a = "new_mp_server p"
  let ?b = "?a\<lparr>ms_buffers := (ms_buffers ?a)(4 := ms_buffers ?a 4 @ wire login_frame)\<rparr>"
  have "\<not> mp_crashed p"
    using assms by (simp add: mserver0_def mp_StartWorkerPool_def Bind_def new_KrpcMsgpackProvider_def Let_def)
  then have ab: "?step ?a ?b" by (intro mp_server_step.receive) (simp_all add: new_mp_server_def)
  obtain s1 s2 s3 where s: "?step ?b s1" "?step s1 s2" "?step s2 s3" "tasks_held s3 = []" "ms_frames s3 = [(4, login_frame)]"
    using login_served[OF assms, of ?b] by (auto simp: new_mp_server_def)
  from ab s(1-3) have "?step\<^sup>*\<^sup>* ?a s3" by (meson converse_rtranclp_into_rtranclp rtranclp.rtrancl_refl)
  with s(4,5) show ?thesis by blast
qed

theorem msgpack_server_answers_once_witness:
  "\<exists>s D. (\<exists>p. (mp_server_step mem_api)\<^sup>*\<^sup>* (new_mp_server p) s) \<and> ms_frames s = [(4, login_frame)] \<and>
    mset (filter is_answer (mp_effects (ms_provider s))) = mset (frame_effects mem_api D (4, login_frame))"
proof -
  let ?bs = "[(''User'', ''Login'', \<lambda>x. Inr (MPair x (MStr ''ok'')))]"
  obtain p z' where r: "mp_Run_start tree_api [] run_env0 (mp_serve ?bs metrics0, [], http_server0, os0) =
      Some (Inr (p, z', http_server0, os0))" "p = mserver0\<lparr>mp_idle_close_threshold_ms := 5000 * 4\<rparr>"
    using mp_example_served[of "(http_server0, os0)"] by blast
  obtain s where s: "(mp_server_step mem_api)\<^sup>*\<^sup>* (new_mp_server p) s" "tasks_held s = []" "ms_frames s = [(4, login_frame)]"
    using mp_example_run[OF r(2)] by blast
  from msgpack_server_answers_once[OF r(1) s(1)] s show ?thesis by auto
qed

subsection \<open>One-way calls\<close>

text \<open>A notification is accepted and never executed: the frame that \<open>Notify\<close> queues becomes a task of
  the server, but the worker that runs it calls no handler and sends nothing, whatever is bound.\<close>

theorem msgpack_notification_ignored:
  assumes A: "mp_ok A" and conn: "mp_EnsureConnection A E D s m st = (Inr (), (ch, w))" "mc_fd ch \<noteq> -1"
    and fits: "length (mp_pack A (new_MsgpackHeader\<lparr>mh_msg_type := Mp_Oneway, mh_timeout_ms := 0,
        mh_service_name := s, mh_method_name := m\<rparr>) x) < 4294967296"
    and server: "\<not> mp_stop_workers p" "mp_task_queue p = []" "0 < mp_task_queue_capacity p"
  shows "\<exists>h b p1 p2. mc_send_queue (fst (Notify A E D s m x st)) = mc_send_queue ch @ [(h, b)] \<and>
    mp_OnMessage A now ts c k (h @ b) p = ([], p1) \<and> mp_task_queue p1 \<noteq> [] \<and>
    mp_WorkerLoop_turn A now c p1 = Some p2 \<and> mp_effects p2 = mp_effects p"
proof -
  let ?h = "new_MsgpackHeader\<lparr>mh_msg_type := Mp_Oneway, mh_timeout_ms := 0, mh_service_name := s, mh_method_name := m\<rparr>"
  let ?b = "mp_pack A ?h x" and ?t = "\<lparr>mt_conn = k, mt_header = ?h, mt_body = x\<rparr>"
  have h: "mh_magic ?h = kDefaultMagic" "mh_version ?h = kDefaultVersion" "mh_msg_type ?h = Mp_Oneway"
    by (simp_all add: new_MsgpackHeader_def)
  obtain p1 where p1: "mp_OnMessage A now ts c k (BuildHeader ?b @ ?b) p = ([], p1)" "mp_task_queue p1 = [?t]"
    "mp_effects p1 = mp_effects p"
    using mp_OnMessage_task[OF A refl fits h(1,2) _ server(1), of now ts c k] h(3) server(2,3) by auto
  have "mc_send_queue (fst (Notify A E D s m x st)) = mc_send_queue ch @ [(BuildHeader ?b, ?b)]"
    using conn by (simp add: Notify_def SendFrame_def mp_EnqueueSend_def)
  with p1 mp_WorkerLoop_one[OF p1(2), of A now c] mp_run_oneway[of ?t A now c "p1\<lparr>mp_task_queue := []\<rparr>"] h(3)
  show ?thesis
    by (intro exI[of _ "BuildHeader ?b"] exI[of _ ?b] exI[of _ p1]
        exI[of _ "mp_run_task A now c ?t (p1\<lparr>mp_task_queue := []\<rparr>)"]) simp
qed

theorem msgpack_notification_ignored_witness:
  "\<exists>h b p1 p2. mp_OnMessage mem_api 0 5 1 4 (h @ b) mserver0 = ([], p1) \<and> mp_task_queue p1 \<noteq> [] \<and>
    mp_WorkerLoop_turn mem_api 0 1 p1 = Some p2 \<and> mp_effects p2 = []"
proof -
  let ?D = "static_discovery (join_endpoints [mk_endpoint ''h'' 1])"
  let ?st = "(mclient1\<lparr>mc_ip := ''h'', mc_port := 1\<rparr>, world0)"
  obtain ch w where e: "mp_EnsureConnection mem_api good_net ?D ''User'' ''Login'' ?st = (Inr (), (ch, w))" "mc_fd ch = 3"
    using mp_Ensure_connected[OF static_one, of "mclient1\<lparr>mc_ip := ''h'', mc_port := 1\<rparr>", where A = mem_api and s = "''User''" and m = "''Login''"]
    by (auto simp: mclient0_simps)
  have fits: "length (mp_pack mem_api (new_MsgpackHeader\<lparr>mh_msg_type := Mp_Oneway, mh_timeout_ms := 0,
        mh_service_name := ''User'', mh_method_name := ''Login''\<rparr>) (MStr ''ab'')) < 4294967296"
    by (simp add: mem_lengths)
  have "mc_fd ch \<noteq> -1" using e(2) by simp
  note ign = msgpack_notification_ignored[OF mem_ok e(1) this fits, of mserver0 0 5 1 4]
  from ign[OF mserver0_simps(3,2)] show ?thesis by auto
qed

end
