(* ===== verification/Session_Properties.thy ===== *)
theory Session_Properties
  imports Msgpack_Session Msgpack_Properties
begin

section \<open>Properties of msgpack sessions\<close>

text \<open>
  The property of a client, the network and a server together that its callers rely on, with a witness: the run of
  one call through a session over the concrete library \<open>mem_api\<close>.
\<close>

text \<open>C3: A caller gets its own result. However the threads of a new client, the deliveries of the network in both
  directions, the threads of a server that has started, other clients and lost connections interleave: the
  request ids of the calls are distinct, no call is completed twice, and when a call is completed with a result,
  then it is what the handler that is bound to the service and method of this call returns for the arguments of
  this call.\<close>

theorem session_results_are_own:
  assumes "mp_ok A" "mp_Run_start api cfg env (mp_serve bs g, z, hs) = Some (Inr (p, z', hs'))"
    "(session_step A E D)\<^sup>*\<^sup>* (new_session (new_KrpcMsgpackChannel E ccfg addr w) p conn) S"
  shows "distinct (map fst (ss_calls S)) \<and> distinct (mp_completed_ids (mc_effects (fst (mt_chan (ss_client S))))) \<and>
    (\<forall>e\<in>set (mc_effects (fst (mt_chan (ss_client S)))). \<forall>i r. mp_success e = Some (i, r) \<longrightarrow>
       (\<exists>a f. (i, a) \<in> set (ss_calls S) \<and> f (mp_args a) = Inr r \<and>
          map_of (mp_dispatcher (mp_serve bs g)) (handler_key (mp_service a) (mp_method a)) = Some f))"
proof -
  have p: "mp_dispatcher p = mp_dispatcher (mp_serve bs g)" "mp_task_queue p = []" "mp_waiting_task p = None" "mp_effects p = []"
    using mp_Run_start_fresh[OF assms(2)] mp_serve_fresh[of bs g] by simp_all
  note start = session_start[OF p(2-4), of A E ccfg addr w conn]
  have ok: "mt_ok (ss_client (new_session (new_KrpcMsgpackChannel E ccfg addr w) p conn))"
    using start by (simp add: session_ok_def)
  have "session_ok A (mp_dispatcher p) S" using session_steps_ok[OF assms(3,1)] start by blast
  moreover have "calls_fresh S" using calls_fresh_steps[OF assms(3) ok] start by blast
  moreover have "distinct (cv_completed (mt_view (ss_client S)))"
    using session_calls.at_most_once(1)[OF assms(3) ok] start by blast
  ultimately show ?thesis
    unfolding session_ok_def client_holds_def own_result_def calls_fresh_def p(1)
    by (simp add: mt_view_def mp_view_def) blast
qed

subsection \<open>The run of one call\<close>

text \<open>The client of the example connects and prepares its call; then it has nothing but its connection.\<close>

definition session_client0 :: "mobj mp_state" where
  "session_client0 = new_KrpcMsgpackChannel good_net [] None world0"

definition connected_idle :: "'o mp_channel \<Rightarrow> bool" where
  "connected_idle ch \<longleftrightarrow> mc_fd ch \<noteq> -1 \<and> mc_alive ch \<and> mc_running ch \<and> \<not> mc_terminated ch \<and> mc_pending ch = [] \<and>
     mc_send_queue ch = [] \<and> mc_recv_buffer ch = [] \<and> mc_effects ch = []"

lemma session_client0_eq: "session_client0 = (mclient0, world0\<lparr>w_os := os_tick_update Suc (w_os world0)\<rparr>)"
  by (simp add: session_client0_def new_KrpcMsgpackChannel_def mclient0_def clock_now_def os_clock_def world0_def
      Load_def ParseConfigInt_def)

lemma session_client_connects:
  "\<exists>ch w. mp_EnsureConnection mem_api good_net (static_discovery (join_endpoints [mk_endpoint ''h'' 1])) ''User'' ''Login''
     session_client0 = (Inr (), (ch, w)) \<and> connected_idle ch \<and> g_request_id w = 2"
proof -
  let ?w = "world0\<lparr>w_os := os_tick_update Suc (w_os world0)\<rparr>"
  note c = session_client0_eq
  have d: "discover good_net (static_discovery (join_endpoints [mk_endpoint ''h'' 1])) s m ?w =
      ([mk_endpoint ''h'' 1], ?w\<lparr>w_static := Some [mk_endpoint ''h'' 1]\<rparr>)" for s m
    by (rule static_discover) (simp_all add: endpoint_ok_def world0_def)
  let ?ep = "mk_endpoint ''h'' 1"
  have conn: "\<exists>ch' v'. mp_connect_to mem_api good_net ?ep (ch, v) = (Inr (), (ch', v')) \<and> connected_idle ch' \<and> g_request_id v' = 2"
    if "ch = mclient0\<lparr>mc_lb_nodes := ns\<rparr>" "w_pools v = []" "g_request_id v = 2" for ch v ns
  proof -
    note start = that
    let ?ch = "ch\<lparr>mc_ip := host ?ep, mc_port := port ?ep, mc_endpoint_key := ep_key ?ep\<rparr>"
    obtain v5 where "mp_AcquireConnection good_net (host ?ep) (port ?ep) (?ch, v) =
        (Inr (fresh_fd (os_open (w_os v))), False, v5)" "g_request_id v5 = 2"
      using start by (auto simp: mp_AcquireConnection_def mexample_defs Load_def ParseConfigInt_def Pool_Acquire_def
          CreateConnectionFd_def)
    moreover have "fresh_fd (os_open (w_os v)) \<noteq> -1" using fresh_fd_nonneg[of "os_open (w_os v)"] by simp
    ultimately show ?thesis
      using start by (simp add: mp_connect_to_def mp_drop_connection_def mp_open_def mexample_defs mp_StartRecvThread_def
          connected_idle_def)
  qed
  have rot: "rotation i (length [?ep]) = [0]" for i by (simp add: rotation_def)
  obtain sel lb where s: "Select ''Login'' (UpdateNodes [?ep] \<lparr>rr_nodes = mc_lb_nodes mclient0, s_global_index = w_lb_index ?w\<rparr>) = (sel, lb)"
    by (rule prod.exhaust)
  obtain now w2 where k: "clock_now good_net ((?w\<lparr>w_static := Some [?ep]\<rparr>)\<lparr>w_lb_index := s_global_index lb\<rparr>) = (now, w2)"
    by (rule prod.exhaust)
  then have "w_pools w2 = []" "g_request_id w2 = 2" by (auto simp: clock_now_def os_clock_def world0_def)
  from conn[OF refl this, of "rr_nodes lb"] obtain ch' v' where
    "mp_connect_to mem_api good_net ?ep (mclient0\<lparr>mc_lb_nodes := rr_nodes lb\<rparr>, w2) = (Inr (), (ch', v'))"
    "connected_idle ch'" "g_request_id v' = 2" by blast
  with s k rot d[of "''User''" "''Login''"] show ?thesis
    by (simp add: c mp_EnsureConnection_def Let_def EndpointAvailable_def mclient0_simps world0_def)
qed

text \<open>What the client does with the call, up to the frame on the wire.\<close>

definition login_frame_call :: mp_prepared where
  "login_frame_call = \<lparr>mr_request_id = 2, mr_payload = login_frame, mr_timeout_ms = 1000, mr_callback = None\<rparr>"

definition login_pending :: MpPendingCall where
  "login_pending = \<lparr>mq_has_promise = True, mq_callback = None, mq_start_time = 0, mq_timeout_ms = 1000\<rparr>"

lemma login_call_prepared:
  "\<exists>ch w. mp_prepare_call mem_api good_net (static_discovery (join_endpoints [mk_endpoint ''h'' 1])) mlogin
     session_client0 = (Some login_frame_call, (ch, w)) \<and> connected_idle ch"
proof -
  obtain ch w where "mp_EnsureConnection mem_api good_net (static_discovery (join_endpoints [mk_endpoint ''h'' 1]))
      ''User'' ''Login'' session_client0 = (Inr (), (ch, w))" "connected_idle ch" "g_request_id w = 2"
    using session_client_connects by blast
  then show ?thesis
    by (simp add: mp_prepare_call_def mlogin_def NextRequestId_def Let_def login_frame_call_def login_frame_def)
qed

definition login_net :: discovery where
  "login_net = static_discovery (join_endpoints [mk_endpoint ''h'' 1])"

text \<open>After the call the client waits for the reply.\<close>

definition awaits_login :: "mobj mp_threads \<Rightarrow> bool" where
  "awaits_login t \<longleftrightarrow> receiving t \<and> mc_recv_buffer (fst (mt_chan t)) = [] \<and>
     (\<exists>q. map_of (mc_pending (fst (mt_chan t))) 2 = Some q \<and> mq_has_promise q \<and> mq_callback q = None)"

text \<open>The session while the call is on its way: only the client, the server and the bytes change.\<close>

definition login_session :: "mobj mp_threads \<Rightarrow> mobj mp_server \<Rightarrow> string \<Rightarrow> string \<Rightarrow> mobj rpc_session" where
  "login_session t s out answer = \<lparr>ss_client = t, ss_server = s, ss_conn = 4, ss_to_server = out, ss_to_client = answer,
     ss_calls = [(2, mlogin)]\<rparr>"

lemma login_written:
  assumes "mc_fd ch \<noteq> -1" "mc_send_queue ch = [(BuildHeader login_frame, login_frame)]"
  shows "\<exists>ws. mp_SendLoop_turn mem_api good_net ws (ch, w) =
    Some (mc_emit [Mc_sent (mc_fd ch) (wire login_frame)] (ch\<lparr>mc_send_queue := []\<rparr>), w)"
proof -
  let ?h = "BuildHeader login_frame" and ?ws = "[Wrote (4 + length login_frame)]"
  have l: "mp_left ?h login_frame False 0 = wire login_frame" by (simp add: mp_left_def)
  obtain r out where o: "mp_send_segments ?ws ?h login_frame False 0 [] = (r, out)" by (rule prod.exhaust)
  have "fst (mp_send_segments ?ws ?h login_frame False 0 []) = Sent"
    by (rule mp_send_segments_complete) (simp_all add: l positive_writes_def writes_count_def)
  with o have "r = Sent" by simp
  with mp_send_segments_prefix[OF _ o] have "out = wire login_frame" by (auto simp: l)
  with o \<open>r = Sent\<close> assms show ?thesis by (intro exI[of _ ?ws]) (simp add: mp_SendLoop_turn_def Let_def)
qed

lemma login_sent:
  "\<exists>t. (session_step mem_api good_net login_net)\<^sup>*\<^sup>* (new_session session_client0 p 3)
     (login_session t (new_mp_server p) (wire login_frame) []) \<and> awaits_login t"
proof -
  let ?step = "session_step mem_api good_net login_net" and ?s = "new_mp_server p"
  obtain ch w where p: "mp_prepare_call mem_api good_net login_net mlogin session_client0 = (Some login_frame_call, (ch, w))"
    "connected_idle ch" using login_call_prepared by (auto simp: login_net_def)
  have c0: "fst session_client0 = mclient0" "g_request_id (snd session_client0) = 2"
    by (simp_all add: session_client0_eq world0_def)
  let ?t0 = "\<lparr>mt_chan = session_client0, mt_callers = []\<rparr>"
  let ?t1 = "\<lparr>mt_chan = (ch, w), mt_callers = [Mp_Prepared login_frame_call]\<rparr>"
  let ?S = "\<lambda>t out. login_session t ?s out []"
  have "?step (new_session session_client0 p 3) ((ss_move 4 ?t1 (new_session session_client0 p 3))
      \<lparr>ss_calls := ss_calls (new_session session_client0 p 3) @ [(mr_request_id login_frame_call, mlogin)]\<rparr>)"
    by (rule session_step.call[where t = ?t0])
      (use p c0 in \<open>simp_all add: new_session_def mp_ids_left_def mexample_defs frames_fit_def connected_idle_def
        unused_conn_def new_mp_server_def\<close>)
  moreover have "\<not> keeps_connection ?t0 ?t1"
    using p(2) c0 by (simp add: keeps_connection_def connected_idle_def mclient0_simps)
  ultimately have s1: "?step (new_session session_client0 p 3) (?S ?t1 [])"
    by (simp add: new_session_def ss_move_def login_frame_call_def login_session_def)
  obtain now w1 where "clock_now good_net w = (now, w1)" by (rule prod.exhaust)
  then obtain q w2 where i: "mp_start_request good_net 2 1000 None (ch, w) = (ch\<lparr>mc_pending := [(2, q)]\<rparr>, w2)"
    "mq_has_promise q" "mq_callback q = None"
    using p(2) by (auto simp: mp_start_request_def mp_insert_request_def connected_idle_def emplace_def)
  let ?ch2 = "ch\<lparr>mc_pending := [(2, q)]\<rparr>"
  let ?t2 = "\<lparr>mt_chan = (?ch2, w2), mt_callers = [Mp_Inserted login_frame_call]\<rparr>"
  have "?step (?S ?t1 []) (ss_move 5 ?t2 (?S ?t1 []))"
    using mp_own_step.insert[of "(ch, w)" login_frame_call "[Mp_Prepared login_frame_call]" mem_api good_net login_net] p(2) i(1)
    by (intro session_step.own) (simp_all add: login_session_def connected_idle_def login_frame_call_def frames_fit_def unused_conn_def new_mp_server_def)
  then have s2: "?step (?S ?t1 []) (?S ?t2 [])" by (simp add: login_session_def ss_move_kept[where es = "[]"])
  let ?ch3 = "?ch2\<lparr>mc_send_queue := [(BuildHeader login_frame, login_frame)]\<rparr>"
  let ?t3 = "\<lparr>mt_chan = (?ch3, w2), mt_callers = []\<rparr>"
  have "mp_send_request mem_api 2 login_frame ?ch2 = ?ch3"
    using p(2) by (simp add: mp_send_request_def SendFrame_def mp_EnqueueSend_def connected_idle_def)
  then have "?step (?S ?t2 []) (ss_move 5 ?t3 (?S ?t2 []))"
    using mp_own_step.send_request[of "(?ch2, w2)" login_frame_call "[Mp_Inserted login_frame_call]" mem_api good_net login_net] p(2) login_frame_fits
    by (intro session_step.own) (simp_all add: login_session_def connected_idle_def login_frame_call_def frames_fit_def unused_conn_def new_mp_server_def)
  then have s3: "?step (?S ?t2 []) (?S ?t3 [])" by (simp add: login_session_def ss_move_kept[where es = "[]"])
  let ?ch4 = "mc_emit [Mc_sent (mc_fd ?ch3) (wire login_frame)] (?ch3\<lparr>mc_send_queue := []\<rparr>)"
  let ?t4 = "\<lparr>mt_chan = (?ch4, w2), mt_callers = []\<rparr>"
  obtain ws where "mp_SendLoop_turn mem_api good_net ws (?ch3, w2) = Some (?ch4, w2)"
    using login_written[of ?ch3 w2] p(2) by (auto simp: connected_idle_def)
  then have "?step (?S ?t3 []) (ss_move 5 ?t4 (?S ?t3 []))"
    using mp_own_step.send[of "(?ch3, w2)" mem_api good_net ws "(?ch4, w2)" login_net "[]"] p(2)
    by (intro session_step.own) (simp_all add: login_session_def connected_idle_def frames_fit_def unused_conn_def new_mp_server_def mc_emit_def)
  then have s4: "?step (?S ?t3 []) (?S ?t4 (wire login_frame))"
    by (simp add: login_session_def ss_move_kept[where es = "[Mc_sent (mc_fd ch) (wire login_frame)]"] mc_emit_def)
  have "awaits_login ?t4" using p(2) i(2,3) by (simp add: awaits_login_def receiving_def connected_idle_def mc_emit_def)
  with s1 s2 s3 s4 show ?thesis by (meson converse_rtranclp_into_rtranclp rtranclp.rtrancl_refl)
qed


definition login_reply_bytes :: string where
  "login_reply_bytes = reply_payload mem_api (mp_request_header 2 1000 ''User'' ''Login'') (Inr (MPair (MStr ''ab'') (MStr ''ok'')))"

lemma login_reply_fits: "length login_reply_bytes < 4294967296"
  using mlogin_fits(2) by (simp add: login_reply_bytes_def reply_payload_def reply_body_def)

lemma login_session_serves:
  assumes "mp_server_step mem_api s s'" "length (ms_buffers s' 4) \<le> length (ms_buffers s 4)"
    "mp_effects (ms_provider s') = mp_effects (ms_provider s) @ es" "mp_effects (ms_provider s) = []"
    "\<forall>e\<in>set es. case e of Mp_sent_to c bytes \<Rightarrow> length bytes < 4294967300 | _ \<Rightarrow> True"
  shows "session_step mem_api good_net login_net (login_session t s [] []) (login_session t s' [] (sent_by_server 4 es))"
  using session_step.server[of mem_api "login_session t s [] []" s' good_net login_net] assms
  by (simp add: login_session_def ss_serve_def replies_fit_def)

lemma login_answered:
  assumes "p = mserver0\<lparr>mp_idle_close_threshold_ms := 5000 * 4\<rparr>"
  shows "\<exists>s. (session_step mem_api good_net login_net)\<^sup>*\<^sup>* (login_session t (new_mp_server p) (wire login_frame) [])
     (login_session t s [] (wire login_reply_bytes))"
proof -
  let ?step = "session_step mem_api good_net login_net"
  let ?s0 = "(new_mp_server p)\<lparr>ms_buffers := (\<lambda>_. [])(4 := wire login_frame)\<rparr>"
  have "\<not> mp_crashed p"
    using assms by (simp add: mserver0_def mp_StartWorkerPool_def Bind_def new_KrpcMsgpackProvider_def Let_def)
  then have d: "?step (login_session t (new_mp_server p) (wire login_frame) []) (login_session t ?s0 [] [])"
    using session_step.deliver[where S = "login_session t (new_mp_server p) (wire login_frame) []" and
        bytes = "wire login_frame" and rest = "[]" and buffers = "\<lambda>_. []" and A = mem_api and E = good_net and D = login_net]
    unfolding new_mp_server_def login_session_def by simp
  obtain s1 s2 s3 where s: "mp_server_step mem_api ?s0 s1" "mp_server_step mem_api s1 s2" "mp_server_step mem_api s2 s3"
    "ms_buffers s1 4 = []" "ms_buffers s2 = ms_buffers s1" "ms_buffers s3 = ms_buffers s1"
    "mp_effects (ms_provider s1) = []" "mp_effects (ms_provider s2) = []"
    "mp_effects (ms_provider s3) = [Mp_called ''User'' ''Login'' (MStr ''ab''), Mp_sent_to 4 (wire login_reply_bytes)]"
    using login_served[OF assms, of ?s0] by (auto simp: new_mp_server_def login_reply_bytes_def)
  have "mp_effects p = []" using assms by simp
  then have e1: "?step (login_session t ?s0 [] []) (login_session t s1 [] [])"
    using login_session_serves[OF s(1), of "[]" t] s(4,7) by (simp add: new_mp_server_def)
  have e2: "?step (login_session t s1 [] []) (login_session t s2 [] [])"
    using login_session_serves[OF s(2), of "[]" t] s(5,7,8) by simp
  have e3: "?step (login_session t s2 [] []) (login_session t s3 [] (wire login_reply_bytes))"
    using login_session_serves[OF s(3) _ _ s(8), of "[Mp_called ''User'' ''Login'' (MStr ''ab''), Mp_sent_to 4 (wire login_reply_bytes)]" t]
      s(5,6,8,9) login_reply_fits by simp
  from d e1 e2 e3 show ?thesis by (meson converse_rtranclp_into_rtranclp rtranclp.rtrancl_refl)
qed

lemma login_completed:
  assumes "awaits_login t"
  shows "\<exists>t'. session_step mem_api good_net login_net (login_session t s [] (wire login_reply_bytes)) (login_session t' s [] []) \<and>
     Mc_promise 2 (Inr (MPair (MStr ''ab'') (MStr ''ok''))) \<in> set (mc_effects (fst (mt_chan t')))"
proof -
  let ?h = "mp_request_header 2 1000 ''User'' ''Login''" and ?out = "Inr (MPair (MStr ''ab'') (MStr ''ok''))"
  let ?t' = "t\<lparr>mt_chan := mp_RecvLoop_turn mem_api good_net (Mr_data (wire login_reply_bytes)) (mt_chan t)\<rparr>"
  obtain ch w where t: "mt_chan t = (ch, w)" by (rule prod.exhaust)
  with assms obtain q where q: "map_of (mc_pending ch) (mh_request_id ?h) = Some q" "mq_has_promise q" "mq_callback q = None"
    by (auto simp: awaits_login_def mp_request_header_def)
  have st: "mc_alive ch" "mc_running ch" "mc_fd ch \<noteq> -1" "mc_recv_buffer ch = []"
    using assms by (simp_all add: awaits_login_def receiving_def t)
  have id: "mh_request_id ?h = 2" by (simp add: mp_request_header_def)
  have "mp_RecvLoop_turn mem_api good_net (Mr_data (wire login_reply_bytes)) (ch, w) =
      (mp_CompletePending mem_api 2 q [] (MPair (MStr ''ab'') (MStr ''ok'')) (ch\<lparr>mc_pending := AList.delete 2 (mc_pending ch)\<rparr>), w)"
    using mp_recv_reply[OF mem_ok login_reply_fits[unfolded login_reply_bytes_def] st q(1), of good_net w]
    unfolding login_reply_bytes_def id sum.case .
  then have "Mc_promise 2 ?out \<in> set (mc_effects (fst (mt_chan ?t')))"
    using q(2,3) by (simp add: t mp_CompletePending_def mc_emit_def)
  moreover have "session_step mem_api good_net login_net (login_session t s [] (wire login_reply_bytes)) (login_session ?t' s [] [])"
    using session_step.receive[of t "login_session t s [] (wire login_reply_bytes)" "wire login_reply_bytes" "[]" mem_api good_net login_net] assms
    by (simp add: awaits_login_def login_session_def)
  ultimately show ?thesis by blast
qed

theorem session_results_are_own_witness:
  "\<exists>S p. (session_step mem_api good_net login_net)\<^sup>*\<^sup>* (new_session (new_KrpcMsgpackChannel good_net [] None world0) p 3) S \<and>
    Mc_promise 2 (Inr (MPair (MStr ''ab'') (MStr ''ok''))) \<in> set (mc_effects (fst (mt_chan (ss_client S)))) \<and>
    (\<exists>a. (2, a) \<in> set (ss_calls S) \<and> mp_args a = MStr ''ab'')"
proof -
  let ?bs = "[(''User'', ''Login'', \<lambda>x. Inr (MPair x (MStr ''ok'')))]" and ?r = "MPair (MStr ''ab'') (MStr ''ok'')"
  obtain p z' where r: "mp_Run_start tree_api [] run_env0 (mp_serve ?bs metrics0, [], http_server0, os0) =
      Some (Inr (p, z', http_server0, os0))" "p = mserver0\<lparr>mp_idle_close_threshold_ms := 5000 * 4\<rparr>"
    using mp_example_served[of "(http_server0, os0)"] by blast
  obtain t where t: "(session_step mem_api good_net login_net)\<^sup>*\<^sup>* (new_session session_client0 p 3)
     (login_session t (new_mp_server p) (wire login_frame) [])" "awaits_login t" using login_sent by blast
  obtain s where s: "(session_step mem_api good_net login_net)\<^sup>*\<^sup>* (login_session t (new_mp_server p) (wire login_frame) [])
     (login_session t s [] (wire login_reply_bytes))" using login_answered[OF r(2)] by blast
  obtain t' where t': "session_step mem_api good_net login_net (login_session t s [] (wire login_reply_bytes)) (login_session t' s [] [])"
     "Mc_promise 2 (Inr ?r) \<in> set (mc_effects (fst (mt_chan t')))" using login_completed[OF t(2)] by blast
  note steps = rtranclp.rtrancl_into_rtrancl[OF rtranclp_trans[OF t(1) s] t'(1)]
  have got: "Mc_promise 2 (Inr ?r) \<in> set (mc_effects (fst (mt_chan (ss_client (login_session t' s [] [])))))"
    using t'(2) by (simp add: login_session_def)
  have "mp_success (Mc_promise 2 (Inr ?r)) = Some (2, ?r)" by simp
  with session_results_are_own[OF mem_ok r(1) steps[unfolded session_client0_def]] got
  obtain a f where a: "(2, a) \<in> set (ss_calls (login_session t' s [] []))" "f (mp_args a) = Inr ?r"
    "map_of (mp_dispatcher (mp_serve ?bs metrics0)) (handler_key (mp_service a) (mp_method a)) = Some f" by blast
  then have "mp_args a = MStr ''ab''"
    by (auto simp: mp_serve_def Bind_def new_KrpcMsgpackProvider_def bind_handler_def emplace_def split: if_splits)
  with a(1) got steps show ?thesis unfolding session_client0_def by blast
qed

end
