(* ===== verification/Thread_Stopping.thy ===== *)
theory Thread_Stopping
  imports Channel_Threads Msgpack_Lifecycle Msgpack_Server
begin

section \<open>Stopping a thread that waits on a condition variable\<close>

text \<open>
  All threads of the program are stopped in the same way: another thread sets an atomic flag, notifies the
  condition variable and joins. The flag is set without the mutex with which the loop evaluates its
  condition. \<open>cv_step\<close> models this with the phases of \<open>wait\<close>: the loop evaluates its condition under
  the mutex, decides to sleep, and then releases the mutex and sleeps in one step; a notification reaches only
  a thread that sleeps. \<open>tick\<close> is what the loop does when a timed wait runs out; it is empty for an untimed
  wait. Spurious wake-ups, which the standard allows and does not promise, are left out.
  The locale \<open>stoppable_loop\<close> is the contract of such a loop. An untimed loop can miss the notification
  and sleep for ever; a timed loop (\<open>timed_loop\<close>) can always be joined.
\<close>

datatype waiter = Evaluating | Falling_asleep | Asleep | Left

datatype stopper = Not_stopping | Flag_set | Joining | Joined

type_synonym 's cv_state = "'s \<times> waiter \<times> stopper"

inductive cv_step ::
    "('s \<Rightarrow> bool) \<Rightarrow> ('s \<Rightarrow> bool) \<Rightarrow> ('s \<Rightarrow> 's \<Rightarrow> bool) \<Rightarrow> ('s \<Rightarrow> 's \<Rightarrow> bool) \<Rightarrow> ('s \<Rightarrow> 's) \<Rightarrow>
     's cv_state \<Rightarrow> 's cv_state \<Rightarrow> bool"
  for ready finished work tick stop where
  decide: "\<not> ready s \<Longrightarrow> cv_step ready finished work tick stop (s, Evaluating, p) (s, Falling_asleep, p)"
| leave: "ready s \<Longrightarrow> finished s \<Longrightarrow> cv_step ready finished work tick stop (s, Evaluating, p) (s, Left, p)"
| work: "ready s \<Longrightarrow> \<not> finished s \<Longrightarrow> work s s' \<Longrightarrow>
    cv_step ready finished work tick stop (s, Evaluating, p) (s', Evaluating, p)"
| sleep: "cv_step ready finished work tick stop (s, Falling_asleep, p) (s, Asleep, p)"
| time_out: "tick s s' \<Longrightarrow> cv_step ready finished work tick stop (s, Asleep, p) (s', Evaluating, p)"
| set_flag: "cv_step ready finished work tick stop (s, w, Not_stopping) (stop s, w, Flag_set)"
| notify: "cv_step ready finished work tick stop (s, w, Flag_set) (s, if w = Asleep then Evaluating else w, Joining)"
| join: "cv_step ready finished work tick stop (s, Left, Joining) (s, Left, Joined)"

inductive_cases cv_asleepE: "cv_step ready finished work tick stop (s, Asleep, Joining) t"

locale stoppable_loop =
  fixes ready :: "'s \<Rightarrow> bool"
    and finished :: "'s \<Rightarrow> bool"
    and work :: "'s \<Rightarrow> 's \<Rightarrow> bool"
    and tick :: "'s \<Rightarrow> 's \<Rightarrow> bool"
    and stop :: "'s \<Rightarrow> 's"
    and stopped :: "'s \<Rightarrow> bool"
    and left :: "'s \<Rightarrow> nat"
  assumes stop_stopped: "stopped (stop s)"
    and stopped_ready: "stopped s \<Longrightarrow> ready s"
    and stopped_works: "stopped s \<Longrightarrow> \<not> finished s \<Longrightarrow> \<exists>s'. work s s'"
    and work_measure: "stopped s \<Longrightarrow> \<not> finished s \<Longrightarrow> work s s' \<Longrightarrow> stopped s' \<and> left s' < left s"
    and tick_stopped: "stopped s \<Longrightarrow> tick s s' \<Longrightarrow> stopped s'"
begin

abbreviation step :: "'s cv_state \<Rightarrow> 's cv_state \<Rightarrow> bool" where
  "step \<equiv> cv_step ready finished work tick stop"

lemmas leave_step = cv_step.leave[of ready _ finished work tick stop]
lemmas work_step = cv_step.work[of ready _ finished work _ tick stop]
lemmas sleep_step = cv_step.sleep[of ready finished work tick stop]
lemmas time_out_step = cv_step.time_out[of tick _ _ ready finished work stop]
lemmas set_flag_step = cv_step.set_flag[of ready finished work tick stop]
lemmas notify_step = cv_step.notify[of ready finished work tick stop]
lemmas join_step = cv_step.join[of ready finished work tick stop]

text \<open>The flag and the notification fall between the evaluation and the sleep: the join waits for ever.\<close>

lemma lost_wakeup:
  assumes "\<not> ready s"
  shows "step\<^sup>*\<^sup>* (s, Evaluating, Not_stopping) (stop s, Asleep, Joining)"
proof -
  have "step (s, Evaluating, Not_stopping) (s, Falling_asleep, Not_stopping)"
    "step (s, Falling_asleep, Not_stopping) (stop s, Falling_asleep, Flag_set)"
    "step (stop s, Falling_asleep, Joining) (stop s, Asleep, Joining)"
    using assms by (auto intro: cv_step.intros)
  moreover have "step (stop s, Falling_asleep, Flag_set) (stop s, Falling_asleep, Joining)"
    using notify_step[of "stop s" Falling_asleep] by simp
  ultimately show ?thesis by (meson converse_rtranclp_into_rtranclp rtranclp.rtrancl_refl)
qed

lemma asleep_stuck:
  assumes "\<And>s'. \<not> tick s s'"
  shows "\<not> step (s, Asleep, Joining) t"
  using assms by (auto elim: cv_asleepE)

text \<open>A loop that is awake when it is stopped does the rest of its work and leaves.\<close>

lemma awake_leaves:
  "stopped s \<Longrightarrow> \<exists>s'. step\<^sup>*\<^sup>* (s, Evaluating, Joining) (s', Left, Joined)"
proof (induction "left s" arbitrary: s rule: less_induct)
  case less
  note ready = stopped_ready[OF less.prems]
  show ?case
  proof (cases "finished s")
    case True
    with ready have "step (s, Evaluating, Joining) (s, Left, Joining)" by (rule leave_step)
    moreover have "step (s, Left, Joining) (s, Left, Joined)" by (rule join_step)
    ultimately show ?thesis by (meson converse_rtranclp_into_rtranclp rtranclp.rtrancl_refl)
  next
    case False
    from stopped_works[OF less.prems False] obtain s1 where w: "work s s1" by blast
    note s1 = work_measure[OF less.prems False w]
    from less.hyps[OF conjunct2[OF s1] conjunct1[OF s1]] work_step[OF ready False w, of Joining] show ?thesis
      by (meson converse_rtranclp_into_rtranclp)
  qed
qed

lemma stopped_once:
  "step x y \<Longrightarrow> (snd (snd x) \<noteq> Not_stopping \<longrightarrow> stopped (fst x)) \<Longrightarrow> (snd (snd y) \<noteq> Not_stopping \<longrightarrow> stopped (fst y))"
  by (induction rule: cv_step.induct) (auto simp: stop_stopped tick_stopped dest: work_measure)

end

text \<open>A loop with a timed wait.\<close>

locale timed_loop = stoppable_loop +
  assumes tick_total: "\<exists>s'. tick s s'"
begin

lemma can_be_joined:
  assumes "stopped s" "w \<noteq> Left"
  shows "\<exists>s'. step\<^sup>*\<^sup>* (s, w, Joining) (s', Left, Joined)"
proof -
  obtain s1 where t: "tick s s1" using tick_total by blast
  have e: "\<exists>s'. step\<^sup>*\<^sup>* (s, Evaluating, Joining) (s', Left, Joined)" by (rule awake_leaves[OF assms(1)])
  have a: "\<exists>s'. step\<^sup>*\<^sup>* (s, Asleep, Joining) (s', Left, Joined)"
    using awake_leaves[OF tick_stopped[OF assms(1) t]] time_out_step[OF t, of Joining]
    by (meson converse_rtranclp_into_rtranclp)
  have f: "\<exists>s'. step\<^sup>*\<^sup>* (s, Falling_asleep, Joining) (s', Left, Joined)"
    using a sleep_step[of s Joining] by (meson converse_rtranclp_into_rtranclp)
  from assms(2) e a f show ?thesis by (cases w) auto
qed

text \<open>From every state, a stop that has begun can be brought to its end.\<close>

lemma always_joined:
  assumes "step\<^sup>*\<^sup>* (s0, Evaluating, Not_stopping) (s, w, p)"
  shows "\<exists>s'. step\<^sup>*\<^sup>* (s, w, p) (s', Left, Joined)"
proof -
  have inv: "snd (snd y) \<noteq> Not_stopping \<longrightarrow> stopped (fst y)" if "step\<^sup>*\<^sup>* (s0, Evaluating, Not_stopping) y" for y
    using that by (induction rule: rtranclp_induct) (auto dest: stopped_once)
  have "p = Joined \<longrightarrow> w = Left"
    using assms by (induction "(s, w, p)" arbitrary: s w p rule: rtranclp_induct) (auto elim: cv_step.cases)
  moreover have joining: "\<exists>s'. step\<^sup>*\<^sup>* (r, v, Joining) (s', Left, Joined)" if "stopped r" for r v
  proof (cases "v = Left")
    case True
    then show ?thesis using join_step[of r] by blast
  next
    case False
    with can_be_joined that show ?thesis by blast
  qed
  moreover have flagged: "\<exists>s'. step\<^sup>*\<^sup>* (r, v, Flag_set) (s', Left, Joined)" if "stopped r" for r v
    using joining[OF that, of "if v = Asleep then Evaluating else v"] notify_step[of r v]
    by (meson converse_rtranclp_into_rtranclp)
  ultimately show ?thesis
    using inv[OF assms] joining flagged
  proof (cases p)
    case Not_stopping
    with flagged[OF stop_stopped, of s w] set_flag_step[of s w] show ?thesis
      by (meson converse_rtranclp_into_rtranclp)
  qed auto
qed

end

subsection \<open>The workers of the servers\<close>

text \<open>The condition, the exit and the body of \<open>WorkerLoop\<close>, and the flag that \<open>StopWorkerPool\<close> sets.\<close>

definition worker_ready :: "provider \<Rightarrow> bool" where
  "worker_ready p \<longleftrightarrow> stop_workers p \<or> task_queue p \<noteq> []"

definition worker_finished :: "provider \<Rightarrow> bool" where
  "worker_finished p \<longleftrightarrow> stop_workers p \<and> task_queue p = []"

definition worker_turn :: "pb_runtime \<Rightarrow> services \<Rightarrow> provider \<Rightarrow> provider \<Rightarrow> bool" where
  "worker_turn rt S p p' \<longleftrightarrow> (\<exists>now c. WorkerLoop_turn rt S now c p = Some p')"

definition set_stop_workers :: "provider \<Rightarrow> provider" where
  "set_stop_workers p = p\<lparr>stop_workers := True\<rparr>"

lemma WorkerLoop_turn_left:
  "WorkerLoop_turn rt S now c p = Some p' \<Longrightarrow> stop_workers p' = stop_workers p \<and> length (task_queue p') < length (task_queue p)"
  by (auto simp: WorkerLoop_turn_def worker_take_def split: list.splits)

interpretation worker_stop: stoppable_loop worker_ready worker_finished "worker_turn rt S" "\<lambda>_ _. False"
  set_stop_workers stop_workers "\<lambda>p. length (task_queue p)"
proof unfold_locales
  fix p assume "stop_workers p" "\<not> worker_finished p"
  then obtain t ts where "task_queue p = t # ts" by (cases "task_queue p") (auto simp: worker_finished_def)
  then have "WorkerLoop_turn rt S 0 0 p \<noteq> None" by (simp add: WorkerLoop_turn_def worker_take_def)
  then show "\<exists>p'. worker_turn rt S p p'" unfolding worker_turn_def by blast
qed (auto simp: worker_ready_def worker_finished_def worker_turn_def set_stop_workers_def dest: WorkerLoop_turn_left)

definition mp_worker_ready :: "'o mp_provider \<Rightarrow> bool" where
  "mp_worker_ready p \<longleftrightarrow> mp_stop_workers p \<or> mp_task_queue p \<noteq> []"

definition mp_worker_finished :: "'o mp_provider \<Rightarrow> bool" where
  "mp_worker_finished p \<longleftrightarrow> mp_stop_workers p \<and> mp_task_queue p = []"

definition mp_worker_turn :: "'o msgpack_api \<Rightarrow> 'o mp_provider \<Rightarrow> 'o mp_provider \<Rightarrow> bool" where
  "mp_worker_turn A p p' \<longleftrightarrow> (\<exists>now c. mp_WorkerLoop_turn A now c p = Some p')"

definition mp_set_stop_workers :: "'o mp_provider \<Rightarrow> 'o mp_provider" where
  "mp_set_stop_workers p = p\<lparr>mp_stop_workers := True\<rparr>"

lemma mp_run_task_queue:
  "mp_stop_workers (mp_run_task A now c t p) = mp_stop_workers p \<and> mp_task_queue (mp_run_task A now c t p) = mp_task_queue p"
  by (simp add: mp_run_task_def Let_def mp_record_def)

lemma mp_WorkerLoop_turn_left:
  "mp_WorkerLoop_turn A now c p = Some p' \<Longrightarrow>
     mp_stop_workers p' = mp_stop_workers p \<and> length (mp_task_queue p') < length (mp_task_queue p)"
  by (auto simp: mp_WorkerLoop_turn_def mp_worker_take_def mp_run_task_queue split: list.splits)

interpretation mp_worker_stop: stoppable_loop mp_worker_ready mp_worker_finished "mp_worker_turn A" "\<lambda>_ _. False"
  mp_set_stop_workers mp_stop_workers "\<lambda>p. length (mp_task_queue p)"
proof unfold_locales
  fix p :: "'a mp_provider" assume "mp_stop_workers p" "\<not> mp_worker_finished p"
  then obtain t ts where "mp_task_queue p = t # ts" by (cases "mp_task_queue p") (auto simp: mp_worker_finished_def)
  then have "mp_WorkerLoop_turn A 0 0 p \<noteq> None" by (simp add: mp_WorkerLoop_turn_def mp_worker_take_def)
  then show "\<exists>p'. mp_worker_turn A p p'" unfolding mp_worker_turn_def by blast
qed (auto simp: mp_worker_ready_def mp_worker_finished_def mp_worker_turn_def mp_set_stop_workers_def
    dest: mp_WorkerLoop_turn_left)

subsection \<open>The threads of the client\<close>

text \<open>The flag of the thread and the channel. The send loop of the protobuf client waits without a time;
  the timeout loops of both clients wake up every 50 ms.\<close>

definition send_ready :: "bool \<times> chan_state \<Rightarrow> bool" where
  "send_ready s \<longleftrightarrow> \<not> fst s \<or> m_send_queue (fst (snd s)) \<noteq> []"

definition send_finished :: "bool \<times> chan_state \<Rightarrow> bool" where
  "send_finished s \<longleftrightarrow> \<not> fst s \<and> m_send_queue (fst (snd s)) = []"

definition send_turn :: "net_env \<Rightarrow> bool \<times> chan_state \<Rightarrow> bool \<times> chan_state \<Rightarrow> bool" where
  "send_turn E s s' \<longleftrightarrow> fst s' = fst s \<and> (\<exists>ws. SendLoop_turn E ws (snd s) = Some (snd s'))"

definition timeout_tick :: "net_env \<Rightarrow> bool \<times> chan_state \<Rightarrow> bool \<times> chan_state \<Rightarrow> bool" where
  "timeout_tick E s s' \<longleftrightarrow> s' = (fst s, if fst s then TimeoutLoop_turn E (snd s) else snd s)"

definition mp_timeout_tick ::
    "'o msgpack_api \<Rightarrow> net_env \<Rightarrow> bool \<times> 'o mp_state \<Rightarrow> bool \<times> 'o mp_state \<Rightarrow> bool" where
  "mp_timeout_tick A E s s' \<longleftrightarrow> s' = (fst s, if fst s then mp_TimeoutLoop_turn A E (snd s) else snd s)"

definition clear_running :: "bool \<times> 's \<Rightarrow> bool \<times> 's" where
  "clear_running s = (False, snd s)"

lemma only_table_queue: "only_table st st' \<Longrightarrow> m_send_queue (fst st') = m_send_queue (fst st)"
  by (auto simp: only_table_def)

lemma remove_all_queue:
  "m_send_queue (fst (foldl (\<lambda>s i. RemovePendingCall E i reason s) st is)) = m_send_queue (fst st)"
  by (induction "is" arbitrary: st) (simp_all add: only_table_queue[OF only_table_RemovePendingCall])

lemma HandleHeartbeatFailure_queue: "m_send_queue (fst (HandleHeartbeatFailure E reason st)) = []"
proof -
  obtain ch1 w1 where c: "CloseConnectionLocked st = (ch1, w1)" by (rule prod.exhaust)
  define st2 where "st2 = foldl (\<lambda>s i. RemovePendingCall E i reason s) (ch1\<lparr>m_send_queue := []\<rparr>, w1)
    (map t_request_id (m_send_queue ch1))"
  obtain ch3 w3 where f: "FailPendingCalls E reason st2 = (ch3, w3)" by (rule prod.exhaust)
  have "m_send_queue (fst st2) = []" by (simp add: st2_def remove_all_queue)
  with only_table_queue[OF only_table_FailPendingCalls[of st2 E reason]] have "m_send_queue ch3 = []" by (simp add: f)
  with c f show ?thesis by (simp add: HandleHeartbeatFailure_def st2_def)
qed

lemma SendLoop_turn_queue:
  "SendLoop_turn E ws st = Some st' \<Longrightarrow> length (m_send_queue (fst st')) < length (m_send_queue (fst st))"
  by (cases st) (auto simp: SendLoop_turn_def Let_def HandleHeartbeatFailure_queue CloseConnectionLocked_def
      split: list.splits prod.splits send_result.splits if_splits)

lemma SendLoop_turn_possible: "m_send_queue (fst st) \<noteq> [] \<Longrightarrow> SendLoop_turn E [Werror ''x''] st \<noteq> None"
  by (cases st) (auto simp: SendLoop_turn_def Let_def send_segments.simps split: list.splits)

interpretation send_stop: stoppable_loop send_ready send_finished "send_turn E" "\<lambda>_ _. False"
  clear_running "\<lambda>s. \<not> fst s" "\<lambda>s. length (m_send_queue (fst (snd s)))"
proof unfold_locales
  fix s assume "\<not> fst s" "\<not> send_finished s"
  then have "SendLoop_turn E [Werror ''x''] (snd s) \<noteq> None"
    by (intro SendLoop_turn_possible) (simp add: send_finished_def)
  then obtain st' where "SendLoop_turn E [Werror ''x''] (snd s) = Some st'" by blast
  then show "\<exists>s'. send_turn E s s'" by (intro exI[of _ "(fst s, st')"]) (auto simp: send_turn_def)
qed (auto simp: send_ready_def send_finished_def send_turn_def clear_running_def dest: SendLoop_turn_queue)

interpretation timeout_stop: timed_loop "\<lambda>s. \<not> fst s" "\<lambda>s. \<not> fst s" "\<lambda>_ _. False" "timeout_tick E"
  clear_running "\<lambda>s. \<not> fst s" "\<lambda>_. 0"
  by unfold_locales (auto simp: timeout_tick_def clear_running_def)

interpretation mp_timeout_stop: timed_loop "\<lambda>s. \<not> fst s" "\<lambda>s. \<not> fst s" "\<lambda>_ _. False" "mp_timeout_tick A E"
  clear_running "\<lambda>s. \<not> fst s" "\<lambda>_. 0"
  by unfold_locales (auto simp: mp_timeout_tick_def clear_running_def)

text \<open>The four relations: a worker, the send thread and the timeout threads, each with the thread that stops it.\<close>

abbreviation worker_cv :: "pb_runtime \<Rightarrow> services \<Rightarrow> provider cv_state \<Rightarrow> provider cv_state \<Rightarrow> bool" where
  "worker_cv rt S \<equiv> cv_step worker_ready worker_finished (worker_turn rt S) (\<lambda>_ _. False) set_stop_workers"

abbreviation send_cv :: "net_env \<Rightarrow> (bool \<times> chan_state) cv_state \<Rightarrow> (bool \<times> chan_state) cv_state \<Rightarrow> bool" where
  "send_cv E \<equiv> cv_step send_ready send_finished (send_turn E) (\<lambda>_ _. False) clear_running"

abbreviation timeout_cv :: "net_env \<Rightarrow> (bool \<times> chan_state) cv_state \<Rightarrow> (bool \<times> chan_state) cv_state \<Rightarrow> bool" where
  "timeout_cv E \<equiv> cv_step (\<lambda>s. \<not> fst s) (\<lambda>s. \<not> fst s) (\<lambda>_ _. False) (timeout_tick E) clear_running"

abbreviation mp_timeout_cv ::
    "'o msgpack_api \<Rightarrow> net_env \<Rightarrow> (bool \<times> 'o mp_state) cv_state \<Rightarrow> (bool \<times> 'o mp_state) cv_state \<Rightarrow> bool" where
  "mp_timeout_cv A E \<equiv> cv_step (\<lambda>s. \<not> fst s) (\<lambda>s. \<not> fst s) (\<lambda>_ _. False) (mp_timeout_tick A E) clear_running"

end
