(* ===== verification/Heartbeat_Loops.thy ===== *)
theory Heartbeat_Loops
  imports Thread_Stopping
begin

section \<open>The heartbeat loops, and the send loop of the msgpack client\<close>

text \<open>
  Whole turns of the two \<open>HeartbeatLoop\<close>s, from the end of the wait to the next wait, and the remaining
  instances of the contracts of \<open>Thread_Stopping\<close>. The wait has no predicate: it ends when the interval is over
  or when anyone notifies, and the loop does not ask which. Every call of the protobuf client notifies when
  it ends (\<open>HeartbeatActivityNotifier\<close>), and so does every call of the msgpack client.
\<close>

subsection \<open>A turn of the loop\<close>

text \<open>\<open>sent\<close>: \<open>send\<close> takes the ping; \<open>pong\<close>: the frame that the receive thread resolves during the wait;
  \<open>go_on\<close>: the flag as it is read after the heartbeat.\<close>

definition HeartbeatLoop_turn ::
    "pb_runtime \<Rightarrow> net_env \<Rightarrow> bool \<Rightarrow> RpcHeader option \<Rightarrow> bool \<Rightarrow> chan_state \<Rightarrow> chan_state" where
  "HeartbeatLoop_turn rt E sent pong go_on st =
     (case HeartbeatLoop_check st of
        (False, st1) \<Rightarrow> st1
      | (True, st1) \<Rightarrow>
          (case (case SendHeartbeat_start rt sent st1 of
                   (Some r, st2) \<Rightarrow> (r, st2)
                 | (None, st2) \<Rightarrow>
                     SendHeartbeat_finish (case pong of None \<Rightarrow> st2 | Some h \<Rightarrow> ResolveHeartbeat E h st2)) of
             (r, st3) \<Rightarrow> if \<not> go_on then st3 else HeartbeatLoop_result E r st3))"

definition mp_HeartbeatLoop_turn ::
    "'o msgpack_api \<Rightarrow> net_env \<Rightarrow> MsgpackHeader option \<Rightarrow> bool \<Rightarrow> 'o mp_state \<Rightarrow> 'o mp_state" where
  "mp_HeartbeatLoop_turn A E pong go_on st =
     (case mp_HeartbeatLoop_check st of
        (False, st1) \<Rightarrow> st1
      | (True, st1) \<Rightarrow>
          (case (case mp_SendHeartbeat_prepare A st1 of
                   (None, st2) \<Rightarrow> (kSuccess, st2)
                 | (Some frame, st2) \<Rightarrow>
                     (case mp_SendHeartbeat_send frame st2 of
                        (Some r, st3) \<Rightarrow> (r, st3)
                      | (None, st3) \<Rightarrow>
                          mp_SendHeartbeat_finish (case pong of None \<Rightarrow> st3 | Some h \<Rightarrow> mp_ResolveHeartbeat E h st3))) of
             (r, st4) \<Rightarrow> if \<not> go_on then st4 else mp_HeartbeatLoop_result A E r st4))"

text \<open>A connection that is in use gets more heartbeats, not fewer: the notification
  by a call ends the wait like the end of the interval does, and the turn sends a ping.\<close>

lemma activity_sends_ping:
  assumes "m_clientfd ch \<noteq> -1" "frame_bytes rt (ping_header (g_request_id w)) [] = Some ping"
  shows "w_effects (snd (HeartbeatLoop_turn rt E True pong False (ch, w))) = w_effects w @ [Bytes_sent (m_clientfd ch) ping]"
  using assms
  by (auto simp: HeartbeatLoop_turn_def HeartbeatLoop_check_def SendHeartbeat_start_def NextRequestId_def
      SendHeartbeat_finish_def ResolveHeartbeat_def clock_now_def emit_def Let_def split: option.splits prod.splits)

subsection \<open>Stopping the heartbeat threads\<close>

definition heartbeat_tick ::
    "pb_runtime \<Rightarrow> net_env \<Rightarrow> bool \<times> chan_state \<Rightarrow> bool \<times> chan_state \<Rightarrow> bool" where
  "heartbeat_tick rt E s s' \<longleftrightarrow> (\<exists>sent pong go_on.
     s' = (fst s, if fst s then HeartbeatLoop_turn rt E sent pong go_on (snd s) else snd s))"

definition mp_heartbeat_tick ::
    "'o msgpack_api \<Rightarrow> net_env \<Rightarrow> bool \<times> 'o mp_state \<Rightarrow> bool \<times> 'o mp_state \<Rightarrow> bool" where
  "mp_heartbeat_tick A E s s' \<longleftrightarrow> (\<exists>pong go_on.
     s' = (fst s, if fst s then mp_HeartbeatLoop_turn A E pong go_on (snd s) else snd s))"

lemma heartbeat_tick_running: "heartbeat_tick rt E s s' \<Longrightarrow> fst s' = fst s" "mp_heartbeat_tick A E r r' \<Longrightarrow> fst r' = fst r"
  by (auto simp: heartbeat_tick_def mp_heartbeat_tick_def)

lemma heartbeat_tick_total: "\<exists>s'. heartbeat_tick rt E s s'" "\<exists>r'. mp_heartbeat_tick A E r r'"
  unfolding heartbeat_tick_def mp_heartbeat_tick_def by blast+

interpretation heartbeat_stop: timed_loop "\<lambda>s. \<not> fst s" "\<lambda>s. \<not> fst s" "\<lambda>_ _. False" "heartbeat_tick rt E"
  clear_running "\<lambda>s. \<not> fst s" "\<lambda>_. 0"
  by unfold_locales (simp_all only: heartbeat_tick_total heartbeat_tick_running clear_running_def fst_conv simp_thms)

interpretation mp_heartbeat_stop: timed_loop "\<lambda>s. \<not> fst s" "\<lambda>s. \<not> fst s" "\<lambda>_ _. False" "mp_heartbeat_tick A E"
  clear_running "\<lambda>s. \<not> fst s" "\<lambda>_. 0"
  by unfold_locales (simp_all only: heartbeat_tick_total heartbeat_tick_running clear_running_def fst_conv simp_thms)

abbreviation heartbeat_cv ::
    "pb_runtime \<Rightarrow> net_env \<Rightarrow> (bool \<times> chan_state) cv_state \<Rightarrow> (bool \<times> chan_state) cv_state \<Rightarrow> bool" where
  "heartbeat_cv rt E \<equiv> cv_step (\<lambda>s. \<not> fst s) (\<lambda>s. \<not> fst s) (\<lambda>_ _. False) (heartbeat_tick rt E) clear_running"

abbreviation mp_heartbeat_cv ::
    "'o msgpack_api \<Rightarrow> net_env \<Rightarrow> (bool \<times> 'o mp_state) cv_state \<Rightarrow> (bool \<times> 'o mp_state) cv_state \<Rightarrow> bool" where
  "mp_heartbeat_cv A E \<equiv> cv_step (\<lambda>s. \<not> fst s) (\<lambda>s. \<not> fst s) (\<lambda>_ _. False) (mp_heartbeat_tick A E) clear_running"

subsection \<open>The send loop of the msgpack client\<close>

text \<open>It waits without a time. Its outer loop tests the flag again after each task, so after the flag is
  cleared it sends at most one more: the second component says that this test has failed.\<close>

type_synonym 'o mp_sender = "bool \<times> bool \<times> 'o mp_state"

definition mp_send_ready :: "'o mp_sender \<Rightarrow> bool" where
  "mp_send_ready s = (case s of (go_on, out, st) \<Rightarrow> \<not> go_on \<or> mc_send_queue (fst st) \<noteq> [])"

definition mp_send_finished :: "'o mp_sender \<Rightarrow> bool" where
  "mp_send_finished s = (case s of (go_on, out, st) \<Rightarrow> \<not> go_on \<and> (out \<or> mc_send_queue (fst st) = []))"

definition mp_send_turn :: "'o msgpack_api \<Rightarrow> net_env \<Rightarrow> 'o mp_sender \<Rightarrow> 'o mp_sender \<Rightarrow> bool" where
  "mp_send_turn A E s s' \<longleftrightarrow>
     (case s of (go_on, out, st) \<Rightarrow> \<exists>ws st'. mp_SendLoop_turn A E ws st = Some st' \<and> s' = (go_on, \<not> go_on, st'))"

lemma mp_SendLoop_turn_possible:
  "mc_send_queue (fst st) \<noteq> [] \<Longrightarrow> mp_SendLoop_turn A E [Werror ''x''] st \<noteq> None"
  by (cases st) (auto simp: mp_SendLoop_turn_def Let_def split: list.splits)

interpretation mp_send_stop: stoppable_loop mp_send_ready mp_send_finished "mp_send_turn A E" "\<lambda>_ _. False"
  clear_running "\<lambda>s. \<not> fst s" "\<lambda>s. if fst (snd s) then 0 else 1"
proof unfold_locales
  fix s :: "'a mp_sender" assume s: "\<not> fst s" "\<not> mp_send_finished s"
  obtain out st where st: "s = (False, out, st)" using s(1) by (cases s) auto
  with s(2) have "mp_SendLoop_turn A E [Werror ''x''] st \<noteq> None"
    by (intro mp_SendLoop_turn_possible) (simp add: mp_send_finished_def)
  then obtain ch' w' where "mp_SendLoop_turn A E [Werror ''x''] st = Some (ch', w')" by auto
  then show "\<exists>s'. mp_send_turn A E s s'"
    by (intro exI[of _ "(False, True, ch', w')"]) (auto simp: mp_send_turn_def st)
qed (auto simp: mp_send_ready_def mp_send_finished_def mp_send_turn_def clear_running_def)

abbreviation mp_send_cv ::
    "'o msgpack_api \<Rightarrow> net_env \<Rightarrow> 'o mp_sender cv_state \<Rightarrow> 'o mp_sender cv_state \<Rightarrow> bool" where
  "mp_send_cv A E \<equiv> cv_step mp_send_ready mp_send_finished (mp_send_turn A E) (\<lambda>_ _. False) clear_running"

end
