(* ===== verification/Channel_Lifetime.thy ===== *)
theory Channel_Lifetime
  imports Krpc_Prelude
begin

section \<open>The client channel: who owns it and who destroys it\<close>

text \<open>
  \<open>KrpcChannel\<close> derives from \<open>enable_shared_from_this\<close>, and its receive thread begins by trying three times to
  take a strong reference to its own channel, which it keeps until it leaves its loop. This theory models
  the ownership of a channel: the strong references that callers and callbacks hold, the guard of the
  receive thread, and the destructor on each thread that may drop the last reference. The destructor
  joins the four threads in turn; joining the own thread raises \<open>std::system_error\<close>, which ends the
  process since destructors do not throw, and only \<open>StopRecvThread\<close> has a case for it, which detaches.
  What the destructor does to calls and connections is in \<open>Channel_Threads\<close>.
\<close>

datatype thread_id = Owner_thread | Recv_thread | Timeout_thread | Send_thread | Heartbeat_thread

datatype recv_phase = Taking_guard nat | In_loop | Loop_left

record lifetime =
  lt_refs :: nat
  lt_shared :: bool
  lt_guard :: bool
  lt_recv :: recv_phase
  lt_recv_running :: bool
  lt_live :: "thread_id list"
  lt_freed :: bool
  lt_terminated :: bool
  lt_used_after_free :: bool

text \<open>The state behind the constructor: the threads run, and no \<open>shared_ptr\<close> has been made yet.\<close>

definition constructed :: lifetime where
  "constructed = \<lparr>lt_refs = 0, lt_shared = False, lt_guard = False, lt_recv = Taking_guard 0,
     lt_recv_running = True, lt_live = [Send_thread, Recv_thread, Heartbeat_thread, Timeout_thread],
     lt_freed = False, lt_terminated = False, lt_used_after_free = False\<rparr>"

text \<open>One round of the loop that takes the guard. \<open>shared_from_this\<close> throws \<open>bad_weak_ptr\<close> as long as no
  \<open>shared_ptr\<close> owns the channel.\<close>

definition take_guard :: "nat \<Rightarrow> lifetime \<Rightarrow> lifetime" where
  "take_guard i s =
     (if i \<ge> 3 then s\<lparr>lt_recv := In_loop\<rparr>
      else if lt_shared s \<and> 0 < lt_refs s then s\<lparr>lt_guard := True, lt_recv := In_loop\<rparr>
      else s\<lparr>lt_recv := Taking_guard (i + 1)\<rparr>)"

subsection \<open>The destructor on a thread\<close>

text \<open>\<open>None\<close>: a thread joins itself and the process ends.\<close>

definition stop_and_join :: "thread_id \<Rightarrow> thread_id \<Rightarrow> lifetime \<Rightarrow> lifetime option" where
  "stop_and_join this self s =
     (if self = this then None else Some (s\<lparr>lt_live := removeAll this (lt_live s)\<rparr>))"

definition StopRecvThread_on :: "thread_id \<Rightarrow> lifetime \<Rightarrow> lifetime option" where
  "StopRecvThread_on self s =
     (let s1 = s\<lparr>lt_recv_running := False\<rparr>
      in if self = Recv_thread then Some s1
         else Some (s1\<lparr>lt_live := removeAll Recv_thread (lt_live s1), lt_recv := Loop_left\<rparr>))"

definition destructor_on :: "thread_id \<Rightarrow> lifetime \<Rightarrow> lifetime" where
  "destructor_on self s =
     (case Option.bind (stop_and_join Timeout_thread self s) (\<lambda>s1.
           Option.bind (stop_and_join Send_thread self s1) (\<lambda>s2.
           Option.bind (stop_and_join Heartbeat_thread self s2) (StopRecvThread_on self))) of
        None \<Rightarrow> s\<lparr>lt_terminated := True\<rparr>
      | Some s' \<Rightarrow> s'\<lparr>lt_freed := True\<rparr>)"

text \<open>\<open>shared_ptr::reset\<close>: the last reference deletes the object on the thread that drops it.\<close>

definition drop_reference :: "thread_id \<Rightarrow> lifetime \<Rightarrow> lifetime" where
  "drop_reference self s =
     (let s1 = s\<lparr>lt_refs := lt_refs s - 1\<rparr>
      in if lt_refs s1 = 0 \<and> \<not> lt_guard s1 then destructor_on self s1 else s1)"

text \<open>The end of \<open>RecvLoop\<close> drops the guard.\<close>

definition leave_recv_loop :: "lifetime \<Rightarrow> lifetime" where
  "leave_recv_loop s =
     (let s1 = s\<lparr>lt_recv := Loop_left, lt_guard := False, lt_live := removeAll Recv_thread (lt_live s)\<rparr>
      in if lt_guard s \<and> lt_refs s = 0 then destructor_on Recv_thread s1 else s1)"

subsection \<open>What can happen to a channel\<close>

inductive lt_step :: "lifetime \<Rightarrow> lifetime \<Rightarrow> bool" where
  share: "\<not> lt_terminated s \<Longrightarrow> \<not> lt_shared s \<Longrightarrow> \<not> lt_freed s \<Longrightarrow> lt_step s (s\<lparr>lt_shared := True, lt_refs := 1\<rparr>)"
| guard: "\<not> lt_terminated s \<Longrightarrow> lt_recv s = Taking_guard i \<Longrightarrow> lt_step s (take_guard i s)"
| copy: "\<not> lt_terminated s \<Longrightarrow> 0 < lt_refs s \<Longrightarrow> lt_step s (s\<lparr>lt_refs := lt_refs s + 1\<rparr>)"
| drop: "\<not> lt_terminated s \<Longrightarrow> 0 < lt_refs s \<Longrightarrow> self = Owner_thread \<or> self \<in> set (lt_live s) \<Longrightarrow>
    (self = Recv_thread \<longrightarrow> lt_recv s = In_loop) \<Longrightarrow> lt_step s (drop_reference self s)"
| delete: "\<not> lt_terminated s \<Longrightarrow> \<not> lt_shared s \<Longrightarrow> \<not> lt_freed s \<Longrightarrow> lt_step s (destructor_on Owner_thread s)"
| leave: "\<not> lt_terminated s \<Longrightarrow> \<not> lt_freed s \<Longrightarrow> lt_recv s = In_loop \<Longrightarrow> \<not> lt_recv_running s \<Longrightarrow>
    lt_step s (leave_recv_loop s)"
| use_freed: "\<not> lt_terminated s \<Longrightarrow> lt_freed s \<Longrightarrow> lt_recv s = In_loop \<Longrightarrow> Recv_thread \<in> set (lt_live s) \<Longrightarrow>
    lt_step s (s\<lparr>lt_used_after_free := True\<rparr>)"

lemma destructor_on_owner:
  "destructor_on Owner_thread s = s\<lparr>lt_live := removeAll Recv_thread (removeAll Heartbeat_thread
     (removeAll Send_thread (removeAll Timeout_thread (lt_live s)))), lt_recv_running := False,
     lt_recv := Loop_left, lt_freed := True\<rparr>"
  by (simp add: destructor_on_def stop_and_join_def StopRecvThread_on_def Let_def)

lemma destructor_on_recv:
  "destructor_on Recv_thread s = s\<lparr>lt_live := removeAll Heartbeat_thread (removeAll Send_thread
     (removeAll Timeout_thread (lt_live s))), lt_recv_running := False, lt_freed := True\<rparr>"
  by (simp add: destructor_on_def stop_and_join_def StopRecvThread_on_def Let_def)

lemma destructor_on_other:
  "self \<in> {Timeout_thread, Send_thread, Heartbeat_thread} \<Longrightarrow> destructor_on self s = s\<lparr>lt_terminated := True\<rparr>"
  by (auto simp: destructor_on_def stop_and_join_def)

text \<open>While the receive thread holds its guard, nothing ends it and nothing deletes the channel: the loop
  ends when \<open>m_recv_running\<close> is false, only the destructor clears that flag, and the destructor needs the
  last reference, which the loop holds.\<close>

definition guarded :: "lifetime \<Rightarrow> bool" where
  "guarded s \<longleftrightarrow> lt_shared s \<and> lt_guard s \<and> lt_recv s = In_loop \<and> lt_recv_running s \<and>
     \<not> lt_freed s \<and> \<not> lt_terminated s \<and> \<not> lt_used_after_free s \<and>
     lt_live s = [Send_thread, Recv_thread, Heartbeat_thread, Timeout_thread]"

lemma guarded_step: "lt_step s t \<Longrightarrow> guarded s \<Longrightarrow> guarded t"
  by (induction rule: lt_step.induct) (auto simp: guarded_def drop_reference_def Let_def)

lemma guarded_forever: "lt_step\<^sup>*\<^sup>* s t \<Longrightarrow> guarded s \<Longrightarrow> guarded t"
  by (induction rule: rtranclp_induct) (auto intro: guarded_step)

text \<open>The states of a channel up to its destruction.\<close>

definition lt_ok :: "lifetime \<Rightarrow> bool" where
  "lt_ok s \<longleftrightarrow> (lt_guard s \<longrightarrow> guarded s) \<and> (lt_freed s \<or> \<not> lt_shared s \<longrightarrow> lt_refs s = 0) \<and>
     (\<not> lt_freed s \<and> \<not> lt_terminated s \<longrightarrow> lt_recv_running s \<and> lt_recv s \<noteq> Loop_left \<and> \<not> lt_used_after_free s \<and>
        (lt_shared s \<longrightarrow> 0 < lt_refs s \<or> lt_guard s) \<and>
        lt_live s = [Send_thread, Recv_thread, Heartbeat_thread, Timeout_thread])"

lemma lt_ok_constructed: "lt_ok constructed"
  by (simp add: lt_ok_def constructed_def)

lemma lt_ok_destructor: "\<not> lt_guard s \<Longrightarrow> lt_refs s = 0 \<Longrightarrow> lt_ok (destructor_on self s)"
  by (cases self) (simp_all add: lt_ok_def destructor_on_owner destructor_on_recv destructor_on_other)

lemma lt_ok_drop:
  assumes "lt_ok s" "0 < lt_refs s" "\<not> lt_terminated s"
  shows "lt_ok (drop_reference self s)"
proof (cases "lt_guard s \<or> 1 < lt_refs s")
  case True
  with assms show ?thesis by (auto simp: drop_reference_def Let_def lt_ok_def guarded_def)
next
  case False
  with assms(2) lt_ok_destructor[of "s\<lparr>lt_refs := 0\<rparr>" self] show ?thesis
    by (simp add: drop_reference_def Let_def)
qed

lemma lt_ok_take_guard:
  "lt_ok s \<Longrightarrow> lt_recv s = Taking_guard i \<Longrightarrow> \<not> lt_terminated s \<Longrightarrow> lt_ok (take_guard i s)"
  by (auto simp: lt_ok_def take_guard_def guarded_def)

lemma lt_ok_step: "lt_step s t \<Longrightarrow> lt_ok s \<Longrightarrow> lt_ok t"
proof (induction rule: lt_step.induct)
  case (delete s)
  then have "\<not> lt_guard s" "lt_refs s = 0" by (auto simp: lt_ok_def guarded_def)
  then show ?case by (rule lt_ok_destructor)
next
  case (guard s i)
  then show ?case by (intro lt_ok_take_guard)
next
  case (drop s self)
  then show ?case by (intro lt_ok_drop)
qed (auto simp: lt_ok_def guarded_def)

lemma lt_ok_reachable: "lt_step\<^sup>*\<^sup>* constructed s \<Longrightarrow> lt_ok s"
  by (induction rule: rtranclp_induct) (auto intro: lt_ok_step lt_ok_constructed)

subsection \<open>Who may drop the last reference\<close>

lemma freed_idle:
  assumes "lt_freed s" "lt_refs s = 0" "lt_recv s = Loop_left"
  shows "\<not> lt_step s t"
proof
  assume "lt_step s t"
  then show False using assms by cases auto
qed

lemma freed_idle_forever:
  assumes "lt_step\<^sup>*\<^sup>* s t" "lt_freed s" "lt_refs s = 0" "lt_recv s = Loop_left"
  shows "t = s"
  using assms by (auto elim: converse_rtranclpE dest: freed_idle)

lemma drop_last:
  "lt_refs s = 1 \<Longrightarrow> \<not> lt_guard s \<Longrightarrow> drop_reference self s = destructor_on self (s\<lparr>lt_refs := 0\<rparr>)"
  by (simp add: drop_reference_def)

text \<open>A shared channel whose receive thread found no owner: the constructor took longer than the three
  rounds of the loop.\<close>

definition late_shared :: lifetime where
  "late_shared = constructed\<lparr>lt_recv := In_loop, lt_shared := True, lt_refs := 1\<rparr>"

lemma late_shared_reachable: "lt_step\<^sup>*\<^sup>* constructed late_shared"
proof -
  let ?at = "\<lambda>r. constructed\<lparr>lt_recv := r\<rparr>"
  have round: "lt_step (?at (Taking_guard i)) (take_guard i (?at (Taking_guard i)))" for i
    by (rule lt_step.guard) (simp_all add: constructed_def)
  have "lt_step (?at (Taking_guard 0)) (?at (Taking_guard 1))" "lt_step (?at (Taking_guard 1)) (?at (Taking_guard 2))"
    "lt_step (?at (Taking_guard 2)) (?at (Taking_guard 3))" "lt_step (?at (Taking_guard 3)) (?at In_loop)"
    using round[of 0] round[of 1] round[of 2] round[of 3]
    by (simp_all add: take_guard_def constructed_def eval_nat_numeral)
  moreover have "lt_step (?at In_loop) late_shared"
    using lt_step.share[of "?at In_loop"] by (simp add: late_shared_def constructed_def)
  moreover have "?at (Taking_guard 0) = constructed" by (simp add: constructed_def)
  ultimately show ?thesis
    by (metis (no_types, lifting) converse_rtranclp_into_rtranclp rtranclp.rtrancl_refl)
qed

text \<open>A channel made by \<open>make_shared\<close> whose receive thread holds its guard.\<close>

definition guarded_shared :: lifetime where
  "guarded_shared = constructed\<lparr>lt_recv := In_loop, lt_shared := True, lt_refs := 1, lt_guard := True\<rparr>"

lemma guarded_shared_reachable: "lt_step\<^sup>*\<^sup>* constructed guarded_shared"
proof -
  let ?s = "constructed\<lparr>lt_shared := True, lt_refs := 1\<rparr>"
  have "lt_step constructed ?s" by (rule lt_step.share) (simp_all add: constructed_def)
  moreover have "lt_step ?s guarded_shared"
    using lt_step.guard[of ?s 0] by (simp add: guarded_shared_def take_guard_def constructed_def)
  ultimately show ?thesis by (meson converse_rtranclp_into_rtranclp rtranclp.rtrancl_refl)
qed

end
