(* ===== verification/Stopping_Properties.thy ===== *)
theory Stopping_Properties
  imports Heartbeat_Loops Channel_Lifetime Server_Properties Msgpack_Properties
begin

section \<open>Properties of stopping\<close>

text \<open>
  Whether the threads of the program can be joined: the workers of the servers and the send thread of the
  client, which wait without a time, can miss the notification; the timeout threads cannot.
\<close>

text \<open>C36: Stopping can hang: if \<open>StopWorkerPool\<close> sets its flag and notifies after a worker of a server with
  an empty queue has evaluated its condition and before it sleeps, the worker sleeps and the join waits,
  and no step of either leads out of this; the same holds of \<open>StopSendThread\<close> and the send thread.\<close>

theorem stopping_can_hang:
  assumes "\<not> stop_workers p" "task_queue p = []" "m_send_queue (fst st) = []"
  shows "(worker_cv rt S)\<^sup>*\<^sup>*
      (p, Evaluating, Not_stopping) (set_stop_workers p, Asleep, Joining) \<and>
    (\<forall>t. \<not> worker_cv rt S (set_stop_workers p, Asleep, Joining) t) \<and>
    (send_cv E)\<^sup>*\<^sup>*
      ((True, st), Evaluating, Not_stopping) ((False, st), Asleep, Joining) \<and>
    (\<forall>t. \<not> send_cv E ((False, st), Asleep, Joining) t)"
  using worker_stop.lost_wakeup[of p rt S] worker_stop.asleep_stuck[where s = "set_stop_workers p"]
    send_stop.lost_wakeup[of "(True, st)" E] send_stop.asleep_stuck[where s = "(False, st)"] assms
  by (simp add: worker_ready_def send_ready_def clear_running_def)

theorem stopping_can_hang_witness:
  "(worker_cv wire_rt user_service)\<^sup>*\<^sup>*
      (server0, Evaluating, Not_stopping) (set_stop_workers server0, Asleep, Joining)"
  using stopping_can_hang[of server0 "(client0, world0)" wire_rt user_service slow_net]
  by (simp add: client0_def config_channel_def Let_def)

text \<open>C26: The timeout threads of both clients can always be joined: from every state that the loop and a
  thread that stops it can reach, they can go on to the end of the join, also when the notification was
  lost, because the wait of the loop runs out after 50 ms.\<close>

theorem timeout_thread_can_be_joined:
  assumes "(timeout_cv E)\<^sup>*\<^sup>*
      (s0, Evaluating, Not_stopping) (s, v, q)"
    "(mp_timeout_cv A E)\<^sup>*\<^sup>*
      (r0, Evaluating, Not_stopping) (r, u, z)"
  shows "(\<exists>s'. (timeout_cv E)\<^sup>*\<^sup>*
      (s, v, q) (s', Left, Joined)) \<and>
    (\<exists>r'. (mp_timeout_cv A E)\<^sup>*\<^sup>*
      (r, u, z) (r', Left, Joined))"
  using timeout_stop.always_joined[OF assms(1)] mp_timeout_stop.always_joined[OF assms(2)] by blast

theorem timeout_thread_can_be_joined_witness:
  "\<exists>s'. (timeout_cv slow_net)\<^sup>*\<^sup>*
      ((False, (client0, world0)), Asleep, Joining) (s', Left, Joined)"
proof -
  have lost: "(timeout_cv slow_net)\<^sup>*\<^sup>*
      ((True, (client0, world0)), Evaluating, Not_stopping) ((False, (client0, world0)), Asleep, Joining)"
    using timeout_stop.lost_wakeup[of "(True, (client0, world0))" slow_net] by (simp add: clear_running_def)
  from timeout_thread_can_be_joined[OF this rtranclp.rtrancl_refl] show ?thesis by blast
qed

text \<open>The same for the heartbeat threads, whose wait is timed too, and the lost wake-up for the send thread of
  the msgpack client.\<close>

theorem heartbeat_thread_can_be_joined:
  assumes "(heartbeat_cv rt E)\<^sup>*\<^sup>* (s0, Evaluating, Not_stopping) (s, v, q)"
    "(mp_heartbeat_cv A E)\<^sup>*\<^sup>* (r0, Evaluating, Not_stopping) (r, u, z)"
  shows "(\<exists>s'. (heartbeat_cv rt E)\<^sup>*\<^sup>* (s, v, q) (s', Left, Joined)) \<and>
    (\<exists>r'. (mp_heartbeat_cv A E)\<^sup>*\<^sup>* (r, u, z) (r', Left, Joined))"
  using heartbeat_stop.always_joined[OF assms(1)] mp_heartbeat_stop.always_joined[OF assms(2)] by blast

theorem mp_send_stop_can_hang:
  assumes "mc_send_queue (fst st) = []"
  shows "(mp_send_cv A E)\<^sup>*\<^sup>*
      ((True, False, st), Evaluating, Not_stopping) ((False, False, st), Asleep, Joining) \<and>
    (\<forall>t. \<not> mp_send_cv A E ((False, False, st), Asleep, Joining) t)"
  using mp_send_stop.lost_wakeup[of "(True, False, st)" A E] mp_send_stop.asleep_stuck[where s = "(False, False, st)"] assms
  by (simp add: mp_send_ready_def clear_running_def)

subsection \<open>Destroying a shared channel\<close>

text \<open>C37: A shared channel is never destroyed: once the receive thread of a channel made by \<open>make_shared\<close>
  has taken its guard, the channel and its four threads live as long as the process, whatever references
  are copied and dropped, on whatever thread, and also when no caller holds one any more.\<close>

theorem shared_channel_never_destroyed:
  assumes "lt_step\<^sup>*\<^sup>* constructed s" "lt_guard s" "lt_step\<^sup>*\<^sup>* s t"
  shows "\<not> lt_freed t \<and> \<not> lt_terminated t \<and> lt_guard t \<and> lt_recv_running t \<and>
    set (lt_live t) = {Send_thread, Recv_thread, Heartbeat_thread, Timeout_thread}"
proof -
  have "guarded s" using lt_ok_reachable[OF assms(1)] assms(2) by (simp add: lt_ok_def)
  from guarded_forever[OF assms(3) this] show ?thesis by (simp add: guarded_def)
qed

theorem shared_channel_never_destroyed_witness:
  "lt_refs (drop_reference Owner_thread guarded_shared) = 0 \<and>
    \<not> lt_freed (drop_reference Owner_thread guarded_shared) \<and>
    set (lt_live (drop_reference Owner_thread guarded_shared)) =
      {Send_thread, Recv_thread, Heartbeat_thread, Timeout_thread}"
proof -
  have "lt_step guarded_shared (drop_reference Owner_thread guarded_shared)"
    by (rule lt_step.drop) (simp_all add: guarded_shared_def constructed_def)
  with shared_channel_never_destroyed[OF guarded_shared_reachable _ r_into_rtranclp]
  show ?thesis by (simp add: guarded_shared_def constructed_def drop_reference_def)
qed

text \<open>Without the guard it depends on the thread that drops the last reference: the owner's thread joins
  the four threads and nothing touches the channel afterwards; on the receive thread, which runs the
  callbacks, the channel is freed while the thread goes on and uses it; on any other thread of the channel
  the destructor joins the thread it runs on, and the process ends.\<close>

theorem last_reference_decides:
  assumes "lt_step\<^sup>*\<^sup>* constructed s" "lt_shared s" "\<not> lt_guard s" "lt_refs s = 1" "\<not> lt_freed s"
    "\<not> lt_terminated s" "lt_recv s = In_loop"
  shows "(\<forall>t. lt_step\<^sup>*\<^sup>* (drop_reference Owner_thread s) t \<longrightarrow>
      lt_freed t \<and> lt_live t = [] \<and> \<not> lt_used_after_free t \<and> \<not> lt_terminated t) \<and>
    (\<exists>t. lt_step (drop_reference Recv_thread s) t \<and> lt_freed t \<and> lt_used_after_free t) \<and>
    (\<forall>self\<in>{Timeout_thread, Send_thread, Heartbeat_thread}. lt_terminated (drop_reference self s))"
proof (intro conjI allI impI ballI)
  have ok: "\<not> lt_used_after_free s" "lt_live s = [Send_thread, Recv_thread, Heartbeat_thread, Timeout_thread]"
    using lt_ok_reachable[OF assms(1)] assms by (auto simp: lt_ok_def)
  note drop = drop_last[OF assms(4,3)]
  show "lt_freed t" "lt_live t = []" "\<not> lt_used_after_free t" "\<not> lt_terminated t"
    if "lt_step\<^sup>*\<^sup>* (drop_reference Owner_thread s) t" for t
    using freed_idle_forever[OF that] ok assms(6) by (auto simp: drop destructor_on_owner)
  let ?t = "drop_reference Recv_thread s"
  have "lt_step ?t (?t\<lparr>lt_used_after_free := True\<rparr>)"
    by (rule lt_step.use_freed) (use ok assms in \<open>simp_all add: drop destructor_on_recv\<close>)
  then show "\<exists>t. lt_step ?t t \<and> lt_freed t \<and> lt_used_after_free t"
    by (intro exI[of _ "?t\<lparr>lt_used_after_free := True\<rparr>"]) (simp add: drop destructor_on_recv)
  show "lt_terminated (drop_reference self s)" if "self \<in> {Timeout_thread, Send_thread, Heartbeat_thread}" for self
    using that by (simp add: drop destructor_on_other)
qed

theorem last_reference_decides_witness:
  "lt_terminated (drop_reference Timeout_thread late_shared) \<and>
    (\<exists>t. lt_step (drop_reference Recv_thread late_shared) t \<and> lt_used_after_free t)"
  using last_reference_decides[OF late_shared_reachable] by (auto simp: late_shared_def constructed_def)

end
