(* ===== verification/Msgpack_Typed.thy ===== *)
theory Msgpack_Typed
  imports Msgpack_Objects Msgpack_Exchange
begin

section \<open>Typed handlers and typed calls\<close>

text \<open>
  The templates of \<open>Krpcmsgpack_dispatcher.h\<close>, which turn a C++ function into a handler of objects, and the
  templates of \<open>Krpcmsgpack_channel.h\<close>, which turn the object of a reply into the type that the caller asked
  for. A function is a record of its parameter and result types and its body on values; \<open>has_type\<close> says
  which values it may be applied to.
\<close>

subsection \<open>Calling a function with a tuple\<close>

fun make_index_sequence :: "nat \<Rightarrow> nat list \<Rightarrow> nat list" where
  "make_index_sequence 0 I = I"
| "make_index_sequence (Suc n) I = make_index_sequence n (n # I)"

definition call_impl :: "('v list \<Rightarrow> 'r) \<Rightarrow> 'v list \<Rightarrow> nat list \<Rightarrow> 'r" where
  "call_impl f t I = f (map (\<lambda>i. t ! i) I)"

definition call_tuple :: "('v list \<Rightarrow> 'r) \<Rightarrow> 'v list \<Rightarrow> 'r" where
  "call_tuple f t = call_impl f t (make_index_sequence (length t) [])"

lemma make_index_sequence_upt: "make_index_sequence n I = [0..<n] @ I"
  by (induction n arbitrary: I) simp_all

lemma call_tuple_apply: "call_tuple f t = f t"
  by (simp add: call_tuple_def call_impl_def make_index_sequence_upt map_nth)

subsection \<open>Functions and their types\<close>

datatype cpp_param = By_value cpp_type | By_reference cpp_type | By_const_reference cpp_type

fun decay :: "cpp_param \<Rightarrow> cpp_type" where
  "decay (By_value T) = T"
| "decay (By_reference T) = T"
| "decay (By_const_reference T) = T"

text \<open>The result type \<open>None\<close> is \<open>void\<close>; an exception is \<open>Inl\<close>, with the text of a \<open>std::exception\<close>.\<close>

record cpp_function =
  fn_params :: "cpp_param list"
  fn_result :: "cpp_type option"
  fn_body :: "cpp_value list \<Rightarrow> string option + cpp_value option"

definition args_type :: "cpp_function \<Rightarrow> cpp_type list" where
  "args_type fn = map decay (fn_params fn)"

definition result_ok :: "cpp_type option \<Rightarrow> cpp_value option \<Rightarrow> bool" where
  "result_ok R r \<longleftrightarrow> (case R of None \<Rightarrow> r = None | Some T \<Rightarrow> (case r of None \<Rightarrow> False | Some v \<Rightarrow> has_type v T))"

definition function_ok :: "cpp_function \<Rightarrow> bool" where
  "function_ok fn \<longleftrightarrow> list_all type_ok (args_type fn) \<and> (case fn_result fn of None \<Rightarrow> True | Some T \<Rightarrow> type_ok T) \<and>
     (\<forall>vs r. has_types vs (args_type fn) \<longrightarrow> fn_body fn vs = Inr r \<longrightarrow> result_ok (fn_result fn) r)"

subsection \<open>Handlers\<close>

text \<open>\<open>what()\<close> of a \<open>type_error\<close>, which is a \<open>std::bad_cast\<close>.\<close>

definition bad_cast :: string where "bad_cast = ''std::bad_cast''"

definition MakeHandle :: "cpp_value \<Rightarrow> mp_object" where "MakeHandle v = object_of v"

definition MakeNil :: mp_object where "MakeNil = NIL"

definition real_args :: "cpp_type list \<Rightarrow> mp_object \<Rightarrow> cpp_value list option" where
  "real_args Ts args =
     (case convert (CTuple Ts) args (default_value (CTuple Ts)) of Some (VTuple vs) \<Rightarrow> Some vs | _ \<Rightarrow> None)"

definition HandlerBuilder_value ::
    "cpp_type list \<Rightarrow> (cpp_value list \<Rightarrow> string option + cpp_value option) \<Rightarrow> mp_object \<Rightarrow> string option + mp_object" where
  "HandlerBuilder_value Ts func args =
     (case real_args Ts args of
        None \<Rightarrow> Inl (Some bad_cast)
      | Some vs \<Rightarrow>
          (case call_tuple func vs of
             Inl e \<Rightarrow> Inl e
           | Inr r \<Rightarrow> Inr (case r of None \<Rightarrow> MakeNil | Some v \<Rightarrow> MakeHandle v)))"

definition HandlerBuilder_void ::
    "cpp_type list \<Rightarrow> (cpp_value list \<Rightarrow> string option + cpp_value option) \<Rightarrow> mp_object \<Rightarrow> string option + mp_object" where
  "HandlerBuilder_void Ts func args =
     (case real_args Ts args of
        None \<Rightarrow> Inl (Some bad_cast)
      | Some vs \<Rightarrow> (case call_tuple func vs of Inl e \<Rightarrow> Inl e | Inr r \<Rightarrow> Inr MakeNil))"

definition make_handler :: "cpp_function \<Rightarrow> mp_object \<Rightarrow> string option + mp_object" where
  "make_handler fn = (case fn_result fn of
     None \<Rightarrow> HandlerBuilder_void (args_type fn) (fn_body fn)
   | Some T \<Rightarrow> HandlerBuilder_value (args_type fn) (fn_body fn))"

definition bind_function ::
    "string \<Rightarrow> string \<Rightarrow> cpp_function \<Rightarrow> mp_object handlers \<Rightarrow> mp_object handlers" where
  "bind_function service meth fn hs = bind_handler service meth (make_handler fn) hs"

lemma real_args_typed: "real_args Ts x = Some vs \<Longrightarrow> list_all type_ok Ts \<Longrightarrow> has_types vs Ts"
  using convert_has_type(1)[of "CTuple Ts" x "default_value (CTuple Ts)"] default_has_type[of "CTuple Ts"]
  by (auto simp: real_args_def split: option.splits cpp_value.splits)

lemma real_args_object: "has_types vs Ts \<Longrightarrow> list_all type_ok Ts \<Longrightarrow> real_args Ts (object_of (VTuple vs)) = Some vs"
  using convert_object_of(1)[of "VTuple vs" "CTuple Ts" "default_value (CTuple Ts)"] default_has_type[of "CTuple Ts"]
  by (simp add: real_args_def)

text \<open>The result of a bound function on the object of typed arguments.\<close>

lemma make_handler_typed:
  assumes "function_ok fn" "has_types vs (args_type fn)"
  shows "make_handler fn (object_of (VTuple vs)) =
    (case fn_body fn vs of Inl e \<Rightarrow> Inl e | Inr r \<Rightarrow> Inr (case r of None \<Rightarrow> NIL | Some v \<Rightarrow> object_of v))"
proof -
  have "real_args (args_type fn) (object_of (VTuple vs)) = Some vs"
    using assms by (intro real_args_object) (simp_all add: function_ok_def)
  moreover have "result_ok (fn_result fn) r" if "fn_body fn vs = Inr r" for r
    using that assms by (simp add: function_ok_def)
  ultimately show ?thesis
    by (auto simp: make_handler_def HandlerBuilder_value_def HandlerBuilder_void_def call_tuple_apply MakeNil_def
        MakeHandle_def result_ok_def split: option.splits sum.splits)
qed

text \<open>Arguments that are missing or too many: the tuple keeps its initial values, or ignores the rest.\<close>

lemma convert_elements_missing:
  "has_types vs (take (length vs) Ts) \<Longrightarrow> has_types vs0 Ts \<Longrightarrow>
     convert_elements Ts (map object_of vs) vs0 = Some (vs @ drop (length vs) vs0)"
proof (induction vs arbitrary: Ts vs0)
  case (Cons v vs)
  from Cons.prems obtain T Ts' v0 vs0' where "Ts = T # Ts'" "vs0 = v0 # vs0'"
    by (cases Ts; cases vs0) auto
  with Cons show ?case by (simp add: convert_object_of(1))
qed simp

lemma convert_elements_extra:
  "length xs = length Ts \<Longrightarrow> length vs0 = length Ts \<Longrightarrow> convert_elements Ts (xs @ rest) vs0 = convert_elements Ts xs vs0"
proof (induction Ts arbitrary: xs vs0)
  case (Cons T Ts)
  then obtain x xs' v vs' where "xs = x # xs'" "vs0 = v # vs'" by (cases xs; cases vs0) auto
  with Cons show ?case by (simp split: option.splits)
qed simp

lemma real_args_missing:
  assumes "list_all type_ok Ts" "has_types vs (take (length vs) Ts)"
  shows "real_args Ts (Array (map object_of vs)) = Some (vs @ map default_value (drop (length vs) Ts))"
  using convert_elements_missing[OF assms(2) default_has_types[OF assms(1)]] by (simp add: real_args_def drop_map)

lemma real_args_extra:
  "length xs = length Ts \<Longrightarrow> real_args Ts (Array (xs @ rest)) = real_args Ts (Array xs)"
  by (simp add: real_args_def convert_elements_extra)

text \<open>A handler applies its function to values of the parameter types only: outside of them the body does
  not matter.\<close>

lemma make_handler_cong:
  assumes "fn_params g = fn_params f" "fn_result g = fn_result f" "list_all type_ok (args_type f)"
    "\<And>vs. has_types vs (args_type f) \<Longrightarrow> fn_body f vs = fn_body g vs"
  shows "make_handler f x = make_handler g x"
proof -
  have "args_type g = args_type f" using assms(1) by (simp add: args_type_def)
  moreover have "fn_body f vs = fn_body g vs" if "real_args (args_type f) x = Some vs" for vs
    using assms(4) real_args_typed[OF that assms(3)] .
  ultimately show ?thesis
    using assms(2) by (simp add: make_handler_def HandlerBuilder_value_def HandlerBuilder_void_def call_tuple_apply
        split: option.splits)
qed

subsection \<open>The typed entry points of the client\<close>

text \<open>A \<open>std::future\<close> is either failed from the start or tied to the promise of a request.\<close>

datatype mp_future = Failed_future string | Future_of u64

definition CallAsyncRawWithTimeout ::
    "'o msgpack_api \<Rightarrow> net_env \<Rightarrow> discovery \<Rightarrow> string \<Rightarrow> string \<Rightarrow> int \<Rightarrow> 'o \<Rightarrow> 'o mp_state \<Rightarrow> mp_future \<times> 'o mp_state" where
  "CallAsyncRawWithTimeout A E D service meth timeout_ms args st =
     (case mp_EnsureConnection A E D service meth st of
        (Inl err, (ch, w)) \<Rightarrow>
          (Failed_future (if err = [] then ''connect failed'' else err), (mp_reject None err ch, w))
      | (Inr _, (ch, w)) \<Rightarrow>
          (case NextRequestId w of
             (rid, w1) \<Rightarrow>
               (let clamped = (if timeout_ms < 0 then 0 else timeout_ms)
                in (Future_of rid,
                    EnqueueRequest A E rid (mp_pack A (mp_request_header rid clamped service meth) args) clamped None
                      (ch, w1)))))"

definition CallAsyncRaw ::
    "'o msgpack_api \<Rightarrow> net_env \<Rightarrow> discovery \<Rightarrow> string \<Rightarrow> string \<Rightarrow> 'o \<Rightarrow> 'o mp_state \<Rightarrow> mp_future \<times> 'o mp_state" where
  "CallAsyncRaw A E D service meth args st =
     CallAsyncRawWithTimeout A E D service meth (mc_request_timeout_ms (fst st)) args st"

definition mp_CallAsync ::
    "'o msgpack_api \<Rightarrow> net_env \<Rightarrow> discovery \<Rightarrow> string \<Rightarrow> string \<Rightarrow> nat option \<Rightarrow> 'o \<Rightarrow> 'o mp_state \<Rightarrow> 'o mp_state" where
  "mp_CallAsync A E D service meth callback args st =
     CallAsyncWithTimeout A E D \<lparr>mp_service = service, mp_method = meth, mp_timeout_ms = mc_request_timeout_ms (fst st),
       mp_args = args, mp_callback = Some callback\<rparr> st"

text \<open>\<open>get()\<close> of the future, as far as the effects of the channel go; \<open>None\<close> while it would block.\<close>

fun promise_value :: "u64 \<Rightarrow> 'o mc_effect list \<Rightarrow> (string + 'o) option" where
  "promise_value rid [] = None"
| "promise_value rid (Mc_promise i r # es) = (if i = rid then Some r else promise_value rid es)"
| "promise_value rid (e # es) = promise_value rid es"

definition future_get :: "mp_future \<Rightarrow> 'o mp_channel \<Rightarrow> (string + 'o) option" where
  "future_get fut ch = (case fut of Failed_future e \<Rightarrow> Some (Inl e) | Future_of rid \<Rightarrow> promise_value rid (mc_effects ch))"

text \<open>The body of \<open>Call\<close> and \<open>CallWithTimeout\<close> behind \<open>CallRaw\<close>: \<open>Inl\<close> is the text of the exception.\<close>

definition Call_result :: "cpp_type option \<Rightarrow> string + mp_object \<Rightarrow> string + cpp_value option" where
  "Call_result R oh =
     (case oh of
        Inl e \<Rightarrow> Inl e
      | Inr x \<Rightarrow>
          (case R of
             None \<Rightarrow> Inr None
           | Some T \<Rightarrow> (case convert T x (default_value T) of None \<Rightarrow> Inl bad_cast | Some v \<Rightarrow> Inr (Some v))))"

definition Call_get :: "cpp_type option \<Rightarrow> mp_future \<Rightarrow> mp_object mp_channel \<Rightarrow> (string + cpp_value option) option" where
  "Call_get R fut ch = map_option (Call_result R) (future_get fut ch)"

lemma CallAsyncRawWithTimeout_state:
  "snd (CallAsyncRawWithTimeout A E D s m t x st) = CallAsyncWithTimeout A E D
     \<lparr>mp_service = s, mp_method = m, mp_timeout_ms = t, mp_args = x, mp_callback = None\<rparr> st"
  by (auto simp: CallAsyncRawWithTimeout_def CallAsyncWithTimeout_def mp_prepare_call_def Let_def
      split: prod.splits sum.splits)

lemma promise_value_append:
  "promise_value rid (es @ fs) = (case promise_value rid es of None \<Rightarrow> promise_value rid fs | Some r \<Rightarrow> Some r)"
  by (induction rid es rule: promise_value.induct) auto

lemma Call_result_typed:
  "result_ok R r \<Longrightarrow> (case R of None \<Rightarrow> True | Some T \<Rightarrow> type_ok T) \<Longrightarrow>
     Call_result R (Inr (case r of None \<Rightarrow> NIL | Some v \<Rightarrow> object_of v)) = Inr r"
  by (auto simp: Call_result_def result_ok_def convert_object_of(1) default_has_type split: option.splits)

text \<open>Whatever the peer answers, a typed call returns a value of the type the caller asked for, or throws.\<close>

lemma Call_result_has_type:
  assumes "Call_result (Some T) oh = Inr r" "type_ok T"
  shows "result_ok (Some T) r"
proof -
  from assms(1) obtain x where x: "oh = Inr x" by (cases oh) (simp_all add: Call_result_def)
  with assms(1) obtain v where v: "convert T x (default_value T) = Some v" "r = Some v"
    by (cases "convert T x (default_value T)") (simp_all add: Call_result_def)
  from convert_has_type(1)[OF v(1) default_has_type] assms(2) v(2) show ?thesis by (simp add: result_ok_def)
qed

end
