(* ===== verification/Example_Services.thy ===== *)
theory Example_Services
  imports Msgpack_Typed
begin

section \<open>The example services\<close>

text \<open>
  The services that the example servers offer: the user service of \<open>example/callee/Kserver.cc\<close> and of
  \<open>example/switch_demo/SwitchServer.cc\<close>, over both codecs, with the logic of \<open>example/common\<close>, and the
  services of \<open>example/msgpack_demo/MsgpackServer.cc\<close>. The generated protobuf messages are parameters: how a
  request is read and how a response is written (\<open>user_messages\<close>). \<open>Run\<close> is in the models of the providers.
\<close>

subsection \<open>Choosing the codec\<close>

definition tolower :: "char \<Rightarrow> char" where
  "tolower c = (let n = (of_char c :: nat) in if 65 \<le> n \<and> n \<le> 90 then char_of (n + 32) else c)"

definition KrpcLoadCodec :: "config_map \<Rightarrow> string" where
  "KrpcLoadCodec cfg = (let codec = Load cfg ''rpc_codec'' in if codec = [] then ''protobuf'' else map tolower codec)"

definition KrpcUseMsgpack :: "config_map \<Rightarrow> bool" where
  "KrpcUseMsgpack cfg \<longleftrightarrow> KrpcLoadCodec cfg = ''msgpack''"

text \<open>The copies in \<open>SwitchServer.cc\<close> and \<open>SwitchClient.cc\<close> have no default.\<close>

definition switch_server_LoadCodec :: "config_map \<Rightarrow> string" where
  "switch_server_LoadCodec cfg = map tolower (Load cfg ''rpc_codec'')"

definition switch_client_LoadCodec :: "config_map \<Rightarrow> string" where
  "switch_client_LoadCodec cfg = map tolower (Load cfg ''rpc_codec'')"

lemma codecs_agree:
  "switch_server_LoadCodec cfg = ''msgpack'' \<longleftrightarrow> KrpcUseMsgpack cfg"
  "switch_client_LoadCodec cfg = switch_server_LoadCodec cfg"
  by (auto simp: switch_server_LoadCodec_def switch_client_LoadCodec_def KrpcUseMsgpack_def KrpcLoadCodec_def Let_def)

subsection \<open>The user service\<close>

record MsgpackUserResult =
  ur_errcode :: int
  ur_errmsg :: string
  ur_success :: bool

definition new_MsgpackUserResult :: MsgpackUserResult where
  "new_MsgpackUserResult = \<lparr>ur_errcode = 0, ur_errmsg = [], ur_success = False\<rparr>"

text \<open>\<open>MSGPACK_DEFINE(errcode, errmsg, success)\<close>.\<close>

definition user_result_type :: cpp_type where
  "user_result_type = CTuple [CInt True 32, CString, CBool]"

definition user_result_value :: "MsgpackUserResult \<Rightarrow> cpp_value" where
  "user_result_value r = VTuple [VInt (ur_errcode r), VString (ur_errmsg r), VBool (ur_success r)]"

text \<open>A handler takes time: the first component is the milliseconds it sleeps.\<close>

definition KrpcShouldSleep :: "string \<Rightarrow> bool" where
  "KrpcShouldSleep name \<longleftrightarrow> name = ''sleep'' \<or> name = ''timeout''"

definition KrpcMaybeSleep :: "string \<Rightarrow> nat" where
  "KrpcMaybeSleep name = (if KrpcShouldSleep name then 3000 else 0)"

definition KrpcHandleLogin :: "string \<Rightarrow> string \<Rightarrow> nat \<times> MsgpackUserResult" where
  "KrpcHandleLogin name pwd = (KrpcMaybeSleep name, new_MsgpackUserResult\<lparr>ur_success := True\<rparr>)"

definition KrpcHandleRegister :: "u32 \<Rightarrow> string \<Rightarrow> string \<Rightarrow> nat \<times> MsgpackUserResult" where
  "KrpcHandleRegister uid name pwd = (KrpcMaybeSleep name, new_MsgpackUserResult\<lparr>ur_success := True\<rparr>)"

text \<open>The same logic in \<open>SwitchServer.cc\<close>.\<close>

definition switch_MaybeSleep :: "string \<Rightarrow> nat" where
  "switch_MaybeSleep name = (if name = ''sleep'' \<or> name = ''timeout'' then 3000 else 0)"

definition switch_HandleLogin :: "string \<Rightarrow> string \<Rightarrow> nat \<times> MsgpackUserResult" where
  "switch_HandleLogin name pwd = (switch_MaybeSleep name, new_MsgpackUserResult\<lparr>ur_success := True\<rparr>)"

definition switch_HandleRegister :: "u32 \<Rightarrow> string \<Rightarrow> string \<Rightarrow> nat \<times> MsgpackUserResult" where
  "switch_HandleRegister uid name pwd = (switch_MaybeSleep name, new_MsgpackUserResult\<lparr>ur_success := True\<rparr>)"

lemma switch_agrees: "switch_HandleLogin = KrpcHandleLogin" "switch_HandleRegister = KrpcHandleRegister"
  by (simp_all add: fun_eq_iff switch_HandleLogin_def switch_HandleRegister_def KrpcHandleLogin_def
      KrpcHandleRegister_def switch_MaybeSleep_def KrpcMaybeSleep_def KrpcShouldSleep_def)

subsection \<open>The service over msgpack\<close>

definition login_function :: cpp_function where
  "login_function = \<lparr>fn_params = [By_const_reference CString, By_const_reference CString],
     fn_result = Some user_result_type,
     fn_body = (\<lambda>vs. Inr (Some (user_result_value (snd (KrpcHandleLogin (the_string (vs ! 0)) (the_string (vs ! 1)))))))\<rparr>"

definition register_function :: cpp_function where
  "register_function = \<lparr>fn_params = [By_value (CInt False 32), By_const_reference CString, By_const_reference CString],
     fn_result = Some user_result_type,
     fn_body = (\<lambda>vs. Inr (Some (user_result_value (snd (KrpcHandleRegister (word_of_int (the_int (vs ! 0)))
       (the_string (vs ! 1)) (the_string (vs ! 2)))))))\<rparr>"

definition Kserver_bind :: "mp_object mp_provider \<Rightarrow> mp_object mp_provider" where
  "Kserver_bind p =
     Bind ''UserServiceRpc'' ''Register'' (make_handler register_function)
       (Bind ''UserServiceRpc'' ''Login'' (make_handler login_function) p)"

lemma login_function_ok: "function_ok login_function"
  by (simp add: function_ok_def login_function_def args_type_def user_result_type_def user_result_value_def
      KrpcHandleLogin_def new_MsgpackUserResult_def result_ok_def)

lemma register_function_ok: "function_ok register_function"
  by (simp add: function_ok_def register_function_def args_type_def user_result_type_def user_result_value_def
      KrpcHandleRegister_def new_MsgpackUserResult_def result_ok_def)

subsection \<open>The service over protobuf\<close>

record user_messages =
  um_login :: "string \<Rightarrow> (string \<times> string) option"
  um_register :: "string \<Rightarrow> (u32 \<times> string \<times> string) option"
  um_response :: "MsgpackUserResult \<Rightarrow> string option"

definition respond :: "user_messages \<Rightarrow> nat \<times> MsgpackUserResult \<Rightarrow> handler_outcome" where
  "respond M r = \<lparr>ho_runs_done = True, ho_response = um_response M (snd r), ho_throws = False\<rparr>"

text \<open>\<open>UserService::Login\<close> and \<open>UserService::Register\<close>. They are called with requests that have been parsed.\<close>

definition UserService_Login :: "user_messages \<Rightarrow> string \<Rightarrow> handler_outcome" where
  "UserService_Login M req =
     (case um_login M req of None \<Rightarrow> respond M (KrpcHandleLogin [] []) | Some (name, pwd) \<Rightarrow> respond M (KrpcHandleLogin name pwd))"

definition UserService_Register :: "user_messages \<Rightarrow> string \<Rightarrow> handler_outcome" where
  "UserService_Register M req =
     (case um_register M req of
        None \<Rightarrow> respond M (KrpcHandleRegister 0 [] [])
      | Some (uid, name, pwd) \<Rightarrow> respond M (KrpcHandleRegister uid name pwd))"

definition UserService :: "user_messages \<Rightarrow> services" where
  "UserService M = \<lparr>sv_descriptor = (\<lambda>s. (''UserServiceRpc'', [''Login'', ''Register''])),
     sv_parse_request = (\<lambda>s m req. if m = ''Login'' then um_login M req \<noteq> None else um_register M req \<noteq> None),
     sv_handle = (\<lambda>s m req. if m = ''Login'' then UserService_Login M req else UserService_Register M req)\<rparr>"

text \<open>\<open>main\<close> of the server up to \<open>Run\<close>.\<close>

definition Kserver_main ::
    "user_messages \<Rightarrow> config_map \<Rightarrow> metrics_state \<Rightarrow> mp_object mp_provider + provider" where
  "Kserver_main M cfg g =
     (if KrpcUseMsgpack cfg then Inl (Kserver_bind (new_KrpcMsgpackProvider g))
      else Inr (NotifyService (UserService M) 0 (new_KrpcProvider g)))"

subsection \<open>The services of the msgpack example\<close>

text \<open>The sum of two \<open>int\<close>; its overflow, which the language leaves undefined, wraps around here.\<close>

definition add_function :: cpp_function where
  "add_function = \<lparr>fn_params = [By_value (CInt True 32), By_value (CInt True 32)], fn_result = Some (CInt True 32),
     fn_body = (\<lambda>vs. Inr (Some (VInt (sint (word_of_int (the_int (vs ! 0) + the_int (vs ! 1)) :: 32 word)))))\<rparr>"

definition slow_function :: cpp_function where
  "slow_function = \<lparr>fn_params = [By_value (CInt True 32)], fn_result = Some (CInt True 32),
     fn_body = (\<lambda>vs. Inr (Some (vs ! 0)))\<rparr>"

definition hello_function :: cpp_function where
  "hello_function = \<lparr>fn_params = [By_const_reference CString], fn_result = Some CString,
     fn_body = (\<lambda>vs. Inr (Some (VString (''hi '' @ the_string (vs ! 0)))))\<rparr>"

definition MsgpackServer_bind :: "mp_object mp_provider \<Rightarrow> mp_object mp_provider" where
  "MsgpackServer_bind p =
     Bind ''Echo'' ''Hello'' (make_handler hello_function)
       (Bind ''Math'' ''Slow'' (make_handler slow_function)
         (Bind ''Math'' ''Add'' (make_handler add_function) p))"

lemma add_function_ok: "function_ok add_function"
  using sint_greater_eq[where 'a = 32] sint_less[where 'a = 32]
  by (simp add: function_ok_def add_function_def args_type_def result_ok_def)

lemma slow_function_ok: "function_ok slow_function"
  by (auto simp: function_ok_def slow_function_def args_type_def result_ok_def has_types_list_all2 list_all2_Cons2)

lemma hello_function_ok: "function_ok hello_function"
  by (simp add: function_ok_def hello_function_def args_type_def result_ok_def)

text \<open>The three keys are different, so each function is found under its own name.\<close>

lemma MsgpackServer_dispatcher:
  "mp_dispatcher (MsgpackServer_bind (new_KrpcMsgpackProvider g)) =
     [(''Math.Add'', make_handler add_function), (''Math.Slow'', make_handler slow_function),
      (''Echo.Hello'', make_handler hello_function)]"
  by (simp add: MsgpackServer_bind_def Bind_def new_KrpcMsgpackProvider_def bind_handler_def handler_key_def
      emplace_def Let_def)

subsection \<open>The server that switches codecs\<close>

text \<open>\<open>SwitchServer.cc\<close> has its own copy of the service and of \<open>main\<close>, over its own logic.\<close>

definition switch_UserService_Login :: "user_messages \<Rightarrow> string \<Rightarrow> handler_outcome" where
  "switch_UserService_Login M req =
     (case um_login M req of
        None \<Rightarrow> respond M (switch_HandleLogin [] [])
      | Some (name, pwd) \<Rightarrow> respond M (switch_HandleLogin name pwd))"

definition switch_UserService_Register :: "user_messages \<Rightarrow> string \<Rightarrow> handler_outcome" where
  "switch_UserService_Register M req =
     (case um_register M req of
        None \<Rightarrow> respond M (switch_HandleRegister 0 [] [])
      | Some (uid, name, pwd) \<Rightarrow> respond M (switch_HandleRegister uid name pwd))"

definition switch_UserService :: "user_messages \<Rightarrow> services" where
  "switch_UserService M = \<lparr>sv_descriptor = (\<lambda>s. (''UserServiceRpc'', [''Login'', ''Register''])),
     sv_parse_request = (\<lambda>s m req. if m = ''Login'' then um_login M req \<noteq> None else um_register M req \<noteq> None),
     sv_handle = (\<lambda>s m req. if m = ''Login'' then switch_UserService_Login M req else switch_UserService_Register M req)\<rparr>"

definition switch_login_function :: cpp_function where
  "switch_login_function = \<lparr>fn_params = [By_const_reference CString, By_const_reference CString],
     fn_result = Some user_result_type,
     fn_body = (\<lambda>vs. Inr (Some (user_result_value (snd (switch_HandleLogin (the_string (vs ! 0)) (the_string (vs ! 1)))))))\<rparr>"

definition switch_register_function :: cpp_function where
  "switch_register_function = \<lparr>fn_params = [By_value (CInt False 32), By_const_reference CString, By_const_reference CString],
     fn_result = Some user_result_type,
     fn_body = (\<lambda>vs. Inr (Some (user_result_value (snd (switch_HandleRegister (word_of_int (the_int (vs ! 0)))
       (the_string (vs ! 1)) (the_string (vs ! 2)))))))\<rparr>"

definition SwitchServer_main ::
    "user_messages \<Rightarrow> config_map \<Rightarrow> metrics_state \<Rightarrow> mp_object mp_provider + provider" where
  "SwitchServer_main M cfg g =
     (if switch_server_LoadCodec cfg = ''msgpack''
      then Inl (Bind ''UserServiceRpc'' ''Register'' (make_handler switch_register_function)
        (Bind ''UserServiceRpc'' ''Login'' (make_handler switch_login_function) (new_KrpcMsgpackProvider g)))
      else Inr (NotifyService (switch_UserService M) 0 (new_KrpcProvider g)))"

text \<open>The two servers offer the same service under every configuration.\<close>

lemma SwitchServer_main_agrees: "SwitchServer_main = Kserver_main"
proof (intro ext)
  fix M cfg g
  have "switch_UserService_Login = UserService_Login" "switch_UserService_Register = UserService_Register"
    by (simp_all add: fun_eq_iff switch_UserService_Login_def UserService_Login_def switch_UserService_Register_def
        UserService_Register_def switch_agrees split: option.splits)
  then have "switch_UserService M = UserService M" by (simp add: switch_UserService_def UserService_def cong: if_cong)
  moreover have "switch_login_function = login_function" "switch_register_function = register_function"
    by (simp_all add: switch_login_function_def login_function_def switch_register_function_def register_function_def
        switch_agrees)
  ultimately show "SwitchServer_main M cfg g = Kserver_main M cfg g"
    by (simp add: SwitchServer_main_def Kserver_main_def Kserver_bind_def codecs_agree(1) cong: if_cong)
qed

end
