(* ===== verification/Typed_Properties.thy ===== *)
theory Typed_Properties
  imports Example_Services Msgpack_Properties
begin

section \<open>Properties of the typed msgpack calls\<close>

text \<open>
  Type safety of a call over the msgpack stack, and what the server does with the wrong number of
  arguments. The witnesses run the calls of \<open>example/msgpack_demo\<close>.
\<close>

text \<open>C9: A typed call is type safe from end to end: when the server has bound a well-typed function and the
  client calls it with arguments of the parameter types and asks for the result type, the function is
  applied to exactly these arguments, and \<open>Call\<close> returns its result, which has the type, or throws the
  function's exception text; no conversion fails on the way.\<close>

theorem typed_call_sound:
  fixes ch :: "mp_object mp_channel"
  assumes codec: "codec_ok c" and fn: "function_ok fn" "has_types vs (args_type fn)"
    and prep: "mp_prepare_call (object_api c) E D a st0 = (Some r, st1)" and args: "mp_args a = object_of (VTuple vs)"
    and request_fits: "length (mr_payload r) < 4294967296"
    and server: "map_of (mp_dispatcher p) (handler_key (mp_service a) (mp_method a)) = Some (make_handler fn)"
      "\<not> mp_stop_workers p" "mp_task_queue p = []" "0 < mp_task_queue_capacity p"
    and reply_fits: "length (reply_payload (object_api c) (mp_request_header (mr_request_id r) (mr_timeout_ms r)
        (mp_service a) (mp_method a)) (make_handler fn (object_of (VTuple vs)))) < 4294967296"
    and client: "mc_alive ch" "mc_running ch" "mc_fd ch \<noteq> -1" "mc_recv_buffer ch = []"
      "map_of (mc_pending ch) (mr_request_id r) = Some q" "mq_callback q = None" "mq_has_promise q"
      "promise_value (mr_request_id r) (mc_effects ch) = None"
  shows "\<exists>p1 p2 bytes.
    mp_OnMessage (object_api c) now ts k conn (BuildHeader (mr_payload r) @ mr_payload r) p = ([], p1) \<and>
    mp_WorkerLoop_turn (object_api c) now k p1 = Some p2 \<and> Mp_sent_to conn bytes \<in> set (mp_effects p2) \<and>
    Call_get (fn_result fn) (Future_of (mr_request_id r))
        (fst (mp_RecvLoop_turn (object_api c) E (Mr_data bytes) (ch, w))) =
      Some (case fn_body fn vs of Inl e \<Rightarrow> Inl (call_error e) | Inr v \<Rightarrow> Inr v) \<and>
    (\<forall>v. fn_body fn vs = Inr v \<longrightarrow> result_ok (fn_result fn) v)"
proof -
  let ?out = "make_handler fn (object_of (VTuple vs))"
  have R: "case fn_result fn of None \<Rightarrow> True | Some T \<Rightarrow> type_ok T" using fn(1) by (simp add: function_ok_def)
  have typed: "\<forall>v. fn_body fn vs = Inr v \<longrightarrow> result_ok (fn_result fn) v" using fn by (simp add: function_ok_def)
  from mp_exchange[OF object_api_ok[OF codec] prep request_fits server _ client(1-5), unfolded args, OF reply_fits, of now ts k conn w]
  obtain p1 p2 bytes where x:
    "mp_OnMessage (object_api c) now ts k conn (BuildHeader (mr_payload r) @ mr_payload r) p = ([], p1)"
    "mp_WorkerLoop_turn (object_api c) now k p1 = Some p2"
    "mp_effects p2 = mp_effects p @ [Mp_called (mp_service a) (mp_method a) (object_of (VTuple vs)), Mp_sent_to conn bytes]"
    "mp_RecvLoop_turn (object_api c) E (Mr_data bytes) (ch, w) =
      (mp_CompletePending (object_api c) (mr_request_id r) q (case ?out of Inl e \<Rightarrow> call_error e | Inr x \<Rightarrow> [])
         (case ?out of Inl e \<Rightarrow> mp_nil (object_api c) | Inr x \<Rightarrow> x)
         (ch\<lparr>mc_pending := AList.delete (mr_request_id r) (mc_pending ch)\<rparr>), w)" by blast
  have got: "future_get (Future_of (mr_request_id r)) (fst (mp_RecvLoop_turn (object_api c) E (Mr_data bytes) (ch, w))) =
      Some (case ?out of Inl e \<Rightarrow> Inl (call_error e) | Inr x \<Rightarrow> Inr x)"
    using client(6-8) by (simp add: x(4) future_get_def mp_CompletePending_def mc_emit_def promise_value_append split: sum.splits)
  have "Call_result (fn_result fn) (case ?out of Inl e \<Rightarrow> Inl (call_error e) | Inr x \<Rightarrow> Inr x) =
      (case fn_body fn vs of Inl e \<Rightarrow> Inl (call_error e) | Inr v \<Rightarrow> Inr v)"
    using make_handler_typed[OF fn] Call_result_typed[OF _ R] typed
    by (cases "fn_body fn vs") (simp_all add: Call_result_def)
  with x got typed show ?thesis by (auto simp: Call_get_def)
qed

definition add_call :: "mp_object mp_call_args" where
  "add_call = \<lparr>mp_service = ''Math'', mp_method = ''Add'', mp_timeout_ms = 1000,
     mp_args = object_of (VTuple [VInt 3, VInt 4]), mp_callback = None\<rparr>"

definition math_server :: "mp_object mp_provider" where
  "math_server = mp_StartWorkerPool [] 2 (MsgpackServer_bind (new_KrpcMsgpackProvider metrics0))"

lemma math_server_simps:
  "map_of (mp_dispatcher math_server) ''Math.Add'' = Some (make_handler add_function)"
  "\<not> mp_stop_workers math_server" "mp_task_queue math_server = []" "0 < mp_task_queue_capacity math_server"
  by (simp_all add: math_server_def mp_StartWorkerPool_def Load_def Let_def MsgpackServer_dispatcher)
    (simp_all add: MsgpackServer_bind_def Bind_def new_KrpcMsgpackProvider_def Let_def)

definition typed_client :: "mp_object mp_channel" where
  "typed_client = (config_mp_channel [] 0)\<lparr>mc_fd := 3, mc_running := True, mc_alive := True, mc_joinable := True,
     mc_pending := [(2, mcall1)]\<rparr>"

abbreviation one_server :: discovery where
  "one_server \<equiv> static_discovery (join_endpoints [mk_endpoint ''h'' 1])"

lemma add_prepared:
  "\<exists>st1. mp_prepare_call (object_api mem_codec) good_net one_server add_call (config_mp_channel [] 0, world0) =
     (Some \<lparr>mr_request_id = 2, mr_payload = mp_pack (object_api mem_codec) (mp_request_header 2 1000 ''Math'' ''Add'')
              (object_of (VTuple [VInt 3, VInt 4])),
            mr_timeout_ms = 1000, mr_callback = None\<rparr>, st1)"
proof -
  let ?ch = "config_mp_channel [] 0 :: mp_object mp_channel"
  have ch: "mc_fd ?ch = -1" "mc_fail_states ?ch = []" by (simp_all add: config_mp_channel_def Let_def)
  obtain st3 where e: "mp_EnsureConnection (object_api mem_codec) good_net one_server ''Math'' ''Add'' (?ch, world0) = (Inr (), st3)"
    using mp_Ensure_one[OF static_one good_net_accepts ch] by blast
  have "mp_drained (?ch, world0) st3"
    by (rule mp_drained_EnsureConnection[OF _ e]) (simp add: mp_wf_def config_mp_channel_def Let_def)
  then have "g_request_id (snd st3) = 2" by (auto simp: mp_drained_def world0_def)
  with e show ?thesis by (cases st3) (simp add: mp_prepare_call_def add_call_def NextRequestId_def Let_def)
qed

lemma length_object_pack:
  "length (mp_pack (object_api mem_codec) h x) =
     length (enc (object_tree (object_of (header_value h)))) + length (enc (object_tree x)) + 8"
  by (simp add: object_api_def mem_codec_def)

lemmas object_lengths = length_object_pack length_mnum length_nat_to_string header_value_def int_object_def
  mp_request_header_def mp_response_header_def new_MsgpackHeader_def kDefaultMagic_def kDefaultVersion_def mp_type_defs

lemma add_handler: "make_handler add_function (object_of (VTuple [VInt 3, VInt 4])) = Inr (int_object 7)"
proof -
  have "has_types [VInt 3, VInt 4] (args_type add_function)" by (simp add: args_type_def add_function_def)
  from make_handler_typed[OF add_function_ok this] show ?thesis by (simp add: add_function_def)
qed

lemma add_fits:
  "length (mp_pack (object_api mem_codec) (mp_request_header 2 1000 ''Math'' ''Add'') (object_of (VTuple [VInt 3, VInt 4])))
     < 4294967296"
  "length (reply_payload (object_api mem_codec) (mp_request_header 2 1000 ''Math'' ''Add'')
     (make_handler add_function (object_of (VTuple [VInt 3, VInt 4])))) < 4294967296"
  unfolding add_handler by (simp_all add: reply_payload_def reply_body_def object_lengths) (simp add: object_api_def object_lengths)

theorem typed_call_sound_witness:
  "\<exists>payload p1 p2 bytes.
    mp_OnMessage (object_api mem_codec) 0 5 1 4 (BuildHeader payload @ payload) math_server = ([], p1) \<and>
    mp_WorkerLoop_turn (object_api mem_codec) 0 1 p1 = Some p2 \<and> Mp_sent_to 4 bytes \<in> set (mp_effects p2) \<and>
    Call_get (Some (CInt True 32)) (Future_of 2)
      (fst (mp_RecvLoop_turn (object_api mem_codec) good_net (Mr_data bytes) (typed_client, world0))) = Some (Inr (Some (VInt 7)))"
proof -
  obtain st1 where prep: "mp_prepare_call (object_api mem_codec) good_net one_server add_call (config_mp_channel [] 0, world0) =
     (Some \<lparr>mr_request_id = 2, mr_payload = mp_pack (object_api mem_codec) (mp_request_header 2 1000 ''Math'' ''Add'')
              (object_of (VTuple [VInt 3, VInt 4])),
            mr_timeout_ms = 1000, mr_callback = None\<rparr>, st1)"
    using add_prepared by blast
  have vs: "has_types [VInt 3, VInt 4] (args_type add_function)" by (simp add: args_type_def add_function_def)
  have client: "mc_alive typed_client" "mc_running typed_client" "mc_fd typed_client \<noteq> -1" "mc_recv_buffer typed_client = []"
    "map_of (mc_pending typed_client) 2 = Some mcall1" "promise_value 2 (mc_effects typed_client) = None"
    by (simp_all add: typed_client_def config_mp_channel_def Let_def)
  from typed_call_sound[OF mem_codec_ok add_function_ok vs prep, where p = math_server and ch = typed_client and q = mcall1
      and now = 0 and ts = 5 and k = 1 and conn = 4 and w = world0] add_fits math_server_simps client
  show ?thesis
    by (simp add: add_call_def handler_key_def mcall1_def) (auto simp: add_function_def)
qed

text \<open>The server does not check the number of arguments: a call with too few arguments runs the function
  with the missing ones set to their default values and answers as if they had been sent; arguments that are
  too many are ignored.\<close>

theorem argument_count_unchecked:
  assumes "function_ok fn" "length vs < length (args_type fn)" "has_types vs (take (length vs) (args_type fn))"
    "length xs = length (args_type fn)"
  shows "make_handler fn (object_of (VTuple vs)) =
      make_handler fn (object_of (VTuple (vs @ map default_value (drop (length vs) (args_type fn))))) \<and>
    make_handler fn (Array (xs @ rest)) = make_handler fn (Array xs)"
proof -
  let ?all = "vs @ map default_value (drop (length vs) (args_type fn))"
  have ok: "list_all type_ok (args_type fn)" using assms(1) by (simp add: function_ok_def)
  have "has_types (map default_value (drop (length vs) (args_type fn))) (drop (length vs) (args_type fn))"
    using ok by (intro default_has_types) (auto simp: list_all_iff dest: in_set_dropD)
  with assms(3) have "has_types ?all (take (length vs) (args_type fn) @ drop (length vs) (args_type fn))"
    unfolding has_types_list_all2 by (rule list_all2_appendI)
  then have "real_args (args_type fn) (object_of (VTuple ?all)) = Some ?all"
    using ok by (intro real_args_object) simp_all
  moreover have "real_args (args_type fn) (object_of (VTuple vs)) = Some ?all"
    using real_args_missing[OF ok assms(3)] by simp
  ultimately show ?thesis
    using real_args_extra[OF assms(4), of rest]
    by (simp add: make_handler_def HandlerBuilder_value_def HandlerBuilder_void_def split: option.splits)
qed

theorem argument_count_unchecked_witness:
  "make_handler add_function (object_of (VTuple [VInt 3])) = make_handler add_function (object_of (VTuple [VInt 3, VInt 0]))"
  using argument_count_unchecked[OF add_function_ok, of "[VInt 3]" "[NIL, NIL]" "[]"]
  by (simp add: args_type_def add_function_def)

end
