(* ===== verification/Load_Drivers.thy ===== *)
theory Load_Drivers
  imports Complex_Main Krpc_Config
begin

section \<open>The load drivers\<close>

text \<open>
  The clients that put load on a server and report what they saw: \<open>example/async_demo/AsyncClient.cc\<close>,
  \<open>example/bench_demo/BenchClient.cc\<close> and \<open>example/caller/Kclient.cc\<close>. The theory has their options, the split
  of the work over threads, the bookkeeping of the outcomes, and \<open>driver_step\<close>, which interleaves the threads
  of a driver with the callbacks that the channel runs. Latencies are exact rationals. A callback that the
  channel loses (\<open>callback_can_be_lost\<close> of the client) is a step of its own: its function object is
  destroyed without having been called.
\<close>

subsection \<open>Options\<close>

type_synonym environment = "string \<Rightarrow> string option"

definition ReadEnvInt :: "environment \<Rightarrow> string \<Rightarrow> int \<Rightarrow> int" where
  "ReadEnvInt env key default_value =
     (case env key of None \<Rightarrow> default_value | Some val \<Rightarrow> (case stoi val of Inl _ \<Rightarrow> default_value | Inr n \<Rightarrow> n))"

definition ReadEnvString :: "environment \<Rightarrow> string \<Rightarrow> string \<Rightarrow> string" where
  "ReadEnvString env key default_value = (case env key of None \<Rightarrow> default_value | Some val \<Rightarrow> val)"

record Options =
  op_mode :: string
  op_concurrency :: int
  op_requests :: int
  op_timeout_ms :: int
  op_sleep_ms :: int
  op_name :: string

definition default_Options :: Options where
  "default_Options = \<lparr>op_mode = ''future'', op_concurrency = 4, op_requests = 20, op_timeout_ms = 3000,
     op_sleep_ms = 0, op_name = ''sleep''\<rparr>"

definition LoadOptions :: "environment \<Rightarrow> Options" where
  "LoadOptions env =
     (let d = default_Options;
          conc = ReadEnvInt env ''ASYNC_CONCURRENCY'' (op_concurrency d);
          reqs = ReadEnvInt env ''ASYNC_REQUESTS'' (op_requests d)
      in \<lparr>op_mode = ReadEnvString env ''ASYNC_MODE'' (op_mode d),
          op_concurrency = (if conc < 1 then 1 else conc), op_requests = (if reqs < 1 then 1 else reqs),
          op_timeout_ms = ReadEnvInt env ''ASYNC_TIMEOUT_MS'' (op_timeout_ms d),
          op_sleep_ms = ReadEnvInt env ''ASYNC_SLEEP_MS'' (op_sleep_ms d),
          op_name = ReadEnvString env ''ASYNC_NAME'' (op_name d)\<rparr>)"

record BenchConfig =
  bc_mode :: string
  bc_conn_mode :: string
  bc_concurrency :: int
  bc_total_requests :: int
  bc_sleep_ms :: int
  bc_payload_kb :: int

definition load_bench_config :: "environment \<Rightarrow> BenchConfig" where
  "load_bench_config env = \<lparr>bc_mode = ReadEnvString env ''BENCH_MODE'' ''sync'',
     bc_conn_mode = ReadEnvString env ''BENCH_CONN'' ''keepalive'',
     bc_concurrency = ReadEnvInt env ''BENCH_CONCURRENCY'' 4, bc_total_requests = ReadEnvInt env ''BENCH_REQUESTS'' 100,
     bc_sleep_ms = ReadEnvInt env ''BENCH_SLEEP_MS'' 0, bc_payload_kb = ReadEnvInt env ''BENCH_PAYLOAD_KB'' 0\<rparr>"

lemma LoadOptions_positive: "1 \<le> op_concurrency (LoadOptions env)" "1 \<le> op_requests (LoadOptions env)"
  by (simp_all add: LoadOptions_def Let_def)

subsection \<open>Splitting the work\<close>

text \<open>\<open>AsyncClient\<close> gives each thread a number of calls, \<open>BenchClient\<close> the indices of its calls.\<close>

definition thread_count :: "nat \<Rightarrow> nat \<Rightarrow> nat \<Rightarrow> nat" where
  "thread_count requests concurrency t =
     (let base = requests div concurrency; extra = requests mod concurrency in base + (if t < extra then 1 else 0))"

function bench_indices_from :: "nat \<Rightarrow> nat \<Rightarrow> nat \<Rightarrow> nat list" where
  "bench_indices_from n concurrency i =
     (if i < n \<and> 0 < concurrency then i # bench_indices_from n concurrency (i + concurrency) else [])"
  by pat_completeness auto
termination by (relation "measure (\<lambda>(n, concurrency, i). n - i)") auto

declare bench_indices_from.simps [simp del]

definition bench_indices :: "nat \<Rightarrow> nat \<Rightarrow> nat \<Rightarrow> nat list" where
  "bench_indices n concurrency tid = bench_indices_from n concurrency tid"

lemma thread_count_sum: "0 < c \<Longrightarrow> (\<Sum>t<c. thread_count n c t) = n"
proof -
  assume c: "0 < c"
  have "(\<Sum>t<c. if t < n mod c then 1 else 0 :: nat) = card {t. t < c \<and> t < n mod c}"
    by (simp add: sum.If_cases Int_def conj_commute)
  also have "{t. t < c \<and> t < n mod c} = {..<n mod c}" using mod_less_divisor[OF c, of n] by auto
  finally have "(\<Sum>t<c. thread_count n c t) = c * (n div c) + n mod c"
    by (simp add: thread_count_def Let_def sum.distrib)
  then show ?thesis by simp
qed

lemma set_bench_indices_from:
  "0 < c \<Longrightarrow> set (bench_indices_from n c i) = {j. i \<le> j \<and> j < n \<and> j mod c = i mod c}"
proof (induction n c i rule: bench_indices_from.induct)
  case (1 n c i)
  show ?case
  proof (cases "i < n")
    case True
    have step: "j = i \<or> i + c \<le> j" if "i \<le> j" "j mod c = i mod c" for j
    proof -
      from that obtain k where "j = i + c * k" using mod_eq_nat1E[of j c i] by metis
      then show ?thesis by (cases k) auto
    qed
    have "set (bench_indices_from n c i) = insert i {j. i + c \<le> j \<and> j < n \<and> j mod c = i mod c}"
      using 1 True by (subst bench_indices_from.simps) simp
    also have "\<dots> = {j. i \<le> j \<and> j < n \<and> j mod c = i mod c}" using step True by auto
    finally show ?thesis .
  next
    case False
    then show ?thesis by (subst bench_indices_from.simps) auto
  qed
qed

lemma distinct_bench_indices_from: "distinct (bench_indices_from n c i)"
proof (induction n c i rule: bench_indices_from.induct)
  case (1 n c i)
  show ?case
  proof (cases "i < n \<and> 0 < c")
    case True
    with set_bench_indices_from[of c n "i + c"] have "i \<notin> set (bench_indices_from n c (i + c))" by auto
    with 1 True show ?thesis by (subst bench_indices_from.simps) simp
  next
    case False
    then show ?thesis by (simp only: bench_indices_from.simps[of n c i] if_False distinct.simps)
  qed
qed

text \<open>Each index belongs to exactly one thread.\<close>

lemma bench_indices_owner:
  "0 < c \<Longrightarrow> t < c \<Longrightarrow> i \<in> set (bench_indices n c t) \<longleftrightarrow> i < n \<and> i mod c = t"
  using mod_less_eq_dividend[of i c] by (auto simp: bench_indices_def set_bench_indices_from)

text \<open>Both splits give a thread the same number of calls.\<close>

lemma length_bench_indices_from:
  "0 < c \<Longrightarrow> length (bench_indices_from n c i) = (if i < n then Suc ((n - Suc i) div c) else 0)"
proof (induction n c i rule: bench_indices_from.induct)
  case (1 n c i)
  show ?case
  proof (cases "i + c < n")
    case True
    then have "n - Suc i = (n - Suc (i + c)) + c" by simp
    then have "(n - Suc i) div c = Suc ((n - Suc (i + c)) div c)" using 1(2) by (simp only: div_add_self2)
    with 1 True show ?thesis by (subst bench_indices_from.simps) simp
  next
    case False
    with 1 show ?thesis by (subst bench_indices_from.simps) simp
  qed
qed

lemma length_bench_indices:
  assumes "t < c"
  shows "length (bench_indices n c t) = thread_count n c t"
proof -
  define q r where "q = n div c" and "r = n mod c"
  have n: "n = c * q + r" and r: "r < c" using assms by (simp_all add: q_def r_def)
  have "(if t < n then Suc ((n - Suc t) div c) else 0) = q + (if t < r then 1 else 0)"
  proof (cases "t < r")
    case True
    then have "n - Suc t = (r - Suc t) + c * q" "r - Suc t < c" using n r by simp_all
    then have "(n - Suc t) div c = q" using assms by (simp only: div_mult_self2) simp
    with True n show ?thesis by simp
  next
    case False
    show ?thesis
    proof (cases q)
      case 0
      with n False show ?thesis by simp
    next
      case (Suc k)
      have "n - Suc t = (r + c - Suc t) + c * k" "r + c - Suc t < c" using n False assms Suc by simp_all
      then have "(n - Suc t) div c = k" using assms by (simp only: div_mult_self2) simp
      with Suc False n assms show ?thesis by simp
    qed
  qed
  with assms show ?thesis
    by (simp add: bench_indices_def length_bench_indices_from thread_count_def Let_def q_def r_def)
qed

subsection \<open>What a driver records\<close>

record AsyncMetrics =
  mt_success :: nat
  mt_fail :: nat
  mt_latencies :: "rat list"

definition new_Metrics :: AsyncMetrics where
  "new_Metrics = \<lparr>mt_success = 0, mt_fail = 0, mt_latencies = []\<rparr>"

definition RecordLatency :: "rat \<Rightarrow> AsyncMetrics \<Rightarrow> AsyncMetrics" where
  "RecordLatency latency_ms m = m\<lparr>mt_latencies := mt_latencies m @ [latency_ms]\<rparr>"

definition count_call :: "bool \<Rightarrow> AsyncMetrics \<Rightarrow> AsyncMetrics" where
  "count_call ok m = (if ok then m\<lparr>mt_success := mt_success m + 1\<rparr> else m\<lparr>mt_fail := mt_fail m + 1\<rparr>)"

definition counted :: "AsyncMetrics \<Rightarrow> nat" where "counted m = mt_success m + mt_fail m"

definition IsSuccess :: "int \<Rightarrow> bool option \<Rightarrow> bool" where
  "IsSuccess errcode controller_failed \<longleftrightarrow> (if controller_failed = Some True then False else errcode = 0)"

definition bench_Record :: "bool \<Rightarrow> rat \<Rightarrow> AsyncMetrics \<Rightarrow> AsyncMetrics" where
  "bench_Record ok cost_ms m =
     (let m1 = (if ok then m\<lparr>mt_success := mt_success m + 1\<rparr> else m\<lparr>mt_fail := mt_fail m + 1\<rparr>)
      in m1\<lparr>mt_latencies := mt_latencies m1 @ [cost_ms]\<rparr>)"

lemma metrics_simps [simp]:
  "counted new_Metrics = 0" "mt_latencies new_Metrics = []"
  "counted (RecordLatency l m) = counted m" "counted (count_call ok m) = Suc (counted m)"
  "counted (bench_Record ok l m) = Suc (counted m)"
  "mt_latencies (RecordLatency l m) = mt_latencies m @ [l]" "mt_latencies (count_call ok m) = mt_latencies m"
  "mt_latencies (bench_Record ok l m) = mt_latencies m @ [l]"
  by (simp_all add: counted_def new_Metrics_def RecordLatency_def count_call_def bench_Record_def Let_def)

subsection \<open>Percentiles\<close>

text \<open>\<open>AsyncClient\<close> interpolates between the two neighbours of the rank.\<close>

definition Percentile :: "rat list \<Rightarrow> rat \<Rightarrow> rat" where
  "Percentile values p =
     (if values = [] then 0
      else
        let sorted = sort values;
            rank = (p / 100) * of_nat (length sorted - 1);
            lower = nat \<lfloor>rank\<rfloor>;
            upper = min (length sorted - 1) (lower + 1);
            frac = rank - of_nat lower
        in sorted ! lower * (1 - frac) + sorted ! upper * frac)"

text \<open>\<open>BenchClient\<close> takes one of the samples.\<close>

definition bench_perc :: "rat list \<Rightarrow> rat \<Rightarrow> rat" where
  "bench_perc values p =
     (let samples = sort values
      in if samples = [] then 0
         else let idx = nat \<lfloor>(p / 100) * of_nat (length samples) + 1 / 2\<rfloor>
              in samples ! min idx (length samples - 1))"

definition interpolate :: "rat list \<Rightarrow> rat \<Rightarrow> rat" where
  "interpolate s rank =
     (let lower = nat \<lfloor>rank\<rfloor>; upper = min (length s - 1) (lower + 1); frac = rank - of_nat lower
      in s ! lower * (1 - frac) + s ! upper * frac)"

lemma Percentile_interpolate:
  "values \<noteq> [] \<Longrightarrow> Percentile values p = interpolate (sort values) ((p / 100) * of_nat (length values - 1))"
  by (simp add: Percentile_def interpolate_def Let_def)

lemma floor_below:
  fixes r :: rat
  assumes "0 \<le> r" "r \<le> of_nat k"
  shows "nat \<lfloor>r\<rfloor> \<le> k" "of_nat (nat \<lfloor>r\<rfloor>) \<le> r" "r < of_nat (nat \<lfloor>r\<rfloor>) + 1"
proof -
  from assms(1) have nn: "of_nat (nat \<lfloor>r\<rfloor>) = (of_int \<lfloor>r\<rfloor> :: rat)" by (simp add: of_nat_nat)
  show "of_nat (nat \<lfloor>r\<rfloor>) \<le> r" "r < of_nat (nat \<lfloor>r\<rfloor>) + 1" unfolding nn by linarith+
  from assms(2) have "\<lfloor>r\<rfloor> \<le> \<lfloor>of_nat k :: rat\<rfloor>" by (rule floor_mono)
  then show "nat \<lfloor>r\<rfloor> \<le> k" by simp
qed

lemma interpolate_between:
  assumes "sorted s" "s \<noteq> []" "0 \<le> r" "r \<le> of_nat (length s - 1)"
  shows "s ! nat \<lfloor>r\<rfloor> \<le> interpolate s r" "interpolate s r \<le> s ! min (length s - 1) (nat \<lfloor>r\<rfloor> + 1)"
proof -
  let ?l = "nat \<lfloor>r\<rfloor>" and ?u = "min (length s - 1) (nat \<lfloor>r\<rfloor> + 1)" and ?f = "r - of_nat (nat \<lfloor>r\<rfloor>)"
  note fl = floor_below[OF assms(3,4)]
  have le: "s ! ?l \<le> s ! ?u" using assms(2) fl(1) by (intro sorted_nth_mono[OF assms(1)]) (auto simp: min_def)
  have f: "0 \<le> ?f" "?f \<le> 1" using fl(2,3) by simp_all
  have eq: "interpolate s r = s ! ?l + (s ! ?u - s ! ?l) * ?f" "interpolate s r = s ! ?u - (s ! ?u - s ! ?l) * (1 - ?f)"
    by (simp_all add: interpolate_def Let_def algebra_simps)
  show "s ! ?l \<le> interpolate s r" unfolding eq(1) using le f(1) by (simp add: mult_nonneg_nonneg)
  show "interpolate s r \<le> s ! ?u" unfolding eq(2) using le f(2) by (simp add: mult_nonneg_nonneg)
qed

lemma interpolate_mono:
  assumes "sorted s" "s \<noteq> []" "0 \<le> r" "r \<le> q" "q \<le> of_nat (length s - 1)"
  shows "interpolate s r \<le> interpolate s q"
proof (cases "nat \<lfloor>r\<rfloor> = nat \<lfloor>q\<rfloor>")
  case True
  let ?l = "nat \<lfloor>q\<rfloor>"
  let ?u = "min (length s - 1) (?l + 1)"
  note fl = floor_below[of q "length s - 1"]
  have le: "s ! ?l \<le> s ! ?u"
    using assms fl(1) by (intro sorted_nth_mono[OF assms(1)]) (auto simp: min_def)
  have "interpolate s q - interpolate s r = (s ! ?u - s ! ?l) * (q - r)"
    by (simp add: interpolate_def Let_def True algebra_simps)
  moreover have "0 \<le> (s ! ?u - s ! ?l) * (q - r)" using le assms(4) by (simp add: mult_nonneg_nonneg)
  ultimately show ?thesis by linarith
next
  case False
  have q: "0 \<le> q" and r: "r \<le> of_nat (length s - 1)" using assms(3-5) by linarith+
  have "nat \<lfloor>r\<rfloor> \<le> nat \<lfloor>q\<rfloor>" using assms(4) by (intro nat_mono floor_mono)
  then have "s ! min (length s - 1) (nat \<lfloor>r\<rfloor> + 1) \<le> s ! nat \<lfloor>q\<rfloor>"
  proof (intro sorted_nth_mono[OF assms(1)])
    show "min (length s - 1) (nat \<lfloor>r\<rfloor> + 1) \<le> nat \<lfloor>q\<rfloor>" using False \<open>nat \<lfloor>r\<rfloor> \<le> nat \<lfloor>q\<rfloor>\<close> by linarith
    show "nat \<lfloor>q\<rfloor> < length s" using floor_below(1)[OF q assms(5)] assms(2) by (cases s) simp_all
  qed
  with interpolate_between(2)[OF assms(1,2,3) r] interpolate_between(1)[OF assms(1,2) q assms(5)]
  show ?thesis by linarith
qed

lemma rank_range:
  fixes p :: rat
  assumes "0 \<le> p" "p \<le> 100"
  shows "0 \<le> (p / 100) * of_nat k" "(p / 100) * of_nat k \<le> (of_nat k :: rat)"
proof -
  show "0 \<le> (p / 100) * of_nat k" using assms(1) by simp
  have "(p / 100) * of_nat k \<le> 1 * of_nat k" using assms(2) by (intro mult_right_mono) simp_all
  then show "(p / 100) * of_nat k \<le> (of_nat k :: rat)" by simp
qed

lemma Percentile_mono:
  assumes "0 \<le> p" "p \<le> q" "q \<le> 100"
  shows "Percentile xs p \<le> Percentile xs q"
proof (cases "xs = []")
  case False
  have le: "(p / 100) * of_nat (length xs - 1) \<le> (q / 100) * of_nat (length xs - 1)"
    using assms(2) by (intro mult_right_mono) simp_all
  have "0 \<le> (p / 100) * of_nat (length xs - 1)" using assms(1) by simp
  moreover have "(q / 100) * of_nat (length xs - 1) \<le> of_nat (length (sort xs) - 1)"
    using rank_range(2)[of q "length xs - 1"] assms by simp
  moreover have "sort xs \<noteq> []" using False by (metis length_sort length_0_conv)
  ultimately show ?thesis
    using le unfolding Percentile_interpolate[OF False] by (intro interpolate_mono) simp_all
qed (simp add: Percentile_def)

lemma Percentile_ends:
  assumes "xs \<noteq> []"
  shows "Percentile xs 0 = sort xs ! 0" "Percentile xs 100 = sort xs ! (length xs - 1)"
  using assms by (simp_all add: Percentile_interpolate interpolate_def Let_def)

lemma bench_perc_mem: "xs \<noteq> [] \<Longrightarrow> bench_perc xs p \<in> set xs"
proof -
  assume "xs \<noteq> []"
  then have ne: "sort xs \<noteq> []" by (metis length_sort length_0_conv)
  then have "min k (length (sort xs) - 1) < length (sort xs)" for k by (cases "sort xs") simp_all
  from nth_mem[OF this] ne show ?thesis by (simp add: bench_perc_def Let_def)
qed

lemma bench_perc_mono:
  assumes "p \<le> q"
  shows "bench_perc xs p \<le> bench_perc xs q"
proof (cases "xs = []")
  case False
  then have ne: "sort xs \<noteq> []" by (metis length_sort length_0_conv)
  have "(p / 100) * of_nat (length (sort xs)) + 1 / 2 \<le> (q / 100) * of_nat (length (sort xs)) + 1 / 2"
    using assms by (intro add_right_mono mult_right_mono divide_right_mono) simp_all
  then have le: "nat \<lfloor>(p / 100) * of_nat (length (sort xs)) + 1 / 2\<rfloor> \<le> nat \<lfloor>(q / 100) * of_nat (length (sort xs)) + 1 / 2\<rfloor>"
    by (intro nat_mono floor_mono)
  have short: "min k (length (sort xs) - 1) < length (sort xs)" for k using ne by (cases "sort xs") simp_all
  show ?thesis unfolding bench_perc_def Let_def using ne
    by (simp only: if_False) (intro sorted_nth_mono sorted_sort min.mono order_refl le short)
qed (simp add: bench_perc_def)

text \<open>Half of the samples 1 and 2 are at most 1, but the rank is rounded up beyond them.\<close>

lemma bench_perc_half: "bench_perc [1, 2] 50 = 2" "Percentile [1, 2] 50 = 3 / 2"
  by (simp_all add: bench_perc_def Percentile_def Let_def floor_eq_iff)

subsection \<open>The report\<close>

record summary =
  sm_total :: nat
  sm_success :: nat
  sm_fail :: nat
  sm_percentiles :: "(rat \<times> rat \<times> rat) option"
  sm_max :: "rat option"
  sm_qps :: rat

definition PrintSummary :: "AsyncMetrics \<Rightarrow> summary" where
  "PrintSummary m =
     (let latencies_copy = mt_latencies m
      in \<lparr>sm_total = mt_success m + mt_fail m, sm_success = mt_success m, sm_fail = mt_fail m,
          sm_percentiles = (if latencies_copy \<noteq> []
            then Some (Percentile latencies_copy 50, Percentile latencies_copy 95, Percentile latencies_copy 99) else None),
          sm_max = None, sm_qps = 0\<rparr>)"

definition bench_PrintSummary :: "AsyncMetrics \<Rightarrow> int \<Rightarrow> summary" where
  "bench_PrintSummary m total_cost_ms =
     (let succ = mt_success m; fail = mt_fail m; n = succ + fail; samples = sort (mt_latencies m)
      in \<lparr>sm_total = n, sm_success = succ, sm_fail = fail,
          sm_percentiles = (if samples \<noteq> []
            then Some (bench_perc (mt_latencies m) 50, bench_perc (mt_latencies m) 95, bench_perc (mt_latencies m) 99)
            else None),
          sm_max = (if samples \<noteq> [] then Some (List.last samples) else None),
          sm_qps = (if total_cost_ms > 0 then of_nat n * 1000 / of_int total_cost_ms else 0)\<rparr>)"

definition main_exit_code :: "AsyncMetrics \<Rightarrow> int" where
  "main_exit_code m = (if mt_fail m = 0 then 0 else 1)"

end
