(* ===== verification/Driver_Runs.thy ===== *)
theory Driver_Runs
  imports Load_Drivers
begin

section \<open>The runs of the load drivers\<close>

text \<open>
  The driver threads of \<open>AsyncClient\<close> (future and callback mode) and of \<open>BenchClient\<close> (asynchronous mode) with
  the callbacks of the channel. A run is an interleaving of the steps of \<open>driver_step\<close>: a thread starts its
  next call, the channel runs the callback of a call, the channel drops a callback without running it (the
  function object is destroyed), a thread whose \<open>wait()\<close> is over goes on. The three modes differ in the
  operations of a \<open>driver_code\<close>. The locale \<open>load_driver\<close> is the contract of such an operation record;
  what a run counts, when it can end and when it hangs is proved once in it.
\<close>

subsection \<open>State\<close>

record driver_call =
  lc_name :: string
  lc_pwd :: string
  lc_timeout :: "int option"

text \<open>Calls are numbered in the order in which they start. \<open>dr_left\<close> has the calls each thread still has to
  start, \<open>dr_wait\<close> the call whose future a thread waits for, \<open>dr_out\<close> the calls in the channel, \<open>dr_ready\<close> those
  whose \<open>wait()\<close> returns, \<open>dr_lost\<close> those whose callback was dropped.\<close>

record driver =
  dr_left :: "nat list"
  dr_wait :: "nat option list"
  dr_calls :: "driver_call list"
  dr_out :: "nat list"
  dr_ready :: "nat list"
  dr_lost :: "nat list"
  dr_pending :: int
  dr_metrics :: AsyncMetrics

definition new_driver :: "nat list \<Rightarrow> int \<Rightarrow> driver" where
  "new_driver counts pending = \<lparr>dr_left = counts, dr_wait = replicate (length counts) None, dr_calls = [],
     dr_out = [], dr_ready = [], dr_lost = [], dr_pending = pending, dr_metrics = new_Metrics\<rparr>"

text \<open>What the client sees of a call: how long it took, whether the controller failed, the \<open>errcode\<close>.\<close>

record call_outcome =
  oc_latency :: rat
  oc_failed :: bool
  oc_errcode :: int

definition enter_channel :: "driver_call \<Rightarrow> driver \<Rightarrow> driver" where
  "enter_channel c d = d\<lparr>dr_calls := dr_calls d @ [c], dr_out := length (dr_calls d) # dr_out d\<rparr>"

definition take_turn :: "nat \<Rightarrow> driver \<Rightarrow> driver" where
  "take_turn t d = d\<lparr>dr_left := (dr_left d)[t := dr_left d ! t - 1]\<rparr>"

definition joined :: "driver \<Rightarrow> bool" where
  "joined d \<longleftrightarrow> list_all (\<lambda>n. n = 0) (dr_left d) \<and> list_all (\<lambda>w. w = None) (dr_wait d)"

subsection \<open>\<open>RunFutureMode\<close>\<close>

text \<open>A thread without calls is not started.\<close>

definition thread_counts :: "Options \<Rightarrow> nat list" where
  "thread_counts opts =
     filter (\<lambda>n. 0 < n)
       (map (thread_count (nat (op_requests opts)) (nat (op_concurrency opts))) [0..<nat (op_concurrency opts)])"

definition RunFutureMode_threads :: "Options \<Rightarrow> driver" where
  "RunFutureMode_threads opts = new_driver (thread_counts opts) 0"

definition RunFutureMode_call :: "Options \<Rightarrow> nat \<Rightarrow> driver \<Rightarrow> driver" where
  "RunFutureMode_call opts t d =
     (let i = length (dr_calls d);
          d1 = enter_channel \<lparr>lc_name = op_name opts, lc_pwd = ''123456'',
            lc_timeout = (if op_timeout_ms opts > 0 then Some (op_timeout_ms opts) else None)\<rparr> (take_turn t d)
      in d1\<lparr>dr_wait := (dr_wait d1)[t := Some i]\<rparr>)"

definition RunFutureMode_callback :: "nat \<Rightarrow> call_outcome \<Rightarrow> driver \<Rightarrow> driver" where
  "RunFutureMode_callback i r d =
     (let m = RecordLatency (oc_latency r) (dr_metrics d);
          m = count_call (IsSuccess (oc_errcode r) (Some (oc_failed r))) m
      in d\<lparr>dr_metrics := m, dr_ready := i # dr_ready d\<rparr>)"

text \<open>The thread still holds \<open>promise_ptr\<close>, so the promise outlives a dropped callback.\<close>

definition RunFutureMode_drop :: "nat \<Rightarrow> driver \<Rightarrow> driver" where "RunFutureMode_drop i d = d"

definition RunFutureMode_ends :: "driver \<Rightarrow> bool" where "RunFutureMode_ends d \<longleftrightarrow> joined d"

subsection \<open>\<open>RunCallbackMode\<close>\<close>

definition RunCallbackMode_threads :: "Options \<Rightarrow> driver" where
  "RunCallbackMode_threads opts = new_driver (thread_counts opts) 0"

definition RunCallbackMode_call :: "Options \<Rightarrow> nat \<Rightarrow> driver \<Rightarrow> driver" where
  "RunCallbackMode_call opts t d =
     enter_channel \<lparr>lc_name = op_name opts, lc_pwd = ''123456'',
       lc_timeout = (if op_timeout_ms opts > 0 then Some (op_timeout_ms opts) else None)\<rparr> (take_turn t d)"

definition RunCallbackMode_callback :: "nat \<Rightarrow> call_outcome \<Rightarrow> driver \<Rightarrow> driver" where
  "RunCallbackMode_callback i r d =
     (let m = RecordLatency (oc_latency r) (dr_metrics d);
          m = count_call (IsSuccess (oc_errcode r) (Some (oc_failed r))) m
      in d\<lparr>dr_metrics := m, dr_ready := i # dr_ready d\<rparr>)"

text \<open>Here the callback held the last pointer to the promise: its destruction stores \<open>broken_promise\<close>, and
  \<open>wait()\<close>, which does not look at the value, returns.\<close>

definition RunCallbackMode_drop :: "nat \<Rightarrow> driver \<Rightarrow> driver" where
  "RunCallbackMode_drop i d = d\<lparr>dr_ready := i # dr_ready d\<rparr>"

text \<open>After joining the threads the main thread waits for the future of every call.\<close>

definition RunCallbackMode_ends :: "driver \<Rightarrow> bool" where
  "RunCallbackMode_ends d \<longleftrightarrow> joined d \<and> list_all (\<lambda>i. i \<in> set (dr_ready d)) [0..<length (dr_calls d)]"

subsection \<open>The asynchronous mode of \<open>BenchClient\<close>\<close>

definition bench_counts :: "BenchConfig \<Rightarrow> nat list" where
  "bench_counts cfg =
     map (\<lambda>tid. length (bench_indices (nat (bc_total_requests cfg)) (nat (bc_concurrency cfg)) tid))
       [0..<nat (bc_concurrency cfg)]"

definition bench_threads :: "BenchConfig \<Rightarrow> driver" where
  "bench_threads cfg = new_driver (bench_counts cfg) (bc_total_requests cfg)"

definition bench_name :: "BenchConfig \<Rightarrow> string" where
  "bench_name cfg = (if bc_payload_kb cfg > 0 then replicate (nat (bc_payload_kb cfg) * 1024) CHR ''x'' else ''bench'')"

definition bench_async_call :: "BenchConfig \<Rightarrow> nat \<Rightarrow> driver \<Rightarrow> driver" where
  "bench_async_call cfg t d =
     enter_channel \<lparr>lc_name = bench_name cfg, lc_pwd = ''123456'', lc_timeout = None\<rparr> (take_turn t d)"

definition OnAsyncDone :: "nat \<Rightarrow> call_outcome \<Rightarrow> driver \<Rightarrow> driver" where
  "OnAsyncDone i r d =
     d\<lparr>dr_metrics := bench_Record (\<not> oc_failed r) (oc_latency r) (dr_metrics d), dr_pending := dr_pending d - 1\<rparr>"

text \<open>A dropped \<open>Closure\<close> is leaked: nothing counts it.\<close>

definition bench_drop :: "nat \<Rightarrow> driver \<Rightarrow> driver" where "bench_drop i d = d"

definition bench_ends :: "driver \<Rightarrow> bool" where "bench_ends d \<longleftrightarrow> dr_pending d \<le> 0 \<and> joined d"

subsection \<open>Steps\<close>

record driver_code =
  dc_call :: "nat \<Rightarrow> driver \<Rightarrow> driver"
  dc_callback :: "nat \<Rightarrow> call_outcome \<Rightarrow> driver \<Rightarrow> driver"
  dc_drop :: "nat \<Rightarrow> driver \<Rightarrow> driver"
  dc_ends :: "driver \<Rightarrow> bool"

definition future_code :: "Options \<Rightarrow> driver_code" where
  "future_code opts = \<lparr>dc_call = RunFutureMode_call opts, dc_callback = RunFutureMode_callback,
     dc_drop = RunFutureMode_drop, dc_ends = RunFutureMode_ends\<rparr>"

definition callback_code :: "Options \<Rightarrow> driver_code" where
  "callback_code opts = \<lparr>dc_call = RunCallbackMode_call opts, dc_callback = RunCallbackMode_callback,
     dc_drop = RunCallbackMode_drop, dc_ends = RunCallbackMode_ends\<rparr>"

definition bench_code :: "BenchConfig \<Rightarrow> driver_code" where
  "bench_code cfg = \<lparr>dc_call = bench_async_call cfg, dc_callback = OnAsyncDone,
     dc_drop = bench_drop, dc_ends = bench_ends\<rparr>"

inductive driver_step :: "driver_code \<Rightarrow> driver \<Rightarrow> driver \<Rightarrow> bool" for D where
  start: "t < length (dr_left d) \<Longrightarrow> 0 < dr_left d ! t \<Longrightarrow> dr_wait d ! t = None \<Longrightarrow> driver_step D d (dc_call D t d)"
| callback: "i \<in> set (dr_out d) \<Longrightarrow>
    driver_step D d (dc_callback D i r (d\<lparr>dr_out := remove1 i (dr_out d)\<rparr>))"
| lost: "i \<in> set (dr_out d) \<Longrightarrow>
    driver_step D d (dc_drop D i (d\<lparr>dr_out := remove1 i (dr_out d), dr_lost := i # dr_lost d\<rparr>))"
| wake: "t < length (dr_wait d) \<Longrightarrow> dr_wait d ! t = Some i \<Longrightarrow> i \<in> set (dr_ready d) \<Longrightarrow>
    driver_step D d (d\<lparr>dr_wait := (dr_wait d)[t := None]\<rparr>)"

text \<open>The account of a run with \<open>n\<close> calls.\<close>

definition driver_ok :: "nat \<Rightarrow> driver \<Rightarrow> bool" where
  "driver_ok n d \<longleftrightarrow>
     length (dr_wait d) = length (dr_left d) \<and>
     sum_list (dr_left d) + length (dr_calls d) = n \<and>
     length (dr_out d) + length (dr_lost d) + counted (dr_metrics d) = length (dr_calls d) \<and>
     length (mt_latencies (dr_metrics d)) = counted (dr_metrics d) \<and>
     distinct (dr_out d @ dr_lost d) \<and>
     set (dr_out d) \<inter> set (dr_ready d) = {} \<and>
     set (dr_out d) \<union> set (dr_lost d) \<union> set (dr_ready d) \<subseteq> {..<length (dr_calls d)}"

lemma sum_list_turn: "t < length ns \<Longrightarrow> 0 < ns ! t \<Longrightarrow> Suc (sum_list (ns[t := ns ! t - 1])) = sum_list (ns :: nat list)"
  by (induction ns arbitrary: t) (auto simp: nth_Cons split: nat.splits)

lemma out_remove1: "i \<in> set xs \<Longrightarrow> length xs = Suc (length (remove1 i xs))"
  by (induction xs) auto

text \<open>What is left to do in a run without dropped callbacks.\<close>

definition driver_work :: "driver \<Rightarrow> nat" where
  "driver_work d = 4 * sum_list (dr_left d) + 2 * length (dr_out d) + length (filter (\<lambda>w. w \<noteq> None) (dr_wait d))"

lemma filter_update_None:
  "t < length ws \<Longrightarrow> ws ! t \<noteq> None \<Longrightarrow>
     length (filter (\<lambda>w. w \<noteq> None) ws) = Suc (length (filter (\<lambda>w. w \<noteq> None) (ws[t := None])))"
  by (induction ws arbitrary: t) (auto simp: nth_Cons split: nat.splits)

lemma filter_update_le:
  "length (filter (\<lambda>w. w \<noteq> None) (ws[t := w])) \<le> Suc (length (filter (\<lambda>w. w \<noteq> None) ws))"
  by (induction ws arbitrary: t) (auto split: nat.splits)

lemma driver_ok_new: "sum_list counts = n \<Longrightarrow> driver_ok n (new_driver counts p)"
  by (simp add: driver_ok_def new_driver_def)

subsection \<open>The contract of a driver\<close>

text \<open>\<open>extra\<close> is the part of the account that a mode adds.\<close>

locale load_driver =
  fixes D :: driver_code
    and extra :: "nat \<Rightarrow> driver \<Rightarrow> bool"
  assumes call_shape: "\<exists>c ws. dc_call D t d = (enter_channel c (take_turn t d))\<lparr>dr_wait := ws\<rparr> \<and>
      (ws = dr_wait d \<or> ws = (dr_wait d)[t := Some (length (dr_calls d))])"
    and callback_shape: "\<exists>m rd q. dc_callback D i r d = d\<lparr>dr_metrics := m, dr_ready := rd, dr_pending := q\<rparr> \<and>
      counted m = Suc (counted (dr_metrics d)) \<and>
      length (mt_latencies m) = Suc (length (mt_latencies (dr_metrics d))) \<and> set rd \<subseteq> insert i (set (dr_ready d))"
    and drop_shape: "\<exists>rd. dc_drop D i d = d\<lparr>dr_ready := rd\<rparr> \<and> set rd \<subseteq> insert i (set (dr_ready d))"
    and extra_step: "driver_ok n d \<Longrightarrow> extra n d \<Longrightarrow> driver_step D d d' \<Longrightarrow> extra n d'"
    and ends_idle: "driver_ok n d \<Longrightarrow> extra n d \<Longrightarrow> dc_ends D d \<Longrightarrow> joined d \<and> dr_out d = []"
    and idle_ends: "driver_ok n d \<Longrightarrow> extra n d \<Longrightarrow> joined d \<Longrightarrow> dr_out d = [] \<Longrightarrow> dr_lost d = [] \<Longrightarrow> dc_ends D d"
    and answered_ready: "driver_ok n d \<Longrightarrow> extra n d \<Longrightarrow> Some i \<in> set (dr_wait d) \<Longrightarrow> i \<notin> set (dr_out d) \<Longrightarrow>
      dr_lost d = [] \<Longrightarrow> i \<in> set (dr_ready d)"
begin

lemma driver_ok_step: "driver_step D d d' \<Longrightarrow> driver_ok n d \<Longrightarrow> driver_ok n d'"
proof (induction rule: driver_step.induct)
  case (start t d)
  from call_shape[of t d] obtain c ws where eq: "dc_call D t d = (enter_channel c (take_turn t d))\<lparr>dr_wait := ws\<rparr>"
    and ws: "ws = dr_wait d \<or> ws = (dr_wait d)[t := Some (length (dr_calls d))]" by blast
  from start ws sum_list_turn[of t "dr_left d"] show ?case
    by (auto simp: eq driver_ok_def enter_channel_def take_turn_def lessThan_Suc)
next
  case (callback i d r)
  let ?d = "d\<lparr>dr_out := remove1 i (dr_out d)\<rparr>"
  from callback_shape[of i r ?d] obtain m rd q where
    "dc_callback D i r ?d = ?d\<lparr>dr_metrics := m, dr_ready := rd, dr_pending := q\<rparr>"
    "counted m = Suc (counted (dr_metrics ?d))"
    "length (mt_latencies m) = Suc (length (mt_latencies (dr_metrics ?d)))"
    "set rd \<subseteq> insert i (set (dr_ready ?d))" by blast
  with callback show ?case
    using out_remove1[of i "dr_out d"] by (auto simp: driver_ok_def)
next
  case (lost i d)
  let ?d = "d\<lparr>dr_out := remove1 i (dr_out d), dr_lost := i # dr_lost d\<rparr>"
  from drop_shape[of i ?d] obtain rd where
    "dc_drop D i ?d = ?d\<lparr>dr_ready := rd\<rparr>" "set rd \<subseteq> insert i (set (dr_ready ?d))" by blast
  with lost show ?case
    using out_remove1[of i "dr_out d"] by (auto simp: driver_ok_def)
next
  case (wake t d i)
  then show ?case by (simp add: driver_ok_def)
qed

lemma steps_ok:
  assumes "(driver_step D)\<^sup>*\<^sup>* d d'" "driver_ok n d" "extra n d"
  shows "driver_ok n d' \<and> extra n d'"
  using assms by (induction rule: rtranclp_induct) (blast intro: driver_ok_step extra_step)+

text \<open>A run that ends has counted every call whose callback was not dropped.\<close>

lemma ends_counted:
  assumes "driver_ok n d" "extra n d" "dc_ends D d"
  shows "counted (dr_metrics d) + length (dr_lost d) = n" "length (mt_latencies (dr_metrics d)) = counted (dr_metrics d)"
proof -
  from ends_idle[OF assms] have "dr_out d = []" "sum_list (dr_left d) = 0"
    by (auto simp: joined_def list_all_iff)
  with assms(1) show "counted (dr_metrics d) + length (dr_lost d) = n"
    "length (mt_latencies (dr_metrics d)) = counted (dr_metrics d)" by (auto simp: driver_ok_def)
qed

lemma lost_grows: "driver_step D d d' \<Longrightarrow> set (dr_lost d) \<subseteq> set (dr_lost d')"
proof (induction rule: driver_step.induct)
  case (start t d)
  from call_shape[of t d] obtain c ws where "dc_call D t d = (enter_channel c (take_turn t d))\<lparr>dr_wait := ws\<rparr>" by blast
  then show ?case by (simp add: enter_channel_def take_turn_def)
next
  case (callback i d r)
  from callback_shape[of i r "d\<lparr>dr_out := remove1 i (dr_out d)\<rparr>"] obtain m rd q where
    "dc_callback D i r (d\<lparr>dr_out := remove1 i (dr_out d)\<rparr>) =
       d\<lparr>dr_out := remove1 i (dr_out d), dr_metrics := m, dr_ready := rd, dr_pending := q\<rparr>" by auto
  then show ?case by simp
next
  case (lost i d)
  from drop_shape[of i "d\<lparr>dr_out := remove1 i (dr_out d), dr_lost := i # dr_lost d\<rparr>"] show ?case by auto
next
  case (wake t d i)
  then show ?case by simp
qed

lemma next_step:
  assumes "driver_ok n d" "extra n d" "dr_lost d = []" "\<not> (joined d \<and> dr_out d = [])"
  shows "\<exists>d'. driver_step D d d' \<and> dr_lost d' = [] \<and> driver_work d' < driver_work d"
proof (cases "dr_out d")
  case (Cons i rest)
  let ?d = "d\<lparr>dr_out := remove1 i (dr_out d)\<rparr>"
  fix r
  from callback_shape[of i r ?d] obtain m rd q where
    eq: "dc_callback D i r ?d = ?d\<lparr>dr_metrics := m, dr_ready := rd, dr_pending := q\<rparr>" by blast
  from driver_step.callback[of i d D r] Cons eq assms(3) show ?thesis
    by (intro exI[of _ "dc_callback D i r ?d"]) (simp add: driver_work_def)
next
  case Nil
  show ?thesis
  proof (cases "\<exists>t < length (dr_wait d). dr_wait d ! t \<noteq> None")
    case True
    then obtain t i where t: "t < length (dr_wait d)" "dr_wait d ! t = Some i" by auto
    then have "i \<in> set (dr_ready d)"
      using answered_ready[OF assms(1,2) _ _ assms(3), of i] Nil nth_mem[OF t(1)] by simp
    from driver_step.wake[OF t this, of D] filter_update_None[OF t(1)] t assms(3) show ?thesis
      by (intro exI[of _ "d\<lparr>dr_wait := (dr_wait d)[t := None]\<rparr>"]) (simp add: driver_work_def)
  next
    case False
    then have "list_all (\<lambda>w. w = None) (dr_wait d)" by (simp add: list_all_length)
    with assms(4) Nil obtain t where t: "t < length (dr_left d)" "0 < dr_left d ! t"
      by (auto simp: joined_def list_all_length)
    with False assms(1) have "dr_wait d ! t = None" by (simp add: driver_ok_def)
    from driver_step.start[OF t this, of D] have step: "driver_step D d (dc_call D t d)" .
    from call_shape[of t d] obtain c ws where eq: "dc_call D t d = (enter_channel c (take_turn t d))\<lparr>dr_wait := ws\<rparr>"
      and ws: "ws = dr_wait d \<or> ws = (dr_wait d)[t := Some (length (dr_calls d))]" by blast
    from ws filter_update_le[of "dr_wait d" t "Some (length (dr_calls d))"]
    have "length (filter (\<lambda>w. w \<noteq> None) ws) \<le> Suc (length (filter (\<lambda>w. w \<noteq> None) (dr_wait d)))" by auto
    with step sum_list_turn[OF t] assms(3) show ?thesis
      by (intro exI[of _ "dc_call D t d"]) (simp add: eq driver_work_def enter_channel_def take_turn_def)
  qed
qed

text \<open>As long as no callback is dropped, a run can be continued to its end.\<close>

lemma can_end:
  "driver_ok n d \<Longrightarrow> extra n d \<Longrightarrow> dr_lost d = [] \<Longrightarrow>
     \<exists>d'. (driver_step D)\<^sup>*\<^sup>* d d' \<and> dc_ends D d' \<and> dr_lost d' = []"
proof (induction "driver_work d" arbitrary: d rule: less_induct)
  case less
  show ?case
  proof (cases "joined d \<and> dr_out d = []")
    case True
    with less.prems idle_ends show ?thesis by blast
  next
    case False
    from next_step[OF less.prems False] obtain d1 where
      d1: "driver_step D d d1" "dr_lost d1 = []" "driver_work d1 < driver_work d" by blast
    from less.hyps[OF d1(3) driver_ok_step[OF d1(1) less.prems(1)] extra_step[OF less.prems(1,2) d1(1)] d1(2)] d1(1)
    show ?thesis by (meson converse_rtranclp_into_rtranclp)
  qed
qed

lemma lost_stays: "(driver_step D)\<^sup>*\<^sup>* d d' \<Longrightarrow> dr_lost d \<noteq> [] \<Longrightarrow> dr_lost d' \<noteq> []"
  by (induction rule: rtranclp_induct) (use lost_grows in fastforce)+

end

text \<open>A driver that a dropped callback keeps from ending.\<close>

locale fragile_driver = load_driver +
  assumes lost_blocks: "driver_ok n d \<Longrightarrow> extra n d \<Longrightarrow> dr_lost d \<noteq> [] \<Longrightarrow> \<not> dc_ends D d"
begin

lemma lost_hangs:
  assumes "(driver_step D)\<^sup>*\<^sup>* d d'" "driver_ok n d" "extra n d" "dr_lost d \<noteq> []"
  shows "\<not> dc_ends D d'"
  using steps_ok[OF assms(1-3)] lost_stays[OF assms(1,4)] lost_blocks by blast

end

subsection \<open>The three modes keep it\<close>

text \<open>A blocked thread of the future mode waits for a call that is out, lost or answered; every call that is
  out or lost keeps its thread waiting.\<close>

definition future_extra :: "nat \<Rightarrow> driver \<Rightarrow> bool" where
  "future_extra n d \<longleftrightarrow>
     (\<forall>i \<in> set (dr_out d) \<union> set (dr_lost d). Some i \<in> set (dr_wait d)) \<and>
     (\<forall>w \<in> set (dr_wait d). \<forall>i. w = Some i \<longrightarrow> i \<in> set (dr_out d) \<union> set (dr_lost d) \<union> set (dr_ready d)) \<and>
     set (dr_lost d) \<inter> set (dr_ready d) = {}"

definition callback_extra :: "nat \<Rightarrow> driver \<Rightarrow> bool" where
  "callback_extra n d \<longleftrightarrow> list_all (\<lambda>w. w = None) (dr_wait d) \<and>
     {..<length (dr_calls d)} \<subseteq> set (dr_out d) \<union> set (dr_ready d)"

definition bench_extra :: "nat \<Rightarrow> driver \<Rightarrow> bool" where
  "bench_extra n d \<longleftrightarrow> list_all (\<lambda>w. w = None) (dr_wait d) \<and> dr_pending d = int n - int (counted (dr_metrics d))"

lemma future_call_shape:
  "dc_call (future_code opts) t d = (enter_channel \<lparr>lc_name = op_name opts, lc_pwd = ''123456'',
     lc_timeout = (if op_timeout_ms opts > 0 then Some (op_timeout_ms opts) else None)\<rparr> (take_turn t d))
     \<lparr>dr_wait := (dr_wait d)[t := Some (length (dr_calls d))]\<rparr>"
  by (simp add: future_code_def RunFutureMode_call_def Let_def enter_channel_def take_turn_def)

lemmas driver_codes = future_code_def callback_code_def bench_code_def RunFutureMode_callback_def
  RunCallbackMode_call_def RunCallbackMode_callback_def bench_async_call_def OnAsyncDone_def
  RunFutureMode_drop_def RunCallbackMode_drop_def bench_drop_def RunFutureMode_ends_def RunCallbackMode_ends_def
  bench_ends_def Let_def enter_channel_def take_turn_def

lemma kept_entry: "x \<in> set xs \<Longrightarrow> xs ! t \<noteq> x \<Longrightarrow> x \<in> set (xs[t := y])"
  by (metis in_set_conv_nth length_list_update nth_list_update_neq)

lemma future_extra_step:
  assumes "driver_step (future_code opts) d d'" "driver_ok n d" "future_extra n d"
  shows "future_extra n d'"
  using assms
proof (induction rule: driver_step.induct)
  case (start t d)
  have keep: "Some i \<in> set ((dr_wait d)[t := Some j])" if "Some i \<in> set (dr_wait d)" for i j
    using that start(3) by (intro kept_entry) simp_all
  have new: "t < length (dr_wait d)" using start(1,4) by (simp add: driver_ok_def)
  have origin: "w = Some j \<or> w \<in> set (dr_wait d)" if "w \<in> set ((dr_wait d)[t := Some j])" for w j
    using that set_update_subset_insert[of "dr_wait d" t "Some j"] by auto
  show ?case
    using start(5) keep set_update_memI[OF new] origin start(4)
    by (auto simp: future_extra_def future_call_shape enter_channel_def take_turn_def driver_ok_def dest!: origin)
next
  case (callback i d r)
  then show ?case by (auto simp: future_extra_def driver_codes driver_ok_def)
next
  case (lost i d)
  then show ?case by (auto simp: future_extra_def driver_codes driver_ok_def)
next
  case (wake t d i)
  have keep: "Some j \<in> set ((dr_wait d)[t := None])" if "j \<in> set (dr_out d) \<union> set (dr_lost d)" for j
  proof -
    have "Some j \<in> set (dr_wait d)" "j \<notin> set (dr_ready d)"
      using that wake(4,5) by (auto simp: driver_ok_def future_extra_def disjoint_iff)
    then show ?thesis using wake(2,3) by (intro kept_entry) auto
  qed
  have origin: "w = None \<or> w \<in> set (dr_wait d)" if "w \<in> set ((dr_wait d)[t := None])" for w
    using that set_update_subset_insert[of "dr_wait d" t None] by auto
  show ?case
    using wake keep by (auto simp: future_extra_def driver_ok_def disjoint_iff dest!: origin)
qed

lemma callback_extra_step:
  assumes "driver_step (callback_code opts) d d'" "driver_ok n d" "callback_extra n d"
  shows "callback_extra n d'"
  using assms
proof (induction rule: driver_step.induct)
  case (wake t d i)
  then show ?case by (simp add: callback_extra_def list_all_length)
qed (auto simp: callback_extra_def driver_codes lessThan_Suc)

lemma bench_extra_step:
  assumes "driver_step (bench_code cfg) d d'" "driver_ok n d" "bench_extra n d"
  shows "bench_extra n d'"
  using assms
proof (induction rule: driver_step.induct)
  case (wake t d i)
  then show ?case by (simp add: bench_extra_def list_all_length)
qed (auto simp: bench_extra_def driver_codes)

lemma no_waiters: "list_all (\<lambda>w. w = None) ws \<Longrightarrow> Some i \<notin> set ws"
  by (auto simp: list_all_iff)

interpretation future_driver: fragile_driver "future_code opts" future_extra
proof unfold_locales
  fix n d d' i t r
  show "\<exists>c ws. dc_call (future_code opts) t d = (enter_channel c (take_turn t d))\<lparr>dr_wait := ws\<rparr> \<and>
      (ws = dr_wait d \<or> ws = (dr_wait d)[t := Some (length (dr_calls d))])"
    unfolding future_call_shape by blast
  show "\<exists>m rd q. dc_callback (future_code opts) i r d = d\<lparr>dr_metrics := m, dr_ready := rd, dr_pending := q\<rparr> \<and>
      counted m = Suc (counted (dr_metrics d)) \<and>
      length (mt_latencies m) = Suc (length (mt_latencies (dr_metrics d))) \<and> set rd \<subseteq> insert i (set (dr_ready d))"
    by (intro exI[of _ "dr_pending d"] exI[of _ "i # dr_ready d"] exI) (auto simp: driver_codes)
  show "\<exists>rd. dc_drop (future_code opts) i d = d\<lparr>dr_ready := rd\<rparr> \<and> set rd \<subseteq> insert i (set (dr_ready d))"
    by (intro exI[of _ "dr_ready d"]) (auto simp: driver_codes)
  assume ok: "driver_ok n d" and ex: "future_extra n d"
  show "driver_step (future_code opts) d d' \<Longrightarrow> future_extra n d'" using future_extra_step ok ex by blast
  show "joined d \<and> dr_out d = []" if "dc_ends (future_code opts) d"
    using that ex no_waiters[of "dr_wait d"] by (cases "dr_out d") (auto simp: driver_codes joined_def future_extra_def)
  show "joined d \<Longrightarrow> dc_ends (future_code opts) d" by (simp add: driver_codes)
  show "Some i \<in> set (dr_wait d) \<Longrightarrow> i \<notin> set (dr_out d) \<Longrightarrow> dr_lost d = [] \<Longrightarrow> i \<in> set (dr_ready d)"
    using ex by (auto simp: future_extra_def)
  show "dr_lost d \<noteq> [] \<Longrightarrow> \<not> dc_ends (future_code opts) d"
    using ex no_waiters[of "dr_wait d"] by (cases "dr_lost d") (auto simp: driver_codes joined_def future_extra_def)
qed

interpretation callback_driver: load_driver "callback_code opts" callback_extra
proof unfold_locales
  fix n d d' i t r
  show "\<exists>c ws. dc_call (callback_code opts) t d = (enter_channel c (take_turn t d))\<lparr>dr_wait := ws\<rparr> \<and>
      (ws = dr_wait d \<or> ws = (dr_wait d)[t := Some (length (dr_calls d))])"
    by (intro exI[of _ "dr_wait d"] exI) (auto simp: driver_codes)
  show "\<exists>m rd q. dc_callback (callback_code opts) i r d = d\<lparr>dr_metrics := m, dr_ready := rd, dr_pending := q\<rparr> \<and>
      counted m = Suc (counted (dr_metrics d)) \<and>
      length (mt_latencies m) = Suc (length (mt_latencies (dr_metrics d))) \<and> set rd \<subseteq> insert i (set (dr_ready d))"
    by (intro exI[of _ "dr_pending d"] exI[of _ "i # dr_ready d"] exI) (auto simp: driver_codes)
  show "\<exists>rd. dc_drop (callback_code opts) i d = d\<lparr>dr_ready := rd\<rparr> \<and> set rd \<subseteq> insert i (set (dr_ready d))"
    by (intro exI[of _ "i # dr_ready d"]) (auto simp: driver_codes)
  assume ok: "driver_ok n d" and ex: "callback_extra n d"
  show "driver_step (callback_code opts) d d' \<Longrightarrow> callback_extra n d'" using callback_extra_step ok ex by blast
  show "joined d \<and> dr_out d = []" if "dc_ends (callback_code opts) d"
    using that ok by (cases "dr_out d") (auto simp: driver_codes driver_ok_def list_all_iff)
  show "joined d \<Longrightarrow> dr_out d = [] \<Longrightarrow> dr_lost d = [] \<Longrightarrow> dc_ends (callback_code opts) d"
    using ex by (auto simp: driver_codes callback_extra_def list_all_iff)
  show "Some i \<in> set (dr_wait d) \<Longrightarrow> i \<in> set (dr_ready d)"
    using ex no_waiters[of "dr_wait d" i] by (simp add: callback_extra_def)
qed

interpretation bench_driver: fragile_driver "bench_code cfg" bench_extra
proof unfold_locales
  fix n d d' i t r
  show "\<exists>c ws. dc_call (bench_code cfg) t d = (enter_channel c (take_turn t d))\<lparr>dr_wait := ws\<rparr> \<and>
      (ws = dr_wait d \<or> ws = (dr_wait d)[t := Some (length (dr_calls d))])"
    by (intro exI[of _ "dr_wait d"] exI) (auto simp: driver_codes)
  show "\<exists>m rd q. dc_callback (bench_code cfg) i r d = d\<lparr>dr_metrics := m, dr_ready := rd, dr_pending := q\<rparr> \<and>
      counted m = Suc (counted (dr_metrics d)) \<and>
      length (mt_latencies m) = Suc (length (mt_latencies (dr_metrics d))) \<and> set rd \<subseteq> insert i (set (dr_ready d))"
    by (intro exI[of _ "dr_pending d - 1"] exI[of _ "dr_ready d"] exI) (auto simp: driver_codes)
  show "\<exists>rd. dc_drop (bench_code cfg) i d = d\<lparr>dr_ready := rd\<rparr> \<and> set rd \<subseteq> insert i (set (dr_ready d))"
    by (intro exI[of _ "dr_ready d"]) (auto simp: driver_codes)
  assume ok: "driver_ok n d" and ex: "bench_extra n d"
  show "driver_step (bench_code cfg) d d' \<Longrightarrow> bench_extra n d'" using bench_extra_step ok ex by blast
  show "joined d \<and> dr_out d = []" if "dc_ends (bench_code cfg) d"
  proof -
    from that ex ok have "joined d" "n \<le> counted (dr_metrics d)" "length (dr_calls d) \<le> n"
      "length (dr_out d) + length (dr_lost d) + counted (dr_metrics d) = length (dr_calls d)"
      by (auto simp: driver_codes bench_extra_def driver_ok_def)
    moreover from this have "length (dr_out d) = 0" by linarith
    ultimately show ?thesis by simp
  qed
  show "joined d \<Longrightarrow> dr_out d = [] \<Longrightarrow> dr_lost d = [] \<Longrightarrow> dc_ends (bench_code cfg) d"
    using ok ex by (auto simp: driver_codes bench_extra_def driver_ok_def joined_def sum_list_eq_0_iff list_all_iff)
  show "Some i \<in> set (dr_wait d) \<Longrightarrow> i \<in> set (dr_ready d)"
    using ex no_waiters[of "dr_wait d" i] by (simp add: bench_extra_def)
  show "dr_lost d \<noteq> [] \<Longrightarrow> \<not> dc_ends (bench_code cfg) d"
    using ok ex by (cases "dr_lost d") (auto simp: driver_codes bench_extra_def driver_ok_def)
qed

end
