(* ===== verification/Driver_Outcomes.thy ===== *)
theory Driver_Outcomes
  imports Driver_Runs Example_Services
begin

section \<open>How the drivers judge a call\<close>

text \<open>
  The outcomes of single calls and what the drivers make of them: \<open>example/caller/Kclient.cc\<close> with its table of
  failure reasons, the msgpack modes of \<open>AsyncClient.cc\<close> and \<open>BenchClient.cc\<close>, and the synchronous mode of
  \<open>BenchClient.cc\<close>. The threads of these loops share counters that they only add to, so a run is the list of
  the outcomes in the order in which they are counted.
\<close>

subsection \<open>\<open>Kclient\<close>\<close>

record kclient_state =
  kc_success :: nat
  kc_fail :: nat
  kc_stats :: "(string \<times> nat) list"

definition new_kclient :: kclient_state where
  "new_kclient = \<lparr>kc_success = 0, kc_fail = 0, kc_stats = []\<rparr>"

text \<open>\<open>++error_stats[k]\<close>; the entries are kept in the order of their first failure.\<close>

fun bump :: "string \<Rightarrow> (string \<times> nat) list \<Rightarrow> (string \<times> nat) list" where
  "bump k [] = [(k, 1)]"
| "bump k ((k', n) # xs) = (if k = k' then (k', n + 1) # xs else (k', n) # bump k xs)"

text \<open>After a call: the controller, and the result in the response.\<close>

record rpc_reply =
  rr_failed :: bool
  rr_error_text :: string
  rr_errcode :: int
  rr_errmsg :: string

definition kclient_protobuf_call :: "rpc_reply \<Rightarrow> kclient_state \<Rightarrow> kclient_state" where
  "kclient_protobuf_call r s =
     (if rr_failed r
      then s\<lparr>kc_stats := bump (rr_error_text r) (kc_stats s), kc_fail := kc_fail s + 1\<rparr>
      else if 0 = rr_errcode r then s\<lparr>kc_success := kc_success s + 1\<rparr>
      else s\<lparr>kc_stats := bump (rr_errmsg r) (kc_stats s), kc_fail := kc_fail s + 1\<rparr>)"

definition send_request_protobuf :: "rpc_reply list \<Rightarrow> kclient_state \<Rightarrow> kclient_state" where
  "send_request_protobuf rs s = fold kclient_protobuf_call rs s"

text \<open>\<open>Call<MsgpackUserResult>\<close>: \<open>Inl\<close> is the text of the exception it throws.\<close>

fun value_user_result :: "cpp_value option \<Rightarrow> MsgpackUserResult" where
  "value_user_result (Some (VTuple [VInt e, VString m, VBool s])) = \<lparr>ur_errcode = e, ur_errmsg = m, ur_success = s\<rparr>"
| "value_user_result _ = new_MsgpackUserResult"

definition Call_user_result :: "string + mp_object \<Rightarrow> string + MsgpackUserResult" where
  "Call_user_result oh = (case Call_result (Some user_result_type) oh of Inl e \<Rightarrow> Inl e | Inr v \<Rightarrow> Inr (value_user_result v))"

definition kclient_msgpack_call :: "string + mp_object \<Rightarrow> kclient_state \<Rightarrow> kclient_state" where
  "kclient_msgpack_call oh s =
     (case Call_user_result oh of
        Inl what \<Rightarrow> s\<lparr>kc_stats := bump what (kc_stats s), kc_fail := kc_fail s + 1\<rparr>
      | Inr result \<Rightarrow>
          (if ur_errcode result = 0 then s\<lparr>kc_success := kc_success s + 1\<rparr>
           else s\<lparr>kc_stats := bump (ur_errmsg result) (kc_stats s), kc_fail := kc_fail s + 1\<rparr>))"

definition send_request_msgpack :: "(string + mp_object) list \<Rightarrow> kclient_state \<Rightarrow> kclient_state" where
  "send_request_msgpack ohs s = fold kclient_msgpack_call ohs s"

definition kclient_thread_count :: nat where "kclient_thread_count = 20"
definition kclient_requests_per_thread :: nat where "kclient_requests_per_thread = 2000"

text \<open>\<open>main\<close>: every thread makes its requests; the answers come in the order in which they are counted.\<close>

definition Kclient_main :: "config_map \<Rightarrow> rpc_reply list \<Rightarrow> (string + mp_object) list \<Rightarrow> kclient_state" where
  "Kclient_main cfg replies ohs =
     (let n = kclient_thread_count * kclient_requests_per_thread
      in if KrpcUseMsgpack cfg then send_request_msgpack (take n ohs) new_kclient
         else send_request_protobuf (take n replies) new_kclient)"

text \<open>A failed call has an entry of the table, whatever its reason.\<close>

definition kclient_ok :: "kclient_state \<Rightarrow> bool" where
  "kclient_ok s \<longleftrightarrow> distinct (map fst (kc_stats s)) \<and> sum_list (map snd (kc_stats s)) = kc_fail s \<and>
     list_all (\<lambda>(k, n). 0 < n) (kc_stats s)"

lemma bump_facts:
  "sum_list (map snd (bump k xs)) = Suc (sum_list (map snd xs))"
  "fst ` set (bump k xs) = insert k (fst ` set xs)"
  "distinct (map fst xs) \<Longrightarrow> distinct (map fst (bump k xs))"
  "list_all (\<lambda>(k, n). 0 < n) xs \<Longrightarrow> list_all (\<lambda>(k, n). 0 < n) (bump k xs)"
proof -
  have keys: "fst ` set (bump k xs) = insert k (fst ` set xs)" for k xs
    by (induction k xs rule: bump.induct) auto
  then show "fst ` set (bump k xs) = insert k (fst ` set xs)" .
  show "distinct (map fst xs) \<Longrightarrow> distinct (map fst (bump k xs))"
    by (induction k xs rule: bump.induct) (simp_all add: keys)
qed (induction k xs rule: bump.induct; auto)+

lemma kclient_call_ok:
  "kclient_ok s \<Longrightarrow> kclient_ok (kclient_protobuf_call r s)"
  "kc_success (kclient_protobuf_call r s) + kc_fail (kclient_protobuf_call r s) = Suc (kc_success s + kc_fail s)"
  "kclient_ok s \<Longrightarrow> kclient_ok (kclient_msgpack_call oh s)"
  "kc_success (kclient_msgpack_call oh s) + kc_fail (kclient_msgpack_call oh s) = Suc (kc_success s + kc_fail s)"
  by (simp_all add: kclient_protobuf_call_def kclient_msgpack_call_def kclient_ok_def bump_facts split: sum.splits)

lemma kclient_run:
  "kclient_ok s \<Longrightarrow> kclient_ok (send_request_protobuf rs s) \<and>
     kc_success (send_request_protobuf rs s) + kc_fail (send_request_protobuf rs s) = kc_success s + kc_fail s + length rs"
  "kclient_ok s \<Longrightarrow> kclient_ok (send_request_msgpack ohs s) \<and>
     kc_success (send_request_msgpack ohs s) + kc_fail (send_request_msgpack ohs s) = kc_success s + kc_fail s + length ohs"
  by (induction rs arbitrary: s, simp_all add: send_request_protobuf_def kclient_call_ok)
    (induction ohs arbitrary: s, simp_all add: send_request_msgpack_def kclient_call_ok)

text \<open>The report of a run in which every call has been answered accounts for all 40000 of them, and the
  failure reasons account for the failures.\<close>

lemma Kclient_main_report:
  assumes "length replies = 40000" "length ohs = 40000"
  shows "kc_success (Kclient_main cfg replies ohs) + kc_fail (Kclient_main cfg replies ohs) = 40000"
    "sum_list (map snd (kc_stats (Kclient_main cfg replies ohs))) = kc_fail (Kclient_main cfg replies ohs)"
proof -
  have ok: "kclient_ok new_kclient" by (simp add: kclient_ok_def new_kclient_def)
  have n: "kclient_thread_count * kclient_requests_per_thread = 40000"
    by (simp add: kclient_thread_count_def kclient_requests_per_thread_def)
  show "kc_success (Kclient_main cfg replies ohs) + kc_fail (Kclient_main cfg replies ohs) = 40000"
    using kclient_run(1)[OF ok, of "take 40000 replies"] kclient_run(2)[OF ok, of "take 40000 ohs"] assms
    by (simp add: Kclient_main_def n Let_def) (simp add: new_kclient_def)
  show "sum_list (map snd (kc_stats (Kclient_main cfg replies ohs))) = kc_fail (Kclient_main cfg replies ohs)"
    using kclient_run(1)[OF ok, of "take 40000 replies"] kclient_run(2)[OF ok, of "take 40000 ohs"]
    by (simp add: Kclient_main_def n Let_def kclient_ok_def)
qed

subsection \<open>The msgpack modes of \<open>AsyncClient\<close>\<close>

definition IsSuccess_msgpack :: "MsgpackUserResult \<Rightarrow> bool" where
  "IsSuccess_msgpack resp \<longleftrightarrow> ur_errcode resp = 0 \<and> ur_success resp"

definition RunFutureModeMsgpack_call :: "rat \<Rightarrow> string + mp_object \<Rightarrow> AsyncMetrics \<Rightarrow> AsyncMetrics" where
  "RunFutureModeMsgpack_call latency_ms oh m =
     (case Call_user_result oh of
        Inr resp \<Rightarrow> count_call (IsSuccess_msgpack resp) (RecordLatency latency_ms m)
      | Inl _ \<Rightarrow> count_call False (RecordLatency latency_ms m))"

text \<open>\<open>answers t\<close> are the answers to the calls of thread \<open>t\<close>; the threads only add to the metrics, so they are
  counted one thread after the other.\<close>

definition RunFutureModeMsgpack :: "Options \<Rightarrow> (nat \<Rightarrow> (rat \<times> (string + mp_object)) list) \<Rightarrow> AsyncMetrics \<Rightarrow> AsyncMetrics" where
  "RunFutureModeMsgpack opts answers m =
     fold (\<lambda>t. fold (\<lambda>(latency_ms, oh). RunFutureModeMsgpack_call latency_ms oh)
         (take (thread_count (nat (op_requests opts)) (nat (op_concurrency opts)) t) (answers t)))
       [0..<nat (op_concurrency opts)] m"

text \<open>The conversion in the callback is not guarded: \<open>CompletePending\<close> swallows its exception, and the promise
  breaks with the callback.\<close>

definition RunCallbackModeMsgpack_callback :: "nat \<Rightarrow> rat \<Rightarrow> string \<Rightarrow> mp_object \<Rightarrow> driver \<Rightarrow> driver" where
  "RunCallbackModeMsgpack_callback i latency_ms err result d =
     (let m = RecordLatency latency_ms (dr_metrics d);
          m = (if err \<noteq> [] then count_call False m
               else case Call_user_result (Inr result) of
                   Inl _ \<Rightarrow> m
                 | Inr resp \<Rightarrow> count_call (IsSuccess_msgpack resp) m)
      in d\<lparr>dr_metrics := m, dr_ready := i # dr_ready d\<rparr>)"

lemma RunFutureModeMsgpack_calls:
  "counted (fold (\<lambda>(l, oh). RunFutureModeMsgpack_call l oh) cs m) = counted m + length cs"
  by (induction cs arbitrary: m) (auto simp: RunFutureModeMsgpack_call_def split: sum.splits)

text \<open>When every call has been answered the report accounts for all of them.\<close>

lemma RunFutureModeMsgpack_counted:
  assumes "\<And>t. length (answers t) = thread_count (nat (op_requests opts)) (nat (op_concurrency opts)) t"
    "0 < op_concurrency opts"
  shows "counted (RunFutureModeMsgpack opts answers m) = counted m + nat (op_requests opts)"
proof -
  let ?c = "nat (op_concurrency opts)" and ?n = "nat (op_requests opts)"
  have "counted (fold (\<lambda>t. fold (\<lambda>(l, oh). RunFutureModeMsgpack_call l oh) (take (thread_count ?n ?c t) (answers t))) ts m)
      = counted m + sum_list (map (thread_count ?n ?c) ts)" for ts
    by (induction ts arbitrary: m) (simp_all add: RunFutureModeMsgpack_calls assms(1))
  then show ?thesis
    using thread_count_sum[of ?c ?n] assms(2)
    by (simp add: RunFutureModeMsgpack_def interv_sum_list_conv_sum_set_nat atLeast0LessThan)
qed

lemma msgpack_callback_uncounted:
  assumes "Call_user_result (Inr result) = Inl e"
  shows "counted (dr_metrics (RunCallbackModeMsgpack_callback i l [] result d)) = counted (dr_metrics d)"
    "main_exit_code (dr_metrics (RunCallbackModeMsgpack_callback i l [] result d)) = main_exit_code (dr_metrics d)"
    "i \<in> set (dr_ready (RunCallbackModeMsgpack_callback i l [] result d))"
  using assms by (simp_all add: RunCallbackModeMsgpack_callback_def Let_def main_exit_code_def RecordLatency_def counted_def)

subsection \<open>The other modes of \<open>BenchClient\<close>\<close>

definition bench_sync_call :: "bool \<Rightarrow> rat \<Rightarrow> AsyncMetrics \<times> int \<Rightarrow> AsyncMetrics \<times> int" where
  "bench_sync_call failed cost st =
     (if failed then (bench_Record False cost (fst st), snd st - 1) else (bench_Record True cost (fst st), snd st - 1))"

definition bench_msgpack_sync_call :: "string + mp_object \<Rightarrow> rat \<Rightarrow> AsyncMetrics \<times> int \<Rightarrow> AsyncMetrics \<times> int" where
  "bench_msgpack_sync_call oh cost st =
     (let ok = (case Call_user_result oh of Inl _ \<Rightarrow> False | Inr resp \<Rightarrow> IsSuccess_msgpack resp)
      in (bench_Record ok cost (fst st), snd st - 1))"

text \<open>Under msgpack a thread starts its calls first and then waits for their futures; in a mode that is
  neither \<open>sync\<close> nor \<open>async\<close> it never waits, and nothing is counted.\<close>

definition bench_msgpack_async_worker ::
    "BenchConfig \<Rightarrow> ((string + mp_object) \<times> rat) list \<Rightarrow> AsyncMetrics \<times> int \<Rightarrow> AsyncMetrics \<times> int" where
  "bench_msgpack_async_worker cfg async_calls st =
     (if bc_mode cfg = ''async''
      then fold (\<lambda>(oh, cost) st.
             let ok = (case Call_user_result oh of Inl _ \<Rightarrow> False | Inr resp \<Rightarrow> IsSuccess_msgpack resp)
             in (bench_Record ok cost (fst st), snd st - 1)) async_calls st
      else st)"

text \<open>The sequence of a thread under \<open>BENCH_MODE=sync\<close>, for both codecs, and the whole of \<open>RunBenchMsgpack\<close>.\<close>

definition bench_sync_worker :: "(bool \<times> rat) list \<Rightarrow> AsyncMetrics \<times> int \<Rightarrow> AsyncMetrics \<times> int" where
  "bench_sync_worker cs st = fold (\<lambda>(failed, cost). bench_sync_call failed cost) cs st"

definition RunBenchMsgpack_worker ::
    "BenchConfig \<Rightarrow> ((string + mp_object) \<times> rat) list \<Rightarrow> AsyncMetrics \<times> int \<Rightarrow> AsyncMetrics \<times> int" where
  "RunBenchMsgpack_worker cfg cs st =
     (if bc_mode cfg = ''sync'' then fold (\<lambda>(oh, cost). bench_msgpack_sync_call oh cost) cs st
      else bench_msgpack_async_worker cfg cs st)"

definition RunBenchMsgpack :: "BenchConfig \<Rightarrow> (nat \<Rightarrow> ((string + mp_object) \<times> rat) list) \<Rightarrow> AsyncMetrics \<times> int" where
  "RunBenchMsgpack cfg answers =
     fold (\<lambda>tid. RunBenchMsgpack_worker cfg
         (take (length (bench_indices (nat (bc_total_requests cfg)) (nat (bc_concurrency cfg)) tid)) (answers tid)))
       [0..<nat (bc_concurrency cfg)] (new_Metrics, bc_total_requests cfg)"

definition bench_pending_done :: "AsyncMetrics \<times> int \<Rightarrow> bool" where "bench_pending_done st \<longleftrightarrow> \<not> snd st > 0"

lemma bench_async_worker_counts:
  "bc_mode cfg = ''async'' \<Longrightarrow>
     counted (fst (bench_msgpack_async_worker cfg cs st)) = counted (fst st) + length cs \<and>
     snd (bench_msgpack_async_worker cfg cs st) = snd st - int (length cs)"
  by (induction cs arbitrary: st) (auto simp: bench_msgpack_async_worker_def Let_def split: prod.splits)

lemma RunBenchMsgpack_worker_counts:
  assumes "bc_mode cfg = ''sync'' \<or> bc_mode cfg = ''async''"
  shows "counted (fst (RunBenchMsgpack_worker cfg cs st)) = counted (fst st) + length cs \<and>
    snd (RunBenchMsgpack_worker cfg cs st) = snd st - int (length cs)"
proof (cases "bc_mode cfg = ''sync''")
  case True
  have "counted (fst (fold (\<lambda>(oh, cost). bench_msgpack_sync_call oh cost) cs st)) = counted (fst st) + length cs \<and>
      snd (fold (\<lambda>(oh, cost). bench_msgpack_sync_call oh cost) cs st) = snd st - int (length cs)"
    by (induction cs arbitrary: st) (auto simp: bench_msgpack_sync_call_def Let_def split: prod.splits)
  with True show ?thesis by (simp add: RunBenchMsgpack_worker_def)
next
  case False
  with assms bench_async_worker_counts[of cfg cs st] show ?thesis by (simp add: RunBenchMsgpack_worker_def)
qed

text \<open>In both of its modes \<open>RunBenchMsgpack\<close> ends when every call has been answered, with all calls counted.\<close>

lemma RunBenchMsgpack_counts:
  assumes "bc_mode cfg = ''sync'' \<or> bc_mode cfg = ''async''" "0 < bc_concurrency cfg" "0 \<le> bc_total_requests cfg"
    "\<And>tid. tid < nat (bc_concurrency cfg) \<Longrightarrow>
      length (answers tid) = length (bench_indices (nat (bc_total_requests cfg)) (nat (bc_concurrency cfg)) tid)"
  shows "bench_pending_done (RunBenchMsgpack cfg answers)"
    "counted (fst (RunBenchMsgpack cfg answers)) = nat (bc_total_requests cfg)"
proof -
  let ?n = "nat (bc_total_requests cfg)" and ?c = "nat (bc_concurrency cfg)"
  let ?run = "\<lambda>ts st. fold (\<lambda>tid. RunBenchMsgpack_worker cfg (take (length (bench_indices ?n ?c tid)) (answers tid))) ts st"
  have run: "counted (fst (?run ts st)) = counted (fst st) + sum_list (map (thread_count ?n ?c) ts) \<and>
      snd (?run ts st) = snd st - int (sum_list (map (thread_count ?n ?c) ts))" if "set ts \<subseteq> {..<?c}" for ts st
    using that
  proof (induction ts arbitrary: st)
    case (Cons t ts)
    have "length (take (length (bench_indices ?n ?c t)) (answers t)) = thread_count ?n ?c t"
      using Cons.prems assms(4)[of t] by (simp add: length_bench_indices)
    with Cons RunBenchMsgpack_worker_counts[OF assms(1), of "take (length (bench_indices ?n ?c t)) (answers t)" st]
    show ?case by simp
  qed simp
  from run[of "[0..<?c]" "(new_Metrics, bc_total_requests cfg)"] thread_count_sum[of ?c ?n] assms(2,3)
  show "bench_pending_done (RunBenchMsgpack cfg answers)"
    "counted (fst (RunBenchMsgpack cfg answers)) = nat (bc_total_requests cfg)"
    by (simp_all add: RunBenchMsgpack_def bench_pending_done_def interv_sum_list_conv_sum_set_nat atLeast0LessThan subset_eq)
qed

lemma bench_unknown_mode_spins:
  "bc_mode cfg \<noteq> ''async'' \<Longrightarrow> 0 < snd st \<Longrightarrow> \<not> bench_pending_done (bench_msgpack_async_worker cfg cs st)"
  by (simp add: bench_msgpack_async_worker_def bench_pending_done_def)

end
