(* ===== verification/Driver_Properties.thy ===== *)
theory Driver_Properties
  imports Driver_Outcomes
begin

section \<open>Properties of the load drivers\<close>

text \<open>What the reports of the drivers account for, and when a driver returns.\<close>

lemma sum_list_positive: "sum_list (filter (\<lambda>n. 0 < n) ns) = sum_list (ns :: nat list)"
  by (induction ns) auto

lemma sum_thread_counts: "0 < c \<Longrightarrow> sum_list (map (thread_count n c) [0..<c]) = n"
  using thread_count_sum[of c n] by (simp add: interv_sum_list_conv_sum_set_nat atLeast0LessThan)

lemma sum_options: "sum_list (thread_counts (LoadOptions env)) = nat (op_requests (LoadOptions env))"
  using LoadOptions_positive(1)[of env] by (simp add: thread_counts_def sum_list_positive sum_thread_counts)

lemma sum_bench: "0 < bc_concurrency cfg \<Longrightarrow> sum_list (bench_counts cfg) = nat (bc_total_requests cfg)"
  using sum_thread_counts[of "nat (bc_concurrency cfg)" "nat (bc_total_requests cfg)"]
  by (simp add: bench_counts_def length_bench_indices cong: list.map_cong_simp)

lemma all_None_replicate: "list_all (\<lambda>w. w = None) (replicate n None)" by (induction n) simp_all

lemma starts_ok:
  "driver_ok (nat (op_requests (LoadOptions env))) (RunFutureMode_threads (LoadOptions env))"
  "future_extra (nat (op_requests (LoadOptions env))) (RunFutureMode_threads (LoadOptions env))"
  "driver_ok (nat (op_requests (LoadOptions env))) (RunCallbackMode_threads (LoadOptions env))"
  "callback_extra (nat (op_requests (LoadOptions env))) (RunCallbackMode_threads (LoadOptions env))"
  "0 < bc_concurrency cfg \<Longrightarrow> driver_ok (nat (bc_total_requests cfg)) (bench_threads cfg)"
  "0 \<le> bc_total_requests cfg \<Longrightarrow> bench_extra (nat (bc_total_requests cfg)) (bench_threads cfg)"
  by (simp_all add: RunFutureMode_threads_def RunCallbackMode_threads_def bench_threads_def driver_ok_new sum_options
      sum_bench) (simp_all add: future_extra_def callback_extra_def bench_extra_def new_driver_def all_None_replicate)

lemmas future_run_ok = future_driver.steps_ok[OF _ starts_ok(1,2)]
lemmas callback_run_ok = callback_driver.steps_ok[OF _ starts_ok(3,4)]
lemmas bench_run_ok = bench_driver.steps_ok[OF _ starts_ok(5,6)]

text \<open>The asynchronous runs of the two programs, by the environment or the configuration that asks for them.\<close>

datatype driver_run = Async_future environment | Async_callback environment | Bench_async BenchConfig

definition AsyncClient_main :: "environment \<Rightarrow> driver_run" where
  "AsyncClient_main env = (if op_mode (LoadOptions env) = ''callback'' then Async_callback env else Async_future env)"

fun run_code :: "driver_run \<Rightarrow> driver_code" where
  "run_code (Async_future env) = future_code (LoadOptions env)"
| "run_code (Async_callback env) = callback_code (LoadOptions env)"
| "run_code (Bench_async cfg) = bench_code cfg"

fun run_start :: "driver_run \<Rightarrow> driver" where
  "run_start (Async_future env) = RunFutureMode_threads (LoadOptions env)"
| "run_start (Async_callback env) = RunCallbackMode_threads (LoadOptions env)"
| "run_start (Bench_async cfg) = bench_threads cfg"

fun run_requests :: "driver_run \<Rightarrow> int" where
  "run_requests (Bench_async cfg) = bc_total_requests cfg"
| "run_requests (Async_future env) = op_requests (LoadOptions env)"
| "run_requests (Async_callback env) = op_requests (LoadOptions env)"

fun run_report :: "driver_run \<Rightarrow> driver \<Rightarrow> int \<Rightarrow> summary" where
  "run_report (Bench_async cfg) d ms = bench_PrintSummary (dr_metrics d) ms"
| "run_report (Async_future env) d ms = PrintSummary (dr_metrics d)"
| "run_report (Async_callback env) d ms = PrintSummary (dr_metrics d)"

text \<open>\<open>AsyncClient\<close> corrects its options, \<open>BenchClient\<close> takes them as they are.\<close>

fun run_valid :: "driver_run \<Rightarrow> bool" where
  "run_valid (Bench_async cfg) \<longleftrightarrow> 0 < bc_concurrency cfg \<and> 0 \<le> bc_total_requests cfg"
| "run_valid _ \<longleftrightarrow> True"

fun promise_breaks :: "driver_run \<Rightarrow> bool" where
  "promise_breaks (Async_callback _) \<longleftrightarrow> True"
| "promise_breaks _ \<longleftrightarrow> False"

lemma report_total: "sm_total (run_report k d ms) = counted (dr_metrics d)"
  by (cases k) (simp_all add: PrintSummary_def bench_PrintSummary_def counted_def Let_def)

lemma run_requests_nat: "run_valid k \<Longrightarrow> 0 \<le> run_requests k"
  using LoadOptions_positive(2) by (cases k) (auto simp: order_trans[of 0 1])

fun run_extra :: "driver_run \<Rightarrow> nat \<Rightarrow> driver \<Rightarrow> bool" where
  "run_extra (Async_future env) = future_extra"
| "run_extra (Async_callback env) = callback_extra"
| "run_extra (Bench_async cfg) = bench_extra"

lemma run_ok:
  "run_valid k \<Longrightarrow> (driver_step (run_code k))\<^sup>*\<^sup>* (run_start k) d \<Longrightarrow>
     driver_ok (nat (run_requests k)) d \<and> run_extra k (nat (run_requests k)) d"
  using future_run_ok callback_run_ok bench_run_ok by (cases k) simp_all

lemma run_ends_counted:
  assumes "driver_ok n d" "run_extra k n d" "dc_ends (run_code k) d"
  shows "counted (dr_metrics d) + length (dr_lost d) = n \<and> length (mt_latencies (dr_metrics d)) = counted (dr_metrics d)"
  using assms future_driver.ends_counted[of n d] callback_driver.ends_counted[of n d] bench_driver.ends_counted[of n d]
  by (cases k) simp_all

lemma run_can_end:
  assumes "driver_ok n d" "run_extra k n d" "dr_lost d = []"
  shows "\<exists>d'. (driver_step (run_code k))\<^sup>*\<^sup>* d d' \<and> dc_ends (run_code k) d'"
proof (cases k)
  case (Async_future env)
  with future_driver.can_end[of n d "LoadOptions env"] assms show ?thesis by auto
next
  case (Async_callback env)
  with callback_driver.can_end[of n d "LoadOptions env"] assms show ?thesis by auto
next
  case (Bench_async cfg)
  with bench_driver.can_end[of n d cfg] assms show ?thesis by auto
qed

lemma run_lost_hangs:
  assumes "driver_ok n d" "run_extra k n d" "dr_lost d \<noteq> []" "\<not> promise_breaks k" "(driver_step (run_code k))\<^sup>*\<^sup>* d d'"
  shows "\<not> dc_ends (run_code k) d'"
proof (cases k)
  case (Async_future env)
  with future_driver.lost_hangs[of "LoadOptions env" d d' n] assms show ?thesis by simp
next
  case (Async_callback env)
  with assms(4) show ?thesis by simp
next
  case (Bench_async cfg)
  with bench_driver.lost_hangs[of cfg d d' n] assms show ?thesis by simp
qed



text \<open>One thread, one call: it is answered, or its callback is dropped.\<close>

definition one_call_env :: environment where
  "one_call_env key = (if key = ''ASYNC_CONCURRENCY'' \<or> key = ''ASYNC_REQUESTS'' then Some ''1'' else None)"

definition one_call_bench :: BenchConfig where
  "one_call_bench = \<lparr>bc_mode = ''async'', bc_conn_mode = ''keepalive'', bc_concurrency = 1, bc_total_requests = 1,
     bc_sleep_ms = 0, bc_payload_kb = 0\<rparr>"

definition good_reply :: call_outcome where
  "good_reply = \<lparr>oc_latency = 5, oc_failed = False, oc_errcode = 0\<rparr>"

definition one_call_done :: driver where
  "one_call_done = OnAsyncDone 0 good_reply ((bench_async_call one_call_bench 0 (bench_threads one_call_bench))\<lparr>dr_out := []\<rparr>)"

definition one_call_lost :: driver where
  "one_call_lost = (RunFutureMode_call (LoadOptions one_call_env) 0 (RunFutureMode_threads (LoadOptions one_call_env)))
     \<lparr>dr_out := [], dr_lost := [0]\<rparr>"

lemma one_call_options: "LoadOptions one_call_env = \<lparr>op_mode = ''future'', op_concurrency = 1, op_requests = 1,
    op_timeout_ms = 3000, op_sleep_ms = 0, op_name = ''sleep''\<rparr>"
  by code_simp

lemma one_call_counts: "bench_counts one_call_bench = [1]" "thread_counts (LoadOptions one_call_env) = [1]"
  by (simp_all add: bench_counts_def one_call_bench_def bench_indices_def length_bench_indices_from
      one_call_options thread_counts_def thread_count_def Let_def)

lemma one_call_done_reached: "(driver_step (bench_code one_call_bench))\<^sup>*\<^sup>* (bench_threads one_call_bench) one_call_done"
proof -
  let ?D = "bench_code one_call_bench"
  let ?d = "bench_async_call one_call_bench 0 (bench_threads one_call_bench)"
  have "driver_step ?D (bench_threads one_call_bench) (dc_call ?D 0 (bench_threads one_call_bench))"
    by (rule driver_step.start) (simp_all add: bench_threads_def new_driver_def one_call_counts)
  moreover have "driver_step ?D ?d (dc_callback ?D 0 good_reply (?d\<lparr>dr_out := remove1 0 (dr_out ?d)\<rparr>))"
    by (rule driver_step.callback) (simp add: driver_codes bench_threads_def new_driver_def)
  moreover have "dc_callback ?D 0 good_reply (?d\<lparr>dr_out := remove1 0 (dr_out ?d)\<rparr>) = one_call_done" "dc_call ?D = bench_async_call one_call_bench"
    by (simp_all add: one_call_done_def driver_codes bench_threads_def new_driver_def)
  ultimately show ?thesis by (simp add: r_into_rtranclp rtranclp.rtrancl_into_rtrancl)
qed


lemma one_call_lost_reached:
  "(driver_step (future_code (LoadOptions one_call_env)))\<^sup>*\<^sup>* (RunFutureMode_threads (LoadOptions one_call_env)) one_call_lost"
proof -
  let ?o = "LoadOptions one_call_env"
  let ?D = "future_code ?o"
  let ?d = "RunFutureMode_call ?o 0 (RunFutureMode_threads ?o)"
  have "driver_step ?D (RunFutureMode_threads ?o) (dc_call ?D 0 (RunFutureMode_threads ?o))"
    by (rule driver_step.start) (simp_all add: RunFutureMode_threads_def new_driver_def one_call_counts)
  moreover have "driver_step ?D ?d (dc_drop ?D 0 (?d\<lparr>dr_out := remove1 0 (dr_out ?d), dr_lost := 0 # dr_lost ?d\<rparr>))"
    by (rule driver_step.lost) (simp add: RunFutureMode_call_def driver_codes RunFutureMode_threads_def new_driver_def)
  moreover have "dc_drop ?D 0 (?d\<lparr>dr_out := remove1 0 (dr_out ?d), dr_lost := 0 # dr_lost ?d\<rparr>) = one_call_lost"
    "dc_call ?D = RunFutureMode_call ?o"
    by (simp_all add: one_call_lost_def RunFutureMode_call_def driver_codes RunFutureMode_threads_def new_driver_def)
  ultimately show ?thesis by (simp add: r_into_rtranclp rtranclp.rtrancl_into_rtrancl)
qed


end
