(* ===== verification/Driver_Channels.thy ===== *)
theory Driver_Channels
  imports Driver_Properties
begin

section \<open>Channels of the load drivers\<close>

text \<open>
  What a mode of the load drivers does with its channels: which mode \<open>main\<close> of \<open>AsyncClient.cc\<close> chooses, the run
  of its msgpack callback mode, in which a call can end without being counted, and the channel that each call of
  \<open>BenchClient.cc\<close> goes through under \<open>BENCH_CONN\<close>.
\<close>

subsection \<open>\<open>main\<close> of \<open>AsyncClient\<close>\<close>

datatype client_mode = Protobuf_mode driver_run | Msgpack_callback_mode Options | Msgpack_future_mode Options

definition AsyncClient_mode :: "config_map \<Rightarrow> environment \<Rightarrow> client_mode" where
  "AsyncClient_mode cfg env =
     (let opts = LoadOptions env
      in if KrpcUseMsgpack cfg
         then (if op_mode opts = ''callback'' then Msgpack_callback_mode opts else Msgpack_future_mode opts)
         else Protobuf_mode (AsyncClient_main env))"

subsection \<open>\<open>RunCallbackModeMsgpack\<close>\<close>

definition RunCallbackModeMsgpack_threads :: "Options \<Rightarrow> driver" where
  "RunCallbackModeMsgpack_threads opts = new_driver (thread_counts opts) 0"

text \<open>Here the time is passed on whether it is positive or not.\<close>

definition RunCallbackModeMsgpack_call :: "Options \<Rightarrow> nat \<Rightarrow> driver \<Rightarrow> driver" where
  "RunCallbackModeMsgpack_call opts t d =
     enter_channel \<lparr>lc_name = op_name opts, lc_pwd = ''123456'', lc_timeout = Some (op_timeout_ms opts)\<rparr> (take_turn t d)"

definition RunCallbackModeMsgpack_ends :: "driver \<Rightarrow> bool" where
  "RunCallbackModeMsgpack_ends d \<longleftrightarrow> joined d \<and> list_all (\<lambda>i. i \<in> set (dr_ready d)) [0..<length (dr_calls d)]"

text \<open>\<open>answer\<close> has the pairs of error text and result that the channel may hand to a callback. The channel runs
  every callback once (\<open>msgpack_calls_complete_once\<close>), so none is dropped.\<close>

inductive msgpack_callback_step :: "Options \<Rightarrow> (string \<Rightarrow> mp_object \<Rightarrow> bool) \<Rightarrow> driver \<Rightarrow> driver \<Rightarrow> bool"
  for opts answer where
  start: "t < length (dr_left d) \<Longrightarrow> 0 < dr_left d ! t \<Longrightarrow>
    msgpack_callback_step opts answer d (RunCallbackModeMsgpack_call opts t d)"
| callback: "i \<in> set (dr_out d) \<Longrightarrow> answer err result \<Longrightarrow>
    msgpack_callback_step opts answer d
      (RunCallbackModeMsgpack_callback i latency_ms err result (d\<lparr>dr_out := remove1 i (dr_out d)\<rparr>))"

text \<open>An answer is counted when it is an error or converts to a \<open>MsgpackUserResult\<close>.\<close>

definition counted_answer :: "string \<Rightarrow> mp_object \<Rightarrow> bool" where
  "counted_answer err result \<longleftrightarrow> err \<noteq> [] \<or> (\<exists>resp. Call_user_result (Inr result) = Inr resp)"

definition msgpack_driver_ok :: "(string \<Rightarrow> mp_object \<Rightarrow> bool) \<Rightarrow> nat \<Rightarrow> driver \<Rightarrow> bool" where
  "msgpack_driver_ok answer n d \<longleftrightarrow>
     list_all (\<lambda>w. w = None) (dr_wait d) \<and> sum_list (dr_left d) + length (dr_calls d) = n \<and>
     length (dr_out d) + length (mt_latencies (dr_metrics d)) = length (dr_calls d) \<and>
     counted (dr_metrics d) \<le> length (mt_latencies (dr_metrics d)) \<and>
     (answer \<le> counted_answer \<longrightarrow> counted (dr_metrics d) = length (mt_latencies (dr_metrics d))) \<and>
     distinct (dr_out d) \<and> set (dr_out d) \<inter> set (dr_ready d) = {} \<and>
     set (dr_out d) \<union> set (dr_ready d) = {..<length (dr_calls d)}"

lemma msgpack_callback_shape:
  "\<exists>m. RunCallbackModeMsgpack_callback i l err result d = d\<lparr>dr_metrics := m, dr_ready := i # dr_ready d\<rparr> \<and>
     mt_latencies m = mt_latencies (dr_metrics d) @ [l] \<and>
     counted m = (if counted_answer err result then Suc (counted (dr_metrics d)) else counted (dr_metrics d))"
  by (intro exI[of _ "dr_metrics (RunCallbackModeMsgpack_callback i l err result d)"])
    (auto simp: RunCallbackModeMsgpack_callback_def Let_def counted_answer_def split: sum.splits)

lemma msgpack_driver_ok_step:
  "msgpack_callback_step opts answer d d' \<Longrightarrow> msgpack_driver_ok answer n d \<Longrightarrow> msgpack_driver_ok answer n d'"
proof (induction rule: msgpack_callback_step.induct)
  case (start t d)
  with sum_list_turn[of t "dr_left d"] show ?case
    by (auto simp: msgpack_driver_ok_def RunCallbackModeMsgpack_call_def enter_channel_def take_turn_def lessThan_Suc)
next
  case (callback i d err result l)
  let ?d = "d\<lparr>dr_out := remove1 i (dr_out d)\<rparr>"
  from msgpack_callback_shape[of i l err result ?d] obtain m where
    m: "RunCallbackModeMsgpack_callback i l err result ?d = ?d\<lparr>dr_metrics := m, dr_ready := i # dr_ready ?d\<rparr>"
    "mt_latencies m = mt_latencies (dr_metrics ?d) @ [l]"
    "counted m = (if counted_answer err result then Suc (counted (dr_metrics ?d)) else counted (dr_metrics ?d))" by blast
  have "answer \<le> counted_answer \<Longrightarrow> counted_answer err result" using callback(2) by auto
  with callback(1,3) m show ?case
    using out_remove1[of i "dr_out d"] by (auto simp: msgpack_driver_ok_def)
qed

lemma msgpack_driver_ok_start:
  "msgpack_driver_ok answer (nat (op_requests (LoadOptions env))) (RunCallbackModeMsgpack_threads (LoadOptions env))"
  by (simp add: msgpack_driver_ok_def RunCallbackModeMsgpack_threads_def new_driver_def all_None_replicate sum_options)

lemma msgpack_driver_run:
  assumes "(msgpack_callback_step (LoadOptions env) answer)\<^sup>*\<^sup>* (RunCallbackModeMsgpack_threads (LoadOptions env)) d"
  shows "msgpack_driver_ok answer (nat (op_requests (LoadOptions env))) d"
  using assms by induction (simp_all add: msgpack_driver_ok_start msgpack_driver_ok_step)

text \<open>A run that ends has one latency for every request, and its report accounts for all of them when every
  answer converts.\<close>

lemma msgpack_callback_report:
  assumes "(msgpack_callback_step (LoadOptions env) answer)\<^sup>*\<^sup>* (RunCallbackModeMsgpack_threads (LoadOptions env)) d"
    "RunCallbackModeMsgpack_ends d"
  shows "length (mt_latencies (dr_metrics d)) = nat (op_requests (LoadOptions env))"
    "counted (dr_metrics d) \<le> nat (op_requests (LoadOptions env))"
    "answer \<le> counted_answer \<Longrightarrow> counted (dr_metrics d) = nat (op_requests (LoadOptions env))"
proof -
  note ok = msgpack_driver_run[OF assms(1)]
  have "set (dr_out d) \<inter> set (dr_ready d) = {}" "set (dr_out d) \<subseteq> {..<length (dr_calls d)}"
    using ok by (auto simp: msgpack_driver_ok_def)
  moreover have "{..<length (dr_calls d)} \<subseteq> set (dr_ready d)"
    using assms(2) by (auto simp: RunCallbackModeMsgpack_ends_def list_all_iff)
  ultimately have "dr_out d = []" by (metis inf.absorb1 order.trans set_empty)
  moreover have "sum_list (dr_left d) = 0"
    using assms(2) by (auto simp: RunCallbackModeMsgpack_ends_def joined_def list_all_iff)
  then have "length (dr_calls d) = nat (op_requests (LoadOptions env))"
    using ok unfolding msgpack_driver_ok_def by linarith
  ultimately show "length (mt_latencies (dr_metrics d)) = nat (op_requests (LoadOptions env))"
    "counted (dr_metrics d) \<le> nat (op_requests (LoadOptions env))"
    "answer \<le> counted_answer \<Longrightarrow> counted (dr_metrics d) = nat (op_requests (LoadOptions env))"
    using ok by (simp_all add: msgpack_driver_ok_def)
qed

text \<open>As long as the channel has an answer to give, every run can be continued to its end.\<close>

lemma msgpack_callback_next:
  assumes "msgpack_driver_ok answer n d" "answer err result" "\<not> RunCallbackModeMsgpack_ends d"
  shows "\<exists>d'. msgpack_callback_step opts answer d d' \<and> driver_work d' < driver_work d"
proof (cases "dr_out d")
  case (Cons i rest)
  from msgpack_callback_shape[of i 0 err result "d\<lparr>dr_out := remove1 i (dr_out d)\<rparr>"] obtain m where
    "RunCallbackModeMsgpack_callback i 0 err result (d\<lparr>dr_out := remove1 i (dr_out d)\<rparr>) =
       d\<lparr>dr_out := remove1 i (dr_out d), dr_metrics := m, dr_ready := i # dr_ready d\<rparr>" by auto
  with msgpack_callback_step.callback[of i d answer err result opts 0] Cons assms(2) show ?thesis
    by (intro exI[of _ "RunCallbackModeMsgpack_callback i 0 err result (d\<lparr>dr_out := remove1 i (dr_out d)\<rparr>)"])
      (simp add: driver_work_def)
next
  case Nil
  with assms(1,3) obtain t where t: "t < length (dr_left d)" "0 < dr_left d ! t"
    by (auto simp: msgpack_driver_ok_def RunCallbackModeMsgpack_ends_def joined_def list_all_length)
  from msgpack_callback_step.start[OF t, of opts answer] sum_list_turn[OF t] show ?thesis
    by (intro exI[of _ "RunCallbackModeMsgpack_call opts t d"])
      (simp add: RunCallbackModeMsgpack_call_def driver_work_def enter_channel_def take_turn_def)
qed

lemma msgpack_callback_can_end:
  assumes "answer err result"
  shows "msgpack_driver_ok answer n d \<Longrightarrow>
    \<exists>d'. (msgpack_callback_step opts answer)\<^sup>*\<^sup>* d d' \<and> RunCallbackModeMsgpack_ends d'"
proof (induction "driver_work d" arbitrary: d rule: less_induct)
  case less
  show ?case
  proof (cases "RunCallbackModeMsgpack_ends d")
    case False
    from msgpack_callback_next[OF less.prems assms False] obtain d1 where
      d1: "msgpack_callback_step opts answer d d1" "driver_work d1 < driver_work d" by blast
    from less.hyps[OF d1(2) msgpack_driver_ok_step[OF d1(1) less.prems]] d1(1)
    show ?thesis by (meson converse_rtranclp_into_rtranclp)
  qed blast
qed

subsection \<open>The channels of \<open>BenchClient\<close>\<close>

text \<open>A channel is named by the number of those constructed before it, \<open>None\<close> is an empty pointer: \<open>bn_sync\<close> is
  \<open>sync_channel\<close> with its stub, \<open>bn_async\<close> is \<open>async_ctx\<close> or \<open>async_channel\<close>.\<close>

record bench_pointers =
  bn_made :: nat
  bn_sync :: "nat option"
  bn_async :: "nat option"

definition make_channel :: "bench_pointers \<Rightarrow> nat option \<times> bench_pointers" where
  "make_channel p = (Some (bn_made p), p\<lparr>bn_made := bn_made p + 1\<rparr>)"

definition bench_worker_start :: "BenchConfig \<Rightarrow> nat \<Rightarrow> bench_pointers" where
  "bench_worker_start cfg made =
     (let p = \<lparr>bn_made = made, bn_sync = None, bn_async = None\<rparr>
      in if bc_conn_mode cfg = ''keepalive''
         then (if bc_mode cfg = ''sync'' then (case make_channel p of (c, p) \<Rightarrow> p\<lparr>bn_sync := c\<rparr>)
               else (case make_channel p of (c, p) \<Rightarrow> p\<lparr>bn_async := c\<rparr>))
         else p)"

definition RunBenchMsgpack_worker_start :: "BenchConfig \<Rightarrow> nat \<Rightarrow> bench_pointers" where
  "RunBenchMsgpack_worker_start cfg made =
     (let p = \<lparr>bn_made = made, bn_sync = None, bn_async = None\<rparr>
      in if bc_conn_mode cfg = ''keepalive''
         then (if bc_mode cfg = ''sync'' then (case make_channel p of (c, p) \<Rightarrow> p\<lparr>bn_sync := c\<rparr>)
               else (case make_channel p of (c, p) \<Rightarrow> p\<lparr>bn_async := c\<rparr>))
         else p)"

text \<open>The pointer that a call uses.\<close>

definition bench_sync_pointer :: "BenchConfig \<Rightarrow> bench_pointers \<Rightarrow> nat option \<times> bench_pointers" where
  "bench_sync_pointer cfg p = (if bc_conn_mode cfg = ''keepalive'' then (bn_sync p, p) else make_channel p)"

definition bench_async_pointer :: "BenchConfig \<Rightarrow> bench_pointers \<Rightarrow> nat option \<times> bench_pointers" where
  "bench_async_pointer cfg p = (if bc_conn_mode cfg = ''short'' then make_channel p else (bn_async p, p))"

definition bench_call_pointer :: "BenchConfig \<Rightarrow> bench_pointers \<Rightarrow> nat option \<times> bench_pointers" where
  "bench_call_pointer cfg p = (if bc_mode cfg = ''sync'' then bench_sync_pointer cfg p else bench_async_pointer cfg p)"

definition RunBenchMsgpack_pointer :: "BenchConfig \<Rightarrow> bench_pointers \<Rightarrow> nat option \<times> bench_pointers" where
  "RunBenchMsgpack_pointer cfg p =
     (if bc_mode cfg = ''sync'' then (if bc_conn_mode cfg = ''keepalive'' then (bn_sync p, p) else make_channel p)
      else (if bc_conn_mode cfg = ''keepalive'' then (bn_async p, p) else make_channel p))"

text \<open>The channels of the calls of one thread; \<open>None\<close> when a call goes through an empty pointer.\<close>

fun calls_through ::
    "(bench_pointers \<Rightarrow> nat option \<times> bench_pointers) \<Rightarrow> nat \<Rightarrow> bench_pointers \<Rightarrow> (nat list \<times> bench_pointers) option" where
  "calls_through pointer 0 p = Some ([], p)"
| "calls_through pointer (Suc n) p =
     (case pointer p of
        (None, _) \<Rightarrow> None
      | (Some c, p') \<Rightarrow> (case calls_through pointer n p' of None \<Rightarrow> None | Some (cs, p'') \<Rightarrow> Some (c # cs, p'')))"

definition bench_worker_channels :: "BenchConfig \<Rightarrow> nat \<Rightarrow> nat \<Rightarrow> (nat list \<times> bench_pointers) option" where
  "bench_worker_channels cfg made tid =
     calls_through (bench_call_pointer cfg)
       (length (bench_indices (nat (bc_total_requests cfg)) (nat (bc_concurrency cfg)) tid)) (bench_worker_start cfg made)"

definition RunBenchMsgpack_channels :: "BenchConfig \<Rightarrow> nat \<Rightarrow> nat \<Rightarrow> (nat list \<times> bench_pointers) option" where
  "RunBenchMsgpack_channels cfg made tid =
     calls_through (RunBenchMsgpack_pointer cfg)
       (length (bench_indices (nat (bc_total_requests cfg)) (nat (bc_concurrency cfg)) tid))
       (RunBenchMsgpack_worker_start cfg made)"

lemma calls_through_fixed:
  assumes "pointer p = (Some c, p)"
  shows "calls_through pointer n p = Some (replicate n c, p)"
  using assms by (induction n) simp_all

lemma calls_through_fresh:
  assumes "\<And>p. pointer p = make_channel p"
  shows "calls_through pointer n p = Some ([bn_made p..<bn_made p + n], p\<lparr>bn_made := bn_made p + n\<rparr>)"
  by (induction n arbitrary: p) (simp_all add: assms make_channel_def upt_rec)

lemma calls_through_empty: "pointer p = (None, q) \<Longrightarrow> calls_through pointer n p = (if n = 0 then Some ([], p) else None)"
  by (cases n) simp_all

lemmas bench_pointer_defs = bench_call_pointer_def bench_sync_pointer_def bench_async_pointer_def RunBenchMsgpack_pointer_def

lemmas bench_channel_defs = bench_worker_channels_def RunBenchMsgpack_channels_def bench_worker_start_def
  RunBenchMsgpack_worker_start_def make_channel_def Let_def

text \<open>Under \<open>keepalive\<close> all calls of a thread share the one channel that the thread constructs, under both codecs.\<close>

lemma keepalive_shares_channel:
  assumes "bc_conn_mode cfg = ''keepalive''"
    "n = length (bench_indices (nat (bc_total_requests cfg)) (nat (bc_concurrency cfg)) tid)"
  shows "\<exists>p. bench_worker_channels cfg made tid = Some (replicate n made, p) \<and> bn_made p = made + 1"
    "\<exists>p. RunBenchMsgpack_channels cfg made tid = Some (replicate n made, p) \<and> bn_made p = made + 1"
  using assms by (simp_all add: bench_pointer_defs bench_channel_defs calls_through_fixed)

text \<open>Otherwise every call has a channel of its own; the exception for the protobuf codec is below.\<close>

lemma own_channels:
  assumes "bc_conn_mode cfg \<noteq> ''keepalive''"
    "n = length (bench_indices (nat (bc_total_requests cfg)) (nat (bc_concurrency cfg)) tid)"
  shows "bc_mode cfg = ''sync'' \<or> bc_conn_mode cfg = ''short'' \<Longrightarrow>
      \<exists>p. bench_worker_channels cfg made tid = Some ([made..<made + n], p) \<and> bn_made p = made + n"
    "\<exists>p. RunBenchMsgpack_channels cfg made tid = Some ([made..<made + n], p) \<and> bn_made p = made + n"
  using assms by (auto simp: bench_worker_channels_def RunBenchMsgpack_channels_def bench_worker_start_def
      RunBenchMsgpack_worker_start_def calls_through_fresh bench_pointer_defs)

text \<open>With a \<open>BENCH_CONN\<close> other than \<open>keepalive\<close> and \<open>short\<close> the asynchronous mode of the protobuf codec
  leaves \<open>ctx\<close> empty, and the first call of a thread goes through a null pointer; under msgpack no call does.\<close>

lemma bench_null_context:
  "bench_worker_channels cfg made tid = None \<longleftrightarrow>
     bc_mode cfg \<noteq> ''sync'' \<and> bc_conn_mode cfg \<noteq> ''keepalive'' \<and> bc_conn_mode cfg \<noteq> ''short'' \<and>
     bench_indices (nat (bc_total_requests cfg)) (nat (bc_concurrency cfg)) tid \<noteq> []"
  "RunBenchMsgpack_channels cfg made tid \<noteq> None"
proof -
  note cases = keepalive_shares_channel[of cfg _ tid made, OF _ refl] own_channels[of cfg _ tid made, OF _ refl]
  show "RunBenchMsgpack_channels cfg made tid \<noteq> None" using cases by blast
  show "bench_worker_channels cfg made tid = None \<longleftrightarrow>
     bc_mode cfg \<noteq> ''sync'' \<and> bc_conn_mode cfg \<noteq> ''keepalive'' \<and> bc_conn_mode cfg \<noteq> ''short'' \<and>
     bench_indices (nat (bc_total_requests cfg)) (nat (bc_concurrency cfg)) tid \<noteq> []"
  proof (cases "bc_mode cfg = ''sync'' \<or> bc_conn_mode cfg = ''keepalive'' \<or> bc_conn_mode cfg = ''short''")
    case True
    with cases show ?thesis by fastforce
  next
    case False
    then show ?thesis by (simp add: bench_pointer_defs bench_channel_defs calls_through_empty)
  qed
qed

end
