(* ===== verification/Example_Clients.thy ===== *)
theory Example_Clients
  imports Driver_Outcomes
begin

section \<open>The example clients\<close>

text \<open>
  The clients that show one feature each: \<open>timeout_demo/TimeoutClient.cc\<close>, \<open>heartbeat_demo/HeartbeatClient.cc\<close>,
  \<open>pool_demo/PoolDemo.cc\<close>, \<open>switch_demo/SwitchClient.cc\<close> and \<open>msgpack_demo/MsgpackClient.cc\<close>. The answers
  of the channel are arguments, the lines they print are results; the calls they make are values of
  \<open>login_request\<close>.
\<close>

record login_request =
  lr_name :: string
  lr_pwd :: string
  lr_timeout :: "int option"

definition bool_alpha :: "bool \<Rightarrow> string" where
  "bool_alpha b = (if b then ''true'' else ''false'')"

text \<open>The answer to \<open>stub.Login\<close>: what the controller and the response say afterwards.\<close>

record login_reply =
  lp_failed :: bool
  lp_error_text :: string
  lp_success :: bool

subsection \<open>\<open>TimeoutClient\<close>\<close>

definition timeout_InvokeLogin :: "(login_request \<Rightarrow> login_reply) \<Rightarrow> string \<Rightarrow> int \<Rightarrow> string" where
  "timeout_InvokeLogin stub name timeout_ms =
     (let r = stub \<lparr>lr_name = name, lr_pwd = ''123456'', lr_timeout = (if timeout_ms > 0 then Some timeout_ms else None)\<rparr>
      in if lp_failed r then ''request name='' @ [CHR 0x27] @ name @ [CHR 0x27] @ '' failed: '' @ lp_error_text r
         else ''request name='' @ [CHR 0x27] @ name @ [CHR 0x27] @ '' success: '' @ bool_alpha (lp_success r))"

definition timeout_InvokeLoginMsgpack :: "(login_request \<Rightarrow> string + mp_object) \<Rightarrow> string \<Rightarrow> int \<Rightarrow> string" where
  "timeout_InvokeLoginMsgpack channel name timeout_ms =
     (case Call_user_result (channel \<lparr>lr_name = name, lr_pwd = ''123456'', lr_timeout = Some timeout_ms\<rparr>) of
        Inr result \<Rightarrow> ''request name='' @ [CHR 0x27] @ name @ [CHR 0x27] @ '' success: '' @ bool_alpha (ur_success result)
      | Inl e \<Rightarrow> ''request name='' @ [CHR 0x27] @ name @ [CHR 0x27] @ '' failed: '' @ e)"

definition TimeoutClient_main ::
    "config_map \<Rightarrow> (login_request \<Rightarrow> login_reply) \<Rightarrow> (login_request \<Rightarrow> string + mp_object) \<Rightarrow> string list" where
  "TimeoutClient_main cfg stub channel =
     (if KrpcUseMsgpack cfg
      then [''===== normal call (msgpack) ====='', timeout_InvokeLoginMsgpack channel ''zhangsan'' 0,
            ''===== timeout call (msgpack) ====='', timeout_InvokeLoginMsgpack channel ''sleep'' 1000]
      else [''===== normal call ====='', timeout_InvokeLogin stub ''zhangsan'' 0,
            ''===== timeout call ====='', timeout_InvokeLogin stub ''sleep'' 1000])"

subsection \<open>\<open>HeartbeatClient\<close>\<close>

definition ParseEnvInt :: "environment \<Rightarrow> string \<Rightarrow> int \<Rightarrow> int" where
  "ParseEnvInt env key d =
     (case env key of
        Some value \<Rightarrow> (case stoi value of Inr n \<Rightarrow> n | Inl _ \<Rightarrow> d)
      | None \<Rightarrow> d)"

definition heartbeat_InvokeLogin :: "login_reply \<Rightarrow> bool" where
  "heartbeat_InvokeLogin r = (if lp_failed r then False else True)"

definition heartbeat_InvokeLoginMsgpack :: "string + mp_object \<Rightarrow> bool" where
  "heartbeat_InvokeLoginMsgpack oh = (case Call_user_result oh of Inr result \<Rightarrow> ur_success result | Inl _ \<Rightarrow> False)"

text \<open>The rounds: the answers so far, and the seconds slept between them. \<open>None\<close> while answers are missing.\<close>

fun heartbeat_rounds :: "int \<Rightarrow> int \<Rightarrow> int \<Rightarrow> bool list \<Rightarrow> (bool \<times> int) option" where
  "heartbeat_rounds rounds idle_seconds k [] = (if k < rounds then None else Some (True, 0))"
| "heartbeat_rounds rounds idle_seconds k (ok # answers) =
     (if \<not> k < rounds then Some (True, 0)
      else if \<not> ok then Some (False, 0)
      else if k = rounds - 1 then Some (True, 0)
      else map_option (\<lambda>(r, slept). (r, idle_seconds + slept)) (heartbeat_rounds rounds idle_seconds (k + 1) answers))"

definition HeartbeatClient_main :: "environment \<Rightarrow> config_map \<Rightarrow> login_reply list \<Rightarrow> (string + mp_object) list \<Rightarrow> (bool \<times> int) option" where
  "HeartbeatClient_main env cfg replies ohs =
     (let idle_seconds = ParseEnvInt env ''HEARTBEAT_IDLE_SECONDS'' 15;
          rounds = ParseEnvInt env ''HEARTBEAT_IDLE_ROUNDS'' 4
      in heartbeat_rounds rounds idle_seconds 0
           (if KrpcUseMsgpack cfg then map heartbeat_InvokeLoginMsgpack ohs else map heartbeat_InvokeLogin replies))"

text \<open>The demo succeeds exactly when every round does, and then it has been idle between all of them.\<close>

lemma heartbeat_rounds_ok:
  "0 \<le> r \<Longrightarrow> r < n \<Longrightarrow> length oks = nat (n - r) \<Longrightarrow>
     heartbeat_rounds n i r oks = Some (True, s) \<longleftrightarrow> (\<forall>b \<in> set oks. b) \<and> s = i * (n - r - 1)"
proof (induction n i r oks arbitrary: s rule: heartbeat_rounds.induct)
  case (2 n i r ok oks)
  show ?case
  proof (cases "ok \<and> r \<noteq> n - 1")
    case True
    have "length oks = nat (n - (r + 1))" "0 \<le> r + 1" "r + 1 < n" using 2(2-) True by auto
    with 2(1) 2(3) True have "heartbeat_rounds n i (r + 1) oks = Some (True, s - i) \<longleftrightarrow>
        (\<forall>b \<in> set oks. b) \<and> s - i = i * (n - (r + 1) - 1)" by blast
    moreover have "heartbeat_rounds n i r (ok # oks) = Some (True, s) \<longleftrightarrow> heartbeat_rounds n i (r + 1) oks = Some (True, s - i)"
      using True 2(3) by (cases "heartbeat_rounds n i (r + 1) oks") auto
    moreover have "s - i = i * (n - (r + 1) - 1) \<longleftrightarrow> s = i * (n - r - 1)" by (auto simp: algebra_simps)
    ultimately show ?thesis using True by simp
  next
    case False
    with 2(2-) show ?thesis by (cases oks) auto
  qed
qed auto

subsection \<open>\<open>PoolDemo\<close>\<close>

record pool_demo =
  pd_mode :: string
  pd_iterations :: int
  pd_sleep_ms :: int
  pd_idle_ms :: int
  pd_idle_at :: int

definition load_pool_demo :: "environment \<Rightarrow> pool_demo" where
  "load_pool_demo env =
     (let iterations = ReadEnvInt env ''POOL_DEMO_ITERATIONS'' 10;
          idle_at = ReadEnvInt env ''POOL_DEMO_IDLE_AT'' (if iterations < 0 then - (- iterations div 2) else iterations div 2);
          idle_at = (if idle_at < 0 then 0 else idle_at);
          idle_at = (if idle_at > iterations then iterations else idle_at)
      in \<lparr>pd_mode = ReadEnvString env ''POOL_DEMO_MODE'' ''single'', pd_iterations = iterations,
          pd_sleep_ms = ReadEnvInt env ''POOL_DEMO_SLEEP_MS'' 0, pd_idle_ms = ReadEnvInt env ''POOL_DEMO_IDLE_MS'' 0,
          pd_idle_at = idle_at\<rparr>)"

text \<open>A pointer of the loop to the channel or the stub: none, the shared one, the one of this iteration.\<close>

datatype demo_channel = No_channel | Shared_channel | Owned_channel

definition demo_channel_of :: "string \<Rightarrow> demo_channel" where
  "demo_channel_of mode =
     (if mode = ''single'' then Shared_channel else if mode = ''new_channel'' then Owned_channel else No_channel)"

definition pool_call_ok :: "login_reply \<Rightarrow> bool" where
  "pool_call_ok r \<longleftrightarrow> \<not> lp_failed r \<and> lp_success r"

text \<open>One iteration: the counters and the milliseconds it pauses. \<open>None\<close>: the call goes through a null pointer.\<close>

definition pool_demo_turn :: "pool_demo \<Rightarrow> int \<Rightarrow> bool \<Rightarrow> nat \<times> nat \<times> int \<Rightarrow> (nat \<times> nat \<times> int) option" where
  "pool_demo_turn p i call_ok st =
     (if demo_channel_of (pd_mode p) = No_channel then None
      else case st of (ok, fail, paused) \<Rightarrow>
        Some (if call_ok then ok + 1 else ok, if call_ok then fail else fail + 1,
          paused + (if pd_idle_ms p > 0 \<and> i + 1 = pd_idle_at p then pd_idle_ms p else 0)
            + (if pd_sleep_ms p > 0 \<and> i + 1 < pd_iterations p then pd_sleep_ms p else 0)))"

fun pool_demo_loop :: "pool_demo \<Rightarrow> int \<Rightarrow> bool list \<Rightarrow> nat \<times> nat \<times> int \<Rightarrow> (nat \<times> nat \<times> int) option" where
  "pool_demo_loop p i [] st = Some st"
| "pool_demo_loop p i (call_ok # cs) st =
     (case pool_demo_turn p i call_ok st of None \<Rightarrow> None | Some st' \<Rightarrow> pool_demo_loop p (i + 1) cs st')"

lemma pool_demo_counts:
  "pool_demo_loop p i cs (ok, fail, ms) = Some (ok', fail', ms') \<Longrightarrow> ok' + fail' = ok + fail + length cs"
  by (induction cs arbitrary: i ok fail ms) (auto simp: pool_demo_turn_def split: if_splits option.splits)

lemma pool_demo_unknown_mode:
  "pd_mode p \<noteq> ''single'' \<Longrightarrow> pd_mode p \<noteq> ''new_channel'' \<Longrightarrow> pool_demo_loop p i (c # cs) st = None"
  by (simp add: pool_demo_turn_def demo_channel_of_def)

subsection \<open>\<open>SwitchClient\<close> and \<open>MsgpackClient\<close>\<close>

definition PrintMsgpackResult :: "string \<Rightarrow> MsgpackUserResult \<Rightarrow> string" where
  "PrintMsgpackResult label r =
     label @ '' errcode='' @ int_to_string (ur_errcode r) @ '' success='' @ bool_alpha (ur_success r) @ '' errmsg='' @ ur_errmsg r"

text \<open>An exception leaves the client at once; what was printed before stays.\<close>

definition RunMsgpackClient :: "string + mp_object \<Rightarrow> string + mp_object \<Rightarrow> string list \<times> string option" where
  "RunMsgpackClient login reg =
     (case Call_user_result login of
        Inl e \<Rightarrow> ([], Some e)
      | Inr l \<Rightarrow>
          (case Call_user_result reg of
             Inl e \<Rightarrow> ([PrintMsgpackResult ''msgpack login'' l], Some e)
           | Inr r \<Rightarrow> ([PrintMsgpackResult ''msgpack login'' l, PrintMsgpackResult ''msgpack register'' r], None)))"

definition RunProtobufClient :: "login_reply \<Rightarrow> login_reply \<Rightarrow> string list" where
  "RunProtobufClient login reg =
     [if lp_failed login then ''protobuf login failed: '' @ lp_error_text login
      else ''protobuf login success: '' @ bool_alpha (lp_success login),
      if lp_failed reg then ''protobuf register failed: '' @ lp_error_text reg
      else ''protobuf register success: '' @ bool_alpha (lp_success reg)]"

definition SwitchClient_main ::
    "config_map \<Rightarrow> string + mp_object \<Rightarrow> string + mp_object \<Rightarrow> login_reply \<Rightarrow> login_reply \<Rightarrow> string list" where
  "SwitchClient_main cfg mlogin mreg login reg =
     (if switch_client_LoadCodec cfg = ''msgpack''
      then case RunMsgpackClient mlogin mreg of
          (out, None) \<Rightarrow> out
        | (out, Some e) \<Rightarrow> out @ [''client failed: '' @ e]
      else RunProtobufClient login reg)"

text \<open>The first two calls of \<open>MsgpackClient\<close> are not guarded: \<open>Inl\<close> is an exception that ends the process.\<close>

definition MsgpackClient_main ::
    "string + mp_object \<Rightarrow> string + mp_object \<Rightarrow> string + mp_object \<Rightarrow> string + string list" where
  "MsgpackClient_main add hello slow =
     (case Call_result (Some (CInt True 32)) add of
        Inl e \<Rightarrow> Inl e
      | Inr added \<Rightarrow>
          (case Call_result (Some CString) hello of
             Inl e \<Rightarrow> Inl e
           | Inr text \<Rightarrow>
               Inr [''sum='' @ int_to_string (the_int (the added)), ''hello='' @ the_string (the text),
                 case Call_result (Some (CInt True 32)) slow of
                   Inr slow_ms \<Rightarrow> ''slow='' @ int_to_string (the_int (the slow_ms))
                 | Inl e \<Rightarrow> ''slow failed: '' @ e]))"

lemma msgpack_client_output:
  "MsgpackClient_main (Inr (object_of (VInt 7))) (Inr (object_of (VString s))) (Inl ''timeout'') =
     Inr [''sum=7'', ''hello='' @ s, ''slow failed: timeout'']"
  by (simp add: MsgpackClient_main_def Call_result_def int_object_def int_to_string_def nat_to_string.simps digit_char_def) code_simp

end
