(* ===== verification/Spec2Isabelle.thy ===== *)
theory Spec2Isabelle
  imports Rpc_Session_Properties Session_Properties Stopping_Properties Typed_Properties
    Driver_Channels Example_Clients
begin

text \<open>
  A verification development for Krpc, a C++ RPC framework: a client channel and a server over TCP with a
  protobuf header per frame, a second client and server that speak msgpack, service discovery through
  ZooKeeper, load balancing with failover, connection pooling, heartbeats, timeouts and metrics.
  File names below are relative to \<open>src/src\<close>; the example programs are under \<open>src/example\<close>.

  The parts and how they interact. A caller enters \<open>KrpcChannel\<close> (\<open>Krpcchannel.cc\<close>), which finds the
  endpoints of the method (static list, cache, ZooKeeper), picks one by round robin with failover, takes a
  connection from the process-wide pool, puts the call into its table of pending calls and queues a frame.
  A send thread writes frames, a receive thread cuts the answer stream into frames and completes calls, a
  timeout thread completes expired calls and a heartbeat thread watches the peer. \<open>KrpcProvider\<close>
  (\<open>Krpcprovider.cc\<close>) registers its methods in ZooKeeper, cuts the request stream into frames, queues
  each request for a pool of workers and answers from the closure that the handler runs.
  \<open>Krpcmsgpack_channel.cc\<close> and \<open>Krpcmsgpack_provider.cc\<close> do the same with other frames.

  Theories:
  \<^item> \<open>Krpc_Prelude\<close>: widths (\<open>u16\<close>, \<open>u32\<close>, \<open>u64\<close>), time in nanoseconds, maps with one entry per key, the C
    and C++ string and number functions the code calls (\<open>find\<close>, \<open>substr\<close>, \<open>strtol\<close>, \<open>stoi\<close>, \<open>atoi\<close>).
  \<^item> \<open>Krpc_Config\<close>: \<open>Krpcconfig.cc\<close>, \<open>Krpcapplication.cc\<close>, \<open>Krpccontroller.cc\<close>, \<open>include/Krpcprotocol.h\<close>.
  \<^item> \<open>Load_Balancing\<close>, \<open>Zk_Client\<close>, \<open>Endpoint_Discovery\<close>, \<open>Connection_Pool\<close>: \<open>include/load_balancer.h\<close>,
    \<open>zookeeperutil.cc\<close>, and the discovery, socket and pool code of \<open>Krpcchannel.cc\<close>.
  \<^item> \<open>Rpc_Header\<close>, \<open>Framing\<close>, \<open>Wire_Instance\<close>: \<open>Krpcheader.pb.cc\<close> over the primitives of the protobuf
    library (\<open>pb_runtime\<close>, laws \<open>pb_ok\<close>), the two framing loops as instances of the locale
    \<open>frame_stream\<close>, and a concrete runtime with which every hypothesis about the library is discharged.
  \<^item> \<open>Metrics\<close>, \<open>Metrics_Http\<close>: the aggregation and export code and \<open>metrics_http_server.cc\<close>.
  \<^item> \<open>Call_Table\<close>: the abstract life of a request id and the locale \<open>call_protocol\<close>.
  \<^item> \<open>Channel_State\<close>, \<open>Channel_Connect\<close>, \<open>Channel_Send\<close>, \<open>Channel_Recv\<close>, \<open>Channel_Calls\<close>,
    \<open>Channel_Threads\<close>: \<open>KrpcChannel\<close>. The record \<open>channel\<close> holds its members, \<open>world\<close> the globals of the
    process; each thread is a function that does one turn of its loop, \<open>chan_step\<close> interleaves the turns
    with any number of callers, and \<open>Channel_Threads\<close> starts the threads and takes them down.
  \<^item> \<open>Bounded_Queue\<close>, \<open>Provider\<close>, \<open>Provider_Server\<close>: the locale of a bounded first-in first-out queue,
    \<open>KrpcProvider\<close>, and its \<open>Run\<close> with the interleaving of I/O threads, workers and timers (\<open>server_step\<close>).
  \<^item> \<open>Msgpack_Wire\<close>, \<open>Msgpack_Provider\<close>, \<open>Msgpack_Server\<close>, \<open>Msgpack_Channel\<close>, \<open>Msgpack_Calls\<close>,
    \<open>Msgpack_Threads\<close>, \<open>Msgpack_Lifecycle\<close>, \<open>Msgpack_Instance\<close>: the msgpack stack over the primitives
    of the msgpack library (\<open>msgpack_api\<close>, laws \<open>mp_ok\<close>), its interleavings (\<open>mp_step\<close> for the
    client, \<open>mp_server_step\<close> for the server), the start and the end of its threads, and a concrete library
    (\<open>mem_api\<close>, \<open>mem_codec\<close>) that has the laws. \<open>Msgpack_Endpoints\<close> models
    the msgpack client's own copy of the discovery and pool code and shows that it agrees with the first.
  \<^item> \<open>Thread_Stopping\<close>: how threads that wait on a condition variable are stopped (\<open>cv_step\<close>, locales
    \<open>stoppable_loop\<close> and \<open>timed_loop\<close>), with the workers, the send thread and the timeout threads as instances;
    \<open>Heartbeat_Loops\<close>: whole turns of the heartbeat loops, and the heartbeat and the msgpack send thread as instances.
  \<^item> \<open>Channel_Lifetime\<close>: the strong references to a channel, the one that its receive thread takes, and the
    destructor on each thread that may drop the last one (\<open>lt_step\<close>).
  \<^item> \<open>Msgpack_Objects\<close>, \<open>Msgpack_Typed\<close>, \<open>Msgpack_Exchange\<close>: objects of the msgpack library, the C++ types and
    values that are converted to them and back, the templates of \<open>include/Krpcmsgpack_dispatcher.h\<close> and
    \<open>include/Krpcmsgpack_channel.h\<close> that make handlers out of functions and functions out of calls, and one
    call through client, wire and server.
  \<^item> \<open>Rpc_Streams\<close>, \<open>Rpc_Session\<close>: \<open>KrpcChannel\<close> with its threads, the network and \<open>KrpcProvider\<close> with its threads
    in one state; \<open>rpc_step\<close> interleaves the steps of \<open>chan_step\<close> and \<open>server_step\<close> with deliveries in either
    direction, new connections and other clients. \<open>Msgpack_Effects\<close>, \<open>Msgpack_Streams\<close>, \<open>Msgpack_Session\<close>: the same
    for the msgpack stack (\<open>session_step\<close> over \<open>mp_step\<close> and \<open>mp_server_step\<close>).
  \<^item> \<open>Example_Services\<close>, \<open>Example_Clients\<close>, \<open>Load_Drivers\<close>, \<open>Driver_Runs\<close>, \<open>Driver_Outcomes\<close>,
    \<open>Driver_Channels\<close>: the programs under \<open>example\<close>: the services, the clients that show one feature, and the
    clients that put load on a server, with the channels they open and the interleaving of their threads and callbacks (\<open>driver_step\<close>, locales \<open>load_driver\<close> and \<open>fragile_driver\<close>).
  \<^item> \<open>Support_Properties\<close>, \<open>Client_Properties\<close>, \<open>Provider_Properties\<close>, \<open>Server_Properties\<close>,
    \<open>Rpc_Session_Properties\<close>, \<open>Msgpack_Properties\<close>, \<open>Session_Properties\<close>, \<open>Typed_Properties\<close>, \<open>Stopping_Properties\<close>,
    \<open>Driver_Properties\<close> and this theory: the properties, each with a witness at a concrete input where it has hypotheses.

  What the lemmas show. Pending calls: every operation that completes calls takes the completed ids out of
  the table and records each once (\<open>drains\<close>), so both channels refine \<open>call_protocol\<close>, whose theorems give
  at-most-once completion and no lost call. Streams: a frame is found in a prefix of the buffer exactly when
  it is complete (\<open>frame_stream\<close>), so segmentation does not matter. Connections: the multiset of descriptors
  held by channels and idle in the pool is distinct and open (\<open>owns\<close>) on every path. Queues: the worker
  queues are instances of \<open>bounded_queue\<close>. The server: the ids of the tasks it holds and the objects it has
  freed partition the tasks it has accepted (\<open>server_ok\<close>), whatever the order of its steps; the msgpack
  server sends, up to the order, what each of its frames deserves alone (\<open>answered_ok\<close>). Sessions: the bytes
  under way are requests of calls that were made and replies to them (\<open>stream_of\<close>, \<open>rpc_ok\<close>, \<open>session_ok\<close>), so that
  a call gets the result of its own handler on its own arguments and no other. For the protobuf client this is shown
  as long as its connections are new ones: one from the pool may still carry responses for its last owner, and
  \<open>HandleHeartbeatFailure\<close> leaves old bytes in the receive buffer (\<open>clean_connection\<close>). Types: a conversion
  yields a value of the type asked for, or fails. Drivers: the calls that are started, out, lost and counted
  add up (\<open>driver_ok\<close>). Some theorems state what the code does where that is not what it means to do (lost
  callbacks, double frees, swallowed responses, channels that are never destroyed).

  Fuel and bounds. \<open>consume\<close> runs its loop with the length of the buffer as fuel, which is enough since each
  frame takes at least one byte. The list of answers that \<open>send_segments\<close> consumes bounds its loop: when it
  ends the thread is still in \<open>writev\<close> and the result is \<open>Send_blocked\<close>. \<open>InternalParse\<close> ends since each
  field takes a byte. The request counter is 64 bits wide and wraps; the theorems about calls assume it has
  not wrapped (\<open>ids_left\<close>). The laws of the msgpack library are for documents of less than 4 GiB, whose
  length fits the prefix of a frame.

  Not modelled: logging; the muduo, protobuf, msgpack and ZooKeeper libraries, which are parameters with
  named laws (of the conversions of the msgpack library those for the types of the services are modelled);
  doubles, for which exact rationals stand; memory orders weaker than interleaving, and data races on members
  that the code reads without their lock; spurious wake-ups; outside of \<open>Thread_Stopping\<close> a thread that waits
  for a condition goes on when it holds; the generated messages of the examples; the console output of the load
  drivers and their sleeping between calls; the compiler probes under \<open>build\<close>.
\<close>

section \<open>Properties that span components\<close>

subsection \<open>A call from end to end\<close>

text \<open>C1: A call makes the whole round: the bytes that the client prepares for a call, received by the
  server, become one task; the worker that runs it sends back one frame and frees every object of the task;
  and those bytes, received by the client while the call is pending, complete exactly this call, with the
  handler's reply parsed into the caller's response message.\<close>

theorem call_round_trip:
  assumes rt: "rt_ok rt" and prep: "prepare_call rt E D a st0 = (Some pr, st1)"
    and args: "ca_method a = Some md" "md_service md = Some svc" "ca_request a = Some (Some req)"
      "ca_response a = Some resp"
    and request_fits: "header_fits rt (request_header (p_request_id (pr_pending pr)) svc (md_name md) req) req"
    and server: "map_of (service_map p) svc = Some info" "map_of (si_method_map info) (md_name md) = Some i"
      "sv_parse_request S (si_service info) (md_name md) req" "\<not> stop_workers p" "task_queue p = []"
      "0 < task_queue_capacity p"
    and handler: "sv_handle S (si_service info) (md_name md) req =
      \<lparr>ho_runs_done = True, ho_response = Some reply, ho_throws = False\<rparr>"
    and reply_fits: "header_fits rt (response_header (p_request_id (pr_pending pr)) reply) reply"
    and client: "m_clientfd ch \<noteq> -1" "m_recv_buffer ch = []"
      "map_of (m_pending_calls ch) (p_request_id (pr_pending pr)) = Some (pr_pending pr)"
  shows "\<exists>p1 p2 bytes w'.
    OnMessage rt S now ts c conn (pr_varint pr @ pr_header pr @ pr_body pr) p = ([], p1) \<and>
    WorkerLoop_turn rt S now c p1 = Some p2 \<and>
    pv_effects p2 = pv_effects p @ [Sent_to conn bytes, Freed_response (next_task p), Freed_done (next_task p),
      Freed_request (next_task p)] \<and>
    RecvLoop_turn rt E parse (Recv_data bytes) (ch, w) =
      (ch\<lparr>m_pending_calls := AList.delete (p_request_id (pr_pending pr)) (m_pending_calls ch)\<rparr>, w') \<and>
    w_effects w' = w_effects w @ [Response_parsed resp reply] @ completion_effects (pr_pending pr)"
proof -
  let ?i = "p_request_id (pr_pending pr)"
  let ?h = "request_header ?i svc (md_name md) req" and ?r = "response_header ?i reply"
  let ?t = "\<lparr>rt_id = next_task p, rt_service = si_service info, rt_method = md_name md, rt_request = req,
    rt_conn = conn, rt_request_id = ?i\<rparr>"
  obtain md' svc' req' resp' where q: "ca_method a = Some md'" "md_service md' = Some svc'"
    "ca_request a = Some (Some req')" "ca_response a = Some resp'" "p_response (pr_pending pr) = Some resp'"
    "pr_body pr = req'" "?i = g_request_id (snd st0)"
    "frame_bytes rt (request_header (g_request_id (snd st0)) svc' (md_name md') req') req' =
       Some (pr_varint pr @ pr_header pr @ pr_body pr)"
    by (rule prepare_call_frame[OF prep])
  from q args have wire: "frame_bytes rt ?h req = Some (pr_varint pr @ pr_header pr @ pr_body pr)"
    and resp: "p_response (pr_pending pr) = Some resp" by simp_all
  have h: "magic ?h = kDefaultMagic" "version ?h = kDefaultVersion" "msg_type ?h = MSG_TYPE_REQUEST"
    "service_name ?h = svc" "method_name ?h = md_name md" "request_id ?h = ?i"
    by (simp_all add: request_header_def Clear_def)
  have r: "magic ?r = kDefaultMagic" "msg_type ?r = MSG_TYPE_RESPONSE" "request_id ?r = ?i"
    by (simp_all add: response_header_def Clear_def)
  obtain p1 where p1: "OnMessage_frame rt S now ts c conn (?h, req) p = (p1, True)"
    "task_queue p1 = [?t]" "pv_effects p1 = pv_effects p"
    using OnMessage_frame_request[OF h(3), of p info i S req rt now ts c conn] server h by auto
  have recv: "OnMessage rt S now ts c conn (pr_varint pr @ pr_header pr @ pr_body pr) p = ([], p1)"
    using OnMessage_one[OF rt request_fits wire h(1,2) p1(1), of "[]"] by simp
  obtain bytes where bytes: "frame_bytes rt ?r reply = Some bytes"
    using frame_bytes_read[OF rt reply_fits] by blast
  let ?p1 = "LogQueueMetricsLocked 0 (p1\<lparr>task_queue := []\<rparr>)"
  have turn: "WorkerLoop_turn rt S now c p1 = Some (worker_run rt S now c ?t ?p1)"
    by (simp add: WorkerLoop_turn_def worker_take_def p1(2))
  have eff: "pv_effects (worker_run rt S now c ?t ?p1) = pv_effects p @ [Sent_to conn bytes,
      Freed_response (next_task p), Freed_done (next_task p), Freed_request (next_task p)]"
    by (simp add: worker_run_effects handler bytes p1(3))
  obtain ch' w' where fin: "RecvLoop_turn rt E parse (Recv_data bytes) (ch, w) = (ch', w')" by fastforce
  note finished = recv_response[OF rt reply_fits bytes r(1,2) client(1,2) _ resp fin, unfolded r(3), OF client(3)]
  show ?thesis
    by (intro exI[of _ p1] exI[of _ "worker_run rt S now c ?t ?p1"] exI[of _ bytes] exI[of _ w'] conjI recv turn eff)
      (use finished fin in simp_all)
qed

theorem call_round_trip_witness:
  "\<exists>pr st1 p1 p2 bytes w'.
    prepare_call wire_rt good_net (static_discovery (join_endpoints [mk_endpoint ''h'' 1])) login_call
      (client0, world0) = (Some pr, st1) \<and>
    OnMessage wire_rt user_service 0 5 1 4 (pr_varint pr @ pr_header pr @ pr_body pr) server0 = ([], p1) \<and>
    WorkerLoop_turn wire_rt user_service 0 1 p1 = Some p2 \<and>
    pv_effects p2 = [Sent_to 4 bytes, Freed_response 0, Freed_done 0, Freed_request 0] \<and>
    RecvLoop_turn wire_rt good_net (\<lambda>m s. True) (Recv_data bytes)
      (client0\<lparr>m_pending_calls := [(2, pr_pending pr)]\<rparr>, world0) = (client0, w') \<and>
    w_effects w' = [Response_parsed 0 ''ok'', Promise_set 2]"
proof -
  let ?D = "static_discovery (join_endpoints [mk_endpoint ''h'' 1])"
  have start: "g_request_id world0 = 2" "w_static world0 = None" "m_fail_states client0 = []"
    by (simp_all add: world0_def client0_def config_channel_def Let_def)
  obtain pr st1 where pr: "prepare_call wire_rt good_net ?D login_call (client0, world0) = (Some pr, st1)"
    by (rule login_prepared[OF start, unfolded login_server_def])
  have rid: "p_request_id (pr_pending pr) = 2" "p_done (pr_pending pr) = None" "p_async_callback (pr_pending pr) = None"
    using prepare_call_pending[OF pr] by (simp_all add: world0_def login_call_def)
  let ?ch = "client0\<lparr>m_pending_calls := [(2, pr_pending pr)]\<rparr>"
  have ch: "m_clientfd ?ch \<noteq> -1" "m_recv_buffer ?ch = []" "?ch\<lparr>m_pending_calls := []\<rparr> = client0"
    by (simp_all add: client0_def config_channel_def Let_def)
  have "completion_effects (pr_pending pr) = [Promise_set 2]" using rid by (simp add: completion_effects_def)
  with call_round_trip[OF wire_rt_ok' pr, where md = login and svc = "''User''" and req = "''ab''" and resp = 0
      and p = server0 and info = "\<lparr>si_service = 1, si_method_map = [(''Login'', 0)]\<rparr>" and i = 0 and S = user_service
      and reply = "''ok''" and ch = ?ch and w = world0 and now = 0 and ts = 5 and c = 1 and conn = 4
      and parse = "\<lambda>m s. True"] pr login_fits ok_response_fits[of 2] ch rid
  show ?thesis by (simp add: login_call_def login_def user_service_def world0_def)
qed

subsection \<open>Registration and discovery\<close>



end
